(* ===== verification/BlueSky_Prelude.thy ===== *)
theory BlueSky_Prelude
  imports Main "HOL-Library.Word" "HOL-Library.Sublist"
begin

unbundle bit_operations_syntax

text \<open>
  What the components of the BlueSky development share: the names of the
  machine types, the little-endian byte layout of the fields of packed C
  structs, byte-range updates of a buffer (\<^verbatim>\<open>memcpy\<close> with its bounds), and the
  contract of GLib's sorted sequences, the one algorithmic part of GLib the
  source relies on.

  Conventions of the whole development.  A function that can abort the process
  (a failed \<^verbatim>\<open>g_assert\<close>, a call of \<^verbatim>\<open>g_error\<close>, an access outside a buffer or
  through a null pointer) returns an \<open>option\<close> and \<open>None\<close> is the abort.  A failed
  \<^verbatim>\<open>g_return_if_fail\<close> is an ordinary early return.  Locks are not modelled:
  an operation is the critical section its caller holds the lock for.  What is
  modelled is what a thread waits for: it runs in the waiting operation, and a
  thread that waits for itself is \<open>None\<close> too.
\<close>

type_synonym u8 = "8 word"
type_synonym u32 = "32 word"
type_synonym u64 = "64 word"
type_synonym bytes = "8 word list"

named_theorems layout_simps
  \<open>lengths and positions of the fields of serialized structures\<close>


section \<open>Little-endian integers\<close>

text \<open>
  A field of a packed struct of \<open>n\<close> bytes, written as \<^verbatim>\<open>GUINT32_TO_LE\<close> and
  \<^verbatim>\<open>GUINT64_TO_LE\<close> lay it out in memory, and read back.
\<close>

fun le_bytes :: "nat \<Rightarrow> 'a::len word \<Rightarrow> bytes" where
  "le_bytes 0 w = []"
| "le_bytes (Suc n) w = ucast w # le_bytes n (drop_bit 8 w)"

fun le_word :: "bytes \<Rightarrow> 'a::len word" where
  "le_word [] = 0"
| "le_word (b # bs) = ucast b OR push_bit 8 (le_word bs)"

abbreviation le32 :: "u32 \<Rightarrow> bytes" where
  "le32 \<equiv> le_bytes 4"

abbreviation le64 :: "u64 \<Rightarrow> bytes" where
  "le64 \<equiv> le_bytes 8"

lemma length_le_bytes [simp, layout_simps]: "length (le_bytes n w) = n"
  by (induction n arbitrary: w) auto

lemma le_word_le_bytes:
  "le_word (le_bytes n (w :: 'a::len word)) = take_bit (8 * n) w"
proof (induction n arbitrary: w)
  case 0
  show ?case by simp
next
  case (Suc n)
  have "bit (le_word (le_bytes (Suc n) w) :: 'a word) i = bit (take_bit (8 * Suc n) w) i"
    if "i < LENGTH('a)" for i
    using that Suc.IH [of "drop_bit 8 w"]
    by (auto simp: bit_simps)
  then show ?case by (auto intro!: bit_word_eqI)
qed

lemma le32_roundtrip [simp]: "le_word (le32 w) = w"
  by (simp add: le_word_le_bytes take_bit_word_eq_self)

lemma le64_roundtrip [simp]: "le_word (le64 w) = w"
  by (simp add: le_word_le_bytes take_bit_word_eq_self)

lemma le_word_high_bits: "8 * length bs \<le> i \<Longrightarrow> \<not> bit (le_word bs :: 'a::len word) i"
proof (induction bs arbitrary: i)
  case Nil
  show ?case by simp
next
  case (Cons b bs)
  then have "8 * length bs \<le> i - 8" "8 \<le> i" by simp_all
  with Cons.IH [of "i - 8"] show ?case
    by (auto simp: bit_simps dest: bit_imp_le_length)
qed

lemma le_bytes_le_word:
  "8 * length bs \<le> LENGTH('a) \<Longrightarrow> le_bytes (length bs) (le_word bs :: 'a::len word) = bs"
proof (induction bs)
  case Nil
  show ?case by simp
next
  case (Cons b bs)
  have *: "bit (drop_bit 8 (ucast b OR push_bit 8 (le_word bs)) :: 'a word) i
           = bit (le_word bs :: 'a word) i"
    if "i < LENGTH('a)" for i
    using that Cons.prems le_word_high_bits [of bs i]
    by (auto simp: bit_simps dest: bit_imp_le_length)
  have "ucast (ucast b OR push_bit 8 (le_word bs) :: 'a word) = b"
    using Cons.prems by (auto intro!: bit_word_eqI simp: bit_simps)
  moreover have "drop_bit 8 (ucast b OR push_bit 8 (le_word bs)) = (le_word bs :: 'a word)"
    using * by (auto intro!: bit_word_eqI)
  ultimately show ?case using Cons by simp
qed


lemma unat_of_nat_small: "n < 2 ^ LENGTH('a) \<Longrightarrow> unat (of_nat n :: 'a::len word) = n"
  by (simp add: unat_of_nat)

lemma unat_minus_of_nat:
  "n \<le> unat w \<Longrightarrow> unat (w - of_nat n) = unat (w :: 'a::len word) - n"
proof -
  assume n: "n \<le> unat w"
  have "n < 2 ^ LENGTH('a)" by (rule order_le_less_trans [OF n unsigned_less])
  then have "unat (of_nat n :: 'a word) = n" by (rule unat_of_nat_small)
  with n show ?thesis by (simp add: unat_sub word_le_nat_alt)
qed

lemma xor_right_cancel: "a XOR c = b XOR c \<longleftrightarrow> a = (b :: 'a::len word)"
  by (auto simp: bit_eq_iff bit_simps)

lemma xor_left_cancel: "c XOR a = c XOR b \<longleftrightarrow> a = (b :: 'a::len word)"
  by (simp only: xor.commute [of c] xor_right_cancel)


section \<open>Buffers\<close>

text \<open>
  \<open>overwrite off d buf\<close> is \<open>buf\<close> after \<^verbatim>\<open>memcpy(&buf[off], d, len)\<close>; the checked
  copy \<open>memcpy_at\<close> is \<open>None\<close> where the C would write past the buffer.
\<close>

definition overwrite :: "nat \<Rightarrow> 'b list \<Rightarrow> 'b list \<Rightarrow> 'b list" where
  "overwrite off d buf = take off buf @ d @ drop (off + length d) buf"

definition memcpy_at :: "nat \<Rightarrow> 'b list \<Rightarrow> 'b list \<Rightarrow> 'b list option" where
  "memcpy_at off d buf =
     (if off + length d \<le> length buf then Some (overwrite off d buf) else None)"

definition slice :: "nat \<Rightarrow> nat \<Rightarrow> 'b list \<Rightarrow> 'b list" where
  "slice off n buf = take n (drop off buf)"

definition read_at :: "nat \<Rightarrow> nat \<Rightarrow> 'b list \<Rightarrow> 'b list option" where
  "read_at off n buf = (if off + n \<le> length buf then Some (slice off n buf) else None)"

lemma length_overwrite [simp]:
  "off + length d \<le> length buf \<Longrightarrow> length (overwrite off d buf) = length buf"
  by (simp add: overwrite_def)

lemma overwrite_Nil [simp]: "overwrite off [] buf = buf"
  by (simp add: overwrite_def)

lemma length_slice [simp]: "length (slice off n buf) = min n (length buf - off)"
  by (simp add: slice_def)

lemma nth_overwrite:
  assumes "off + length d \<le> length buf" "i < length buf"
  shows "overwrite off d buf ! i
         = (if off \<le> i \<and> i < off + length d then d ! (i - off) else buf ! i)"
  using assms by (auto simp: overwrite_def nth_append min_def)

lemma nth_slice: "i < n \<Longrightarrow> off + i < length buf \<Longrightarrow> slice off n buf ! i = buf ! (off + i)"
  by (simp add: slice_def)

lemma slice_overwrite_same:
  "off + length d \<le> length buf \<Longrightarrow> slice off (length d) (overwrite off d buf) = d"
  by (simp add: slice_def overwrite_def)

lemma slice_append_left: "off + n \<le> length xs \<Longrightarrow> slice off n (xs @ ys) = slice off n xs"
  by (simp add: slice_def)

lemma slice_append_right: "slice (length xs + off) n (xs @ ys) = slice off n ys"
  by (simp add: slice_def)

lemma slice_all: "slice 0 (length xs) xs = xs"
  by (simp add: slice_def)

lemma slice_add: "slice off m buf @ slice (off + m) n buf = slice off (m + n) buf"
  by (simp add: slice_def take_add add.commute)

lemma overwrite_append_overwrite:
  assumes "off + length d + length e \<le> length buf"
  shows "overwrite (off + length d) e (overwrite off d buf) = overwrite off (d @ e) buf"
  using assms by (simp add: overwrite_def ac_simps)

text \<open>A buffer cut or extended with zero bytes to a length.\<close>

definition resize_zero :: "nat \<Rightarrow> 'b::zero list \<Rightarrow> 'b list" where
  "resize_zero n d = take n d @ replicate (n - length d) 0"

lemma length_resize_zero [simp]: "length (resize_zero n d) = n"
  by (simp add: resize_zero_def)

lemma nth_resize_zero: "i < n \<Longrightarrow> resize_zero n d ! i = (if i < length d then d ! i else 0)"
  by (auto simp: resize_zero_def nth_append)

lemma resize_zero_same [simp]: "resize_zero (length d) d = d"
  by (simp add: resize_zero_def)

lemma resize_zero_shrink: "n \<le> length d \<Longrightarrow> resize_zero n d = take n d"
  by (simp add: resize_zero_def)

lemma resize_zero_replicate [simp]: "resize_zero n (replicate m 0) = replicate n 0"
  by (rule nth_equalityI) (simp_all add: nth_resize_zero)

lemma resize_zero_twice:
  "m \<le> n \<or> length d \<le> n \<Longrightarrow> resize_zero m (resize_zero n d) = resize_zero m d"
  by (rule nth_equalityI) (auto simp: nth_resize_zero)


section \<open>GLib sequences\<close>

text \<open>
  A \<^verbatim>\<open>GSequence\<close> is the list of its elements and an iterator is a position in it,
  from 0 (the begin iterator) to its length (the end iterator).  GLib documents
  that \<^verbatim>\<open>g_sequence_iter_prev\<close> returns the begin iterator on the begin iterator
  and \<^verbatim>\<open>g_sequence_iter_next\<close> the end iterator on the end iterator.

  \<^verbatim>\<open>g_sequence_search\<close> is code of GLib: it is the parameter \<open>srch\<close> of every
  definition that calls it, on the list of the elements' keys and the key
  searched for.  Its contract is the locale \<open>gsequence\<close>: on a sorted sequence it
  returns the position where an element with that key would be inserted, which
  is behind every element whose key is not greater.
\<close>

type_synonym 'k gsearch = "'k list \<Rightarrow> 'k \<Rightarrow> nat"

definition iter_prev :: "nat \<Rightarrow> nat" where
  "iter_prev i = i - 1"

definition iter_next :: "'a list \<Rightarrow> nat \<Rightarrow> nat" where
  "iter_next xs i = min (Suc i) (length xs)"

definition iter_get :: "'a list \<Rightarrow> nat \<Rightarrow> 'a option" where
  "iter_get xs i = (if i < length xs then Some (xs ! i) else None)"

definition gseq_insert_sorted :: "'k gsearch \<Rightarrow> ('a \<Rightarrow> 'k) \<Rightarrow> 'a \<Rightarrow> 'a list \<Rightarrow> 'a list" where
  "gseq_insert_sorted srch key x xs =
     (let p = srch (map key xs) (key x) in take p xs @ x # drop p xs)"

definition gseq_remove :: "nat \<Rightarrow> 'a list \<Rightarrow> 'a list" where
  "gseq_remove i xs = take i xs @ drop (Suc i) xs"

lemma gseq_remove_split: "gseq_remove (length ys) (ys @ x # zs) = ys @ zs"
  by (simp add: gseq_remove_def)

lemma set_gseq_remove:
  assumes "i < length xs" "distinct xs"
  shows "set (gseq_remove i xs) = set xs - {xs ! i}"
proof -
  define ys where "ys = take i xs"
  define zs where "zs = drop (Suc i) xs"
  have xs: "xs = ys @ xs ! i # zs" using assms(1) by (simp add: ys_def zs_def id_take_nth_drop)
  have "distinct (ys @ xs ! i # zs)" using assms(2) xs by simp
  moreover have "set xs = set (ys @ xs ! i # zs)" using xs by simp
  moreover have "gseq_remove i xs = ys @ zs" by (simp add: gseq_remove_def ys_def zs_def)
  ultimately show ?thesis by auto
qed

lemma sorted_wrt_gseq_remove:
  assumes "i < length xs" "sorted_wrt P (map f xs)"
  shows "sorted_wrt P (map f (gseq_remove i xs))"
proof -
  have "sorted_wrt P (map f (take i xs @ xs ! i # drop (Suc i) xs))"
    using assms id_take_nth_drop [OF assms(1)] by simp
  then show ?thesis by (auto simp: gseq_remove_def sorted_wrt_append)
qed

locale gsequence =
  fixes srch :: "'k::linorder gsearch"
  assumes search_position: "sorted ks \<Longrightarrow> srch ks k = length (takeWhile (\<lambda>x. x \<le> k) ks)"
begin

lemma search_le_length: "sorted ks \<Longrightarrow> srch ks k \<le> length ks"
  by (simp add: search_position length_takeWhile_le)

lemma search_below: "sorted ks \<Longrightarrow> i < srch ks k \<Longrightarrow> ks ! i \<le> k"
  by (metis nth_mem search_position set_takeWhileD takeWhile_nth)

lemma search_above:
  assumes "sorted ks" "srch ks k \<le> i" "i < length ks"
  shows "k < ks ! i"
proof -
  let ?p = "srch ks k"
  have p: "?p < length ks" using assms by simp
  have "\<not> ks ! ?p \<le> k"
    using nth_length_takeWhile [of "\<lambda>x. x \<le> k" ks] p assms(1) by (simp add: search_position)
  moreover have "ks ! ?p \<le> ks ! i" using assms by (simp add: sorted_nth_mono)
  ultimately show ?thesis by simp
qed

lemma search_split:
  assumes "sorted (as @ bs)" "\<And>x. x \<in> set as \<Longrightarrow> x \<le> k" "\<And>x. x \<in> set bs \<Longrightarrow> k < x"
  shows "srch (as @ bs) k = length as"
proof -
  have "takeWhile (\<lambda>x. x \<le> k) bs = []"
  proof (cases bs)
    case (Cons b bs')
    with assms(3) [of b] show ?thesis by simp
  qed simp
  then show ?thesis using assms(2) by (simp add: search_position [OF assms(1)] takeWhile_append2)
qed

lemma search_take: "sorted ks \<Longrightarrow> x \<in> set (take (srch ks k) ks) \<Longrightarrow> x \<le> k"
  using search_below [of ks _ k] search_le_length [of ks k] by (fastforce simp: in_set_conv_nth)

lemma search_drop: "sorted ks \<Longrightarrow> x \<in> set (drop (srch ks k) ks) \<Longrightarrow> k < x"
  using search_above [of ks k] by (fastforce simp: in_set_conv_nth)

lemma set_insert_sorted: "set (gseq_insert_sorted srch key x xs) = insert x (set xs)"
  by (metis Un_insert_right append_take_drop_id gseq_insert_sorted_def list.simps(15) set_append)

lemma insert_sorted_snoc:
  assumes "sorted (map key xs)" "\<And>x. x \<in> set xs \<Longrightarrow> key x \<le> key d"
  shows "gseq_insert_sorted srch key d xs = xs @ [d]"
proof -
  have "srch (map key xs @ []) (key d) = length (map key xs)"
    using assms by (intro search_split) auto
  then show ?thesis by (simp add: gseq_insert_sorted_def)
qed

lemma length_insert_sorted: "length (gseq_insert_sorted srch key x xs) = Suc (length xs)"
  by (simp add: gseq_insert_sorted_def Let_def)

lemma sorted_insert_sorted:
  assumes s: "sorted (map key xs)"
  shows "sorted (map key (gseq_insert_sorted srch key x xs))"
proof -
  let ?p = "srch (map key xs) (key x)"
  have "y \<le> key x" if "y \<in> set (take ?p (map key xs))" for y
    using search_take [OF s that] .
  moreover have "key x \<le> y" if "y \<in> set (drop ?p (map key xs))" for y
    using search_drop [OF s that] by simp
  moreover have "sorted (take ?p (map key xs))" "sorted (drop ?p (map key xs))"
    using s by (auto intro: sorted_wrt_take sorted_wrt_drop)
  ultimately show ?thesis
    by (force simp: gseq_insert_sorted_def Let_def sorted_append take_map drop_map)
qed

text \<open>
  The idiom \<^verbatim>\<open>i = g_sequence_search(...); i = g_sequence_iter_prev(i)\<close> finds the
  last element whose key is not greater, and the first element where there is
  none.
\<close>

lemma search_prev_found:
  assumes "sorted (map key xs)" "x \<in> set xs" "key x \<le> k"
  defines "i \<equiv> iter_prev (srch (map key xs) k)"
  shows "i < length xs" "key (xs ! i) \<le> k" "\<And>y. y \<in> set xs \<Longrightarrow> key y \<le> k \<Longrightarrow> key y \<le> key (xs ! i)"
proof -
  let ?p = "srch (map key xs) k"
  have found: "\<exists>j < ?p. xs ! j = y" if "y \<in> set xs" "key y \<le> k" for y
    using that search_above [OF assms(1)] by (metis in_set_conv_nth length_map linorder_not_le nth_map)
  then have p: "0 < ?p" using assms(2,3) by fastforce
  then show i: "i < length xs"
    using search_le_length [OF assms(1), of k] by (simp add: i_def iter_prev_def)
  show "key (xs ! i) \<le> k"
    using search_below [OF assms(1), of i k] i p by (simp add: i_def iter_prev_def)
  show "key y \<le> key (xs ! i)" if y: "y \<in> set xs" "key y \<le> k" for y
  proof -
    obtain j where j: "j < ?p" "xs ! j = y" using found [OF y] by auto
    then have "j \<le> i" by (simp add: i_def iter_prev_def)
    with sorted_nth_mono [OF assms(1), of j i] i j show ?thesis by simp
  qed
qed

lemma search_prev_none:
  assumes "sorted (map key xs)" "\<And>x. x \<in> set xs \<Longrightarrow> k < key x"
  shows "iter_prev (srch (map key xs) k) = 0"
  using search_below [OF assms(1), of 0 k] search_le_length [OF assms(1), of k] assms(2) [of "xs ! 0"]
  by (cases "xs") (force simp: iter_prev_def)+

lemma search_prev_exact:
  assumes "sorted_wrt (<) (map key xs)"
  shows "iter_prev (srch (map key xs) k) < length xs \<and> key (xs ! iter_prev (srch (map key xs) k)) = k
    \<longleftrightarrow> k \<in> key ` set xs"
proof
  assume "k \<in> key ` set xs"
  then obtain x where x: "x \<in> set xs" "key x = k" by blast
  have "sorted (map key xs)" using assms by (simp add: strict_sorted_iff)
  from search_prev_found [OF this x(1), of k] x
  show "iter_prev (srch (map key xs) k) < length xs \<and> key (xs ! iter_prev (srch (map key xs) k)) = k"
    by (auto intro: order.antisym)
next
  assume "iter_prev (srch (map key xs) k) < length xs \<and> key (xs ! iter_prev (srch (map key xs) k)) = k"
  then show "k \<in> key ` set xs" by (metis image_eqI nth_mem)
qed

lemma strict_insert_sorted:
  assumes "sorted_wrt (<) (map key xs)" "key x \<notin> key ` set xs"
  shows "sorted_wrt (<) (map key (gseq_insert_sorted srch key x xs))"
proof -
  have s: "sorted (map key xs)" "distinct (map key xs)" using assms(1) by (simp_all add: strict_sorted_iff)
  let ?p = "srch (map key xs) (key x)"
  have "set (take ?p (map key xs)) \<inter> set (drop ?p (map key xs)) = {}"
    using s(2) by (rule set_take_disj_set_drop_if_distinct) simp
  then have "distinct (take ?p (map key xs) @ key x # drop ?p (map key xs))"
    using s(2) assms(2) by (auto dest: in_set_takeD in_set_dropD)
  then have "distinct (map key (take ?p xs @ x # drop ?p xs))" by (simp add: take_map drop_map)
  then show ?thesis
    using sorted_insert_sorted [OF s(1), of x] by (simp add: strict_sorted_iff gseq_insert_sorted_def Let_def)
qed

end

text \<open>A search that meets the contract: the scan of a list from its front.\<close>

definition linear_search :: "'k::linorder gsearch" where
  "linear_search ks k = length (takeWhile (\<lambda>x. x \<le> k) ks)"

interpretation linear: gsequence linear_search
  by unfold_locales (simp add: linear_search_def)

end
