(* ===== verification/BlueSky_Rangeset.thy ===== *)
theory BlueSky_Rangeset
  imports BlueSky_Prelude
begin

text \<open>
  Range sets (\<^verbatim>\<open>bluesky/util.c\<close>): the sorted sequence of byte ranges that records
  which items of a cached log segment are valid.  The lookups are shown to be
  exact on the range sets whose ranges do not overlap, which insertion keeps when
  the inserted range is free.
\<close>


section \<open>The source's operations\<close>

record 'd rangeset_item =
  rs_start :: u64
  rs_length :: u64
  rs_data :: 'd

text \<open>The comparison of \<^verbatim>\<open>compare64\<close> on the leading 64-bit field.\<close>

definition compare64 :: "u64 \<Rightarrow> u64 \<Rightarrow> int" where
  "compare64 x y = (if x < y then -1 else if x > y then 1 else 0)"

definition bluesky_rangeset_new :: "'d rangeset_item list" where
  "bluesky_rangeset_new = []"

text \<open>
  The source computes the position before the insertion point and does not use
  it (the overlap check is a TODO); it always returns TRUE.
\<close>

definition bluesky_rangeset_insert ::
    "u64 gsearch \<Rightarrow> 'd rangeset_item list \<Rightarrow> u64 \<Rightarrow> u64 \<Rightarrow> 'd \<Rightarrow> 'd rangeset_item list \<times> bool" where
  "bluesky_rangeset_insert srch rs start len data =
     (gseq_insert_sorted srch rs_start \<lparr>rs_start = start, rs_length = len, rs_data = data\<rparr> rs, True)"

text \<open>The test of a lookup; \<^verbatim>\<open>item->start + item->length\<close> wraps at 64 bits.\<close>

definition rs_covers :: "'d rangeset_item \<Rightarrow> u64 \<Rightarrow> bool" where
  "rs_covers item off \<longleftrightarrow> rs_start item \<le> off \<and> off < rs_start item + rs_length item"

definition bluesky_rangeset_lookup ::
    "u64 gsearch \<Rightarrow> 'd rangeset_item list \<Rightarrow> u64 \<Rightarrow> 'd rangeset_item option" where
  "bluesky_rangeset_lookup srch rs off =
     (let i = iter_prev (srch (map rs_start rs) off) in
      if i = length rs then None
      else if rs_covers (rs ! i) off then Some (rs ! i) else None)"

definition bluesky_rangeset_lookup_next ::
    "u64 gsearch \<Rightarrow> 'd rangeset_item list \<Rightarrow> u64 \<Rightarrow> 'd rangeset_item option" where
  "bluesky_rangeset_lookup_next srch rs off =
     (let i = iter_prev (srch (map rs_start rs) off) in
      if i = length rs then None
      else if rs_start (rs ! i) < off then iter_get rs (iter_next rs i)
      else Some (rs ! i))"

definition bluesky_rangeset_get_extents :: "'d rangeset_item list \<Rightarrow> u64 \<times> u64" where
  "bluesky_rangeset_get_extents rs =
     (if rs = [] then (0, 0)
      else let start = rs_start (hd rs); item = last rs in
           (start, rs_start item + rs_length item - start))"


section \<open>Well-formed range sets\<close>

definition rs_end :: "'d rangeset_item \<Rightarrow> nat" where
  "rs_end item = unat (rs_start item) + unat (rs_length item)"

text \<open>
  Ranges are not empty, do not reach past the 64-bit space, and follow each
  other without overlap.
\<close>

definition rangeset_wf :: "'d rangeset_item list \<Rightarrow> bool" where
  "rangeset_wf rs \<longleftrightarrow>
     (\<forall>it \<in> set rs. rs_length it \<noteq> 0 \<and> rs_end it < 2 ^ 64) \<and>
     sorted_wrt (\<lambda>a b. rs_end a \<le> unat (rs_start b)) rs"

definition rs_free :: "'d rangeset_item list \<Rightarrow> u64 \<Rightarrow> u64 \<Rightarrow> bool" where
  "rs_free rs start len \<longleftrightarrow>
     (\<forall>it \<in> set rs. rs_end it \<le> unat start \<or> unat start + unat len \<le> unat (rs_start it))"

lemma rs_covers_unat:
  "rs_end it < 2 ^ 64 \<Longrightarrow> rs_covers it off \<longleftrightarrow> unat (rs_start it) \<le> unat off \<and> unat off < rs_end it"
  by (simp add: rs_covers_def rs_end_def word_le_nat_alt word_less_nat_alt unat_word_ariths)

lemma rs_start_less_end: "rs_length it \<noteq> 0 \<Longrightarrow> unat (rs_start it) < rs_end it"
  by (simp add: rs_end_def unat_gt_0)

lemma rangeset_wf_starts:
  assumes "rangeset_wf rs"
  shows "sorted_wrt (\<lambda>a b. rs_start a < rs_start b) rs"
proof (rule sorted_wrt_mono_rel)
  show "sorted_wrt (\<lambda>a b. rs_end a \<le> unat (rs_start b)) rs"
    using assms by (simp add: rangeset_wf_def)
  show "rs_start a < rs_start b"
    if "a \<in> set rs" "b \<in> set rs" "rs_end a \<le> unat (rs_start b)" for a b
    using that assms rs_start_less_end [of a] by (auto simp: rangeset_wf_def word_less_nat_alt)
qed

lemma rangeset_wf_sorted: "rangeset_wf rs \<Longrightarrow> sorted (map rs_start rs)"
  unfolding sorted_map by (rule sorted_wrt_mono_rel [OF _ rangeset_wf_starts]) simp

text \<open>Two items of a range set: the same one, or one range ends before the other starts.\<close>

lemma rangeset_wf_cases:
  assumes "rangeset_wf rs" "a \<in> set rs" "b \<in> set rs"
  shows "a = b \<or> rs_end a \<le> unat (rs_start b) \<or> rs_end b \<le> unat (rs_start a)"
proof -
  obtain i j where ij: "i < length rs" "rs ! i = a" "j < length rs" "rs ! j = b"
    using assms(2,3) by (auto simp: in_set_conv_nth)
  have "sorted_wrt (\<lambda>a b. rs_end a \<le> unat (rs_start b)) rs"
    using assms(1) by (simp add: rangeset_wf_def)
  then have "\<And>i j. i < j \<Longrightarrow> j < length rs \<Longrightarrow> rs_end (rs ! i) \<le> unat (rs_start (rs ! j))"
    by (simp add: sorted_wrt_iff_nth_less)
  then show ?thesis using ij by (cases i j rule: linorder_cases) auto
qed

lemma rangeset_wf_item:
  "rangeset_wf rs \<Longrightarrow> a \<in> set rs \<Longrightarrow> unat (rs_start a) < rs_end a \<and> rs_end a < 2 ^ 64"
  by (simp add: rangeset_wf_def rs_start_less_end)

lemma rangeset_wf_start_inj:
  "rangeset_wf rs \<Longrightarrow> a \<in> set rs \<Longrightarrow> b \<in> set rs \<Longrightarrow> rs_start a = rs_start b \<Longrightarrow> a = b"
  using rangeset_wf_cases [of rs a b] rangeset_wf_item [of rs a] rangeset_wf_item [of rs b] by auto

lemma rangeset_wf_cover_unique:
  "rangeset_wf rs \<Longrightarrow> a \<in> set rs \<Longrightarrow> b \<in> set rs \<Longrightarrow> rs_covers a off \<Longrightarrow> rs_covers b off \<Longrightarrow> a = b"
  using rangeset_wf_cases [of rs a b] rangeset_wf_item [of rs a] rangeset_wf_item [of rs b]
  by (auto simp: rs_covers_unat)

text \<open>The first item with a property, where at most one item has it.\<close>

lemma find_unique:
  assumes "x \<in> set xs" "P x" "\<And>y. y \<in> set xs \<Longrightarrow> P y \<Longrightarrow> y = x"
  shows "find P xs = Some x"
proof (cases "find P xs")
  case None
  with assms(1,2) show ?thesis by (auto simp: find_None_iff)
next
  case (Some y)
  then have "y \<in> set xs" "P y" by (auto simp: find_Some_iff)
  with Some assms(3) show ?thesis by simp
qed

lemma find_index:
  assumes "j \<le> length xs" "\<And>k. k < j \<Longrightarrow> \<not> P (xs ! k)" "j < length xs \<Longrightarrow> P (xs ! j)"
  shows "find P xs = iter_get xs j"
proof (cases "j < length xs")
  case True
  with assms show ?thesis by (auto simp: iter_get_def find_Some_iff intro!: exI [of _ j])
next
  case False
  with assms show ?thesis by (auto simp: iter_get_def find_None_iff in_set_conv_nth)
qed


section \<open>Lookups are exact\<close>

text \<open>
  What a client of a range set relies on, proved from the contract of the
  sequence alone.
\<close>

locale rangeset_seq = gsequence srch
  for srch :: "u64 gsearch"
begin

lemma rangeset_search:
  assumes "rangeset_wf rs" "a \<in> set rs" "rs_start a \<le> off"
  defines "i \<equiv> iter_prev (srch (map rs_start rs) off)"
  shows "i < length rs" "rs_start (rs ! i) \<le> off" "rs_start a \<le> rs_start (rs ! i)"
  using search_prev_found [OF rangeset_wf_sorted [OF assms(1)] assms(2,3)] assms(2,3)
  by (auto simp: i_def)

lemma rangeset_search_none:
  assumes "rangeset_wf rs" "\<And>a. a \<in> set rs \<Longrightarrow> off < rs_start a"
  shows "iter_prev (srch (map rs_start rs) off) = 0"
  by (rule search_prev_none [OF rangeset_wf_sorted [OF assms(1)]]) (use assms(2) in auto)

lemma lookup_find:
  assumes wf: "rangeset_wf rs"
  shows "bluesky_rangeset_lookup srch rs off = find (\<lambda>it. rs_covers it off) rs"
proof (cases "\<exists>a \<in> set rs. rs_covers a off")
  case True
  let ?i = "iter_prev (srch (map rs_start rs) off)"
  from True obtain a where a: "a \<in> set rs" "rs_covers a off" by blast
  then have "rs_start a \<le> off" by (simp add: rs_covers_def)
  note i = rangeset_search [OF wf a(1) this]
  have "rs ! ?i = a"
    using rangeset_wf_cases [OF wf a(1), of "rs ! ?i"] rangeset_wf_item [OF wf a(1)]
      rangeset_wf_item [OF wf, of "rs ! ?i"] a i
    by (auto simp: rs_covers_unat word_le_nat_alt)
  then have "bluesky_rangeset_lookup srch rs off = Some a"
    using i(1) a(2) by (simp add: bluesky_rangeset_lookup_def Let_def)
  moreover have "find (\<lambda>it. rs_covers it off) rs = Some a"
    by (rule find_unique) (use a rangeset_wf_cover_unique [OF wf] in blast)+
  ultimately show ?thesis by simp
next
  case False
  then have "find (\<lambda>it. rs_covers it off) rs = None" by (simp add: find_None_iff)
  moreover have "bluesky_rangeset_lookup srch rs off = None"
    using False search_le_length [OF rangeset_wf_sorted [OF wf], of off]
      nth_mem [of "iter_prev (srch (map rs_start rs) off)" rs]
    by (fastforce simp: bluesky_rangeset_lookup_def Let_def iter_prev_def)
  ultimately show ?thesis by simp
qed

lemma lookup_next_find:
  assumes wf: "rangeset_wf rs"
  shows "bluesky_rangeset_lookup_next srch rs off = find (\<lambda>it. off \<le> rs_start it) rs"
proof -
  note s = rangeset_wf_sorted [OF wf]
  let ?p = "srch (map rs_start rs) off"
  have le: "?p \<le> length rs" using search_le_length [OF s, of off] by simp
  have below: "k < ?p \<Longrightarrow> rs_start (rs ! k) \<le> off" for k
    using search_below [OF s, of k off] le by simp
  have above: "?p \<le> k \<Longrightarrow> k < length rs \<Longrightarrow> off < rs_start (rs ! k)" for k
    using search_above [OF s, of off k] by simp
  have strict: "k < l \<Longrightarrow> l < length rs \<Longrightarrow> rs_start (rs ! k) < rs_start (rs ! l)" for k l
    using rangeset_wf_starts [OF wf] by (simp add: sorted_wrt_iff_nth_less)
  show ?thesis
  proof (cases ?p)
    case 0
    then have "bluesky_rangeset_lookup_next srch rs off = iter_get rs 0"
      using above [of 0]
      by (cases "rs = []")
        (auto simp: bluesky_rangeset_lookup_next_def Let_def iter_prev_def iter_get_def dest: less_asym)
    moreover have "find (\<lambda>it. off \<le> rs_start it) rs = iter_get rs 0"
      by (rule find_index) (use 0 above [of 0] in auto)
    ultimately show ?thesis by simp
  next
    case (Suc q)
    then have q: "q < length rs" using le by simp
    show ?thesis
    proof (cases "rs_start (rs ! q) < off")
      case True
      then have "bluesky_rangeset_lookup_next srch rs off = iter_get rs (Suc q)"
        using Suc q
        by (auto simp: bluesky_rangeset_lookup_next_def Let_def iter_prev_def iter_get_def iter_next_def)
      moreover have "find (\<lambda>it. off \<le> rs_start it) rs = iter_get rs (Suc q)"
      proof (rule find_index)
        show "\<not> off \<le> rs_start (rs ! k)" if "k < Suc q" for k
          using that True q strict [of k q] by (cases "k = q") auto
      qed (use Suc q above [of "Suc q"] in auto)
      ultimately show ?thesis by simp
    next
      case False
      then have "bluesky_rangeset_lookup_next srch rs off = iter_get rs q"
        using Suc q
        by (auto simp: bluesky_rangeset_lookup_next_def Let_def iter_prev_def iter_get_def)
      moreover have "find (\<lambda>it. off \<le> rs_start it) rs = iter_get rs q"
      proof (rule find_index)
        show "\<not> off \<le> rs_start (rs ! k)" if "k < q" for k
          using that Suc q strict [of k q] below [of q] by auto
      qed (use False q in auto)
      ultimately show ?thesis by simp
    qed
  qed
qed

text \<open>Insertion of a free range, and what lookups return after it.\<close>

lemma insert_wf:
  assumes wf: "rangeset_wf rs" and len: "len \<noteq> 0" "unat start + unat len < 2 ^ 64"
    and free: "rs_free rs start len"
  shows "rangeset_wf (fst (bluesky_rangeset_insert srch rs start len data))"
proof -
  let ?it = "\<lparr>rs_start = start, rs_length = len, rs_data = data\<rparr>"
  let ?p = "srch (map rs_start rs) start"
  note s = rangeset_wf_sorted [OF wf]
  have le: "?p \<le> length rs" using search_le_length [OF s, of start] by simp
  have e: "rs_end ?it = unat start + unat len" by (simp add: rs_end_def)
  have pos: "0 < unat len" using len(1) by (simp add: unat_gt_0)
  have before: "rs_end a \<le> unat start" if "a \<in> set (take ?p rs)" for a
  proof -
    from that obtain k where "k < ?p" "a = rs ! k" using le by (auto simp: in_set_conv_nth)
    then have "rs_start a \<le> start" "a \<in> set rs" using search_below [OF s, of k start] le by auto
    with free rangeset_wf_item [OF wf, of a] pos show ?thesis
      by (auto simp: rs_free_def word_le_nat_alt dest!: bspec)
  qed
  have after: "unat start + unat len \<le> unat (rs_start a)" if "a \<in> set (drop ?p rs)" for a
  proof -
    from that obtain k where "?p \<le> k" "k < length rs" "a = rs ! k"
      by (auto simp: in_set_conv_nth) (metis le_add1 less_diff_conv add.commute)
    then have "start < rs_start a" "a \<in> set rs" using search_above [OF s, of start k] by auto
    with free rangeset_wf_item [OF wf, of a] show ?thesis
      by (auto simp: rs_free_def word_less_nat_alt dest!: bspec)
  qed
  have "sorted_wrt (\<lambda>a b. rs_end a \<le> unat (rs_start b)) rs"
    using wf by (simp add: rangeset_wf_def)
  then have "sorted_wrt (\<lambda>a b. rs_end a \<le> unat (rs_start b)) (take ?p rs @ ?it # drop ?p rs)"
    using before after e
    by (fastforce simp: sorted_wrt_append sorted_wrt_take sorted_wrt_drop)
  moreover have "set (take ?p rs @ ?it # drop ?p rs) = insert ?it (set rs)"
    using set_append [of "take ?p rs" "drop ?p rs"] by auto
  ultimately show ?thesis
    using wf len e
    by (auto simp: rangeset_wf_def bluesky_rangeset_insert_def gseq_insert_sorted_def Let_def)
qed

lemma insert_lookup:
  assumes wf: "rangeset_wf rs" and len: "len \<noteq> 0" "unat start + unat len < 2 ^ 64"
    and free: "rs_free rs start len"
  shows "bluesky_rangeset_lookup srch (fst (bluesky_rangeset_insert srch rs start len data)) off
         = (if start \<le> off \<and> off < start + len
            then Some \<lparr>rs_start = start, rs_length = len, rs_data = data\<rparr>
            else bluesky_rangeset_lookup srch rs off)"
proof -
  let ?it = "\<lparr>rs_start = start, rs_length = len, rs_data = data\<rparr>"
  let ?rs = "fst (bluesky_rangeset_insert srch rs start len data)"
  note wf' = insert_wf [OF assms, of data]
  have set: "set ?rs = insert ?it (set rs)"
    by (simp add: bluesky_rangeset_insert_def set_insert_sorted)
  have cov: "rs_covers ?it off \<longleftrightarrow> start \<le> off \<and> off < start + len"
    by (simp add: rs_covers_def)
  show ?thesis
  proof (cases "rs_covers ?it off")
    case True
    then have "find (\<lambda>it. rs_covers it off) ?rs = Some ?it"
      by (intro find_unique) (use set rangeset_wf_cover_unique [OF wf'] in auto)
    with True show ?thesis by (simp add: cov lookup_find [OF wf'])
  next
    case False
    have "find (\<lambda>it. rs_covers it off) ?rs = find (\<lambda>it. rs_covers it off) rs"
    proof (cases "find (\<lambda>it. rs_covers it off) rs")
      case None
      then have "find (\<lambda>it. rs_covers it off) ?rs = None"
        using False set by (auto simp: find_None_iff)
      with None show ?thesis by simp
    next
      case (Some a)
      then have "a \<in> set rs" "rs_covers a off" by (auto simp: find_Some_iff)
      then have "find (\<lambda>it. rs_covers it off) ?rs = Some a"
        by (intro find_unique) (use set rangeset_wf_cover_unique [OF wf'] in auto)
      with Some show ?thesis by simp
    qed
    with False show ?thesis by (auto simp: cov lookup_find [OF wf] lookup_find [OF wf'])
  qed
qed

end

interpretation linear_rangeset: rangeset_seq linear_search
  by unfold_locales


section \<open>Properties\<close>

text \<open>C4: On a range set whose ranges do not overlap, bluesky_rangeset_lookup returns
  exactly the item whose range covers the offset, and NULL where no range covers it.\<close>

theorem rangeset_lookup_exact:
  assumes "gsequence srch" "rangeset_wf rs"
  shows "bluesky_rangeset_lookup srch rs off = find (\<lambda>it. rs_covers it off) rs"
  using rangeset_seq.lookup_find [OF rangeset_seq.intro, OF assms] .

theorem rangeset_lookup_exact_witness:
  "bluesky_rangeset_lookup linear_search
     [\<lparr>rs_start = 0, rs_length = 10, rs_data = ()\<rparr>, \<lparr>rs_start = 20, rs_length = 5, rs_data = ()\<rparr>] 22
   = Some \<lparr>rs_start = 20, rs_length = 5, rs_data = ()\<rparr>"
  by (subst rangeset_lookup_exact)
    (simp_all add: linear.gsequence_axioms rangeset_wf_def rs_end_def rs_covers_def)

text \<open>C6: bluesky_rangeset_lookup_next returns the first item that starts at or
  behind the offset, so stepping from an item's start plus one walks the range
  set in order.\<close>

theorem rangeset_lookup_next_first:
  assumes "gsequence srch" "rangeset_wf rs"
  shows "bluesky_rangeset_lookup_next srch rs off = find (\<lambda>it. off \<le> rs_start it) rs"
  using rangeset_seq.lookup_next_find [OF rangeset_seq.intro, OF assms] .

theorem rangeset_lookup_next_first_witness:
  "bluesky_rangeset_lookup_next linear_search
     [\<lparr>rs_start = 0, rs_length = 10, rs_data = ()\<rparr>, \<lparr>rs_start = 20, rs_length = 5, rs_data = ()\<rparr>] 1
   = Some \<lparr>rs_start = 20, rs_length = 5, rs_data = ()\<rparr>"
  by (subst rangeset_lookup_next_first)
    (simp_all add: linear.gsequence_axioms rangeset_wf_def rs_end_def)

text \<open>C5: Inserting a range that overlaps no other keeps the range set well-formed,
  and afterwards a lookup returns the new item inside its range and what it
  returned before everywhere else.\<close>

theorem rangeset_insert_then_lookup:
  assumes "gsequence srch" "rangeset_wf rs" "len \<noteq> 0" "unat start + unat len < 2 ^ 64"
    "rs_free rs start len"
  shows "rangeset_wf (fst (bluesky_rangeset_insert srch rs start len data)) \<and>
         bluesky_rangeset_lookup srch (fst (bluesky_rangeset_insert srch rs start len data)) off
         = (if start \<le> off \<and> off < start + len
            then Some \<lparr>rs_start = start, rs_length = len, rs_data = data\<rparr>
            else bluesky_rangeset_lookup srch rs off)"
proof -
  have "rangeset_seq srch" using assms(1) by (rule rangeset_seq.intro)
  from rangeset_seq.insert_wf [OF this assms(2-5)] rangeset_seq.insert_lookup [OF this assms(2-5)]
  show ?thesis by auto
qed

theorem rangeset_insert_then_lookup_witness:
  "bluesky_rangeset_lookup linear_search
     (fst (bluesky_rangeset_insert linear_search
        [\<lparr>rs_start = 0, rs_length = 10, rs_data = ()\<rparr>] 10 4 ())) 13
   = Some \<lparr>rs_start = 10, rs_length = 4, rs_data = ()\<rparr>"
  by (subst rangeset_insert_then_lookup [THEN conjunct2])
    (simp_all add: linear.gsequence_axioms rangeset_wf_def rs_end_def rs_free_def)

text \<open>C7: bluesky_rangeset_insert accepts a range that starts where an item already
  starts, and the new item then answers the lookup of that offset: an item
  already recorded as fetched is shadowed, although the caller in log.c expects
  FALSE and no change for an overlapping range.\<close>

theorem rangeset_insert_shadows:
  assumes "gsequence srch" "sorted (map rs_start rs)" "it \<in> set rs" "rs_start it = start"
    "start < start + len"
  shows "snd (bluesky_rangeset_insert srch rs start len data) \<and>
         bluesky_rangeset_lookup srch (fst (bluesky_rangeset_insert srch rs start len data)) start
         = Some \<lparr>rs_start = start, rs_length = len, rs_data = data\<rparr>"
proof -
  let ?it = "\<lparr>rs_start = start, rs_length = len, rs_data = data\<rparr>"
  let ?p = "srch (map rs_start rs) start"
  let ?as = "take ?p (map rs_start rs) @ [start]" and ?bs = "drop ?p (map rs_start rs)"
  have le: "?p \<le> length rs"
    using gsequence.search_le_length [OF assms(1,2), of start] by simp
  have s: "sorted (?as @ ?bs)"
    using gsequence.sorted_insert_sorted [OF assms(1,2), of ?it]
    by (simp add: gseq_insert_sorted_def Let_def take_map drop_map)
  have "srch (?as @ ?bs) start = Suc ?p"
    using gsequence.search_split [OF assms(1) s, of start] gsequence.search_take [OF assms(1,2)]
      gsequence.search_drop [OF assms(1,2)] le by auto
  then have "srch (map rs_start (take ?p rs @ ?it # drop ?p rs)) start = Suc ?p"
    by (simp add: take_map drop_map)
  then show ?thesis
    using le assms(5)
    by (simp add: bluesky_rangeset_lookup_def bluesky_rangeset_insert_def gseq_insert_sorted_def
        iter_prev_def Let_def nth_append rs_covers_def)
qed

theorem rangeset_insert_shadows_witness:
  "bluesky_rangeset_lookup linear_search
     (fst (bluesky_rangeset_insert linear_search
        [\<lparr>rs_start = 8, rs_length = 10, rs_data = ''a''\<rparr>] 8 4 ''b'')) 8
   = Some \<lparr>rs_start = 8, rs_length = 4, rs_data = ''b''\<rparr>"
  using rangeset_insert_shadows [of linear_search "[\<lparr>rs_start = 8, rs_length = 10, rs_data = ''a''\<rparr>]"
      "\<lparr>rs_start = 8, rs_length = 10, rs_data = ''a''\<rparr>" 8 4 "''b''"]
  by (simp add: linear.gsequence_axioms)

end
