(* ===== verification/BlueSky_Types.thy ===== *)
theory BlueSky_Types
  imports BlueSky_Prelude
begin

text \<open>
  The data model of the core file system (\<^verbatim>\<open>bluesky/bluesky.h\<close>): file types,
  data blocks, directory entries and in-memory inodes.  Object identifiers of
  the log, block data and file names are byte lists; a pointer to a cloud log
  item is the address \<open>ref\<close> of the item and a null pointer is \<open>None\<close>.  The list
  links of an inode live in the LRU lists (\<open>BlueSky_Util\<close>).
\<close>

type_synonym i64 = "64 word"
type_synonym ref = nat


section \<open>File types\<close>

text \<open>The values of \<^verbatim>\<open>BlueSkyFileType\<close>; a type read from storage may be any number.\<close>

definition BLUESKY_REGULAR :: int where "BLUESKY_REGULAR = 1"
definition BLUESKY_DIRECTORY :: int where "BLUESKY_DIRECTORY = 2"
definition BLUESKY_BLOCK :: int where "BLUESKY_BLOCK = 3"
definition BLUESKY_CHARACTER :: int where "BLUESKY_CHARACTER = 4"
definition BLUESKY_SYMLINK :: int where "BLUESKY_SYMLINK = 5"
definition BLUESKY_SOCKET :: int where "BLUESKY_SOCKET = 6"
definition BLUESKY_FIFO :: int where "BLUESKY_FIFO = 7"
definition BLUESKY_PENDING :: int where "BLUESKY_PENDING = 0"
definition BLUESKY_INVALID :: int where "BLUESKY_INVALID = -1"

lemmas file_type_defs =
  BLUESKY_REGULAR_def BLUESKY_DIRECTORY_def BLUESKY_BLOCK_def BLUESKY_CHARACTER_def
  BLUESKY_SYMLINK_def BLUESKY_SOCKET_def BLUESKY_FIFO_def BLUESKY_PENDING_def BLUESKY_INVALID_def

definition BLUESKY_ROOT_INUM :: u64 where
  "BLUESKY_ROOT_INUM = 1"


section \<open>Data blocks\<close>

definition BLUESKY_BLOCK_SIZE :: nat where
  "BLUESKY_BLOCK_SIZE = 32768"

definition BLUESKY_MAX_FILE_SIZE :: nat where
  "BLUESKY_MAX_FILE_SIZE = BLUESKY_BLOCK_SIZE * 2 ^ 24"

lemma block_size_pos [simp]: "0 < BLUESKY_BLOCK_SIZE"
  by (simp add: BLUESKY_BLOCK_SIZE_def)

datatype block_type = BLUESKY_BLOCK_ZERO | BLUESKY_BLOCK_REF | BLUESKY_BLOCK_DIRTY

record block =
  b_type :: block_type
  b_ref :: "ref option"
  b_dirty :: "bytes option"

text \<open>A zeroed block structure, as \<^verbatim>\<open>g_array_set_size\<close> makes it.\<close>

definition zero_block :: block where
  "zero_block = \<lparr>b_type = BLUESKY_BLOCK_ZERO, b_ref = None, b_dirty = None\<rparr>"


section \<open>Directories and inodes\<close>

record dirent =
  d_name :: bytes
  d_name_folded :: bytes
  d_cookie :: u32
  d_inum :: u64

text \<open>
  The three indices of a directory are created and destroyed together, so they
  are one optional component of the inode.
\<close>

record dirindex =
  dirents :: "dirent list"
  dirhash :: "bytes \<rightharpoonup> dirent"
  dirhash_folded :: "bytes \<rightharpoonup> dirent"

record inode =
  i_refcount :: int
  i_type :: int
  i_mode :: u32
  i_uid :: u32
  i_gid :: u32
  i_nlink :: u32
  i_inum :: u64
  change_count :: u64
  change_commit :: u64
  change_cloud :: u64
  change_time :: i64
  access_time :: i64
  committed_item :: "ref option"
  i_atime :: i64
  i_ctime :: i64
  i_mtime :: i64
  i_ntime :: i64
  i_size :: u64
  i_blocks :: "block list"
  i_dir :: "dirindex option"
  parent_inum :: u64
  symlink_contents :: "bytes option"

text \<open>\<^verbatim>\<open>bluesky_init_inode\<close> and \<^verbatim>\<open>bluesky_new_inode\<close> of \<^verbatim>\<open>bluesky/inode.c\<close>.\<close>

definition empty_dirindex :: dirindex where
  "empty_dirindex = \<lparr>dirents = [], dirhash = Map.empty, dirhash_folded = Map.empty\<rparr>"

definition bluesky_init_inode :: "inode \<Rightarrow> int \<Rightarrow> inode" where
  "bluesky_init_inode i type =
     (let i = i\<lparr>i_type := type\<rparr> in
      if type = BLUESKY_REGULAR then i\<lparr>i_blocks := []\<rparr>
      else if type = BLUESKY_DIRECTORY then i\<lparr>i_dir := Some empty_dirindex\<rparr>
      else i)"

definition zeroed_inode :: inode where
  "zeroed_inode = \<lparr>i_refcount = 0, i_type = 0, i_mode = 0, i_uid = 0, i_gid = 0, i_nlink = 0,
     i_inum = 0, change_count = 0, change_commit = 0, change_cloud = 0, change_time = 0,
     access_time = 0, committed_item = None, i_atime = 0, i_ctime = 0, i_mtime = 0, i_ntime = 0,
     i_size = 0, i_blocks = [], i_dir = None, parent_inum = 0, symlink_contents = None\<rparr>"

definition bluesky_new_inode :: "u64 \<Rightarrow> int \<Rightarrow> inode" where
  "bluesky_new_inode inum type =
     bluesky_init_inode (zeroed_inode\<lparr>i_refcount := 1, i_inum := inum, change_count := 1\<rparr>) type"

text \<open>\<^verbatim>\<open>bluesky_inode_is_ready\<close> of \<^verbatim>\<open>bluesky/util.c\<close>.\<close>

definition bluesky_inode_is_ready :: "inode option \<Rightarrow> bool" where
  "bluesky_inode_is_ready io =
     (case io of None \<Rightarrow> False
      | Some i \<Rightarrow> i_type i \<noteq> BLUESKY_PENDING \<and> i_type i \<noteq> BLUESKY_INVALID)"

text \<open>
  The fields of \<^verbatim>\<open>bluesky_inode_update_ctime\<close> (\<^verbatim>\<open>bluesky/inode.c\<close>); the moves in the
  LRU lists are in \<open>BlueSky_Inode\<close>.
\<close>

definition update_ctime_fields :: "i64 \<Rightarrow> bool \<Rightarrow> inode \<Rightarrow> inode" where
  "update_ctime_fields now update_mtime i =
     i\<lparr>change_count := change_count i + 1,
       i_ctime := now,
       i_mtime := (if update_mtime then now else i_mtime i),
       change_time := (if change_time i = 0 then now else change_time i)\<rparr>"

end
