(* ===== verification/BlueSky_Backend.thy ===== *)
theory BlueSky_Backend
  imports BlueSky_Types
begin

text \<open>
  What the file layer (\<^verbatim>\<open>file.c\<close>) needs from the rest of the file system state: the
  cloud log items behind clean blocks, and the LRU lists that
  \<^verbatim>\<open>bluesky_inode_update_ctime\<close> moves an inode in.  The operations are a record
  \<open>backend\<close>, passed to every definition that calls them; the laws they keep are
  the locale \<open>block_backend\<close>, in which the file layer is verified.  The
  cloud log with its journal provides them (\<open>BlueSky_Cloudlog\<close>).

  The state of the backend is \<open>'c\<close>.  The view of a client is \<open>held c r\<close>, the
  number of references to item \<open>r\<close> that blocks of inodes and other clients own, and
  \<open>item_data c r\<close>, the bytes of an item that is held.  A new item comes with two
  references: for the block and for the list of items to wait for.
\<close>

record 'c backend =
  be_fetch :: "ref \<Rightarrow> 'c \<Rightarrow> (bytes \<times> 'c) option"
  be_prefetch :: "ref \<Rightarrow> 'c \<Rightarrow> 'c"
  be_unref :: "ref \<Rightarrow> 'c \<Rightarrow> 'c"
  be_new_data :: "u64 \<Rightarrow> bytes \<Rightarrow> 'c \<Rightarrow> ref \<times> 'c"
  be_drop_cached :: "ref \<Rightarrow> 'c \<Rightarrow> 'c"
  be_mark_modified :: "u64 \<Rightarrow> 'c \<Rightarrow> 'c"

text \<open>
  The file system state a file operation passes on: the count of dirty blocks
  and the backend.
\<close>

record 'c fscache =
  cache_dirty :: int
  backing :: 'c

text \<open>Two backend states a client cannot tell apart.\<close>

definition same_items ::
    "('c \<Rightarrow> ref \<Rightarrow> nat) \<Rightarrow> ('c \<Rightarrow> ref \<Rightarrow> bytes) \<Rightarrow> 'c \<Rightarrow> 'c \<Rightarrow> bool" where
  "same_items held item_data c c' \<longleftrightarrow>
     held c' = held c \<and> (\<forall>r. 0 < held c r \<longrightarrow> item_data c' r = item_data c r)"

locale block_backend =
  fixes be :: "'c backend"
    and ok :: "'c \<Rightarrow> bool"
    and held :: "'c \<Rightarrow> ref \<Rightarrow> nat"
    and item_data :: "'c \<Rightarrow> ref \<Rightarrow> bytes"
  assumes fetch_data:
      "ok c \<Longrightarrow> 0 < held c r \<Longrightarrow>
         \<exists>c'. be_fetch be r c = Some (item_data c r, c') \<and> ok c' \<and> same_items held item_data c c'"
    and prefetch_keeps:
      "ok c \<Longrightarrow> 0 < held c r \<Longrightarrow>
         ok (be_prefetch be r c) \<and> same_items held item_data c (be_prefetch be r c)"
    and drop_keeps:
      "ok c \<Longrightarrow> 0 < held c r \<Longrightarrow>
         ok (be_drop_cached be r c) \<and> same_items held item_data c (be_drop_cached be r c)"
    and mark_keeps:
      "ok c \<Longrightarrow> ok (be_mark_modified be i c) \<and> same_items held item_data c (be_mark_modified be i c)"
    and unref_releases:
      "ok c \<Longrightarrow> 0 < held c r \<Longrightarrow>
         ok (be_unref be r c) \<and> held (be_unref be r c) = (held c)(r := held c r - 1) \<and>
         (\<forall>r'. 0 < held (be_unref be r c) r' \<longrightarrow> item_data (be_unref be r c) r' = item_data c r')"
    and new_data_holds:
      "ok c \<Longrightarrow> length d \<le> BLUESKY_BLOCK_SIZE \<Longrightarrow> be_new_data be i d c = (r, c') \<Longrightarrow>
         ok c' \<and> held c r = 0 \<and> held c' = (held c)(r := 2) \<and> item_data c' r = d \<and>
         (\<forall>r'. 0 < held c r' \<longrightarrow> item_data c' r' = item_data c r')"

text \<open>
  \<^verbatim>\<open>bluesky_inode_update_ctime\<close> (\<^verbatim>\<open>bluesky/inode.c\<close>): the change counter and times of
  the inode, then its move to the head of the unlogged and accessed lists.
\<close>

definition bluesky_inode_update_ctime ::
    "'c backend \<Rightarrow> i64 \<Rightarrow> bool \<Rightarrow> inode \<times> 'c fscache \<Rightarrow> inode \<times> 'c fscache" where
  "bluesky_inode_update_ctime be now update_mtime s =
     (let (inode, fs) = s in
      (update_ctime_fields now update_mtime inode,
       fs\<lparr>backing := be_mark_modified be (i_inum inode) (backing fs)\<rparr>))"

text \<open>A backend without items, to run the operations that use none.\<close>

definition null_backend :: "unit backend" where
  "null_backend = \<lparr>be_fetch = (\<lambda>r c. None), be_prefetch = (\<lambda>r c. c), be_unref = (\<lambda>r c. c),
     be_new_data = (\<lambda>i d c. (0, c)), be_drop_cached = (\<lambda>r c. c), be_mark_modified = (\<lambda>i c. c)\<rparr>"

end
