(* ===== verification/BlueSky_File.thy ===== *)
theory BlueSky_File
  imports BlueSky_Backend
begin

text \<open>
  Regular files (\<^verbatim>\<open>bluesky/file.c\<close>): blocks that are zero, clean references into
  the cloud log, or dirty buffers.  A file refines its byte string: truncation,
  writes and reads of the block structure are the obvious operations on the
  content, never touch memory outside a block, and keep the structure
  well-formed; flushing leaves the content alone and no block dirty.
\<close>


section \<open>The source's operations\<close>

type_synonym 'c filestate = "inode \<times> 'c fscache"

text \<open>
  \<^verbatim>\<open>bluesky_block_fetch\<close>: make the data of a clean block available.  A clean block
  without a reference is a null pointer access.
\<close>

definition bluesky_block_fetch :: "'c backend \<Rightarrow> block \<Rightarrow> 'c fscache \<Rightarrow> (bytes \<times> 'c fscache) option" where
  "bluesky_block_fetch be b fs =
     (case b_ref b of None \<Rightarrow> None
      | Some r \<Rightarrow> map_option (\<lambda>(d, c). (d, fs\<lparr>backing := c\<rparr>)) (be_fetch be r (backing fs)))"

definition block_len :: "inode \<Rightarrow> nat \<Rightarrow> nat" where
  "block_len inode i =
     (if Suc i < length (i_blocks inode) then BLUESKY_BLOCK_SIZE
      else unat (i_size inode - of_nat (i * BLUESKY_BLOCK_SIZE)))"

definition bluesky_block_touch ::
    "'c backend \<Rightarrow> 'c filestate \<Rightarrow> nat \<Rightarrow> bool \<Rightarrow> 'c filestate option" where
  "bluesky_block_touch be s i preserve =
     (let (inode, fs) = s in
      if \<not> i < length (i_blocks inode) then Some s
      else
        let b = i_blocks inode ! i; zeroes = replicate (block_len inode i) 0 in
        case (case b_type b of
                BLUESKY_BLOCK_ZERO \<Rightarrow> Some (Some zeroes, fs)
              | BLUESKY_BLOCK_REF \<Rightarrow>
                  (if preserve then map_option (\<lambda>(d, fs). (Some d, fs)) (bluesky_block_fetch be b fs)
                   else Some (Some zeroes, fs))
              | BLUESKY_BLOCK_DIRTY \<Rightarrow> Some (b_dirty b, fs)) of
          None \<Rightarrow> None
        | Some (dirty, fs) \<Rightarrow>
            let fs = (if b_type b \<noteq> BLUESKY_BLOCK_DIRTY then fs\<lparr>cache_dirty := cache_dirty fs + 1\<rparr> else fs);
                b' = \<lparr>b_type = BLUESKY_BLOCK_DIRTY, b_ref = None, b_dirty = dirty\<rparr>;
                fs = (case b_ref b of None \<Rightarrow> fs
                      | Some r \<Rightarrow> fs\<lparr>backing := be_unref be r (backing fs)\<rparr>)
            in Some (inode\<lparr>i_blocks := (i_blocks inode)[i := b']\<rparr>, fs))"

text \<open>The buffer of a dirty block replaced, where the block has one.\<close>

definition set_dirty :: "inode \<Rightarrow> nat \<Rightarrow> bytes \<Rightarrow> inode" where
  "set_dirty inode i d = inode\<lparr>i_blocks := (i_blocks inode)[i := (i_blocks inode ! i)\<lparr>b_dirty := Some d\<rparr>]\<rparr>"

text \<open>
  \<^verbatim>\<open>bluesky_block_touch\<close> of a block to be kept, then \<^verbatim>\<open>bluesky_string_resize\<close> of its
  buffer and a \<^verbatim>\<open>memset\<close> of the bytes that were added: the sequence both halves of
  \<^verbatim>\<open>bluesky_file_truncate\<close> use.
\<close>

definition touch_resize :: "'c backend \<Rightarrow> 'c filestate \<Rightarrow> nat \<Rightarrow> nat \<Rightarrow> 'c filestate option" where
  "touch_resize be s i new_size =
     (case bluesky_block_touch be s i True of
        None \<Rightarrow> None
      | Some (inode, fs) \<Rightarrow>
          (case b_dirty (i_blocks inode ! i) of
             None \<Rightarrow> None
           | Some d \<Rightarrow>
               Some (set_dirty inode i (resize_zero new_size d), fs)))"

text \<open>The blocks deleted by a truncation leave the cache and give up their references.\<close>

fun release_blocks :: "'c backend \<Rightarrow> block list \<Rightarrow> 'c fscache \<Rightarrow> 'c fscache" where
  "release_blocks be [] fs = fs"
| "release_blocks be (b # bs) fs =
     (let fs = (if b_type b = BLUESKY_BLOCK_DIRTY then fs\<lparr>cache_dirty := cache_dirty fs - 1\<rparr> else fs);
          fs = (case b_ref b of None \<Rightarrow> fs
                | Some r \<Rightarrow> fs\<lparr>backing := be_unref be r (backing fs)\<rparr>)
      in release_blocks be bs fs)"

definition lastblock :: "nat \<Rightarrow> nat" where
  "lastblock sz =
     (let l = sz mod BLUESKY_BLOCK_SIZE in if l = 0 \<and> sz > 0 then BLUESKY_BLOCK_SIZE else l)"

definition block_count :: "nat \<Rightarrow> nat" where
  "block_count sz = (sz + BLUESKY_BLOCK_SIZE - 1) div BLUESKY_BLOCK_SIZE"

text \<open>The change of the number of blocks, the first half of \<^verbatim>\<open>bluesky_file_truncate\<close>.\<close>

definition truncate_blocks :: "'c backend \<Rightarrow> 'c filestate \<Rightarrow> nat \<Rightarrow> 'c filestate option" where
  "truncate_blocks be s blocks =
     (let (inode, fs) = s; len = length (i_blocks inode) in
      if blocks > len then
        (case (if len > 0 \<and> b_type (i_blocks inode ! (len - 1)) \<noteq> BLUESKY_BLOCK_ZERO
                  \<and> lastblock (unat (i_size inode)) < BLUESKY_BLOCK_SIZE
               then touch_resize be s (len - 1) BLUESKY_BLOCK_SIZE
               else Some s) of
           None \<Rightarrow> None
         | Some (inode, fs) \<Rightarrow>
             Some (inode\<lparr>i_blocks := i_blocks inode @ replicate (blocks - len) zero_block\<rparr>, fs))
      else if blocks < len then
        Some (inode\<lparr>i_blocks := take blocks (i_blocks inode)\<rparr>,
              release_blocks be (drop blocks (i_blocks inode)) fs)
      else Some s)"

definition bluesky_file_truncate ::
    "'c backend \<Rightarrow> i64 \<Rightarrow> 'c filestate \<Rightarrow> u64 \<Rightarrow> 'c filestate option" where
  "bluesky_file_truncate be now s sz =
     (if unat sz > BLUESKY_MAX_FILE_SIZE then Some s
      else if sz = i_size (fst s) then Some s
      else
        let old = unat (i_size (fst s)); blocks = block_count (unat sz) in
        case truncate_blocks be s blocks of
          None \<Rightarrow> None
        | Some s \<Rightarrow>
            (case (if blocks > 0
                      \<and> b_type (i_blocks (fst s) ! (blocks - 1)) \<noteq> BLUESKY_BLOCK_ZERO
                      \<and> \<not> (unat sz < old \<and> lastblock (unat sz) = BLUESKY_BLOCK_SIZE)
                   then touch_resize be s (blocks - 1) (unat sz - (blocks - 1) * BLUESKY_BLOCK_SIZE)
                   else Some s) of
               None \<Rightarrow> None
             | Some (inode, fs) \<Rightarrow>
                 Some (bluesky_inode_update_ctime be now True (inode\<lparr>i_size := sz\<rparr>, fs))))"

text \<open>The loop of \<^verbatim>\<open>bluesky_file_write\<close> over the blocks the data falls into.\<close>

function write_loop :: "'c backend \<Rightarrow> 'c filestate \<Rightarrow> nat \<Rightarrow> bytes \<Rightarrow> 'c filestate option" where
  "write_loop be s offset data =
     (if data = [] then Some s
      else
        let block_num = offset div BLUESKY_BLOCK_SIZE;
            block_offset = offset mod BLUESKY_BLOCK_SIZE;
            n = min (BLUESKY_BLOCK_SIZE - block_offset) (length data);
            block_size = (if Suc block_num = length (i_blocks (fst s))
                          then unat (i_size (fst s) - of_nat (block_num * BLUESKY_BLOCK_SIZE))
                          else BLUESKY_BLOCK_SIZE);
            preserve = (\<not> (block_offset = 0 \<and> n = block_size))
        in
        case bluesky_block_touch be s block_num preserve of
          None \<Rightarrow> None
        | Some (inode, fs) \<Rightarrow>
            if \<not> block_num < length (i_blocks inode) then None
            else
              (case Option.bind (b_dirty (i_blocks inode ! block_num)) (memcpy_at block_offset (take n data)) of
                 None \<Rightarrow> None
               | Some d \<Rightarrow> write_loop be (set_dirty inode block_num d, fs) (offset + n) (drop n data)))"
  by pat_completeness auto
termination
  by (relation "measure (\<lambda>(be, s, offset, data). length data)") auto

declare write_loop.simps [simp del]

definition bluesky_file_write ::
    "'c backend \<Rightarrow> i64 \<Rightarrow> 'c filestate \<Rightarrow> u64 \<Rightarrow> bytes \<Rightarrow> 'c filestate option" where
  "bluesky_file_write be now s offset data =
     (let inode = fst s in
      if i_type inode \<noteq> BLUESKY_REGULAR then Some s
      else if \<not> offset < i_size inode then Some s
      else if \<not> length data \<le> unat (i_size inode - offset) then Some s
      else if data = [] then Some s
      else map_option (bluesky_inode_update_ctime be now True) (write_loop be s (unat offset) data))"

text \<open>\<^verbatim>\<open>bluesky_file_read\<close>: the prefetch pass over the blocks of the range, then the copy loop.\<close>

fun prefetch_blocks :: "'c backend \<Rightarrow> block list \<Rightarrow> 'c fscache \<Rightarrow> 'c fscache option" where
  "prefetch_blocks be [] fs = Some fs"
| "prefetch_blocks be (b # bs) fs =
     (if b_type b = BLUESKY_BLOCK_REF
      then (case b_ref b of None \<Rightarrow> None
            | Some r \<Rightarrow> prefetch_blocks be bs (fs\<lparr>backing := be_prefetch be r (backing fs)\<rparr>))
      else prefetch_blocks be bs fs)"

text \<open>The bytes a read copies out of one block.\<close>

definition read_block :: "'c backend \<Rightarrow> block \<Rightarrow> nat \<Rightarrow> nat \<Rightarrow> 'c fscache \<Rightarrow> (bytes \<times> 'c fscache) option" where
  "read_block be b off n fs =
     (case b_type b of
        BLUESKY_BLOCK_ZERO \<Rightarrow> Some (replicate n 0, fs)
      | BLUESKY_BLOCK_REF \<Rightarrow>
          Option.bind (bluesky_block_fetch be b fs) (\<lambda>(d, fs). map_option (\<lambda>x. (x, fs)) (read_at off n d))
      | BLUESKY_BLOCK_DIRTY \<Rightarrow>
          Option.bind (b_dirty b) (\<lambda>d. map_option (\<lambda>x. (x, fs)) (read_at off n d)))"

function read_loop :: "'c backend \<Rightarrow> inode \<Rightarrow> nat \<Rightarrow> nat \<Rightarrow> 'c fscache \<Rightarrow> (bytes \<times> 'c fscache) option" where
  "read_loop be inode offset len fs =
     (if len = 0 then Some ([], fs)
      else
        let block_num = offset div BLUESKY_BLOCK_SIZE;
            block_offset = offset mod BLUESKY_BLOCK_SIZE;
            n = min (BLUESKY_BLOCK_SIZE - block_offset) len
        in
        if \<not> block_num < length (i_blocks inode) then None
        else
          (case read_block be (i_blocks inode ! block_num) block_offset n fs of
             None \<Rightarrow> None
           | Some (d, fs) \<Rightarrow>
               map_option (\<lambda>(ds, fs). (d @ ds, fs)) (read_loop be inode (offset + n) (len - n) fs)))"
  by pat_completeness auto
termination
  by (relation "measure (\<lambda>(be, inode, offset, len, fs). len)") auto

declare read_loop.simps [simp del]

text \<open>The outer \<open>None\<close> is an abort, the inner one a return that leaves the buffer as it was.\<close>

definition bluesky_file_read ::
    "'c backend \<Rightarrow> 'c filestate \<Rightarrow> u64 \<Rightarrow> nat \<Rightarrow> (bytes option \<times> 'c fscache) option" where
  "bluesky_file_read be s offset len =
     (let (inode, fs) = s in
      if len = 0 \<and> offset \<le> i_size inode then Some (Some [], fs)
      else if i_type inode \<noteq> BLUESKY_REGULAR then Some (None, fs)
      else if \<not> offset < i_size inode then Some (None, fs)
      else if \<not> len \<le> unat (i_size inode - offset) then Some (None, fs)
      else
        let start_block = unat offset div BLUESKY_BLOCK_SIZE;
            end_block = (unat offset + len - 1) div BLUESKY_BLOCK_SIZE
        in
        if \<not> end_block < length (i_blocks inode) then None
        else
          (case prefetch_blocks be (take (Suc end_block - start_block) (drop start_block (i_blocks inode))) fs of
             None \<Rightarrow> None
           | Some fs \<Rightarrow> map_option (\<lambda>(d, fs). (Some d, fs)) (read_loop be inode (unat offset) len fs)))"

text \<open>\<^verbatim>\<open>bluesky_block_flush\<close>, \<^verbatim>\<open>bluesky_file_flush\<close> and \<^verbatim>\<open>bluesky_file_drop_cached\<close>.\<close>

definition bluesky_block_flush ::
    "'c backend \<Rightarrow> u64 \<Rightarrow> block \<Rightarrow> ref list \<Rightarrow> 'c fscache \<Rightarrow> (block \<times> ref list \<times> 'c fscache) option" where
  "bluesky_block_flush be inum b log_items fs =
     (if b_type b \<noteq> BLUESKY_BLOCK_DIRTY then Some (b, log_items, fs)
      else if b_ref b \<noteq> None then None
      else
        (case b_dirty b of
           None \<Rightarrow> None
         | Some d \<Rightarrow>
             let (r, c) = be_new_data be inum d (backing fs) in
             Some (\<lparr>b_type = BLUESKY_BLOCK_REF, b_ref = Some r, b_dirty = None\<rparr>, r # log_items,
                   fs\<lparr>backing := c, cache_dirty := cache_dirty fs - 1\<rparr>)))"

fun flush_blocks ::
    "'c backend \<Rightarrow> u64 \<Rightarrow> block list \<Rightarrow> ref list \<Rightarrow> 'c fscache \<Rightarrow> (block list \<times> ref list \<times> 'c fscache) option" where
  "flush_blocks be inum [] log_items fs = Some ([], log_items, fs)"
| "flush_blocks be inum (b # bs) log_items fs =
     (case bluesky_block_flush be inum b log_items fs of
        None \<Rightarrow> None
      | Some (b, log_items, fs) \<Rightarrow>
          map_option (\<lambda>(bs, r). (b # bs, r)) (flush_blocks be inum bs log_items fs))"

definition bluesky_file_flush ::
    "'c backend \<Rightarrow> 'c filestate \<Rightarrow> ref list \<Rightarrow> ('c filestate \<times> ref list) option" where
  "bluesky_file_flush be s log_items =
     (let (inode, fs) = s in
      if i_type inode \<noteq> BLUESKY_REGULAR then Some (s, log_items)
      else map_option (\<lambda>(bs, log_items, fs). ((inode\<lparr>i_blocks := bs\<rparr>, fs), log_items))
             (flush_blocks be (i_inum inode) (i_blocks inode) log_items fs))"

fun drop_blocks :: "'c backend \<Rightarrow> block list \<Rightarrow> 'c fscache \<Rightarrow> 'c fscache option" where
  "drop_blocks be [] fs = Some fs"
| "drop_blocks be (b # bs) fs =
     (if b_type b = BLUESKY_BLOCK_REF
      then (case b_ref b of None \<Rightarrow> None
            | Some r \<Rightarrow> drop_blocks be bs (fs\<lparr>backing := be_drop_cached be r (backing fs)\<rparr>))
      else drop_blocks be bs fs)"

definition bluesky_file_drop_cached :: "'c backend \<Rightarrow> 'c filestate \<Rightarrow> 'c filestate option" where
  "bluesky_file_drop_cached be s =
     (let (inode, fs) = s in
      if i_type inode \<noteq> BLUESKY_REGULAR then Some s
      else map_option (Pair inode) (drop_blocks be (i_blocks inode) fs))"


section \<open>Content and well-formedness\<close>

text \<open>
  The bytes of block \<open>b\<close> of length \<open>n\<close>, the content of a file, and the structure a
  file keeps: the number of blocks its size needs, each block of its length,
  references held in the backend, and the count of dirty blocks included in
  \<open>cache_dirty\<close> (\<open>k\<close> is the count of the other inodes).
\<close>

definition block_bytes :: "(ref \<Rightarrow> bytes) \<Rightarrow> block \<Rightarrow> nat \<Rightarrow> bytes" where
  "block_bytes dat b n =
     (case b_type b of
        BLUESKY_BLOCK_ZERO \<Rightarrow> replicate n 0
      | BLUESKY_BLOCK_REF \<Rightarrow> dat (the (b_ref b))
      | BLUESKY_BLOCK_DIRTY \<Rightarrow> the (b_dirty b))"

definition blen :: "nat \<Rightarrow> nat \<Rightarrow> nat" where
  "blen sz i = min BLUESKY_BLOCK_SIZE (sz - i * BLUESKY_BLOCK_SIZE)"

definition content :: "(ref \<Rightarrow> bytes) \<Rightarrow> block list \<Rightarrow> nat \<Rightarrow> bytes" where
  "content dat bs sz =
     map (\<lambda>j. block_bytes dat (bs ! (j div BLUESKY_BLOCK_SIZE)) (blen sz (j div BLUESKY_BLOCK_SIZE))
              ! (j mod BLUESKY_BLOCK_SIZE)) [0..<sz]"

definition block_ok :: "(ref \<Rightarrow> bytes) \<Rightarrow> block \<Rightarrow> nat \<Rightarrow> bool" where
  "block_ok dat b n \<longleftrightarrow>
     (case b_type b of
        BLUESKY_BLOCK_ZERO \<Rightarrow> b_ref b = None \<and> b_dirty b = None
      | BLUESKY_BLOCK_REF \<Rightarrow> (\<exists>r. b_ref b = Some r \<and> length (dat r) = n) \<and> b_dirty b = None
      | BLUESKY_BLOCK_DIRTY \<Rightarrow> b_ref b = None \<and> (\<exists>d. b_dirty b = Some d \<and> length d = n))"

definition block_refs :: "block list \<Rightarrow> ref list" where
  "block_refs bs = List.map_filter b_ref bs"

definition dirty_count :: "block list \<Rightarrow> nat" where
  "dirty_count bs = length (filter (\<lambda>b. b_type b = BLUESKY_BLOCK_DIRTY) bs)"

definition blocks_ok :: "(ref \<Rightarrow> bytes) \<Rightarrow> block list \<Rightarrow> nat \<Rightarrow> bool" where
  "blocks_ok dat bs sz \<longleftrightarrow>
     length bs = block_count sz \<and> (\<forall>i < length bs. block_ok dat (bs ! i) (blen sz i))"

definition file_wf ::
    "('c \<Rightarrow> bool) \<Rightarrow> ('c \<Rightarrow> ref \<Rightarrow> nat) \<Rightarrow> ('c \<Rightarrow> ref \<Rightarrow> bytes) \<Rightarrow> int \<Rightarrow> 'c filestate \<Rightarrow> bool" where
  "file_wf ok held item_data k s \<longleftrightarrow>
     (let (inode, fs) = s in
      ok (backing fs) \<and>
      unat (i_size inode) \<le> BLUESKY_MAX_FILE_SIZE \<and>
      blocks_ok (item_data (backing fs)) (i_blocks inode) (unat (i_size inode)) \<and>
      (\<forall>r. count_list (block_refs (i_blocks inode)) r \<le> held (backing fs) r) \<and>
      cache_dirty fs = k + int (dirty_count (i_blocks inode)))"

definition file_content :: "('c \<Rightarrow> ref \<Rightarrow> bytes) \<Rightarrow> 'c filestate \<Rightarrow> bytes" where
  "file_content item_data s =
     content (item_data (backing (snd s))) (i_blocks (fst s)) (unat (i_size (fst s)))"


section \<open>Arithmetic of blocks\<close>

lemma block_count_bound: "i < block_count sz \<longleftrightarrow> i * BLUESKY_BLOCK_SIZE < sz"
proof -
  have "i < block_count sz \<longleftrightarrow> Suc i \<le> (sz + BLUESKY_BLOCK_SIZE - 1) div BLUESKY_BLOCK_SIZE"
    by (simp add: block_count_def Suc_le_eq)
  also have "\<dots> \<longleftrightarrow> Suc i * BLUESKY_BLOCK_SIZE \<le> sz + BLUESKY_BLOCK_SIZE - 1"
    by (rule less_eq_div_iff_mult_less_eq) simp
  also have "\<dots> \<longleftrightarrow> i * BLUESKY_BLOCK_SIZE < sz"
    using block_size_pos by (auto simp del: block_size_pos)
  finally show ?thesis .
qed

lemma block_count_last:
  assumes "Suc i = block_count sz"
  shows "sz \<le> i * BLUESKY_BLOCK_SIZE + BLUESKY_BLOCK_SIZE"
proof -
  have "\<not> Suc i * BLUESKY_BLOCK_SIZE < sz"
    unfolding block_count_bound [symmetric] using assms by simp
  then show ?thesis by simp
qed

lemma block_count_eqI:
  assumes "i * BLUESKY_BLOCK_SIZE < sz" "sz \<le> i * BLUESKY_BLOCK_SIZE + BLUESKY_BLOCK_SIZE"
  shows "block_count sz = Suc i"
  using assms block_count_bound [of i sz] block_count_bound [of "Suc i" sz] by simp

lemma block_count_0 [simp]: "block_count 0 = 0"
  using block_count_bound [of 0 0] by simp

lemma block_count_mult: "block_count (m * BLUESKY_BLOCK_SIZE) = m"
  by (cases m) (simp_all add: block_count_eqI)

lemma blen_full: "Suc i < block_count sz \<Longrightarrow> blen sz i = BLUESKY_BLOCK_SIZE"
  using block_count_bound [of "Suc i" sz] by (simp add: blen_def)

lemma blen_last: "Suc i = block_count sz \<Longrightarrow> blen sz i = sz - i * BLUESKY_BLOCK_SIZE"
  using block_count_last [of i sz] by (simp add: blen_def)

lemma block_index: "j < sz \<Longrightarrow> j div BLUESKY_BLOCK_SIZE < block_count sz"
  unfolding block_count_bound using div_times_less_eq_dividend order_le_less_trans by blast

lemma block_offset: "j < sz \<Longrightarrow> j mod BLUESKY_BLOCK_SIZE < blen sz (j div BLUESKY_BLOCK_SIZE)"
proof -
  assume "j < sz"
  moreover have "j = j div BLUESKY_BLOCK_SIZE * BLUESKY_BLOCK_SIZE + j mod BLUESKY_BLOCK_SIZE" by simp
  ultimately have "j mod BLUESKY_BLOCK_SIZE < sz - j div BLUESKY_BLOCK_SIZE * BLUESKY_BLOCK_SIZE"
    by linarith
  then show ?thesis by (simp add: blen_def)
qed

lemma max_file_size_bound: "BLUESKY_MAX_FILE_SIZE < 2 ^ 64"
  by (simp add: BLUESKY_MAX_FILE_SIZE_def BLUESKY_BLOCK_SIZE_def)

lemma block_count_ge: "sz \<le> block_count sz * BLUESKY_BLOCK_SIZE"
  using block_count_bound [of "block_count sz" sz] by simp

lemma lastblock_le: "lastblock sz \<le> BLUESKY_BLOCK_SIZE"
  by (simp add: lastblock_def Let_def less_imp_le)

lemma lastblock_full:
  assumes "lastblock sz = BLUESKY_BLOCK_SIZE"
  shows "sz = block_count sz * BLUESKY_BLOCK_SIZE"
proof -
  have "sz mod BLUESKY_BLOCK_SIZE = 0"
    using assms mod_less_divisor [OF block_size_pos, of sz]
    by (auto simp: lastblock_def Let_def simp del: mod_less_divisor split: if_splits)
  then have "sz = sz div BLUESKY_BLOCK_SIZE * BLUESKY_BLOCK_SIZE" by (simp add: mod_0_imp_dvd)
  then show ?thesis using block_count_mult [of "sz div BLUESKY_BLOCK_SIZE"] by simp
qed

lemma unat_of_nat_max: "m \<le> BLUESKY_MAX_FILE_SIZE \<Longrightarrow> unat (of_nat m :: u64) = m"
  using max_file_size_bound by (intro unat_of_nat_small) simp

lemma max_blocks:
  assumes "i * BLUESKY_BLOCK_SIZE < sz" "sz \<le> BLUESKY_MAX_FILE_SIZE"
  shows "Suc i * BLUESKY_BLOCK_SIZE \<le> BLUESKY_MAX_FILE_SIZE"
proof -
  have "i * BLUESKY_BLOCK_SIZE < 2 ^ 24 * BLUESKY_BLOCK_SIZE"
    using assms unfolding BLUESKY_MAX_FILE_SIZE_def by (simp only: mult.commute order_less_le_trans)
  then have "Suc i \<le> 2 ^ 24" by (simp only: mult_less_cancel2 Suc_le_eq)
  then have "Suc i * BLUESKY_BLOCK_SIZE \<le> 2 ^ 24 * BLUESKY_BLOCK_SIZE" by (rule mult_le_mono1)
  then show ?thesis by (simp add: BLUESKY_MAX_FILE_SIZE_def)
qed

lemma block_len_blen:
  assumes "unat (i_size inode) \<le> BLUESKY_MAX_FILE_SIZE"
    "length (i_blocks inode) = block_count (unat (i_size inode))" "i < length (i_blocks inode)"
  shows "block_len inode i = blen (unat (i_size inode)) i"
proof (cases "Suc i < length (i_blocks inode)")
  case True
  then show ?thesis using assms by (simp add: block_len_def blen_full)
next
  case False
  have le: "i * BLUESKY_BLOCK_SIZE < unat (i_size inode)"
    using assms by (simp add: block_count_bound)
  then have "unat (i_size inode - of_nat (i * BLUESKY_BLOCK_SIZE))
             = unat (i_size inode) - i * BLUESKY_BLOCK_SIZE"
    by (intro unat_minus_of_nat) simp
  with False assms show ?thesis by (simp add: block_len_def blen_last)
qed


text \<open>The part of a range that falls into its first block.\<close>

lemma first_block:
  assumes "off + len \<le> sz" "0 < len"
  shows "off div BLUESKY_BLOCK_SIZE < block_count sz"
    and "off mod BLUESKY_BLOCK_SIZE + min (BLUESKY_BLOCK_SIZE - off mod BLUESKY_BLOCK_SIZE) len
         \<le> blen sz (off div BLUESKY_BLOCK_SIZE)"
    and "0 < min (BLUESKY_BLOCK_SIZE - off mod BLUESKY_BLOCK_SIZE) len"
proof -
  have off: "off = off div BLUESKY_BLOCK_SIZE * BLUESKY_BLOCK_SIZE + off mod BLUESKY_BLOCK_SIZE"
    and lt: "off mod BLUESKY_BLOCK_SIZE < BLUESKY_BLOCK_SIZE"
    by simp_all
  show "off div BLUESKY_BLOCK_SIZE < block_count sz" using assms by (intro block_index) simp
  show "off mod BLUESKY_BLOCK_SIZE + min (BLUESKY_BLOCK_SIZE - off mod BLUESKY_BLOCK_SIZE) len
      \<le> blen sz (off div BLUESKY_BLOCK_SIZE)"
    unfolding blen_def using off assms lt by linarith
  show "0 < min (BLUESKY_BLOCK_SIZE - off mod BLUESKY_BLOCK_SIZE) len" using lt assms by simp
qed


section \<open>Blocks under updates\<close>

lemma block_bytes_length: "block_ok dat b n \<Longrightarrow> length (block_bytes dat b n) = n"
  by (auto simp: block_ok_def block_bytes_def split: block_type.splits)

lemma block_ok_cong:
  "block_ok dat b n \<Longrightarrow> (\<And>r. b_ref b = Some r \<Longrightarrow> dat' r = dat r) \<Longrightarrow>
   block_ok dat' b n \<and> block_bytes dat' b n = block_bytes dat b n"
  by (auto simp: block_ok_def block_bytes_def split: block_type.splits)

lemma blocks_okD: "blocks_ok dat bs sz \<Longrightarrow> i < length bs \<Longrightarrow> block_ok dat (bs ! i) (blen sz i)"
  by (simp add: blocks_ok_def)

lemma zero_block_simps [simp]:
  "b_type zero_block = BLUESKY_BLOCK_ZERO" "b_ref zero_block = None" "b_dirty zero_block = None"
  "block_ok dat zero_block n" "block_bytes dat zero_block n = replicate n 0"
  by (simp_all add: zero_block_def block_ok_def block_bytes_def)

lemma block_refs_Nil [simp]: "block_refs [] = []"
  by (simp add: block_refs_def List.map_filter_def)

lemma block_refs_Cons [simp]:
  "block_refs (b # bs) = (case b_ref b of None \<Rightarrow> block_refs bs | Some r \<Rightarrow> r # block_refs bs)"
  by (auto simp: block_refs_def List.map_filter_def split: option.splits)

lemma block_refs_append [simp]: "block_refs (xs @ ys) = block_refs xs @ block_refs ys"
  by (simp add: block_refs_def List.map_filter_def)

lemma set_block_refs: "r \<in> set (block_refs bs) \<longleftrightarrow> (\<exists>b \<in> set bs. b_ref b = Some r)"
  by (induction bs) (auto split: option.splits)

lemma dirty_count_simps [simp]:
  "dirty_count [] = 0"
  "dirty_count (b # bs) = (if b_type b = BLUESKY_BLOCK_DIRTY then 1 else 0) + dirty_count bs"
  "dirty_count (xs @ ys) = dirty_count xs + dirty_count ys"
  by (simp_all add: dirty_count_def)

lemma replicate_zero_block [simp]:
  "block_refs (replicate n zero_block) = []" "dirty_count (replicate n zero_block) = 0"
  by (induction n) simp_all

lemma count_refs_update:
  assumes "i < length bs"
  shows "count_list (block_refs (bs[i := b])) r + (if b_ref (bs ! i) = Some r then 1 else 0)
         = count_list (block_refs bs) r + (if b_ref b = Some r then 1 else 0)"
proof -
  have "block_refs bs = block_refs (take i bs @ bs ! i # drop (Suc i) bs)"
    using id_take_nth_drop [OF assms] by simp
  then show ?thesis
    using assms by (auto simp: upd_conv_take_nth_drop count_list_append split: option.splits)
qed

lemma dirty_count_update:
  assumes "i < length bs"
  shows "dirty_count (bs[i := b]) + (if b_type (bs ! i) = BLUESKY_BLOCK_DIRTY then 1 else 0)
         = dirty_count bs + (if b_type b = BLUESKY_BLOCK_DIRTY then 1 else 0)"
proof -
  have "dirty_count bs = dirty_count (take i bs @ bs ! i # drop (Suc i) bs)"
    using id_take_nth_drop [OF assms] by simp
  then show ?thesis using assms by (simp add: upd_conv_take_nth_drop)
qed

lemma length_content [simp]: "length (content dat bs sz) = sz"
  by (simp add: content_def)

lemma nth_content:
  "j < sz \<Longrightarrow> content dat bs sz ! j
   = block_bytes dat (bs ! (j div BLUESKY_BLOCK_SIZE)) (blen sz (j div BLUESKY_BLOCK_SIZE))
     ! (j mod BLUESKY_BLOCK_SIZE)"
  by (simp add: content_def)

text \<open>One block replaced by one with bytes overwritten is the content with those bytes overwritten.\<close>

lemma content_block_overwrite:
  assumes ok: "blocks_ok dat bs sz" and i: "i < length bs"
    and d: "off + length d \<le> blen sz i"
    and new: "block_bytes dat' b (blen sz i) = overwrite off d (block_bytes dat (bs ! i) (blen sz i))"
    and others: "\<And>j. j < length bs \<Longrightarrow> j \<noteq> i \<Longrightarrow>
                   block_bytes dat' (bs ! j) (blen sz j) = block_bytes dat (bs ! j) (blen sz j)"
  shows "content dat' (bs[i := b]) sz = overwrite (i * BLUESKY_BLOCK_SIZE + off) d (content dat bs sz)"
proof (rule nth_equalityI)
  have isz: "i * BLUESKY_BLOCK_SIZE < sz"
    using ok i by (simp add: blocks_ok_def block_count_bound)
  then have fits: "i * BLUESKY_BLOCK_SIZE + off + length d \<le> sz"
    using d unfolding blen_def by linarith
  then show "length (content dat' (bs[i := b]) sz)
             = length (overwrite (i * BLUESKY_BLOCK_SIZE + off) d (content dat bs sz))"
    by simp
  fix j
  assume "j < length (content dat' (bs[i := b]) sz)"
  then have j: "j < sz" by simp
  let ?q = "j div BLUESKY_BLOCK_SIZE" and ?m = "j mod BLUESKY_BLOCK_SIZE"
  have q: "?q < length bs" and m: "?m < blen sz ?q" and split: "j = ?q * BLUESKY_BLOCK_SIZE + ?m"
    using j ok by (auto simp: blocks_ok_def block_index block_offset)
  have lb: "length (block_bytes dat (bs ! i) (blen sz i)) = blen sz i"
    using ok i by (auto simp: blocks_ok_def intro!: block_bytes_length)
  show "content dat' (bs[i := b]) sz ! j
        = overwrite (i * BLUESKY_BLOCK_SIZE + off) d (content dat bs sz) ! j"
  proof (cases "?q = i")
    case True
    then have jm: "j = i * BLUESKY_BLOCK_SIZE + ?m" using split by simp
    have inside: "i * BLUESKY_BLOCK_SIZE + off \<le> j \<and> j < i * BLUESKY_BLOCK_SIZE + off + length d
        \<longleftrightarrow> off \<le> ?m \<and> ?m < off + length d" and sub: "j - (i * BLUESKY_BLOCK_SIZE + off) = ?m - off"
      using jm by linarith+
    have "content dat' (bs[i := b]) sz ! j = overwrite off d (block_bytes dat (bs ! i) (blen sz i)) ! ?m"
      using True i j new by (simp add: nth_content)
    then show ?thesis
      using True j m d lb fits by (simp add: nth_overwrite nth_content inside sub)
  next
    case False
    have "\<not> (i * BLUESKY_BLOCK_SIZE + off \<le> j \<and> j < i * BLUESKY_BLOCK_SIZE + off + length d)"
    proof
      assume a: "i * BLUESKY_BLOCK_SIZE + off \<le> j \<and> j < i * BLUESKY_BLOCK_SIZE + off + length d"
      then have "i * BLUESKY_BLOCK_SIZE \<le> j" "j < Suc i * BLUESKY_BLOCK_SIZE"
        using d by (auto simp: blen_def)
      then have "?q = i" by (metis div_nat_eqI mult.commute)
      with False show False by simp
    qed
    then show ?thesis
      using False j q others fits by (auto simp: nth_content nth_overwrite)
  qed
qed

text \<open>The last block resized is the content resized.\<close>

lemma content_resize_last:
  assumes ok: "blocks_ok dat bs sz" and i: "Suc i = length bs" and n: "0 < n" "n \<le> BLUESKY_BLOCK_SIZE"
    and b: "block_bytes dat' b n = resize_zero n (block_bytes dat (bs ! i) (blen sz i))"
    and others: "\<And>j. j < i \<Longrightarrow>
                   block_bytes dat' (bs ! j) (blen sz j) = block_bytes dat (bs ! j) (blen sz j)"
  shows "content dat' (bs[i := b]) (i * BLUESKY_BLOCK_SIZE + n)
         = resize_zero (i * BLUESKY_BLOCK_SIZE + n) (content dat bs sz)"
proof (rule nth_equalityI, simp)
  let ?sz' = "i * BLUESKY_BLOCK_SIZE + n"
  fix j
  assume "j < length (content dat' (bs[i := b]) ?sz')"
  then have j: "j < ?sz'" by simp
  let ?q = "j div BLUESKY_BLOCK_SIZE" and ?m = "j mod BLUESKY_BLOCK_SIZE"
  have sp: "j = ?q * BLUESKY_BLOCK_SIZE + ?m" by simp
  have len: "length bs = block_count sz" using ok by (simp add: blocks_ok_def)
  have isz: "i * BLUESKY_BLOCK_SIZE < sz" using i len by (simp add: block_count_bound [symmetric])
  have bi: "blen sz i = sz - i * BLUESKY_BLOCK_SIZE" using i len by (simp add: blen_last)
  have bi': "blen ?sz' i = n" using n by (simp add: blen_def)
  have lb: "length (block_bytes dat (bs ! i) (blen sz i)) = blen sz i"
    using ok i by (auto simp: blocks_ok_def intro!: block_bytes_length)
  have "j < Suc i * BLUESKY_BLOCK_SIZE" using j n by simp
  then have qi: "?q \<le> i" using less_mult_imp_div_less less_Suc_eq_le by blast
  show "content dat' (bs[i := b]) ?sz' ! j = resize_zero ?sz' (content dat bs sz) ! j"
  proof (cases "?q = i")
    case True
    then have jm: "j = i * BLUESKY_BLOCK_SIZE + ?m" using sp by simp
    then have m: "?m < n" and eq: "j < sz \<longleftrightarrow> ?m < blen sz i" using j isz bi by linarith+
    show ?thesis
      using j True i m eq lb by (auto simp: nth_content nth_resize_zero bi' b)
  next
    case False
    with qi have q: "?q < i" by simp
    then have full: "Suc ?q * BLUESKY_BLOCK_SIZE \<le> i * BLUESKY_BLOCK_SIZE" by (intro mult_right_mono) auto
    have b1: "blen ?sz' ?q = BLUESKY_BLOCK_SIZE" "blen sz ?q = BLUESKY_BLOCK_SIZE"
      using full isz by (auto simp: blen_def)
    have "?m < BLUESKY_BLOCK_SIZE" by simp
    then have "j < sz" using sp full isz unfolding mult_Suc by linarith
    with j False q others [of ?q] i b1 show ?thesis
      by (simp add: nth_content nth_resize_zero)
  qed
qed

lemma blocks_ok_resize_last:
  assumes ok: "blocks_ok dat bs sz" and i: "Suc i = length bs" and n: "0 < n" "n \<le> BLUESKY_BLOCK_SIZE"
    and b: "block_ok dat' b n"
    and others: "\<And>j. j < i \<Longrightarrow> block_ok dat' (bs ! j) (blen sz j)"
  shows "blocks_ok dat' (bs[i := b]) (i * BLUESKY_BLOCK_SIZE + n)"
proof -
  have cnt: "block_count (i * BLUESKY_BLOCK_SIZE + n) = Suc i"
    using n by (intro block_count_eqI) simp_all
  have last: "blen (i * BLUESKY_BLOCK_SIZE + n) i = n" using n by (simp add: blen_def)
  have init: "blen (i * BLUESKY_BLOCK_SIZE + n) j = blen sz j" if "j < i" for j
  proof -
    have "Suc j * BLUESKY_BLOCK_SIZE \<le> i * BLUESKY_BLOCK_SIZE" using that by (intro mult_right_mono) auto
    moreover have "blen sz j = BLUESKY_BLOCK_SIZE"
      using ok that i by (intro blen_full) (simp add: blocks_ok_def)
    ultimately show ?thesis by (simp add: blen_def)
  qed
  have "block_ok dat' (bs[i := b] ! j) (blen (i * BLUESKY_BLOCK_SIZE + n) j)" if "j < length bs" for j
    using that b others [of j] i by (cases "j = i") (auto simp: last init)
  then show ?thesis using cnt i by (simp add: blocks_ok_def)
qed

text \<open>Whole blocks appended or dropped.\<close>

lemma content_append_zero:
  assumes ok: "blocks_ok dat bs (length bs * BLUESKY_BLOCK_SIZE)"
    and k: "block_count sz = length bs + k" and le: "length bs * BLUESKY_BLOCK_SIZE \<le> sz"
  shows "content dat (bs @ replicate k zero_block) sz
         = resize_zero sz (content dat bs (length bs * BLUESKY_BLOCK_SIZE))"
    and "blocks_ok dat (bs @ replicate k zero_block) sz"
proof -
  have full: "blen sz j = blen (length bs * BLUESKY_BLOCK_SIZE) j" if "j < length bs" for j
  proof -
    have "Suc j * BLUESKY_BLOCK_SIZE \<le> length bs * BLUESKY_BLOCK_SIZE" using that by (intro mult_right_mono) auto
    with le show ?thesis by (simp add: blen_def)
  qed
  show "blocks_ok dat (bs @ replicate k zero_block) sz"
    using ok k full by (auto simp: blocks_ok_def nth_append)
  show "content dat (bs @ replicate k zero_block) sz
      = resize_zero sz (content dat bs (length bs * BLUESKY_BLOCK_SIZE))"
  proof (rule nth_equalityI, simp)
    fix j
    assume "j < length (content dat (bs @ replicate k zero_block) sz)"
    then have j: "j < sz" by simp
    have q: "j div BLUESKY_BLOCK_SIZE < length bs + k" using block_index [OF j] k by simp
    have eq: "j div BLUESKY_BLOCK_SIZE < length bs \<longleftrightarrow> j < length bs * BLUESKY_BLOCK_SIZE"
      by (rule div_less_iff_less_mult) simp
    show "content dat (bs @ replicate k zero_block) sz ! j
        = resize_zero sz (content dat bs (length bs * BLUESKY_BLOCK_SIZE)) ! j"
      using j q eq full block_offset [OF j]
      by (auto simp: nth_content nth_resize_zero nth_append)
  qed
qed

lemma content_take:
  assumes ok: "blocks_ok dat bs sz" and m: "m < length bs"
  shows "content dat (take m bs) (m * BLUESKY_BLOCK_SIZE) = take (m * BLUESKY_BLOCK_SIZE) (content dat bs sz)"
    and "blocks_ok dat (take m bs) (m * BLUESKY_BLOCK_SIZE)"
proof -
  have msz: "m * BLUESKY_BLOCK_SIZE < sz" using ok m by (simp add: blocks_ok_def block_count_bound)
  have full: "blen (m * BLUESKY_BLOCK_SIZE) j = blen sz j" if "j < m" for j
  proof -
    have "Suc j * BLUESKY_BLOCK_SIZE \<le> m * BLUESKY_BLOCK_SIZE" using that by (intro mult_right_mono) auto
    with msz show ?thesis by (simp add: blen_def)
  qed
  show "blocks_ok dat (take m bs) (m * BLUESKY_BLOCK_SIZE)"
    using ok m full by (simp add: blocks_ok_def block_count_mult)
  show "content dat (take m bs) (m * BLUESKY_BLOCK_SIZE) = take (m * BLUESKY_BLOCK_SIZE) (content dat bs sz)"
  proof (rule nth_equalityI)
    show "length (content dat (take m bs) (m * BLUESKY_BLOCK_SIZE))
        = length (take (m * BLUESKY_BLOCK_SIZE) (content dat bs sz))"
      using msz by simp
    fix j
    assume "j < length (content dat (take m bs) (m * BLUESKY_BLOCK_SIZE))"
    then have "j < m * BLUESKY_BLOCK_SIZE" by simp
    then show "content dat (take m bs) (m * BLUESKY_BLOCK_SIZE) ! j
        = take (m * BLUESKY_BLOCK_SIZE) (content dat bs sz) ! j"
      using msz full by (simp add: nth_content div_less_iff_less_mult)
  qed
qed

lemma block_refs_nth: "j < length bs \<Longrightarrow> b_ref (bs ! j) = Some r \<Longrightarrow> 0 < count_list (block_refs bs) r"
  by (auto simp: count_list_0_iff set_block_refs gr0_conv_Suc [symmetric] neq0_conv [symmetric]
      simp del: neq0_conv intro!: bexI [of _ "bs ! j"])

lemma file_wfD:
  assumes "file_wf ok held item_data k (inode, fs)"
  shows "ok (backing fs)"
    and "unat (i_size inode) \<le> BLUESKY_MAX_FILE_SIZE"
    and "blocks_ok (item_data (backing fs)) (i_blocks inode) (unat (i_size inode))"
    and "count_list (block_refs (i_blocks inode)) r \<le> held (backing fs) r"
    and "cache_dirty fs = k + int (dirty_count (i_blocks inode))"
  using assms by (auto simp: file_wf_def)

lemma file_wf_held:
  assumes wf: "file_wf ok held item_data k (inode, fs)"
    and b: "b \<in> set (i_blocks inode)" "b_type b = BLUESKY_BLOCK_REF"
  shows "\<exists>r. b_ref b = Some r \<and> 0 < held (backing fs) r"
proof -
  obtain i where i: "i < length (i_blocks inode)" "b = i_blocks inode ! i"
    using b(1) by (auto simp: in_set_conv_nth)
  then have "block_ok (item_data (backing fs)) b (blen (unat (i_size inode)) i)"
    using file_wfD(3) [OF wf] by (simp add: blocks_ok_def)
  with b(2) obtain r where r: "b_ref b = Some r" by (auto simp: block_ok_def)
  have "0 < count_list (block_refs (i_blocks inode)) r" using block_refs_nth i r by simp
  with r file_wfD(4) [OF wf, of r] show ?thesis by simp
qed


section \<open>The file layer over any backend\<close>

text \<open>
  One block of a well-formed file is replaced: the file stays well-formed and
  the other blocks keep their bytes, as long as the references that remain are
  still held and still have their data.
\<close>

lemma file_wf_replace:
  assumes wf: "file_wf ok held item_data k (inode, fs)" and i: "i < length (i_blocks inode)"
    and ok': "ok (backing fs')"
    and nb: "block_ok (item_data (backing fs')) nb (blen (unat (i_size inode)) i)"
    and refs: "\<And>r. count_list (block_refs ((i_blocks inode)[i := nb])) r \<le> held (backing fs') r"
    and dat: "\<And>r. r \<in> set (block_refs ((i_blocks inode)[i := zero_block])) \<Longrightarrow>
                  item_data (backing fs') r = item_data (backing fs) r"
    and cd: "cache_dirty fs' = k + int (dirty_count ((i_blocks inode)[i := nb]))"
  shows "file_wf ok held item_data k (inode\<lparr>i_blocks := (i_blocks inode)[i := nb]\<rparr>, fs')"
    and "\<And>j. j < length (i_blocks inode) \<Longrightarrow> j \<noteq> i \<Longrightarrow>
           block_bytes (item_data (backing fs')) (i_blocks inode ! j) (blen (unat (i_size inode)) j)
           = block_bytes (item_data (backing fs)) (i_blocks inode ! j) (blen (unat (i_size inode)) j)"
proof -
  let ?bs = "i_blocks inode" and ?sz = "unat (i_size inode)"
  have other: "block_ok (item_data (backing fs')) (?bs ! j) (blen ?sz j) \<and>
      block_bytes (item_data (backing fs')) (?bs ! j) (blen ?sz j)
      = block_bytes (item_data (backing fs)) (?bs ! j) (blen ?sz j)"
    if j: "j < length ?bs" "j \<noteq> i" for j
  proof (rule block_ok_cong)
    show "block_ok (item_data (backing fs)) (?bs ! j) (blen ?sz j)"
      using file_wfD(3) [OF wf] j by (simp add: blocks_ok_def)
    fix r
    assume "b_ref (?bs ! j) = Some r"
    moreover have "?bs ! j \<in> set (?bs[i := zero_block])"
      using j nth_mem [of j "?bs[i := zero_block]"] by simp
    ultimately show "item_data (backing fs') r = item_data (backing fs) r"
      by (intro dat) (auto simp: set_block_refs)
  qed
  then show "\<And>j. j < length ?bs \<Longrightarrow> j \<noteq> i \<Longrightarrow>
      block_bytes (item_data (backing fs')) (?bs ! j) (blen ?sz j)
      = block_bytes (item_data (backing fs)) (?bs ! j) (blen ?sz j)"
    by blast
  have "blocks_ok (item_data (backing fs')) (?bs[i := nb]) ?sz"
    using file_wfD(3) [OF wf] other nb i by (auto simp: blocks_ok_def nth_list_update)
  then show "file_wf ok held item_data k (inode\<lparr>i_blocks := ?bs[i := nb]\<rparr>, fs')"
    using ok' file_wfD(2) [OF wf] refs cd by (simp add: file_wf_def)
qed

definition dirty_block :: "bytes \<Rightarrow> block" where
  "dirty_block d = \<lparr>b_type = BLUESKY_BLOCK_DIRTY, b_ref = None, b_dirty = Some d\<rparr>"

lemma dirty_block_simps [simp]:
  "b_type (dirty_block d) = BLUESKY_BLOCK_DIRTY" "b_ref (dirty_block d) = None"
  "b_dirty (dirty_block d) = Some d" "block_ok dat (dirty_block d) n \<longleftrightarrow> length d = n"
  "block_bytes dat (dirty_block d) n = d" "b_dirty_update (\<lambda>_. Some d') (dirty_block d) = dirty_block d'"
  by (auto simp: dirty_block_def block_ok_def block_bytes_def)

lemma set_dirty_dirty:
  "i < length bs \<Longrightarrow> set_dirty (inode\<lparr>i_blocks := bs[i := dirty_block d]\<rparr>) i d'
   = inode\<lparr>i_blocks := bs[i := dirty_block d']\<rparr>"
  by (simp add: set_dirty_def)

lemma touch_size_irrelevant:
  assumes "b_type (i_blocks inode ! i) \<noteq> BLUESKY_BLOCK_ZERO" "i < length (i_blocks inode)"
  shows "bluesky_block_touch be (inode, fs) i True
         = map_option (\<lambda>(ino, fs'). (ino\<lparr>i_size := i_size inode\<rparr>, fs'))
             (bluesky_block_touch be (inode\<lparr>i_size := sz\<rparr>, fs) i True)"
  using assms
  by (cases "b_type (i_blocks inode ! i)")
    (auto simp: bluesky_block_touch_def Let_def bluesky_block_fetch_def split: option.splits)

lemma file_wf_redirty:
  assumes wf: "file_wf ok held item_data k (inode\<lparr>i_blocks := bs[i := dirty_block d]\<rparr>, fs)"
    and i: "i < length bs" and d': "length d' = length d"
  shows "file_wf ok held item_data k (inode\<lparr>i_blocks := bs[i := dirty_block d']\<rparr>, fs)"
proof -
  let ?ino = "inode\<lparr>i_blocks := bs[i := dirty_block d]\<rparr>"
  note w = file_wfD [OF wf]
  have bok: "block_ok (item_data (backing fs)) (dirty_block d) (blen (unat (i_size inode)) i)"
    using w(3) i by (auto simp: blocks_ok_def)
  have refs: "count_list (block_refs (bs[i := dirty_block d'])) r
      = count_list (block_refs (bs[i := dirty_block d])) r" for r
    using count_refs_update [OF i, of "dirty_block d" r] count_refs_update [OF i, of "dirty_block d'" r]
    by simp
  have dirty: "dirty_count (bs[i := dirty_block d']) = dirty_count (bs[i := dirty_block d])"
    using dirty_count_update [OF i, of "dirty_block d"] dirty_count_update [OF i, of "dirty_block d'"]
    by simp
  have "file_wf ok held item_data k (?ino\<lparr>i_blocks := (i_blocks ?ino)[i := dirty_block d']\<rparr>, fs)"
    by (rule file_wf_replace(1) [OF wf]) (use w bok refs dirty i d' in auto)
  then show ?thesis by simp
qed

text \<open>What the operations leave alone of an inode.\<close>

lemma same_blocks: "\<exists>bs. (i :: inode) = i\<lparr>i_blocks := bs\<rparr>"
  by (rule exI [of _ "i_blocks i"]) simp

lemma touch_inode:
  "bluesky_block_touch be s i p = Some s' \<Longrightarrow> \<exists>bs. fst s' = (fst s)\<lparr>i_blocks := bs\<rparr>"
  by (cases s) (auto simp: bluesky_block_touch_def Let_def split: if_splits option.splits intro: same_blocks)

lemma write_loop_inode:
  "write_loop be s off d = Some s' \<Longrightarrow> \<exists>bs. fst s' = (fst s)\<lparr>i_blocks := bs\<rparr>"
proof (induction "length d" arbitrary: s off d rule: less_induct)
  case less
  show ?case
  proof (cases "d = []")
    case True
    with less(2) show ?thesis by (subst (asm) write_loop.simps) (auto intro: same_blocks)
  next
    case False
    let ?n = "min (BLUESKY_BLOCK_SIZE - off mod BLUESKY_BLOCK_SIZE) (length d)" and ?b = "off div BLUESKY_BLOCK_SIZE"
    from less(2) False obtain p inode fs e where t: "bluesky_block_touch be s ?b p = Some (inode, fs)"
      and w: "write_loop be (set_dirty inode ?b e, fs) (off + ?n) (drop ?n d) = Some s'"
      by (subst (asm) write_loop.simps) (auto simp: Let_def split: option.splits if_splits)
    have "length (drop ?n d) < length d" using False by simp
    from less(1) [OF this w] obtain bs where "fst s' = (set_dirty inode ?b e)\<lparr>i_blocks := bs\<rparr>" by auto
    with touch_inode [OF t] show ?thesis by (auto simp: set_dirty_def)
  qed
qed

lemma write_inode:
  assumes "bluesky_file_write be now s off d = Some s'"
  shows "i_type (fst s') = i_type (fst s)" "i_inum (fst s') = i_inum (fst s)"
  using assms write_loop_inode [of be s "unat off" d]
  by (auto simp: bluesky_file_write_def Let_def bluesky_inode_update_ctime_def update_ctime_fields_def split: if_splits prod.splits)

context block_backend
begin

lemma touch_wf:
  assumes wf: "file_wf ok held item_data k (inode, fs)" and i: "i < length (i_blocks inode)"
  obtains d fs' where
    "bluesky_block_touch be (inode, fs) i preserve
     = Some (inode\<lparr>i_blocks := (i_blocks inode)[i := dirty_block d]\<rparr>, fs')"
    "length d = blen (unat (i_size inode)) i"
    "preserve \<Longrightarrow> d = block_bytes (item_data (backing fs)) (i_blocks inode ! i) (blen (unat (i_size inode)) i)"
    "file_wf ok held item_data k (inode\<lparr>i_blocks := (i_blocks inode)[i := dirty_block d]\<rparr>, fs')"
    "\<And>j. j < length (i_blocks inode) \<Longrightarrow> j \<noteq> i \<Longrightarrow>
       block_bytes (item_data (backing fs')) (i_blocks inode ! j) (blen (unat (i_size inode)) j)
       = block_bytes (item_data (backing fs)) (i_blocks inode ! j) (blen (unat (i_size inode)) j)"
proof -
  let ?bs = "i_blocks inode" and ?sz = "unat (i_size inode)" and ?b = "i_blocks inode ! i"
  let ?old = "block_bytes (item_data (backing fs)) ?b (blen ?sz i)"
  note w = file_wfD [OF wf]
  have bok: "block_ok (item_data (backing fs)) ?b (blen ?sz i)"
    using w(3) i by (simp add: blocks_ok_def)
  have blen: "block_len inode i = blen ?sz i"
    using w(2,3) i by (intro block_len_blen) (auto simp: blocks_ok_def)
  have cnt: "count_list (block_refs (?bs[i := dirty_block d])) r
      = count_list (block_refs ?bs) r - (if b_ref ?b = Some r then 1 else 0)" for d r
    using count_refs_update [OF i, of "dirty_block d" r] by simp
  have cnt0: "block_refs (?bs[i := zero_block]) = block_refs (?bs[i := dirty_block d])" for d
    using i by (simp add: upd_conv_take_nth_drop zero_block_def)
  have dc: "dirty_count (?bs[i := dirty_block d])
      = dirty_count ?bs + (if b_type ?b = BLUESKY_BLOCK_DIRTY then 0 else 1)" for d
    using dirty_count_update [OF i, of "dirty_block d"] by (auto split: if_splits)
  show thesis
  proof (cases "b_ref ?b")
    case None
    define d where "d = (if b_type ?b = BLUESKY_BLOCK_DIRTY then the (b_dirty ?b) else replicate (blen ?sz i) 0)"
    define fs' where "fs' = (if b_type ?b \<noteq> BLUESKY_BLOCK_DIRTY then fs\<lparr>cache_dirty := cache_dirty fs + 1\<rparr> else fs)"
    have d: "length d = blen ?sz i" "d = ?old"
      using bok None by (auto simp: d_def block_ok_def block_bytes_def split: block_type.splits)
    have run: "bluesky_block_touch be (inode, fs) i preserve
        = Some (inode\<lparr>i_blocks := ?bs[i := dirty_block d]\<rparr>, fs')"
      using bok None i blen
      by (cases "b_type ?b")
        (auto simp: bluesky_block_touch_def Let_def d_def fs'_def dirty_block_def block_ok_def)
    have same: "backing fs' = backing fs" by (simp add: fs'_def)
    have new: "ok (backing fs')" "block_ok (item_data (backing fs')) (dirty_block d) (blen ?sz i)"
      "\<And>r. count_list (block_refs (?bs[i := dirty_block d])) r \<le> held (backing fs') r"
      "\<And>r. item_data (backing fs') r = item_data (backing fs) r"
      "cache_dirty fs' = k + int (dirty_count (?bs[i := dirty_block d]))"
      using w(1,4,5) d(1) by (auto simp: same cnt None dc fs'_def)
    note rep = file_wf_replace [OF wf i new]
    show thesis
      by (rule that [OF run d(1) d(2) rep])
  next
    case (Some r)
    then have ty: "b_type ?b = BLUESKY_BLOCK_REF"
      using bok by (auto simp: block_ok_def split: block_type.splits)
    have h: "0 < held (backing fs) r"
      using block_refs_nth [OF i Some] w(4) [of r] by simp
    obtain c where c: "be_fetch be r (backing fs) = Some (item_data (backing fs) r, c)" "ok c"
      "same_items held item_data (backing fs) c"
      using fetch_data [OF w(1) h] by blast
    define c1 where "c1 = (if preserve then c else backing fs)"
    define d where "d = (if preserve then item_data (backing fs) r else replicate (blen ?sz i) 0)"
    define fs' where "fs' = fs\<lparr>cache_dirty := cache_dirty fs + 1, backing := be_unref be r c1\<rparr>"
    have c1: "ok c1" "held c1 = held (backing fs)"
      "\<And>r. 0 < held (backing fs) r \<Longrightarrow> item_data c1 r = item_data (backing fs) r"
      using c w(1) by (auto simp: c1_def same_items_def)
    have c': "ok (be_unref be r c1)" "held (be_unref be r c1) = (held (backing fs))(r := held (backing fs) r - 1)"
      "\<And>r'. 0 < held (be_unref be r c1) r' \<Longrightarrow> item_data (be_unref be r c1) r' = item_data c1 r'"
      using unref_releases [OF c1(1), of r] c1(2) h by auto
    have d: "length d = blen ?sz i" "preserve \<Longrightarrow> d = ?old"
      using bok Some ty by (auto simp: d_def block_ok_def block_bytes_def)
    have run: "bluesky_block_touch be (inode, fs) i preserve
        = Some (inode\<lparr>i_blocks := ?bs[i := dirty_block d]\<rparr>, fs')"
      using Some ty i blen c(1)
      by (auto simp: bluesky_block_touch_def bluesky_block_fetch_def Let_def d_def fs'_def c1_def dirty_block_def)
    have refs: "count_list (block_refs (?bs[i := dirty_block d])) r' \<le> held (backing fs') r'" for r'
      using w(4) [of r'] by (auto simp: cnt Some fs'_def c'(2))
    have dat: "item_data (backing fs') r' = item_data (backing fs) r'"
      if "r' \<in> set (block_refs (?bs[i := zero_block]))" for r'
    proof -
      have pos: "0 < held (backing fs') r'"
        using that refs [of r'] cnt0 [of d] by (metis count_list_0_iff gr0I le_zero_eq)
      then have "0 < held (backing fs) r'" by (auto simp: fs'_def c'(2) split: if_splits)
      with pos c'(3) c1(3) show ?thesis by (simp add: fs'_def)
    qed
    have new: "ok (backing fs')" "block_ok (item_data (backing fs')) (dirty_block d) (blen ?sz i)"
      "cache_dirty fs' = k + int (dirty_count (?bs[i := dirty_block d]))"
      using c'(1) d(1) w(5) by (auto simp: dc ty fs'_def)
    note rep = file_wf_replace [OF wf i new(1,2) refs dat new(3)]
    show thesis
      by (rule that [OF run d rep])
  qed
qed

text \<open>One round of the write loop: the touched block gets the bytes.\<close>

lemma write_block:
  assumes wf: "file_wf ok held item_data k (inode, fs)" and i: "i < length (i_blocks inode)"
    and fits: "off + length d \<le> blen (unat (i_size inode)) i"
    and pres: "\<not> preserve \<Longrightarrow> off = 0 \<and> length d = blen (unat (i_size inode)) i"
  obtains old bs fs' where
    "bluesky_block_touch be (inode, fs) i preserve
       = Some (inode\<lparr>i_blocks := (i_blocks inode)[i := dirty_block old]\<rparr>, fs')"
    "memcpy_at off d old = Some (overwrite off d old)"
    "bs = (i_blocks inode)[i := dirty_block (overwrite off d old)]"
    "file_wf ok held item_data k (inode\<lparr>i_blocks := bs\<rparr>, fs')"
    "file_content item_data (inode\<lparr>i_blocks := bs\<rparr>, fs')
       = overwrite (i * BLUESKY_BLOCK_SIZE + off) d (file_content item_data (inode, fs))"
proof -
  let ?bs = "i_blocks inode" and ?sz = "unat (i_size inode)"
  let ?bytes = "\<lambda>fs. block_bytes (item_data (backing fs))"
  obtain old fs' where t: "bluesky_block_touch be (inode, fs) i preserve
        = Some (inode\<lparr>i_blocks := ?bs[i := dirty_block old]\<rparr>, fs')"
    and len: "length old = blen ?sz i"
    and keep: "preserve \<Longrightarrow> old = ?bytes fs (?bs ! i) (blen ?sz i)"
    and wf1: "file_wf ok held item_data k (inode\<lparr>i_blocks := ?bs[i := dirty_block old]\<rparr>, fs')"
    and others: "\<And>j. j < length ?bs \<Longrightarrow> j \<noteq> i \<Longrightarrow>
                   ?bytes fs' (?bs ! j) (blen ?sz j) = ?bytes fs (?bs ! j) (blen ?sz j)"
    using touch_wf [OF wf i] by metis
  have blocks: "blocks_ok (item_data (backing fs)) ?bs ?sz" by (rule file_wfD(3) [OF wf])
  have lb: "length (?bytes fs (?bs ! i) (blen ?sz i)) = blen ?sz i"
    using blocks i by (auto simp: blocks_ok_def intro!: block_bytes_length)
  have new: "overwrite off d old = overwrite off d (?bytes fs (?bs ! i) (blen ?sz i))"
  proof (cases preserve)
    case False
    with pres len lb show ?thesis by (simp add: overwrite_def)
  qed (simp add: keep)
  have "file_wf ok held item_data k (inode\<lparr>i_blocks := ?bs[i := dirty_block (overwrite off d old)]\<rparr>, fs')"
    by (rule file_wf_redirty [OF wf1 i]) (use fits len in simp)
  moreover have "content (item_data (backing fs')) (?bs[i := dirty_block (overwrite off d old)]) ?sz
      = overwrite (i * BLUESKY_BLOCK_SIZE + off) d (content (item_data (backing fs)) ?bs ?sz)"
    by (rule content_block_overwrite [OF blocks i fits]) (use new others in auto)
  ultimately show thesis
    using that [OF t _ refl] fits len by (simp add: memcpy_at_def file_content_def)
qed

lemma write_loop_ok:
  "file_wf ok held item_data k (inode, fs) \<Longrightarrow> off + length d \<le> unat (i_size inode) \<Longrightarrow>
   \<exists>bs fs'. write_loop be (inode, fs) off d = Some (inode\<lparr>i_blocks := bs\<rparr>, fs') \<and>
            file_wf ok held item_data k (inode\<lparr>i_blocks := bs\<rparr>, fs') \<and>
            file_content item_data (inode\<lparr>i_blocks := bs\<rparr>, fs')
              = overwrite off d (file_content item_data (inode, fs))"
proof (induction "length d" arbitrary: inode fs off d rule: less_induct)
  case less
  note wf = less.prems(1) and fits = less.prems(2)
  let ?sz = "unat (i_size inode)" and ?bn = "off div BLUESKY_BLOCK_SIZE"
  let ?bo = "off mod BLUESKY_BLOCK_SIZE"
  let ?n = "min (BLUESKY_BLOCK_SIZE - ?bo) (length d)"
  let ?bsize = "if Suc ?bn = length (i_blocks inode)
                then unat (i_size inode - of_nat (?bn * BLUESKY_BLOCK_SIZE)) else BLUESKY_BLOCK_SIZE"
  show ?case
  proof (cases "d = []")
    case True
    with wf show ?thesis
      by (intro exI [of _ "i_blocks inode"] exI [of _ fs]) (simp add: write_loop.simps)
  next
    case False
    then have pos: "0 < length d" by simp
    note geo = first_block [OF fits pos]
    have len: "length (i_blocks inode) = block_count ?sz"
      using file_wfD(3) [OF wf] by (simp add: blocks_ok_def)
    then have i: "?bn < length (i_blocks inode)" using geo(1) by simp
    have bsize: "?bsize = blen ?sz ?bn"
      using block_len_blen [OF file_wfD(2) [OF wf] len i] i
      by (auto simp: block_len_def split: if_splits)
    have n: "length (take ?n d) = ?n" by simp
    have fits': "?bo + length (take ?n d) \<le> blen ?sz ?bn" unfolding n by (rule geo(2))
    have pres: "\<not> \<not> (?bo = 0 \<and> ?n = ?bsize) \<Longrightarrow> ?bo = 0 \<and> length (take ?n d) = blen ?sz ?bn"
      unfolding n bsize by blast
    obtain old bs fs' where
      t: "bluesky_block_touch be (inode, fs) ?bn (\<not> (?bo = 0 \<and> ?n = ?bsize))
            = Some (inode\<lparr>i_blocks := (i_blocks inode)[?bn := dirty_block old]\<rparr>, fs')"
      and m: "memcpy_at ?bo (take ?n d) old = Some (overwrite ?bo (take ?n d) old)"
      and bs: "bs = (i_blocks inode)[?bn := dirty_block (overwrite ?bo (take ?n d) old)]"
      and wf': "file_wf ok held item_data k (inode\<lparr>i_blocks := bs\<rparr>, fs')"
      and cont: "file_content item_data (inode\<lparr>i_blocks := bs\<rparr>, fs')
            = overwrite (?bn * BLUESKY_BLOCK_SIZE + ?bo) (take ?n d) (file_content item_data (inode, fs))"
      by (rule write_block [OF wf i fits' pres])
    have step: "write_loop be (inode, fs) off d
        = write_loop be (inode\<lparr>i_blocks := bs\<rparr>, fs') (off + ?n) (drop ?n d)"
      by (subst write_loop.simps, simp only: Let_def False if_False fst_conv t option.case prod.case)
        (simp add: i m bs set_dirty_dirty)
    have "\<exists>bs' fs''. write_loop be (inode\<lparr>i_blocks := bs\<rparr>, fs') (off + ?n) (drop ?n d)
              = Some (inode\<lparr>i_blocks := bs, i_blocks := bs'\<rparr>, fs'') \<and>
            file_wf ok held item_data k (inode\<lparr>i_blocks := bs, i_blocks := bs'\<rparr>, fs'') \<and>
            file_content item_data (inode\<lparr>i_blocks := bs, i_blocks := bs'\<rparr>, fs'')
              = overwrite (off + ?n) (drop ?n d) (file_content item_data (inode\<lparr>i_blocks := bs\<rparr>, fs'))"
      by (rule less.hyps [OF _ wf']) (use pos geo(3) fits in auto)
    moreover have "overwrite (off + ?n) (drop ?n d) (file_content item_data (inode\<lparr>i_blocks := bs\<rparr>, fs'))
        = overwrite off d (file_content item_data (inode, fs))"
      using overwrite_append_overwrite [of off "take ?n d" "drop ?n d" "file_content item_data (inode, fs)"] fits
      unfolding cont n by (simp add: file_content_def)
    ultimately show ?thesis unfolding step by simp
  qed
qed

text \<open>Operations on the backend that a client cannot see keep a file and its content.\<close>

lemma file_same:
  assumes wf: "file_wf ok held item_data k (inode, fs)"
    and ok': "ok c" and same: "same_items held item_data (backing fs) c"
  shows "file_wf ok held item_data k (inode, fs\<lparr>backing := c\<rparr>)"
    and "file_content item_data (inode, fs\<lparr>backing := c\<rparr>) = file_content item_data (inode, fs)"
    and "\<And>j. j < length (i_blocks inode) \<Longrightarrow>
           block_bytes (item_data c) (i_blocks inode ! j) n
           = block_bytes (item_data (backing fs)) (i_blocks inode ! j) n"
proof -
  let ?bs = "i_blocks inode" and ?sz = "unat (i_size inode)"
  note w = file_wfD [OF wf]
  have dat: "item_data c r = item_data (backing fs) r" if "b_ref (?bs ! j) = Some r" "j < length ?bs" for j r
    using block_refs_nth [OF that(2,1)] w(4) [of r] same by (auto simp: same_items_def)
  then show bytes: "\<And>j. j < length ?bs \<Longrightarrow>
      block_bytes (item_data c) (?bs ! j) n = block_bytes (item_data (backing fs)) (?bs ! j) n" for n
    using w(3) by (auto simp: blocks_ok_def block_ok_def block_bytes_def split: block_type.splits)
  have "block_ok (item_data c) (?bs ! j) (blen ?sz j)" if "j < length ?bs" for j
    using block_ok_cong [of "item_data (backing fs)" "?bs ! j" "blen ?sz j" "item_data c"] w(3) dat that
    by (auto simp: blocks_ok_def)
  then show "file_wf ok held item_data k (inode, fs\<lparr>backing := c\<rparr>)"
    using w(2,3,4,5) ok' same by (auto simp: file_wf_def blocks_ok_def same_items_def)
  show "file_content item_data (inode, fs\<lparr>backing := c\<rparr>) = file_content item_data (inode, fs)"
    using bytes w(3) by (auto simp: file_content_def content_def blocks_ok_def block_index intro!: map_cong)
qed

lemma read_block_ok:
  assumes wf: "file_wf ok held item_data k (inode, fs)" and i: "i < length (i_blocks inode)"
    and fits: "off + n \<le> blen (unat (i_size inode)) i"
  shows "\<exists>fs'. read_block be (i_blocks inode ! i) off n fs
           = Some (slice off n (block_bytes (item_data (backing fs)) (i_blocks inode ! i)
                                  (blen (unat (i_size inode)) i)), fs') \<and>
         file_wf ok held item_data k (inode, fs') \<and>
         file_content item_data (inode, fs') = file_content item_data (inode, fs)"
proof -
  let ?b = "i_blocks inode ! i" and ?n = "blen (unat (i_size inode)) i"
  have bok: "block_ok (item_data (backing fs)) ?b ?n"
    using file_wfD(3) [OF wf] i by (simp add: blocks_ok_def)
  show ?thesis
  proof (cases "b_type ?b")
    case BLUESKY_BLOCK_ZERO
    then show ?thesis using wf fits by (auto simp: read_block_def block_bytes_def slice_def)
  next
    case BLUESKY_BLOCK_DIRTY
    then show ?thesis
      using wf fits bok by (auto simp: read_block_def block_bytes_def block_ok_def read_at_def)
  next
    case BLUESKY_BLOCK_REF
    with bok obtain r where r: "b_ref ?b = Some r" "length (item_data (backing fs) r) = ?n"
      by (auto simp: block_ok_def)
    then have "0 < held (backing fs) r"
      using block_refs_nth [OF i r(1)] file_wfD(4) [OF wf, of r] by simp
    from fetch_data [OF file_wfD(1) [OF wf] this] obtain c
      where c: "be_fetch be r (backing fs) = Some (item_data (backing fs) r, c)"
        and keep: "ok c" "same_items held item_data (backing fs) c" by blast
    have "read_block be ?b off n fs
        = Some (slice off n (block_bytes (item_data (backing fs)) ?b ?n), fs\<lparr>backing := c\<rparr>)"
      using BLUESKY_BLOCK_REF r c fits
      by (simp add: read_block_def bluesky_block_fetch_def block_bytes_def read_at_def)
    with file_same(1,2) [OF wf keep] show ?thesis by blast
  qed
qed

lemma slice_content:
  assumes ok: "blocks_ok dat bs sz" and i: "i < length bs" and fits: "off + n \<le> blen sz i"
  shows "slice (i * BLUESKY_BLOCK_SIZE + off) n (content dat bs sz)
         = slice off n (block_bytes dat (bs ! i) (blen sz i))"
proof (rule nth_equalityI)
  have lb: "length (block_bytes dat (bs ! i) (blen sz i)) = blen sz i"
    using ok i by (auto simp: blocks_ok_def intro!: block_bytes_length)
  have "i * BLUESKY_BLOCK_SIZE < sz" using ok i by (simp add: blocks_ok_def block_count_bound)
  then have le: "i * BLUESKY_BLOCK_SIZE + off + n \<le> sz" and lt: "off + n \<le> BLUESKY_BLOCK_SIZE"
    using fits unfolding blen_def by linarith+
  then show "length (slice (i * BLUESKY_BLOCK_SIZE + off) n (content dat bs sz))
      = length (slice off n (block_bytes dat (bs ! i) (blen sz i)))"
    using lb fits by (simp add: slice_def)
  fix j
  assume "j < length (slice (i * BLUESKY_BLOCK_SIZE + off) n (content dat bs sz))"
  then have j: "j < n" using le by (simp add: slice_def)
  have "(i * BLUESKY_BLOCK_SIZE + (off + j)) div BLUESKY_BLOCK_SIZE = i"
    "(i * BLUESKY_BLOCK_SIZE + (off + j)) mod BLUESKY_BLOCK_SIZE = off + j"
    using j lt by simp_all
  then show "slice (i * BLUESKY_BLOCK_SIZE + off) n (content dat bs sz) ! j
      = slice off n (block_bytes dat (bs ! i) (blen sz i)) ! j"
    using j le lb fits by (simp add: nth_slice nth_content add.assoc)
qed

lemma read_loop_ok:
  "file_wf ok held item_data k (inode, fs) \<Longrightarrow> off + len \<le> unat (i_size inode) \<Longrightarrow>
   \<exists>fs'. read_loop be inode off len fs = Some (slice off len (file_content item_data (inode, fs)), fs') \<and>
         file_wf ok held item_data k (inode, fs') \<and>
         file_content item_data (inode, fs') = file_content item_data (inode, fs)"
proof (induction len arbitrary: off fs rule: less_induct)
  case (less len)
  note wf = less.prems(1) and fits = less.prems(2)
  let ?i = "off div BLUESKY_BLOCK_SIZE" and ?o = "off mod BLUESKY_BLOCK_SIZE"
  let ?n = "min (BLUESKY_BLOCK_SIZE - ?o) len"
  show ?case
  proof (cases "len = 0")
    case True
    with wf show ?thesis by (auto simp: read_loop.simps slice_def)
  next
    case False
    then have geo: "?i < block_count (unat (i_size inode))" "?o + ?n \<le> blen (unat (i_size inode)) ?i" "0 < ?n"
      using first_block [OF fits] by auto
    have blocks: "blocks_ok (item_data (backing fs)) (i_blocks inode) (unat (i_size inode))"
      by (rule file_wfD(3) [OF wf])
    then have i: "?i < length (i_blocks inode)" using geo(1) by (simp add: blocks_ok_def)
    let ?c = "file_content item_data (inode, fs)"
    have sl: "slice ?o ?n (block_bytes (item_data (backing fs)) (i_blocks inode ! ?i)
                             (blen (unat (i_size inode)) ?i)) = slice off ?n ?c"
      using slice_content [OF blocks i geo(2)] by (simp add: file_content_def)
    obtain fs1 where r1: "read_block be (i_blocks inode ! ?i) ?o ?n fs = Some (slice off ?n ?c, fs1)"
      and wf1: "file_wf ok held item_data k (inode, fs1)"
      and c1: "file_content item_data (inode, fs1) = ?c"
      using read_block_ok [OF wf i geo(2)] unfolding sl by blast
    have "len - ?n < len" "(off + ?n) + (len - ?n) \<le> unat (i_size inode)" using geo(3) fits by auto
    from less.IH [OF this(1) wf1 this(2)] obtain fs2
      where r2: "read_loop be inode (off + ?n) (len - ?n) fs1 = Some (slice (off + ?n) (len - ?n) ?c, fs2)"
      and wf2: "file_wf ok held item_data k (inode, fs2)"
      and c2: "file_content item_data (inode, fs2) = ?c" unfolding c1 by blast
    have "slice off ?n ?c @ slice (off + ?n) (len - ?n) ?c = slice off len ?c"
      using slice_add [of off ?n ?c "len - ?n"] by simp
    then have "read_loop be inode off len fs = Some (slice off len ?c, fs2)"
      by (subst read_loop.simps, simp only: Let_def False if_False r1 option.case prod.case r2) (simp add: i)
    with wf2 c2 show ?thesis by blast
  qed
qed

text \<open>Prefetching and dropping cached data are invisible to the file.\<close>

lemma prefetch_blocks_ok:
  assumes "file_wf ok held item_data k (inode, fs)" "set bs \<subseteq> set (i_blocks inode)"
  shows "\<exists>fs'. prefetch_blocks be bs fs = Some fs' \<and> file_wf ok held item_data k (inode, fs') \<and>
               file_content item_data (inode, fs') = file_content item_data (inode, fs)"
  using assms
proof (induction bs arbitrary: fs)
  case (Cons b bs)
  show ?case
  proof (cases "b_type b = BLUESKY_BLOCK_REF")
    case True
    with Cons.prems obtain r where r: "b_ref b = Some r" and h: "0 < held (backing fs) r"
      using file_wf_held [OF Cons.prems(1), of b] by auto
    note keep = prefetch_keeps [OF file_wfD(1) [OF Cons.prems(1)] h]
    note same = file_same(1,2) [OF Cons.prems(1) keep [THEN conjunct1] keep [THEN conjunct2]]
    show ?thesis using Cons.IH [OF same(1)] Cons.prems(2) same(2) True r by simp
  qed (use Cons in simp)
qed simp

lemma drop_blocks_ok:
  assumes "file_wf ok held item_data k (inode, fs)" "set bs \<subseteq> set (i_blocks inode)"
  shows "\<exists>fs'. drop_blocks be bs fs = Some fs' \<and> file_wf ok held item_data k (inode, fs') \<and>
               file_content item_data (inode, fs') = file_content item_data (inode, fs)"
  using assms
proof (induction bs arbitrary: fs)
  case (Cons b bs)
  show ?case
  proof (cases "b_type b = BLUESKY_BLOCK_REF")
    case True
    with Cons.prems obtain r where r: "b_ref b = Some r" and h: "0 < held (backing fs) r"
      using file_wf_held [OF Cons.prems(1), of b] by auto
    note keep = drop_keeps [OF file_wfD(1) [OF Cons.prems(1)] h]
    note same = file_same(1,2) [OF Cons.prems(1) keep [THEN conjunct1] keep [THEN conjunct2]]
    show ?thesis using Cons.IH [OF same(1)] Cons.prems(2) same(2) True r by simp
  qed (use Cons in simp)
qed simp

text \<open>Truncation: the blocks that are dropped give up their references.\<close>

lemma release_blocks_ok:
  assumes "ok (backing fs)"
    "\<And>r. count_list (block_refs xs) r + count_list (block_refs ys) r \<le> held (backing fs) r"
    "cache_dirty fs = k + int (dirty_count xs) + int (dirty_count ys)"
  shows "ok (backing (release_blocks be ys fs)) \<and>
         (\<forall>r. count_list (block_refs xs) r \<le> held (backing (release_blocks be ys fs)) r) \<and>
         (\<forall>r \<in> set (block_refs xs). item_data (backing (release_blocks be ys fs)) r = item_data (backing fs) r) \<and>
         cache_dirty (release_blocks be ys fs) = k + int (dirty_count xs)"
  using assms
proof (induction ys arbitrary: fs)
  case (Cons b ys)
  define fs1 where "fs1 = (if b_type b = BLUESKY_BLOCK_DIRTY then fs\<lparr>cache_dirty := cache_dirty fs - 1\<rparr> else fs)"
  have b1: "backing fs1 = backing fs" by (simp add: fs1_def)
  have d1: "cache_dirty fs1 = k + int (dirty_count xs) + int (dirty_count ys)"
    using Cons.prems(3) by (auto simp: fs1_def)
  show ?case
  proof (cases "b_ref b")
    case None
    then have "\<And>r. count_list (block_refs xs) r + count_list (block_refs ys) r \<le> held (backing fs1) r"
      using Cons.prems(2) by (simp add: b1)
    from Cons.IH [OF _ this d1] Cons.prems(1) None show ?thesis by (simp add: fs1_def [symmetric] b1)
  next
    case (Some r)
    let ?fs2 = "fs1\<lparr>backing := be_unref be r (backing fs)\<rparr>"
    have h: "0 < held (backing fs) r" using Cons.prems(2) [of r] Some by simp
    note u = unref_releases [OF Cons.prems(1) h]
    have cnt: "count_list (block_refs xs) r' + count_list (block_refs ys) r' \<le> held (backing ?fs2) r'" for r'
      using Cons.prems(2) [of r'] u Some by (auto split: if_splits)
    have dat: "item_data (backing ?fs2) r' = item_data (backing fs) r'" if "r' \<in> set (block_refs xs)" for r'
    proof -
      have "0 < count_list (block_refs xs) r'" using that by (simp add: count_list_0_iff neq0_conv [symmetric] del: neq0_conv)
      with cnt [of r'] have "0 < held (backing ?fs2) r'" by simp
      with u show ?thesis by simp
    qed
    have "ok (backing ?fs2)" "cache_dirty ?fs2 = k + int (dirty_count xs) + int (dirty_count ys)"
      using u d1 by simp_all
    from Cons.IH [OF this(1) cnt this(2)] dat Some show ?thesis by (simp add: fs1_def [symmetric] b1)
  qed
qed simp

lemma resize_last_zero:
  assumes wf: "file_wf ok held item_data k (inode\<lparr>i_size := of_nat m\<rparr>, fs)" and m: "m \<le> BLUESKY_MAX_FILE_SIZE"
    and i: "Suc i = length (i_blocks inode)" and z: "b_type (i_blocks inode ! i) = BLUESKY_BLOCK_ZERO"
    and n: "0 < n" "n \<le> BLUESKY_BLOCK_SIZE"
  shows "file_wf ok held item_data k (inode\<lparr>i_size := of_nat (i * BLUESKY_BLOCK_SIZE + n)\<rparr>, fs)"
    and "content (item_data (backing fs)) (i_blocks inode) (i * BLUESKY_BLOCK_SIZE + n)
         = resize_zero (i * BLUESKY_BLOCK_SIZE + n) (content (item_data (backing fs)) (i_blocks inode) m)"
proof -
  let ?dat = "item_data (backing fs)" and ?bs = "i_blocks inode"
  note w = file_wfD [OF wf]
  have blocks: "blocks_ok ?dat ?bs m" using w(3) m by (simp add: unat_of_nat_max)
  then have bok: "block_ok ?dat (?bs ! i) n"
    using i z blocks_okD [of ?dat ?bs m i] by (simp add: block_ok_def)
  have "i * BLUESKY_BLOCK_SIZE < m" using blocks i by (simp add: blocks_ok_def block_count_bound [symmetric])
  then have max: "i * BLUESKY_BLOCK_SIZE + n \<le> BLUESKY_MAX_FILE_SIZE"
    using max_blocks [OF _ m, of i] n(2) by simp
  have "blocks_ok ?dat (?bs[i := ?bs ! i]) (i * BLUESKY_BLOCK_SIZE + n)"
    by (rule blocks_ok_resize_last [OF blocks i n bok]) (use blocks i in \<open>simp add: blocks_ok_def\<close>)
  with w max show "file_wf ok held item_data k (inode\<lparr>i_size := of_nat (i * BLUESKY_BLOCK_SIZE + n)\<rparr>, fs)"
    by (simp add: file_wf_def unat_of_nat_max del: of_nat_add of_nat_mult)
  have "content ?dat (?bs[i := ?bs ! i]) (i * BLUESKY_BLOCK_SIZE + n)
      = resize_zero (i * BLUESKY_BLOCK_SIZE + n) (content ?dat ?bs m)"
    by (rule content_resize_last [OF blocks i n]) (use z in \<open>simp_all add: block_bytes_def\<close>)
  then show "content ?dat ?bs (i * BLUESKY_BLOCK_SIZE + n)
      = resize_zero (i * BLUESKY_BLOCK_SIZE + n) (content ?dat ?bs m)" by simp
qed

lemma touch_resize_wf:
  assumes wf: "file_wf ok held item_data k (inode\<lparr>i_size := of_nat m\<rparr>, fs)" and m: "m \<le> BLUESKY_MAX_FILE_SIZE"
    and i: "Suc i = length (i_blocks inode)" and z: "b_type (i_blocks inode ! i) \<noteq> BLUESKY_BLOCK_ZERO"
    and n: "0 < n" "n \<le> BLUESKY_BLOCK_SIZE"
  obtains bs' fs' where
    "touch_resize be (inode, fs) i n = Some (inode\<lparr>i_blocks := bs'\<rparr>, fs')" "length bs' = length (i_blocks inode)"
    "file_wf ok held item_data k (inode\<lparr>i_blocks := bs', i_size := of_nat (i * BLUESKY_BLOCK_SIZE + n)\<rparr>, fs')"
    "content (item_data (backing fs')) bs' (i * BLUESKY_BLOCK_SIZE + n)
     = resize_zero (i * BLUESKY_BLOCK_SIZE + n) (content (item_data (backing fs)) (i_blocks inode) m)"
proof -
  let ?bs = "i_blocks inode" and ?sz = "i * BLUESKY_BLOCK_SIZE + n"
  define ino where "ino = inode\<lparr>i_size := of_nat m\<rparr>"
  let ?bytes = "\<lambda>fs. block_bytes (item_data (backing fs))"
  have bs: "i_blocks ino = ?bs" and usz: "unat (i_size ino) = m" and i': "i < length ?bs"
    using i m by (simp_all add: ino_def unat_of_nat_max)
  obtain d fs' where t: "bluesky_block_touch be (ino, fs) i True
        = Some (ino\<lparr>i_blocks := ?bs[i := dirty_block d]\<rparr>, fs')"
    and "length d = blen m i"
    and d: "True \<Longrightarrow> d = ?bytes fs (?bs ! i) (blen m i)"
    and wf1: "file_wf ok held item_data k (ino\<lparr>i_blocks := ?bs[i := dirty_block d]\<rparr>, fs')"
    and others: "\<And>j. j < length ?bs \<Longrightarrow> j \<noteq> i \<Longrightarrow>
                   ?bytes fs' (?bs ! j) (blen m j) = ?bytes fs (?bs ! j) (blen m j)"
    using touch_wf [OF wf [folded ino_def], of i True, unfolded bs usz, OF i'] by metis
  let ?bs' = "?bs[i := dirty_block (resize_zero n d)]"
  have t': "bluesky_block_touch be (inode, fs) i True = Some (inode\<lparr>i_blocks := ?bs[i := dirty_block d]\<rparr>, fs')"
    using touch_size_irrelevant [OF z, of be fs "of_nat m"] i' t by (simp add: ino_def)
  have run: "touch_resize be (inode, fs) i n = Some (inode\<lparr>i_blocks := ?bs'\<rparr>, fs')"
    using i' by (simp add: touch_resize_def t' set_dirty_dirty)
  have blocks: "blocks_ok (item_data (backing fs)) ?bs m" using file_wfD(3) [OF wf] usz by (simp add: ino_def)
  have blocks': "blocks_ok (item_data (backing fs')) (?bs[i := dirty_block d]) m"
    using file_wfD(3) [OF wf1] usz by (simp add: ino_def)
  have "i * BLUESKY_BLOCK_SIZE < m" using blocks i by (simp add: blocks_ok_def block_count_bound [symmetric])
  then have max: "?sz \<le> BLUESKY_MAX_FILE_SIZE" using max_blocks [OF _ m, of i] n(2) by simp
  have "content (item_data (backing fs')) ?bs' ?sz = resize_zero ?sz (content (item_data (backing fs)) ?bs m)"
    by (rule content_resize_last [OF blocks i n]) (use d others i in simp_all)
  moreover have "blocks_ok (item_data (backing fs')) ((?bs[i := dirty_block d])[i := dirty_block (resize_zero n d)]) ?sz"
  proof (rule blocks_ok_resize_last [OF blocks' _ n])
    show "block_ok (item_data (backing fs')) (?bs[i := dirty_block d] ! j) (blen m j)" if "j < i" for j
      using that i by (intro blocks_okD [OF blocks']) simp
  qed (use i in simp_all)
  moreover have "count_list (block_refs ?bs') r = count_list (block_refs (?bs[i := dirty_block d])) r" for r
    using count_refs_update [of i ?bs "dirty_block d" r] count_refs_update [of i ?bs "dirty_block (resize_zero n d)" r] i'
    by simp
  moreover have "dirty_count ?bs' = dirty_count (?bs[i := dirty_block d])"
    using dirty_count_update [of i ?bs "dirty_block d"] dirty_count_update [of i ?bs "dirty_block (resize_zero n d)"] i'
    by simp
  ultimately show thesis
    using that [OF run] file_wfD [OF wf1] max
    by (simp add: file_wf_def ino_def unat_of_nat_max del: of_nat_add of_nat_mult)
qed

lemma truncate_grow:
  assumes wf: "file_wf ok held item_data k (inode, fs)"
    and n: "length (i_blocks inode) < block_count sz" and sz: "sz \<le> BLUESKY_MAX_FILE_SIZE"
  shows "\<exists>bs' fs'. truncate_blocks be (inode, fs) (block_count sz) = Some (inode\<lparr>i_blocks := bs'\<rparr>, fs') \<and>
           length bs' = block_count sz \<and>
           file_wf ok held item_data k (inode\<lparr>i_blocks := bs', i_size := of_nat sz\<rparr>, fs') \<and>
           content (item_data (backing fs')) bs' sz = resize_zero sz (file_content item_data (inode, fs))"
proof -
  let ?bs = "i_blocks inode" and ?old = "unat (i_size inode)"
  let ?len = "length (i_blocks inode)" and ?c = "file_content item_data (inode, fs)"
  let ?first = "if ?len > 0 \<and> b_type (?bs ! (?len - 1)) \<noteq> BLUESKY_BLOCK_ZERO \<and> lastblock ?old < BLUESKY_BLOCK_SIZE
                then touch_resize be (inode, fs) (?len - 1) BLUESKY_BLOCK_SIZE else Some (inode, fs)"
  have wf0: "file_wf ok held item_data k (inode\<lparr>i_size := of_nat ?old\<rparr>, fs)" using wf by simp
  have max: "?old \<le> BLUESKY_MAX_FILE_SIZE" by (rule file_wfD(2) [OF wf])
  have cnt: "?len = block_count ?old" using file_wfD(3) [OF wf] by (simp add: blocks_ok_def)
  have lsz: "?len * BLUESKY_BLOCK_SIZE < sz" using n by (simp add: block_count_bound)
  obtain bs1 fs1 where f: "?first = Some (inode\<lparr>i_blocks := bs1\<rparr>, fs1)" "length bs1 = ?len"
    "file_wf ok held item_data k (inode\<lparr>i_blocks := bs1, i_size := of_nat (?len * BLUESKY_BLOCK_SIZE)\<rparr>, fs1)"
    "content (item_data (backing fs1)) bs1 (?len * BLUESKY_BLOCK_SIZE) = resize_zero (?len * BLUESKY_BLOCK_SIZE) ?c"
  proof (cases "?len = 0 \<or> lastblock ?old = BLUESKY_BLOCK_SIZE")
    case True
    then have "?old = ?len * BLUESKY_BLOCK_SIZE"
      using lastblock_full [of ?old] cnt block_count_bound [of 0 ?old] by auto
    then show thesis
      using that [of ?bs fs] True wf0 resize_zero_same [of ?c] by (auto simp: file_content_def)
  next
    case False
    then obtain i where i: "?len = Suc i" by (cases ?len) auto
    have lt: "lastblock ?old < BLUESKY_BLOCK_SIZE" using False lastblock_le [of ?old] by simp
    have e: "?len * BLUESKY_BLOCK_SIZE = i * BLUESKY_BLOCK_SIZE + BLUESKY_BLOCK_SIZE" using i by simp
    show thesis
    proof (cases "b_type (?bs ! i) = BLUESKY_BLOCK_ZERO")
      case True
      show thesis
        using that [of ?bs fs, unfolded e] resize_last_zero [OF wf0 max i [symmetric] True block_size_pos order_refl] True i
        by (simp add: file_content_def)
    next
      case nz: False
      show thesis
        using touch_resize_wf [OF wf0 max i [symmetric] nz block_size_pos order_refl] that [unfolded e] nz i lt
        by (auto simp: file_content_def)
    qed
  qed
  let ?bs' = "bs1 @ replicate (block_count sz - ?len) zero_block"
  have lmax: "?len * BLUESKY_BLOCK_SIZE \<le> BLUESKY_MAX_FILE_SIZE" using lsz sz by simp
  have run: "truncate_blocks be (inode, fs) (block_count sz) = Some (inode\<lparr>i_blocks := ?bs'\<rparr>, fs1)"
    unfolding truncate_blocks_def prod.case Let_def f(1) using n by simp
  have ok1: "blocks_ok (item_data (backing fs1)) bs1 (length bs1 * BLUESKY_BLOCK_SIZE)"
    using file_wfD(3) [OF f(3)] lmax f(2) by (simp add: unat_of_nat_max del: of_nat_mult)
  have k: "block_count sz = length bs1 + (block_count sz - ?len)" using n f(2) by simp
  have le: "length bs1 * BLUESKY_BLOCK_SIZE \<le> sz" using lsz f(2) by simp
  note app = content_append_zero [OF ok1 k le]
  have "file_wf ok held item_data k (inode\<lparr>i_blocks := ?bs', i_size := of_nat sz\<rparr>, fs1)"
    using file_wfD [OF f(3)] app(2) sz by (simp add: file_wf_def unat_of_nat_max)
  moreover have "content (item_data (backing fs1)) ?bs' sz = resize_zero sz ?c"
    using app(1) f(2,4) lsz cnt block_count_ge [of ?old]
    by (simp add: resize_zero_twice file_content_def)
  ultimately show ?thesis using run f(2) n by (intro exI [of _ ?bs'] exI [of _ fs1]) simp
qed

lemma truncate_shrink:
  assumes wf: "file_wf ok held item_data k (inode, fs)" and n: "n < length (i_blocks inode)"
  shows "\<exists>fs'. truncate_blocks be (inode, fs) n = Some (inode\<lparr>i_blocks := take n (i_blocks inode)\<rparr>, fs') \<and>
           file_wf ok held item_data k
             (inode\<lparr>i_blocks := take n (i_blocks inode), i_size := of_nat (n * BLUESKY_BLOCK_SIZE)\<rparr>, fs') \<and>
           content (item_data (backing fs')) (take n (i_blocks inode)) (n * BLUESKY_BLOCK_SIZE)
             = resize_zero (n * BLUESKY_BLOCK_SIZE) (file_content item_data (inode, fs))"
proof -
  let ?bs = "i_blocks inode" and ?old = "unat (i_size inode)" and ?m = "n * BLUESKY_BLOCK_SIZE"
  let ?fs' = "release_blocks be (drop n ?bs) fs"
  note w = file_wfD [OF wf]
  have split: "block_refs ?bs = block_refs (take n ?bs) @ block_refs (drop n ?bs)"
    "dirty_count ?bs = dirty_count (take n ?bs) + dirty_count (drop n ?bs)"
    unfolding block_refs_append [symmetric] dirty_count_simps(3) [symmetric] by simp_all
  have rel: "ok (backing ?fs')" "\<And>r. count_list (block_refs (take n ?bs)) r \<le> held (backing ?fs') r"
    "\<And>r. r \<in> set (block_refs (take n ?bs)) \<Longrightarrow> item_data (backing ?fs') r = item_data (backing fs) r"
    "cache_dirty ?fs' = k + int (dirty_count (take n ?bs))"
    using release_blocks_ok [of fs "take n ?bs" "drop n ?bs" k] w(1,4,5) by (auto simp: split count_list_append)
  note tk = content_take [OF w(3) n]
  have same: "block_ok (item_data (backing ?fs')) (take n ?bs ! j) l \<and>
      block_bytes (item_data (backing ?fs')) (take n ?bs ! j) l = block_bytes (item_data (backing fs)) (take n ?bs ! j) l"
    if "block_ok (item_data (backing fs)) (take n ?bs ! j) l" "j < length (take n ?bs)" for j l
    using that(1)
  proof (rule block_ok_cong)
    fix r
    assume "b_ref (take n ?bs ! j) = Some r"
    with that(2) show "item_data (backing ?fs') r = item_data (backing fs) r"
      by (intro rel(3)) (auto simp: set_block_refs intro!: bexI [of _ "take n ?bs ! j"] nth_mem)
  qed
  have len: "length (take n ?bs) = block_count ?m" using n by (simp add: block_count_mult)
  have blocks: "blocks_ok (item_data (backing ?fs')) (take n ?bs) ?m"
    unfolding blocks_ok_def using same [OF blocks_okD [OF tk(2)]] by (intro conjI allI impI len) blast
  have "content (item_data (backing ?fs')) (take n ?bs) ?m = content (item_data (backing fs)) (take n ?bs) ?m"
    unfolding content_def
  proof (rule map_cong [OF refl])
    fix j
    assume "j \<in> set [0..<?m]"
    then have "j div BLUESKY_BLOCK_SIZE < length (take n ?bs)" unfolding len by (intro block_index) simp
    with same [OF blocks_okD [OF tk(2) this]] show
      "block_bytes (item_data (backing ?fs')) (take n ?bs ! (j div BLUESKY_BLOCK_SIZE)) (blen ?m (j div BLUESKY_BLOCK_SIZE))
         ! (j mod BLUESKY_BLOCK_SIZE)
       = block_bytes (item_data (backing fs)) (take n ?bs ! (j div BLUESKY_BLOCK_SIZE)) (blen ?m (j div BLUESKY_BLOCK_SIZE))
         ! (j mod BLUESKY_BLOCK_SIZE)" by simp
  qed
  moreover have lt: "?m < ?old" using n w(3) by (simp add: blocks_ok_def block_count_bound)
  ultimately have "content (item_data (backing ?fs')) (take n ?bs) ?m
      = resize_zero ?m (file_content item_data (inode, fs))"
    using tk(1) by (simp add: file_content_def resize_zero_shrink)
  moreover have "file_wf ok held item_data k (inode\<lparr>i_blocks := take n ?bs, i_size := of_nat ?m\<rparr>, ?fs')"
    using rel w(2) lt blocks by (simp add: file_wf_def unat_of_nat_max del: of_nat_mult)
  ultimately show ?thesis using n by (intro exI [of _ ?fs']) (simp add: truncate_blocks_def)
qed

lemma truncate_blocks_ok:
  assumes wf: "file_wf ok held item_data k (inode, fs)" and sz: "sz \<le> BLUESKY_MAX_FILE_SIZE"
  obtains bs' fs' m where
    "truncate_blocks be (inode, fs) (block_count sz) = Some (inode\<lparr>i_blocks := bs'\<rparr>, fs')"
    "length bs' = block_count sz" "m \<le> BLUESKY_MAX_FILE_SIZE"
    "file_wf ok held item_data k (inode\<lparr>i_blocks := bs', i_size := of_nat m\<rparr>, fs')"
    "content (item_data (backing fs')) bs' m = resize_zero m (file_content item_data (inode, fs))"
    "m = sz \<or> m = block_count sz * BLUESKY_BLOCK_SIZE
       \<or> m = unat (i_size inode) \<and> length (i_blocks inode) = block_count sz"
proof -
  let ?len = "length (i_blocks inode)" and ?n = "block_count sz" and ?old = "unat (i_size inode)"
  have old: "?old \<le> BLUESKY_MAX_FILE_SIZE" by (rule file_wfD(2) [OF wf])
  have cnt: "?len = block_count ?old" using file_wfD(3) [OF wf] by (simp add: blocks_ok_def)
  consider "?len < ?n" | "?n < ?len" | "?n = ?len" by linarith
  then show thesis
  proof cases
    case 1
    with truncate_grow [OF wf _ sz] sz that show thesis by blast
  next
    case 2
    then have "?n * BLUESKY_BLOCK_SIZE < ?old" using cnt by (simp add: block_count_bound)
    then have le: "?n * BLUESKY_BLOCK_SIZE \<le> BLUESKY_MAX_FILE_SIZE" using old by simp
    have len: "length (take ?n (i_blocks inode)) = ?n" using 2 by simp
    from truncate_shrink [OF wf 2] show thesis by (elim exE conjE) (rule that [OF _ len le], auto)
  next
    case 3
    have c: "content (item_data (backing fs)) (i_blocks inode) ?old = resize_zero ?old (file_content item_data (inode, fs))"
      using resize_zero_same [of "file_content item_data (inode, fs)"] by (simp add: file_content_def)
    have "truncate_blocks be (inode, fs) ?n = Some (inode\<lparr>i_blocks := i_blocks inode\<rparr>, fs)"
      unfolding 3 by (simp add: truncate_blocks_def)
    moreover have "file_wf ok held item_data k (inode\<lparr>i_blocks := i_blocks inode, i_size := of_nat ?old\<rparr>, fs)"
      using wf by simp
    ultimately show thesis by (rule that [OF _ 3 [symmetric] old _ c]) (simp add: 3)
  qed
qed

text \<open>The second half of a truncation: the last block gets its new length.\<close>

lemma truncate_last:
  assumes wf: "file_wf ok held item_data k (inode\<lparr>i_size := of_nat m\<rparr>, fs)" and m: "m \<le> BLUESKY_MAX_FILE_SIZE"
    and n: "length (i_blocks inode) = block_count sz"
    and skip: "sz < old \<and> lastblock sz = BLUESKY_BLOCK_SIZE \<longrightarrow> m = sz"
  shows "\<exists>bs' fs'.
      (if block_count sz > 0 \<and> b_type (i_blocks inode ! (block_count sz - 1)) \<noteq> BLUESKY_BLOCK_ZERO
          \<and> \<not> (sz < old \<and> lastblock sz = BLUESKY_BLOCK_SIZE)
       then touch_resize be (inode, fs) (block_count sz - 1) (sz - (block_count sz - 1) * BLUESKY_BLOCK_SIZE)
       else Some (inode, fs)) = Some (inode\<lparr>i_blocks := bs'\<rparr>, fs') \<and>
      file_wf ok held item_data k (inode\<lparr>i_blocks := bs', i_size := of_nat sz\<rparr>, fs') \<and>
      content (item_data (backing fs')) bs' sz
        = resize_zero sz (content (item_data (backing fs)) (i_blocks inode) m)"
proof -
  let ?bs = "i_blocks inode"
  have blocks: "blocks_ok (item_data (backing fs)) ?bs m"
    using file_wfD(3) [OF wf] m by (simp add: unat_of_nat_max)
  have same: ?thesis if "m = sz"
      "\<not> (block_count sz > 0 \<and> b_type (?bs ! (block_count sz - 1)) \<noteq> BLUESKY_BLOCK_ZERO
          \<and> \<not> (sz < old \<and> lastblock sz = BLUESKY_BLOCK_SIZE))"
    using that wf resize_zero_same [of "content (item_data (backing fs)) ?bs m"]
    by (intro exI [of _ ?bs] exI [of _ fs]) (simp only: if_False, simp)
  show ?thesis
  proof (cases "block_count sz")
    case 0
    then have "sz = 0" "m = 0"
      using block_count_bound [of 0 sz] block_count_bound [of 0 m] n blocks by (auto simp: blocks_ok_def)
    with 0 show ?thesis by (intro same) simp_all
  next
    case (Suc i)
    let ?l = "sz - i * BLUESKY_BLOCK_SIZE"
    have i: "Suc i = length ?bs" using n Suc by simp
    have l: "0 < ?l" "?l \<le> BLUESKY_BLOCK_SIZE" "i * BLUESKY_BLOCK_SIZE + ?l = sz"
      using block_count_bound [of i sz] block_count_last [of i sz] Suc by auto
    consider "sz < old \<and> lastblock sz = BLUESKY_BLOCK_SIZE"
      | "b_type (?bs ! i) = BLUESKY_BLOCK_ZERO"
      | "b_type (?bs ! i) \<noteq> BLUESKY_BLOCK_ZERO" "\<not> (sz < old \<and> lastblock sz = BLUESKY_BLOCK_SIZE)"
      by blast
    then show ?thesis
    proof cases
      case 1
      with skip same show ?thesis by blast
    next
      case 2
      with resize_last_zero [OF wf m i 2 l(1,2)] Suc show ?thesis
        unfolding l(3) by (intro exI [of _ ?bs] exI [of _ fs]) simp
    next
      case 3
      from touch_resize_wf [OF wf m i 3(1) l(1,2)] obtain bs' fs'
        where r: "touch_resize be (inode, fs) i ?l = Some (inode\<lparr>i_blocks := bs'\<rparr>, fs')"
          "file_wf ok held item_data k (inode\<lparr>i_blocks := bs', i_size := of_nat sz\<rparr>, fs')"
          "content (item_data (backing fs')) bs' sz
           = resize_zero sz (content (item_data (backing fs)) ?bs m)"
        unfolding l(3) by blast
      have "block_count sz > 0 \<and> b_type (?bs ! (block_count sz - 1)) \<noteq> BLUESKY_BLOCK_ZERO
          \<and> \<not> (sz < old \<and> lastblock sz = BLUESKY_BLOCK_SIZE)"
        using 3 Suc by simp
      with r Suc show ?thesis by (simp only: if_True diff_Suc_1 simp_thms) blast
    qed
  qed
qed

lemma update_ctime_ok:
  assumes wf: "file_wf ok held item_data k (inode, fs)"
  shows "file_wf ok held item_data k (bluesky_inode_update_ctime be now upd (inode, fs))"
    and "file_content item_data (bluesky_inode_update_ctime be now upd (inode, fs)) = file_content item_data (inode, fs)"
    and "i_size (fst (bluesky_inode_update_ctime be now upd (inode, fs))) = i_size inode"
proof -
  note keep = mark_keeps [OF file_wfD(1) [OF wf], of "i_inum inode"]
  note same = file_same [OF wf keep [THEN conjunct1] keep [THEN conjunct2]]
  show "file_wf ok held item_data k (bluesky_inode_update_ctime be now upd (inode, fs))"
    using same(1) by (simp add: bluesky_inode_update_ctime_def update_ctime_fields_def file_wf_def)
  show "file_content item_data (bluesky_inode_update_ctime be now upd (inode, fs)) = file_content item_data (inode, fs)"
    using same(2) by (simp add: bluesky_inode_update_ctime_def update_ctime_fields_def file_content_def)
  show "i_size (fst (bluesky_inode_update_ctime be now upd (inode, fs))) = i_size inode"
    by (simp add: bluesky_inode_update_ctime_def update_ctime_fields_def)
qed

lemma truncate_ok:
  assumes wf: "file_wf ok held item_data k (inode, fs)" and max: "unat sz \<le> BLUESKY_MAX_FILE_SIZE"
  shows "\<exists>inode' fs'. bluesky_file_truncate be now (inode, fs) sz = Some (inode', fs') \<and>
           file_wf ok held item_data k (inode', fs') \<and> i_size inode' = sz \<and>
           file_content item_data (inode', fs') = resize_zero (unat sz) (file_content item_data (inode, fs))"
proof (cases "sz = i_size inode")
  case True
  then show ?thesis
    using wf max resize_zero_same [of "file_content item_data (inode, fs)"]
    by (simp add: bluesky_file_truncate_def file_content_def)
next
  case False
  let ?n = "block_count (unat sz)" and ?old = "unat (i_size inode)"
  let ?c = "file_content item_data (inode, fs)"
  obtain bs1 fs1 m where t: "truncate_blocks be (inode, fs) ?n = Some (inode\<lparr>i_blocks := bs1\<rparr>, fs1)"
    and len: "length bs1 = ?n" and m: "m \<le> BLUESKY_MAX_FILE_SIZE"
    and wf1: "file_wf ok held item_data k (inode\<lparr>i_blocks := bs1, i_size := of_nat m\<rparr>, fs1)"
    and c1: "content (item_data (backing fs1)) bs1 m = resize_zero m ?c"
    and mcase: "m = unat sz \<or> m = ?n * BLUESKY_BLOCK_SIZE \<or> m = ?old \<and> length (i_blocks inode) = ?n"
    by (rule truncate_blocks_ok [OF wf max])
  have cnt: "length (i_blocks inode) = block_count ?old" using file_wfD(3) [OF wf] by (simp add: blocks_ok_def)
  have skip: "unat sz < ?old \<and> lastblock (unat sz) = BLUESKY_BLOCK_SIZE \<longrightarrow> m = unat sz"
    using mcase lastblock_full [of "unat sz"] block_count_ge [of ?old] cnt by auto
  have len': "length (i_blocks (inode\<lparr>i_blocks := bs1\<rparr>)) = ?n" using len by simp
  obtain bs2 fs2
    where r: "(if ?n > 0 \<and> b_type (bs1 ! (?n - 1)) \<noteq> BLUESKY_BLOCK_ZERO
                 \<and> \<not> (unat sz < ?old \<and> lastblock (unat sz) = BLUESKY_BLOCK_SIZE)
              then touch_resize be (inode\<lparr>i_blocks := bs1\<rparr>, fs1) (?n - 1) (unat sz - (?n - 1) * BLUESKY_BLOCK_SIZE)
              else Some (inode\<lparr>i_blocks := bs1\<rparr>, fs1)) = Some (inode\<lparr>i_blocks := bs2\<rparr>, fs2)"
      and wf2: "file_wf ok held item_data k (inode\<lparr>i_blocks := bs2, i_size := sz\<rparr>, fs2)"
      and c2: "content (item_data (backing fs2)) bs2 (unat sz) = resize_zero (unat sz) (resize_zero m ?c)"
    using truncate_last [OF wf1 m len' skip] by (simp add: c1) blast
  have "unat sz \<le> m \<or> length ?c \<le> m"
    using mcase block_count_ge [of "unat sz"] by (auto simp: file_content_def)
  then have c3: "file_content item_data (inode\<lparr>i_blocks := bs2, i_size := sz\<rparr>, fs2) = resize_zero (unat sz) ?c"
    using c2 by (simp add: file_content_def resize_zero_twice)
  have "bluesky_file_truncate be now (inode, fs) sz
      = Some (bluesky_inode_update_ctime be now True (inode\<lparr>i_blocks := bs2, i_size := sz\<rparr>, fs2))"
  proof -
    have upd: "i_blocks (inode\<lparr>i_blocks := bs1\<rparr>) = bs1" by simp
    have le: "(BLUESKY_MAX_FILE_SIZE < unat sz) = False" using max by simp
    show ?thesis
      using False
      by (simp only: bluesky_file_truncate_def Let_def fst_conv t option.case upd r prod.case le if_False)
  qed
  then show ?thesis
    using update_ctime_ok [OF wf2, of now True] c3
    by (cases "bluesky_inode_update_ctime be now True (inode\<lparr>i_blocks := bs2, i_size := sz\<rparr>, fs2)") simp
qed

lemma write_ok:
  assumes wf: "file_wf ok held item_data k (inode, fs)" and reg: "i_type inode = BLUESKY_REGULAR"
    and off: "unat off < unat (i_size inode)" and fits: "unat off + length d \<le> unat (i_size inode)"
  shows "\<exists>inode' fs'. bluesky_file_write be now (inode, fs) off d = Some (inode', fs') \<and>
           file_wf ok held item_data k (inode', fs') \<and> i_size inode' = i_size inode \<and>
           file_content item_data (inode', fs') = overwrite (unat off) d (file_content item_data (inode, fs))"
proof -
  have sub: "unat (i_size inode - off) = unat (i_size inode) - unat off"
    using unat_minus_of_nat [of "unat off" "i_size inode"] off by simp
  then have le: "length d \<le> unat (i_size inode - off)" using fits by simp
  obtain bs fs' where l: "write_loop be (inode, fs) (unat off) d = Some (inode\<lparr>i_blocks := bs\<rparr>, fs')"
    and wf': "file_wf ok held item_data k (inode\<lparr>i_blocks := bs\<rparr>, fs')"
    and c: "file_content item_data (inode\<lparr>i_blocks := bs\<rparr>, fs') = overwrite (unat off) d (file_content item_data (inode, fs))"
    using write_loop_ok [OF wf fits] by blast
  show ?thesis
  proof (cases "d = []")
    case True
    then show ?thesis using wf reg off by (simp add: bluesky_file_write_def word_less_nat_alt)
  next
    case False
    then have "bluesky_file_write be now (inode, fs) off d
        = Some (bluesky_inode_update_ctime be now True (inode\<lparr>i_blocks := bs\<rparr>, fs'))"
      using reg off le l by (simp add: bluesky_file_write_def word_less_nat_alt)
    then show ?thesis
      using update_ctime_ok [OF wf', of now True] c
      by (cases "bluesky_inode_update_ctime be now True (inode\<lparr>i_blocks := bs\<rparr>, fs')") simp
  qed
qed

lemma read_ok:
  assumes wf: "file_wf ok held item_data k (inode, fs)" and reg: "i_type inode = BLUESKY_REGULAR"
    and fits: "unat off + len \<le> unat (i_size inode)" "unat off < unat (i_size inode) \<or> len = 0"
  shows "\<exists>fs'. bluesky_file_read be (inode, fs) off len
             = Some (Some (slice (unat off) len (file_content item_data (inode, fs))), fs') \<and>
           file_wf ok held item_data k (inode, fs') \<and>
           file_content item_data (inode, fs') = file_content item_data (inode, fs)"
proof (cases "len = 0")
  case True
  then show ?thesis using wf fits by (simp add: bluesky_file_read_def word_le_nat_alt slice_def)
next
  case False
  let ?sb = "unat off div BLUESKY_BLOCK_SIZE" and ?eb = "(unat off + len - 1) div BLUESKY_BLOCK_SIZE"
  have sub: "unat (i_size inode - off) = unat (i_size inode) - unat off"
    using unat_minus_of_nat [of "unat off" "i_size inode"] fits by simp
  have "?eb < length (i_blocks inode)"
    using file_wfD(3) [OF wf] False fits block_index [of "unat off + len - 1" "unat (i_size inode)"]
    by (simp add: blocks_ok_def)
  moreover have "set (take (Suc ?eb - ?sb) (drop ?sb (i_blocks inode))) \<subseteq> set (i_blocks inode)"
    by (meson order_trans set_drop_subset set_take_subset)
  then obtain fs1 where p: "prefetch_blocks be (take (Suc ?eb - ?sb) (drop ?sb (i_blocks inode))) fs = Some fs1"
    and wf1: "file_wf ok held item_data k (inode, fs1)"
    and c1: "file_content item_data (inode, fs1) = file_content item_data (inode, fs)"
    using prefetch_blocks_ok [OF wf] by blast
  ultimately show ?thesis
    using False reg fits sub read_loop_ok [OF wf1 fits(1)] c1
    by (auto simp: bluesky_file_read_def word_less_nat_alt)
qed

text \<open>Flushing replaces dirty buffers by references to new log items with the same bytes.\<close>

lemma flush_block_ok:
  assumes wf: "file_wf ok held item_data k (inode, fs)" and i: "i < length (i_blocks inode)"
  obtains b rs fs' where
    "bluesky_block_flush be inum (i_blocks inode ! i) items fs = Some (b, rs @ items, fs')"
    "b_type b \<noteq> BLUESKY_BLOCK_DIRTY"
    "file_wf ok held item_data k (inode\<lparr>i_blocks := (i_blocks inode)[i := b]\<rparr>, fs')"
    "file_content item_data (inode\<lparr>i_blocks := (i_blocks inode)[i := b]\<rparr>, fs') = file_content item_data (inode, fs)"
    "length rs = (if b_type (i_blocks inode ! i) = BLUESKY_BLOCK_DIRTY then 1 else 0)"
    "held (backing fs') = (\<lambda>r. held (backing fs) r + 2 * count_list rs r)"
proof (cases "b_type (i_blocks inode ! i) = BLUESKY_BLOCK_DIRTY")
  case False
  show thesis
    by (rule that [of "i_blocks inode ! i" "[]" fs])
      (use False wf in \<open>simp_all add: bluesky_block_flush_def\<close>)
next
  case True
  let ?bs = "i_blocks inode" and ?sz = "unat (i_size inode)"
  note w = file_wfD [OF wf]
  have "block_ok (item_data (backing fs)) (?bs ! i) (blen ?sz i)" by (rule blocks_okD [OF w(3) i])
  with True obtain d where d: "b_dirty (?bs ! i) = Some d" "length d = blen ?sz i" "b_ref (?bs ! i) = None"
    by (auto simp: block_ok_def)
  obtain r c where new: "be_new_data be inum d (backing fs) = (r, c)" by fastforce
  have "length d \<le> BLUESKY_BLOCK_SIZE" using d(2) by (simp add: blen_def)
  note nd = new_data_holds [OF w(1) this new]
  define b where "b = \<lparr>b_type = BLUESKY_BLOCK_REF, b_ref = Some r, b_dirty = None\<rparr>"
  define fs' where "fs' = fs\<lparr>backing := c, cache_dirty := cache_dirty fs - 1\<rparr>"
  have run: "bluesky_block_flush be inum (?bs ! i) items fs = Some (b, [r] @ items, fs')"
    using True d new by (simp add: bluesky_block_flush_def b_def fs'_def)
  have cnt0: "count_list (block_refs ?bs) r = 0" using w(4) [of r] nd by simp
  have cnt: "count_list (block_refs (?bs[i := b])) r' = count_list (block_refs ?bs) r' + (if r' = r then 1 else 0)" for r'
    using count_refs_update [OF i, of b r'] d(3) by (auto simp: b_def)
  have refs: "count_list (block_refs (?bs[i := b])) r' \<le> held (backing fs') r'" for r'
    using w(4) [of r'] nd cnt0 by (auto simp: cnt fs'_def)
  have dat: "item_data (backing fs') r' = item_data (backing fs) r'" if "r' \<in> set (block_refs (?bs[i := zero_block]))" for r'
  proof -
    have "0 < count_list (block_refs (?bs[i := zero_block])) r'"
      using that by (simp add: count_list_0_iff neq0_conv [symmetric] del: neq0_conv)
    moreover have "count_list (block_refs (?bs[i := zero_block])) r' \<le> count_list (block_refs ?bs) r'"
      using count_refs_update [OF i, of zero_block r'] by simp
    ultimately have "0 < held (backing fs) r'" using w(4) [of r'] by simp
    with nd show ?thesis by (simp add: fs'_def)
  qed
  have b: "block_ok (item_data (backing fs')) b (blen ?sz i)" using nd d(2) by (simp add: b_def fs'_def block_ok_def)
  have dc: "cache_dirty fs' = k + int (dirty_count (?bs[i := b]))"
    using dirty_count_update [OF i, of b] True w(5) by (simp add: b_def fs'_def)
  have ok': "ok (backing fs')" using nd by (simp add: fs'_def)
  note rep = file_wf_replace [OF wf i ok' b refs dat dc]
  have bytes: "block_bytes (item_data (backing fs')) b (blen ?sz i) = block_bytes (item_data (backing fs)) (?bs ! i) (blen ?sz i)"
    using nd True d by (simp add: b_def fs'_def block_bytes_def)
  have "content (item_data (backing fs')) (?bs[i := b]) ?sz
      = overwrite (i * BLUESKY_BLOCK_SIZE + 0) [] (content (item_data (backing fs)) ?bs ?sz)"
    by (rule content_block_overwrite [OF w(3) i]) (use bytes rep(2) in simp_all)
  then have "file_content item_data (inode\<lparr>i_blocks := ?bs[i := b]\<rparr>, fs') = file_content item_data (inode, fs)"
    by (simp add: file_content_def)
  moreover have "held (backing fs') = (\<lambda>q. held (backing fs) q + 2 * count_list [r] q)"
    using nd by (simp add: fs'_def fun_eq_iff)
  ultimately show thesis by - (rule that [OF run _ rep(1)], simp_all add: b_def True)
qed

lemma flush_blocks_ok:
  assumes "file_wf ok held item_data k (inode\<lparr>i_blocks := xs @ bs\<rparr>, fs)" "dirty_count xs = 0"
  shows "\<exists>bs' rs fs'. flush_blocks be inum bs items fs = Some (bs', rs @ items, fs') \<and>
           length bs' = length bs \<and> length rs = dirty_count bs \<and> dirty_count (xs @ bs') = 0 \<and>
           file_wf ok held item_data k (inode\<lparr>i_blocks := xs @ bs'\<rparr>, fs') \<and>
           file_content item_data (inode\<lparr>i_blocks := xs @ bs'\<rparr>, fs')
             = file_content item_data (inode\<lparr>i_blocks := xs @ bs\<rparr>, fs) \<and>
           held (backing fs') = (\<lambda>r. held (backing fs) r + 2 * count_list rs r)"
  using assms
proof (induction bs arbitrary: xs fs items)
  case (Cons b bs)
  let ?ino = "inode\<lparr>i_blocks := xs @ b # bs\<rparr>"
  have i: "length xs < length (i_blocks ?ino)" by simp
  obtain b' rs fs' where f: "bluesky_block_flush be inum b items fs = Some (b', rs @ items, fs')"
    and nd: "b_type b' \<noteq> BLUESKY_BLOCK_DIRTY"
    and wf': "file_wf ok held item_data k (inode\<lparr>i_blocks := (xs @ [b']) @ bs\<rparr>, fs')"
    and c: "file_content item_data (inode\<lparr>i_blocks := (xs @ [b']) @ bs\<rparr>, fs') = file_content item_data (?ino, fs)"
    and l: "length rs = (if b_type b = BLUESKY_BLOCK_DIRTY then 1 else 0)"
    and h: "held (backing fs') = (\<lambda>r. held (backing fs) r + 2 * count_list rs r)"
    using flush_block_ok [OF Cons.prems(1) i, of inum items] by simp blast
  have "dirty_count (xs @ [b']) = 0" using Cons.prems(2) nd by simp
  from Cons.IH [OF wf' this, of "rs @ items"] obtain bs' rs' fs''
    where "flush_blocks be inum bs (rs @ items) fs' = Some (bs', rs' @ rs @ items, fs'')"
      "length bs' = length bs" "length rs' = dirty_count bs" "dirty_count ((xs @ [b']) @ bs') = 0"
      "file_wf ok held item_data k (inode\<lparr>i_blocks := (xs @ [b']) @ bs'\<rparr>, fs'')"
      "file_content item_data (inode\<lparr>i_blocks := (xs @ [b']) @ bs'\<rparr>, fs'') = file_content item_data (?ino, fs)"
      "held (backing fs'') = (\<lambda>r. held (backing fs') r + 2 * count_list rs' r)"
    unfolding c by blast
  then show ?case
    using f l h by (intro exI [of _ "b' # bs'"] exI [of _ "rs' @ rs"] exI [of _ fs'']) (simp add: ac_simps)
qed simp

lemma flush_ok:
  assumes wf: "file_wf ok held item_data k (inode, fs)" and reg: "i_type inode = BLUESKY_REGULAR"
  shows "\<exists>bs' rs fs'. bluesky_file_flush be (inode, fs) items = Some ((inode\<lparr>i_blocks := bs'\<rparr>, fs'), rs @ items) \<and>
           length rs = dirty_count (i_blocks inode) \<and> dirty_count bs' = 0 \<and> cache_dirty fs' = k \<and>
           file_wf ok held item_data k (inode\<lparr>i_blocks := bs'\<rparr>, fs') \<and>
           file_content item_data (inode\<lparr>i_blocks := bs'\<rparr>, fs') = file_content item_data (inode, fs) \<and>
           held (backing fs') = (\<lambda>r. held (backing fs) r + 2 * count_list rs r)"
proof -
  have "file_wf ok held item_data k (inode\<lparr>i_blocks := [] @ i_blocks inode\<rparr>, fs)" using wf by simp
  from flush_blocks_ok [OF this, of "i_inum inode" items] obtain bs' rs fs'
    where f: "flush_blocks be (i_inum inode) (i_blocks inode) items fs = Some (bs', rs @ items, fs')"
      "length rs = dirty_count (i_blocks inode)" "dirty_count bs' = 0"
      "file_wf ok held item_data k (inode\<lparr>i_blocks := bs'\<rparr>, fs')"
      "file_content item_data (inode\<lparr>i_blocks := bs'\<rparr>, fs') = file_content item_data (inode, fs)"
      "held (backing fs') = (\<lambda>r. held (backing fs) r + 2 * count_list rs r)"
    by auto
  moreover have "cache_dirty fs' = k" using file_wfD(5) [OF f(4)] f(3) by simp
  ultimately show ?thesis
    using reg by (intro exI [of _ bs'] exI [of _ rs] exI [of _ fs']) (simp add: bluesky_file_flush_def)
qed

lemma drop_cached_ok:
  assumes wf: "file_wf ok held item_data k (inode, fs)"
  shows "\<exists>fs'. bluesky_file_drop_cached be (inode, fs) = Some (inode, fs') \<and>
           file_wf ok held item_data k (inode, fs') \<and>
           file_content item_data (inode, fs') = file_content item_data (inode, fs)"
  using drop_blocks_ok [OF wf order_refl] wf by (auto simp: bluesky_file_drop_cached_def)

end

end
