(* ===== verification/BlueSky_Dir.thy ===== *)
theory BlueSky_Dir
  imports BlueSky_Backend
begin

text \<open>
  Directories (\<^verbatim>\<open>bluesky/dir.c\<close>): a sequence of entries sorted by a random cookie,
  and two hash tables over the names and the folded names.  A directory refines
  the finite map from its names to inode numbers; listing it by cookies yields
  every entry once; the folded table is exact only as long as no two names are
  equal up to case.

  \<open>lower\<close> is \<^verbatim>\<open>bluesky_lowercase\<close> (the library function \<^verbatim>\<open>g_ascii_strdown\<close>), \<open>draws\<close>
  the values that successive calls of \<^verbatim>\<open>g_random_int\<close> return.
\<close>

unbundle bit_operations_syntax


section \<open>The source's operations\<close>

definition bluesky_dirent_compare :: "dirent \<Rightarrow> dirent \<Rightarrow> int" where
  "bluesky_dirent_compare a b =
     (if d_cookie a < d_cookie b then -1 else if d_cookie a > d_cookie b then 1 else 0)"

definition bluesky_directory_lookup :: "inode \<Rightarrow> bytes \<Rightarrow> u64" where
  "bluesky_directory_lookup inode name =
     (if i_type inode \<noteq> BLUESKY_DIRECTORY then 0
      else case i_dir inode of None \<Rightarrow> 0
           | Some di \<Rightarrow> (case dirhash di name of None \<Rightarrow> 0 | Some d \<Rightarrow> d_inum d))"

definition bluesky_directory_ilookup :: "(bytes \<Rightarrow> bytes) \<Rightarrow> inode \<Rightarrow> bytes \<Rightarrow> u64" where
  "bluesky_directory_ilookup lower inode name =
     (if i_type inode \<noteq> BLUESKY_DIRECTORY then 0
      else case i_dir inode of None \<Rightarrow> 0
           | Some di \<Rightarrow> (case dirhash_folded di (lower name) of None \<Rightarrow> 0 | Some d \<Rightarrow> d_inum d))"

definition bluesky_directory_read :: "u32 gsearch \<Rightarrow> dirindex \<Rightarrow> u32 \<Rightarrow> dirent option" where
  "bluesky_directory_read srch di cookie =
     iter_get (dirents di) (srch (map d_cookie (dirents di)) cookie)"

text \<open>
  The cookie loop of \<^verbatim>\<open>bluesky_directory_insert\<close>.  It returns the cookie and the
  draws that are left; it is \<open>None\<close> when all the draws are used up and the loop
  goes on.
\<close>

fun pick_cookie :: "u32 gsearch \<Rightarrow> dirent list \<Rightarrow> u32 list \<Rightarrow> (u32 \<times> u32 list) option" where
  "pick_cookie srch ents [] = None"
| "pick_cookie srch ents (r # draws) =
     (let cookie = r AND 0x7fffffff in
      if cookie < 4 then pick_cookie srch ents draws
      else if ents = [] then Some (cookie, draws)
      else case iter_get ents (iter_prev (srch (map d_cookie ents) cookie)) of
             None \<Rightarrow> None
           | Some e \<Rightarrow> if d_cookie e \<noteq> cookie then Some (cookie, draws)
                       else pick_cookie srch ents draws)"

text \<open>
  The result of an operation on a directory inode: the new state and the
  returned truth value.  \<open>None\<close> is a null pointer access or a cookie loop that
  has not ended.
\<close>

definition bluesky_directory_insert ::
    "'c backend \<Rightarrow> i64 \<Rightarrow> u32 gsearch \<Rightarrow> (bytes \<Rightarrow> bytes) \<Rightarrow> u32 list \<Rightarrow> inode \<times> 'c fscache \<Rightarrow> bytes \<Rightarrow> u64
     \<Rightarrow> ((inode \<times> 'c fscache) \<times> bool \<times> u32 list) option" where
  "bluesky_directory_insert be now srch lower draws s name inum =
     (let (dir, fs) = s in
      if i_type dir \<noteq> BLUESKY_DIRECTORY then Some (s, False, draws)
      else case i_dir dir of None \<Rightarrow> None
      | Some di \<Rightarrow>
          if dirhash di name \<noteq> None then Some (s, False, draws)
          else case pick_cookie srch (dirents di) draws of None \<Rightarrow> None
          | Some (cookie, draws) \<Rightarrow>
              let d = \<lparr>d_name = name, d_name_folded = lower name, d_cookie = cookie, d_inum = inum\<rparr>;
                  di' = \<lparr>dirents = gseq_insert_sorted srch d_cookie d (dirents di),
                         dirhash = (dirhash di)(d_name d \<mapsto> d),
                         dirhash_folded = (dirhash_folded di)(d_name_folded d \<mapsto> d)\<rparr>
              in Some (bluesky_inode_update_ctime be now True (dir\<lparr>i_dir := Some di'\<rparr>, fs), True, draws))"

definition bluesky_directory_remove ::
    "'c backend \<Rightarrow> i64 \<Rightarrow> u32 gsearch \<Rightarrow> inode \<times> 'c fscache \<Rightarrow> bytes
     \<Rightarrow> ((inode \<times> 'c fscache) \<times> bool) option" where
  "bluesky_directory_remove be now srch s name =
     (let (dir, fs) = s in
      if i_type dir \<noteq> BLUESKY_DIRECTORY then Some (s, False)
      else case i_dir dir of None \<Rightarrow> None
      | Some di \<Rightarrow>
          (case dirhash di name of None \<Rightarrow> Some (s, False)
           | Some d \<Rightarrow>
               let di' = di\<lparr>dirhash := (dirhash di)(d_name d := None),
                            dirhash_folded := (dirhash_folded di)(d_name_folded d := None)\<rparr>;
                   i = iter_prev (srch (map d_cookie (dirents di)) (d_cookie d))
               in
               if iter_get (dirents di) i \<noteq> Some d then Some ((dir\<lparr>i_dir := Some di'\<rparr>, fs), False)
               else
                 let di'' = di'\<lparr>dirents := gseq_remove i (dirents di)\<rparr> in
                 Some (bluesky_inode_update_ctime be now True (dir\<lparr>i_dir := Some di''\<rparr>, fs), True)))"

text \<open>
  \<^verbatim>\<open>bluesky_rename\<close> works on two directories that may be the same object, so its
  state is the inodes by address.
\<close>

type_synonym 'c dirstate = "(ref \<Rightarrow> inode) \<times> 'c fscache"

definition rename_remove ::
    "'c backend \<Rightarrow> i64 \<Rightarrow> u32 gsearch \<Rightarrow> ref \<Rightarrow> bytes \<Rightarrow> 'c dirstate \<Rightarrow> 'c dirstate option" where
  "rename_remove be now srch a name st =
     map_option (\<lambda>((ino, fs), ok). ((fst st)(a := ino), fs))
       (bluesky_directory_remove be now srch (fst st a, snd st) name)"

definition rename_insert ::
    "'c backend \<Rightarrow> i64 \<Rightarrow> u32 gsearch \<Rightarrow> (bytes \<Rightarrow> bytes) \<Rightarrow> u32 list \<Rightarrow> ref \<Rightarrow> bytes \<Rightarrow> u64 \<Rightarrow> 'c dirstate
     \<Rightarrow> ('c dirstate \<times> u32 list) option" where
  "rename_insert be now srch lower draws a name inum st =
     map_option (\<lambda>((ino, fs), ok, draws). (((fst st)(a := ino), fs), draws))
       (bluesky_directory_insert be now srch lower draws (fst st a, snd st) name inum)"

definition bluesky_rename ::
    "'c backend \<Rightarrow> i64 \<Rightarrow> u32 gsearch \<Rightarrow> (bytes \<Rightarrow> bytes) \<Rightarrow> u32 list \<Rightarrow> 'c dirstate
     \<Rightarrow> ref \<Rightarrow> bytes \<Rightarrow> ref \<Rightarrow> bytes \<Rightarrow> bool \<Rightarrow> bool \<Rightarrow> ('c dirstate \<times> bool \<times> u32 list) option" where
  "bluesky_rename be now srch lower draws st dir1 name1 dir2 name2 case_sensitive replace =
     (if i_type (fst st dir1) \<noteq> BLUESKY_DIRECTORY then Some (st, False, draws)
      else if i_type (fst st dir2) \<noteq> BLUESKY_DIRECTORY then Some (st, False, draws)
      else case (i_dir (fst st dir1), i_dir (fst st dir2)) of
        (Some x, Some y) \<Rightarrow>
          let table = (\<lambda>di. if case_sensitive then dirhash di else dirhash_folded di) in
          (case table x name1 of None \<Rightarrow> Some (st, False, draws)
           | Some d1 \<Rightarrow>
               if table y name2 \<noteq> None \<and> \<not> replace then Some (st, False, draws)
               else
                 (case (if table y name2 \<noteq> None then rename_remove be now srch dir2 name2 st else Some st) of
                    None \<Rightarrow> None
                  | Some st \<Rightarrow>
                      (case rename_remove be now srch dir1 name1 st of None \<Rightarrow> None
                       | Some st \<Rightarrow>
                           map_option (\<lambda>(st, draws). (st, True, draws))
                             (rename_insert be now srch lower draws dir2 name2 (d_inum d1) st))))
      | _ \<Rightarrow> None)"


section \<open>Directories as maps\<close>

definition dir_wf :: "(bytes \<Rightarrow> bytes) \<Rightarrow> dirindex \<Rightarrow> bool" where
  "dir_wf lower di \<longleftrightarrow>
     sorted_wrt (<) (map d_cookie (dirents di)) \<and>
     (\<forall>d \<in> set (dirents di). 4 \<le> d_cookie d \<and> d_cookie d \<le> 0x7fffffff \<and> d_name_folded d = lower (d_name d)) \<and>
     (\<forall>n d. dirhash di n = Some d \<longleftrightarrow> d \<in> set (dirents di) \<and> d_name d = n) \<and>
     (\<forall>f d. dirhash_folded di f = Some d \<longrightarrow> d \<in> set (dirents di) \<and> d_name_folded d = f)"

definition dir_map :: "dirindex \<Rightarrow> bytes \<Rightarrow> u64 option" where
  "dir_map di n = map_option d_inum (dirhash di n)"

text \<open>An inode that is a well-formed directory with the given names.\<close>

definition is_dir :: "(bytes \<Rightarrow> bytes) \<Rightarrow> inode \<Rightarrow> (bytes \<rightharpoonup> u64) \<Rightarrow> bool" where
  "is_dir lower ino m \<longleftrightarrow>
     i_type ino = BLUESKY_DIRECTORY \<and> (\<exists>di. i_dir ino = Some di \<and> dir_wf lower di \<and> dir_map di = m)"

definition usable_cookie :: "dirent list \<Rightarrow> u32 \<Rightarrow> bool" where
  "usable_cookie ents r \<longleftrightarrow> 4 \<le> r AND 0x7fffffff \<and> r AND 0x7fffffff \<notin> d_cookie ` set ents"

lemma dir_wfD:
  assumes "dir_wf lower di"
  shows "sorted (map d_cookie (dirents di))" "distinct (map d_cookie (dirents di))"
    "distinct (dirents di)" "sorted_wrt (<) (map d_cookie (dirents di))"
proof -
  show s: "sorted_wrt (<) (map d_cookie (dirents di))" using assms by (simp add: dir_wf_def)
  then show "sorted (map d_cookie (dirents di))" "distinct (map d_cookie (dirents di))"
    by (auto simp: strict_sorted_iff)
  then show "distinct (dirents di)" by (simp add: distinct_map)
qed

lemma dir_wf_hash:
  "dir_wf lower di \<Longrightarrow> dirhash di n = Some d \<longleftrightarrow> d \<in> set (dirents di) \<and> d_name d = n"
  "dir_wf lower di \<Longrightarrow> dirhash_folded di f = Some d \<Longrightarrow> d \<in> set (dirents di) \<and> d_name_folded d = f"
  "dir_wf lower di \<Longrightarrow> d \<in> set (dirents di) \<Longrightarrow>
     4 \<le> d_cookie d \<and> d_cookie d \<le> 0x7fffffff \<and> d_name_folded d = lower (d_name d)"
  unfolding dir_wf_def by blast+

lemma cookie_mask: "(r :: u32) AND 0x7fffffff \<le> 0x7fffffff"
  by (rule word_and_le1)

locale directory = gsequence srch for srch :: "u32 gsearch"
begin

lemma pick_cookie_some:
  assumes s: "sorted (map d_cookie ents)" and u: "\<exists>r \<in> set draws. usable_cookie ents r"
  shows "\<exists>c rest. pick_cookie srch ents draws = Some (c, rest) \<and>
           4 \<le> c \<and> c \<le> 0x7fffffff \<and> c \<notin> d_cookie ` set ents"
  using u
proof (induction draws)
  case (Cons r draws)
  let ?c = "r AND 0x7fffffff" and ?i = "iter_prev (srch (map d_cookie ents) (r AND 0x7fffffff))"
  show ?case
  proof (cases "usable_cookie ents r")
    case True
    then have c: "4 \<le> ?c" "?c \<notin> d_cookie ` set ents" by (auto simp: usable_cookie_def)
    have i: "?i < length ents" if "ents \<noteq> []"
      using that search_le_length [OF s, of ?c] by (cases ents) (auto simp: iter_prev_def)
    then have "d_cookie (ents ! ?i) \<noteq> ?c" if "ents \<noteq> []"
      using that c(2) by (metis image_eqI nth_mem)
    with i have "pick_cookie srch ents (r # draws) = Some (?c, draws)"
      using c by (auto simp: Let_def iter_get_def not_less [symmetric])
    with c cookie_mask [of r] show ?thesis by blast
  next
    case False
    then have "?c < 4 \<or> (4 \<le> ?c \<and> ?c \<in> d_cookie ` set ents)" by (auto simp: usable_cookie_def)
    then have "pick_cookie srch ents (r # draws) = pick_cookie srch ents draws"
    proof
      assume "4 \<le> ?c \<and> ?c \<in> d_cookie ` set ents"
      then obtain e where e: "e \<in> set ents" "d_cookie e = ?c" and c4: "4 \<le> ?c" by auto
      note p = search_prev_found [OF s e(1), of ?c]
      have "d_cookie (ents ! ?i) = ?c" using p(2,3) [OF order_eq_refl [OF e(2)]] e by fastforce
      moreover have "?i < length ents" using p(1) e(2) by simp
      ultimately show ?thesis using c4 e(1) by (auto simp: Let_def iter_get_def)
    qed (simp add: Let_def)
    with Cons False show ?thesis by simp
  qed
qed simp

lemma insert_wf:
  assumes wf: "dir_wf lower di" and new: "dirhash di name = None"
    and c: "4 \<le> c" "c \<le> 0x7fffffff" "c \<notin> d_cookie ` set (dirents di)"
    and d_def: "d = \<lparr>d_name = name, d_name_folded = lower name, d_cookie = c, d_inum = inum\<rparr>"
    and di'_def: "di' = \<lparr>dirents = gseq_insert_sorted srch d_cookie d (dirents di),
                   dirhash = (dirhash di)(d_name d \<mapsto> d),
                   dirhash_folded = (dirhash_folded di)(d_name_folded d \<mapsto> d)\<rparr>"
  shows "dir_wf lower di'" "dir_map di' = (dir_map di)(name \<mapsto> inum)"
proof -
  let ?ents = "gseq_insert_sorted srch d_cookie d (dirents di)"
  have set: "set ?ents = insert d (set (dirents di))" by (rule set_insert_sorted)
  have "sorted (map d_cookie ?ents)" by (rule sorted_insert_sorted [OF dir_wfD(1) [OF wf]])
  moreover have "distinct (map d_cookie ?ents)"
  proof (rule card_distinct)
    have "set (map d_cookie ?ents) = insert c (set (map d_cookie (dirents di)))" using set by (simp add: d_def)
    then show "card (set (map d_cookie ?ents)) = length (map d_cookie ?ents)"
      using c(3) distinct_card [OF dir_wfD(2) [OF wf]] by (simp add: length_insert_sorted)
  qed
  ultimately have "sorted_wrt (<) (map d_cookie ?ents)" by (simp add: strict_sorted_iff)
  moreover have "d_name e \<noteq> name" if "e \<in> set (dirents di)" for e
    using that dir_wf_hash(1) [OF wf, of name e] new by auto
  ultimately show "dir_wf lower di'"
    using dir_wf_hash [OF wf] set c unfolding dir_wf_def di'_def by (auto simp: d_def)
  show "dir_map di' = (dir_map di)(name \<mapsto> inum)"
    by (auto simp: dir_map_def di'_def d_def fun_eq_iff)
qed

lemma remove_wf:
  assumes wf: "dir_wf lower di" and h: "dirhash di name = Some d"
  defines "i \<equiv> iter_prev (srch (map d_cookie (dirents di)) (d_cookie d))"
  defines "di' \<equiv> di\<lparr>dirhash := (dirhash di)(d_name d := None),
                    dirhash_folded := (dirhash_folded di)(d_name_folded d := None),
                    dirents := gseq_remove i (dirents di)\<rparr>"
  shows "iter_get (dirents di) i = Some d" "dir_wf lower di'" "dir_map di' = (dir_map di)(name := None)"
proof -
  have d: "d \<in> set (dirents di)" "d_name d = name" using h dir_wf_hash(1) [OF wf] by auto
  note p = search_prev_found [OF dir_wfD(1) [OF wf] d(1) order_refl, folded i_def]
  have "d_cookie (dirents di ! i) = d_cookie d" using p(2) p(3) [OF d(1) order_refl] by simp
  then have id: "dirents di ! i = d"
    using dir_wfD(2) [OF wf] p(1) d(1) by (metis distinct_map inj_on_eq_iff nth_mem)
  with p(1) show "iter_get (dirents di) i = Some d" by (simp add: iter_get_def)
  have set: "set (gseq_remove i (dirents di)) = set (dirents di) - {d}"
    using set_gseq_remove [OF p(1) dir_wfD(3) [OF wf]] id by simp
  have srt: "sorted_wrt (<) (map d_cookie (gseq_remove i (dirents di)))"
    by (rule sorted_wrt_gseq_remove [OF p(1) dir_wfD(4) [OF wf]])
  have uniq: "e = d" if "e \<in> set (dirents di)" "d_name e = name" for e
    using that h dir_wf_hash(1) [OF wf, of name e] by simp
  have hash: "((dirhash di)(d_name d := None)) n = Some e \<longleftrightarrow> e \<in> set (dirents di) - {d} \<and> d_name e = n" for n e
    using dir_wf_hash(1) [OF wf, of n e] uniq [of e] d by auto
  have folded: "e \<in> set (dirents di) - {d} \<and> d_name_folded e = f"
    if "((dirhash_folded di)(d_name_folded d := None)) f = Some e" for f e
    using that dir_wf_hash(2) [OF wf, of f e] by (auto split: if_splits)
  have fields: "dirents di' = gseq_remove i (dirents di)" "dirhash di' = (dirhash di)(d_name d := None)"
    "dirhash_folded di' = (dirhash_folded di)(d_name_folded d := None)"
    by (simp_all add: di'_def)
  show "dir_wf lower di'"
    unfolding dir_wf_def fields set
    by (intro conjI allI ballI impI srt hash) (use dir_wf_hash(3) [OF wf] folded in blast)+
  show "dir_map di' = (dir_map di)(name := None)"
    using d(2) by (auto simp: dir_map_def di'_def fun_eq_iff)
qed

text \<open>The operations on the map a directory stands for.\<close>

lemma insert_new:
  assumes dir: "is_dir lower ino m" and new: "m name = None"
    and u: "\<exists>r \<in> set draws. usable_cookie (dirents (the (i_dir ino))) r"
  shows "\<exists>ino' fs' draws'. bluesky_directory_insert be now srch lower draws (ino, fs) name inum
           = Some ((ino', fs'), True, draws') \<and> is_dir lower ino' (m(name \<mapsto> inum))"
proof -
  obtain di where di: "i_type ino = BLUESKY_DIRECTORY" "i_dir ino = Some di" "dir_wf lower di" "dir_map di = m"
    using dir by (auto simp: is_dir_def)
  have h: "dirhash di name = None" using new di(4) by (auto simp: dir_map_def)
  obtain c rest where c: "pick_cookie srch (dirents di) draws = Some (c, rest)"
      "4 \<le> c" "c \<le> 0x7fffffff" "c \<notin> d_cookie ` set (dirents di)"
    using pick_cookie_some [OF dir_wfD(1) [OF di(3)], of draws] u di(2) by auto
  note wf' = insert_wf [OF di(3) h c(2-4) refl refl]
  show ?thesis
    using di(1,2) h c(1) wf' di(4)
    by (auto simp: bluesky_directory_insert_def bluesky_inode_update_ctime_def update_ctime_fields_def Let_def is_dir_def)
qed

lemma insert_existing:
  assumes "is_dir lower ino m" "m name \<noteq> None"
  shows "bluesky_directory_insert be now srch lower draws (ino, fs) name inum = Some ((ino, fs), False, draws)"
  using assms by (auto simp: bluesky_directory_insert_def is_dir_def dir_map_def)

lemma remove_existing:
  assumes dir: "is_dir lower ino m" and old: "m name \<noteq> None"
  shows "\<exists>ino' fs'. bluesky_directory_remove be now srch (ino, fs) name = Some ((ino', fs'), True) \<and>
           is_dir lower ino' (m(name := None)) \<and>
           set (dirents (the (i_dir ino'))) \<subseteq> set (dirents (the (i_dir ino)))"
proof -
  obtain di where di: "i_type ino = BLUESKY_DIRECTORY" "i_dir ino = Some di" "dir_wf lower di" "dir_map di = m"
    using dir by (auto simp: is_dir_def)
  then obtain d where h: "dirhash di name = Some d" using old by (auto simp: dir_map_def)
  note wf' = remove_wf [OF di(3) h]
  have "set (gseq_remove i (dirents di)) \<subseteq> set (dirents di)" for i
    by (auto simp: gseq_remove_def dest: in_set_takeD in_set_dropD)
  then show ?thesis
    using di(1,2) h wf' di(4)
    by (auto simp: bluesky_directory_remove_def bluesky_inode_update_ctime_def update_ctime_fields_def Let_def is_dir_def)
qed

lemma remove_missing:
  assumes "is_dir lower ino m" "m name = None"
  shows "bluesky_directory_remove be now srch (ino, fs) name = Some ((ino, fs), False)"
  using assms by (auto simp: bluesky_directory_remove_def is_dir_def dir_map_def)

text \<open>The two steps of a rename: the name is gone, whether it was there or not.\<close>

lemma rename_remove_ok:
  assumes dir: "is_dir lower (dirs a) m"
  shows "\<exists>ino' fs'. rename_remove be now srch a name (dirs, fs) = Some (dirs(a := ino'), fs') \<and>
           is_dir lower ino' (m(name := None)) \<and>
           set (dirents (the (i_dir ino'))) \<subseteq> set (dirents (the (i_dir (dirs a))))"
proof (cases "m name = None")
  case True
  then have "m(name := None) = m" by (simp add: fun_upd_idem)
  with remove_missing [OF dir True, of be now fs] dir show ?thesis
    by (intro exI [of _ "dirs a"] exI [of _ fs]) (simp add: rename_remove_def)
next
  case False
  from remove_existing [OF dir this, of be now fs] show ?thesis by (fastforce simp: rename_remove_def)
qed

lemma rename_insert_ok:
  assumes dir: "is_dir lower (dirs a) m" and new: "m name = None"
    and u: "\<exists>r \<in> set draws. usable_cookie (dirents (the (i_dir (dirs a)))) r"
  shows "\<exists>ino' fs' draws'. rename_insert be now srch lower draws a name inum (dirs, fs)
           = Some ((dirs(a := ino'), fs'), draws') \<and> is_dir lower ino' (m(name \<mapsto> inum))"
  using insert_new [OF dir new u, of be now fs inum] by (fastforce simp: rename_insert_def)

lemma rename_ok:
  assumes d1: "is_dir lower (dirs a1) m1" and d2: "is_dir lower (dirs a2) m2"
    and n1: "m1 n1 = Some inum" and ow: "m2 n2 = None \<or> ow"
    and u: "\<exists>r \<in> set draws. usable_cookie (dirents (the (i_dir (dirs a2)))) r"
  shows "\<exists>dirs' fs' draws'. bluesky_rename be now srch lower draws (dirs, fs) a1 n1 a2 n2 True ow
           = Some ((dirs', fs'), True, draws') \<and>
         (\<forall>a. a \<noteq> a1 \<and> a \<noteq> a2 \<longrightarrow> dirs' a = dirs a) \<and>
         is_dir lower (dirs' a2) ((if a1 = a2 then m2(n1 := None) else m2)(n2 \<mapsto> inum)) \<and>
         (a1 \<noteq> a2 \<longrightarrow> is_dir lower (dirs' a1) (m1(n1 := None)))"
proof -
  obtain x y where x: "i_type (dirs a1) = BLUESKY_DIRECTORY" "i_dir (dirs a1) = Some x" "dir_map x = m1"
    and y: "i_type (dirs a2) = BLUESKY_DIRECTORY" "i_dir (dirs a2) = Some y" "dir_map y = m2"
    using d1 d2 by (auto simp: is_dir_def)
  obtain e where e: "dirhash x n1 = Some e" "d_inum e = inum" using n1 x(3) by (auto simp: dir_map_def)
  have hy: "dirhash y n2 = None \<longleftrightarrow> m2 n2 = None" using y(3) by (auto simp: dir_map_def)
  have "\<exists>ino fs1. (if dirhash y n2 \<noteq> None then rename_remove be now srch a2 n2 (dirs, fs) else Some (dirs, fs))
          = Some (dirs(a2 := ino), fs1) \<and> is_dir lower ino (m2(n2 := None)) \<and>
        set (dirents (the (i_dir ino))) \<subseteq> set (dirents (the (i_dir (dirs a2))))"
  proof (cases "m2 n2 = None")
    case True
    then have "m2(n2 := None) = m2" by (simp add: fun_upd_idem)
    with True d2 hy show ?thesis by (intro exI [of _ "dirs a2"] exI [of _ fs]) simp
  next
    case False
    with rename_remove_ok [of lower dirs a2 m2 be now n2 fs] d2 hy show ?thesis by auto
  qed
  then obtain ino fs1 where s1: "(if dirhash y n2 \<noteq> None then rename_remove be now srch a2 n2 (dirs, fs)
        else Some (dirs, fs)) = Some (dirs(a2 := ino), fs1)"
      and i1: "is_dir lower ino (m2(n2 := None))"
      and sub1: "set (dirents (the (i_dir ino))) \<subseteq> set (dirents (the (i_dir (dirs a2))))" by blast
  define dirs1 where "dirs1 = dirs(a2 := ino)"
  define m1' where "m1' = (if a1 = a2 then m2(n2 := None) else m1)"
  have "is_dir lower (dirs1 a1) m1'" using d1 i1 by (simp add: dirs1_def m1'_def)
  then obtain ino2 fs2
    where s2: "rename_remove be now srch a1 n1 (dirs1, fs1) = Some (dirs1(a1 := ino2), fs2)"
      and i2: "is_dir lower ino2 (m1'(n1 := None))"
      and sub2: "set (dirents (the (i_dir ino2))) \<subseteq> set (dirents (the (i_dir (dirs1 a1))))"
    using rename_remove_ok [of lower dirs1 a1 m1' be now n1 fs1] by blast
  define dirs2 where "dirs2 = dirs1(a1 := ino2)"
  define m2' where "m2' = (if a1 = a2 then m2(n2 := None, n1 := None) else m2(n2 := None))"
  have i3: "is_dir lower (dirs2 a2) m2'" and none: "m2' n2 = None"
    using i1 i2 by (auto simp: dirs2_def dirs1_def m1'_def m2'_def)
  have "set (dirents (the (i_dir (dirs2 a2)))) \<subseteq> set (dirents (the (i_dir (dirs a2))))"
    using sub1 sub2 by (cases "a1 = a2") (simp_all add: dirs2_def dirs1_def)
  then have u': "\<exists>r \<in> set draws. usable_cookie (dirents (the (i_dir (dirs2 a2)))) r"
    using u unfolding usable_cookie_def by blast
  obtain ino3 fs3 draws'
    where s3: "rename_insert be now srch lower draws a2 n2 inum (dirs2, fs2) = Some ((dirs2(a2 := ino3), fs3), draws')"
      and i4: "is_dir lower ino3 (m2'(n2 \<mapsto> inum))"
    using rename_insert_ok [of lower dirs2 a2 m2' n2 draws be now inum fs2] i3 none u' by blast
  have run: "bluesky_rename be now srch lower draws (dirs, fs) a1 n1 a2 n2 True ow
      = Some ((dirs2(a2 := ino3), fs3), True, draws')"
    using x y e ow hy s1 s2 s3
    by (simp add: bluesky_rename_def Let_def dirs1_def [symmetric] dirs2_def [symmetric])
  have "m2'(n2 \<mapsto> inum) = (if a1 = a2 then m2(n1 := None) else m2)(n2 \<mapsto> inum)"
    by (auto simp: m2'_def fun_eq_iff)
  with i4 i2 show ?thesis
    unfolding run by (auto simp: dirs2_def dirs1_def m1'_def)
qed

lemma read_first:
  assumes "dir_wf lower di"
  shows "bluesky_directory_read srch di c
         = (case filter (\<lambda>d. c < d_cookie d) (dirents di) of [] \<Rightarrow> None | d # ds \<Rightarrow> Some d)"
proof -
  let ?es = "dirents di" and ?p = "srch (map d_cookie (dirents di)) c"
  have s: "sorted (map d_cookie ?es)" by (rule dir_wfD(1) [OF assms])
  have "filter (\<lambda>d. c < d_cookie d) (take ?p ?es) = []"
    using search_take [OF s, of _ c] by (fastforce simp: filter_empty_conv take_map)
  moreover have "filter (\<lambda>d. c < d_cookie d) (drop ?p ?es) = drop ?p ?es"
    using search_drop [OF s, of _ c] by (auto simp: filter_id_conv drop_map)
  ultimately have f: "filter (\<lambda>d. c < d_cookie d) ?es = drop ?p ?es"
    by (metis append_Nil append_take_drop_id filter_append)
  show ?thesis
    by (cases "?p < length ?es")
      (simp_all add: f bluesky_directory_read_def iter_get_def Cons_nth_drop_Suc [symmetric])
qed

end

interpretation linear_dir: directory linear_search
  by (rule directory.intro) (rule linear.gsequence_axioms)


section \<open>Listing a directory\<close>

text \<open>
  A client lists a directory by passing the cookie of the last entry it got to
  \<^verbatim>\<open>bluesky_directory_read\<close>, here for up to \<open>n\<close> entries.
\<close>

fun list_from :: "u32 gsearch \<Rightarrow> dirindex \<Rightarrow> nat \<Rightarrow> u32 \<Rightarrow> dirent list" where
  "list_from srch di 0 c = []"
| "list_from srch di (Suc n) c =
     (case bluesky_directory_read srch di c of None \<Rightarrow> [] | Some d \<Rightarrow> d # list_from srch di n (d_cookie d))"

lemma filter_cookie_rest:
  assumes "sorted_wrt (<) (map d_cookie es)" "filter (\<lambda>d. c < d_cookie d) es = d # ds"
  shows "filter (\<lambda>e. d_cookie d < d_cookie e) es = ds"
  using assms
proof (induction es)
  case (Cons e es)
  show ?case
  proof (cases "c < d_cookie e")
    case True
    with Cons.prems have "e = d" "\<forall>x \<in> set es. d_cookie e < d_cookie x" by auto
    moreover from this True have "\<forall>x \<in> set es. c < d_cookie x" by (meson order_less_trans)
    ultimately show ?thesis using Cons.prems(2) True by (simp add: filter_id_conv)
  next
    case False
    with Cons have "filter (\<lambda>x. d_cookie d < d_cookie x) es = ds" by simp
    moreover have "d \<in> set (filter (\<lambda>d. c < d_cookie d) es)" using Cons.prems(2) False by simp
    then have "\<not> d_cookie d < d_cookie e" using False by auto
    ultimately show ?thesis by simp
  qed
qed simp

lemma list_from_take:
  assumes "gsequence srch" and wf: "dir_wf lower di"
  shows "list_from srch di n c = take n (filter (\<lambda>d. c < d_cookie d) (dirents di))"
proof (induction n arbitrary: c)
  case (Suc n)
  note first = directory.read_first [OF directory.intro, OF assms(1) wf, of c]
  show ?case
  proof (cases "filter (\<lambda>d. c < d_cookie d) (dirents di)")
    case (Cons d ds)
    with filter_cookie_rest [OF dir_wfD(4) [OF wf] Cons] show ?thesis by (simp add: first Suc.IH)
  qed (simp add: first)
qed simp


section \<open>Properties\<close>

text \<open>The example directory of the witnesses: one entry, named \<open>[65]\<close>, for inode 7.\<close>

definition sample_lower :: "bytes \<Rightarrow> bytes" where
  "sample_lower = map (\<lambda>c. if 65 \<le> c \<and> c \<le> 90 then c + 32 else c)"

definition sample_fs :: "unit fscache" where
  "sample_fs = \<lparr>cache_dirty = 0, backing = ()\<rparr>"

definition sample_entry :: dirent where
  "sample_entry = \<lparr>d_name = [65], d_name_folded = [97], d_cookie = 10, d_inum = 7\<rparr>"

definition sample_index :: dirindex where
  "sample_index = \<lparr>dirents = [sample_entry], dirhash = [[65] \<mapsto> sample_entry],
                   dirhash_folded = [[97] \<mapsto> sample_entry]\<rparr>"

definition sample_dir :: inode where
  "sample_dir = (bluesky_new_inode 2 BLUESKY_DIRECTORY)\<lparr>i_dir := Some sample_index\<rparr>"

lemma sample_wf: "dir_wf sample_lower sample_index"
  by (auto simp: dir_wf_def sample_index_def sample_entry_def sample_lower_def split: if_splits)

lemma sample_is_dir: "is_dir sample_lower sample_dir [[65] \<mapsto> 7]"
  using sample_wf
  by (auto simp: is_dir_def sample_dir_def dir_map_def sample_index_def sample_entry_def bluesky_new_inode_def
      bluesky_init_inode_def zeroed_inode_def file_type_defs fun_eq_iff)

text \<open>C13: A directory is a finite map from names to inode numbers: inserting a
  name that is not there succeeds, provided the random numbers offer a free
  cookie, and adds exactly that name; inserting a name that is there fails and
  changes nothing.\<close>

theorem directory_insert_refines_map:
  assumes "gsequence srch" "is_dir lower dir m"
    "\<exists>r \<in> set draws. usable_cookie (dirents (the (i_dir dir))) r"
  shows "\<exists>dir' fs' draws'. bluesky_directory_insert be now srch lower draws (dir, fs) name inum
           = Some ((dir', fs'), m name = None, draws') \<and>
         is_dir lower dir' (if m name = None then m(name \<mapsto> inum) else m)"
proof -
  have d: "directory srch" using assms(1) by (rule directory.intro)
  show ?thesis
  proof (cases "m name = None")
    case True
    with directory.insert_new [OF d assms(2) True assms(3)] show ?thesis by simp
  next
    case False
    with directory.insert_existing [OF d assms(2) False, of be now draws fs inum] assms(2) show ?thesis by auto
  qed
qed

theorem directory_insert_refines_map_witness:
  "\<exists>dir' fs' draws'. bluesky_directory_insert null_backend 5 linear_search sample_lower [1, 10, 99]
       (sample_dir, sample_fs) [66] 8 = Some ((dir', fs'), True, draws') \<and>
     is_dir sample_lower dir' [[65] \<mapsto> 7, [66] \<mapsto> 8]"
  using directory_insert_refines_map [OF linear.gsequence_axioms sample_is_dir,
      of "[1, 10, 99]" null_backend 5 sample_fs "[66]" 8]
  by (simp add: sample_dir_def sample_index_def usable_cookie_def sample_entry_def)

text \<open>C14: Removing a name from a directory succeeds exactly when the name is
  there, and removes exactly that name.\<close>

theorem directory_remove_refines_map:
  assumes "gsequence srch" "is_dir lower dir m"
  shows "\<exists>dir' fs'. bluesky_directory_remove be now srch (dir, fs) name = Some ((dir', fs'), m name \<noteq> None) \<and>
         is_dir lower dir' (m(name := None))"
proof -
  have d: "directory srch" using assms(1) by (rule directory.intro)
  show ?thesis
  proof (cases "m name = None")
    case True
    then have "m(name := None) = m" by (simp add: fun_upd_idem)
    with True directory.remove_missing [OF d assms(2) True, of be now fs] assms(2) show ?thesis by auto
  next
    case False
    with directory.remove_existing [OF d assms(2) False, of be now fs] show ?thesis by auto
  qed
qed

theorem directory_remove_refines_map_witness:
  "\<exists>dir' fs'. bluesky_directory_remove null_backend 5 linear_search (sample_dir, sample_fs) [65]
     = Some ((dir', fs'), True) \<and> is_dir sample_lower dir' Map.empty"
  using directory_remove_refines_map [OF linear.gsequence_axioms sample_is_dir, of null_backend 5 sample_fs "[65]"]
  by simp

text \<open>C15: A case-sensitive rename moves the name: afterwards the old name is gone,
  the new name stands for the inode, a replaced entry is gone, all other names
  of both directories are unchanged and other inodes are untouched, also when
  the two directories are the same object.\<close>

theorem rename_moves_name:
  assumes "gsequence srch" "is_dir lower (dirs a1) m1" "is_dir lower (dirs a2) m2"
    "m1 n1 = Some inum" "m2 n2 = None \<or> ow"
    "\<exists>r \<in> set draws. usable_cookie (dirents (the (i_dir (dirs a2)))) r"
  shows "\<exists>dirs' fs' draws'. bluesky_rename be now srch lower draws (dirs, fs) a1 n1 a2 n2 True ow
           = Some ((dirs', fs'), True, draws') \<and>
         (\<forall>a. a \<noteq> a1 \<and> a \<noteq> a2 \<longrightarrow> dirs' a = dirs a) \<and>
         is_dir lower (dirs' a2) ((if a1 = a2 then m2(n1 := None) else m2)(n2 \<mapsto> inum)) \<and>
         (a1 \<noteq> a2 \<longrightarrow> is_dir lower (dirs' a1) (m1(n1 := None)))"
  by (rule directory.rename_ok [OF directory.intro, OF assms])

theorem rename_moves_name_witness:
  "\<exists>dirs' fs' draws'. bluesky_rename null_backend 5 linear_search sample_lower [99] (\<lambda>a. sample_dir, sample_fs)
       1 [65] 1 [66] True False = Some ((dirs', fs'), True, draws') \<and>
     (\<forall>a. a \<noteq> 1 \<longrightarrow> dirs' a = sample_dir) \<and> is_dir sample_lower (dirs' 1) [[66] \<mapsto> 7]"
  using rename_moves_name [OF linear.gsequence_axioms, of sample_lower "\<lambda>a. sample_dir" 1 _ 1 _ "[65]" 7 "[66]" False
      "[99]" null_backend 5 sample_fs, OF sample_is_dir sample_is_dir]
  by (simp add: sample_dir_def sample_index_def usable_cookie_def sample_entry_def)

text \<open>C16: Listing a directory by cookies, starting after any cookie, yields
  the entries with larger cookies, each exactly once and in cookie order; from
  cookie 0 it yields the whole directory.\<close>

theorem directory_listing_complete:
  assumes "gsequence srch" "dir_wf lower di"
  shows "list_from srch di n c = take n (filter (\<lambda>d. c < d_cookie d) (dirents di)) \<and>
         list_from srch di (length (dirents di)) 0 = dirents di \<and> distinct (dirents di)"
proof -
  have "filter (\<lambda>d. 0 < d_cookie d) (dirents di) = dirents di"
    using dir_wf_hash(3) [OF assms(2)] by (force simp: filter_id_conv word_neq_0_conv [symmetric] simp del: word_neq_0_conv)
  then show ?thesis
    using list_from_take [OF assms] dir_wfD(3) [OF assms(2)] by simp
qed

theorem directory_listing_complete_witness:
  "list_from linear_search sample_index (length (dirents sample_index)) 0 = dirents sample_index \<and>
   dirents sample_index = [sample_entry]"
  using directory_listing_complete [OF linear.gsequence_axioms sample_wf, of 1 0]
  by (simp only: simp_thms) (simp add: sample_index_def)

text \<open>C17: Where two names of a directory are equal up to case, removing one of
  them also removes the folded entry: the other name is still found by
  bluesky_directory_lookup and no longer by bluesky_directory_ilookup.\<close>

theorem directory_remove_loses_folded:
  assumes "gsequence srch" "is_dir lower dir m" "m n1 \<noteq> None" "m n2 = Some inum" "n1 \<noteq> n2" "lower n1 = lower n2"
  shows "\<exists>dir' fs'. bluesky_directory_remove be now srch (dir, fs) n1 = Some ((dir', fs'), True) \<and>
         bluesky_directory_lookup dir' n2 = inum \<and> bluesky_directory_ilookup lower dir' n2 = 0"
proof -
  have d: "directory srch" using assms(1) by (rule directory.intro)
  obtain di where di: "i_type dir = BLUESKY_DIRECTORY" "i_dir dir = Some di" "dir_wf lower di" "dir_map di = m"
    using assms(2) by (auto simp: is_dir_def)
  obtain e1 e2 where e: "dirhash di n1 = Some e1" "dirhash di n2 = Some e2" "d_inum e2 = inum"
    using assms(3,4) di(4) by (auto simp: dir_map_def)
  have n: "d_name e1 = n1" "d_name_folded e1 = lower n2"
    using dir_wf_hash(1) [OF di(3), of n1 e1] dir_wf_hash(3) [OF di(3), of e1] e(1) assms(6) by auto
  show ?thesis
    using di(1,2) e n assms(5) directory.remove_wf(1) [OF d di(3) e(1)]
    by (simp add: bluesky_directory_remove_def bluesky_inode_update_ctime_def update_ctime_fields_def Let_def
        bluesky_directory_lookup_def bluesky_directory_ilookup_def)
qed

definition sample_pair_dir :: inode where
  "sample_pair_dir = (let e = \<lparr>d_name = [97], d_name_folded = [97], d_cookie = 11, d_inum = 8\<rparr> in
     (bluesky_new_inode 2 BLUESKY_DIRECTORY)\<lparr>i_dir := Some \<lparr>dirents = [sample_entry, e],
        dirhash = [[65] \<mapsto> sample_entry, [97] \<mapsto> e], dirhash_folded = [[97] \<mapsto> e]\<rparr>\<rparr>)"

lemma sample_pair_is_dir: "is_dir sample_lower sample_pair_dir [[65] \<mapsto> 7, [97] \<mapsto> 8]"
  by (auto simp: is_dir_def sample_pair_dir_def Let_def dir_map_def sample_entry_def bluesky_new_inode_def
      bluesky_init_inode_def zeroed_inode_def file_type_defs fun_eq_iff dir_wf_def sample_lower_def)

theorem directory_remove_loses_folded_witness:
  "\<exists>dir' fs'. bluesky_directory_remove null_backend 5 linear_search (sample_pair_dir, sample_fs) [65]
       = Some ((dir', fs'), True) \<and>
     bluesky_directory_lookup dir' [97] = 8 \<and> bluesky_directory_ilookup sample_lower dir' [97] = 0"
  using directory_remove_loses_folded [OF linear.gsequence_axioms sample_pair_is_dir,
      of "[65]" "[97]" 8 null_backend 5 sample_fs]
  by (simp add: sample_lower_def)

end
