(* ===== verification/BlueSky_Util.thy ===== *)
theory BlueSky_Util
  imports BlueSky_Prelude
begin

text \<open>
  Reference-counted strings and LRU lists (\<^verbatim>\<open>bluesky/util.c\<close>).  Strings live in a
  heap, so that sharing is explicit: \<^verbatim>\<open>bluesky_string_dup\<close> is shown to give its
  caller the only reference to a string with the same bytes and to leave every
  other holder's string alone.  An LRU list is a doubly-linked list with a
  pointer to its tail, kept in the unused \<^verbatim>\<open>prev\<close> field of the list head: the
  operations keep the tail pointer right and move an inode to the front.
\<close>


section \<open>Reference-counted strings\<close>

text \<open>
  \<open>s_mmap\<close> is the cache file a string is mapped from.  The heap also holds the map
  counts of the cache files; a file whose count drops to zero is unmapped
  (\<^verbatim>\<open>bluesky_mmap_unref\<close>), which is the business of the journal theory.
\<close>

record rcstr =
  s_refcount :: nat
  s_mmap :: "nat option"
  s_data :: bytes

record strheap =
  strs :: "nat \<rightharpoonup> rcstr"
  next_str :: nat
  mapcount :: "nat \<Rightarrow> int"

definition alloc_str :: "rcstr \<Rightarrow> strheap \<Rightarrow> nat \<times> strheap" where
  "alloc_str x h = (next_str h, h\<lparr>strs := (strs h)(next_str h \<mapsto> x), next_str := Suc (next_str h)\<rparr>)"

definition bluesky_string_new :: "bytes \<Rightarrow> strheap \<Rightarrow> nat \<times> strheap" where
  "bluesky_string_new d h = alloc_str \<lparr>s_refcount = 1, s_mmap = None, s_data = d\<rparr> h"

definition bluesky_string_new_from_gstring :: "bytes \<Rightarrow> strheap \<Rightarrow> nat \<times> strheap" where
  "bluesky_string_new_from_gstring s h = bluesky_string_new s h"

text \<open>\<open>addr\<close> is the mapping of the file, if it is mapped; the assertions abort.\<close>

definition bluesky_string_new_from_mmap ::
    "nat \<Rightarrow> bytes option \<Rightarrow> nat \<Rightarrow> nat \<Rightarrow> strheap \<Rightarrow> (nat \<times> strheap) option" where
  "bluesky_string_new_from_mmap file addr offset len h =
     (case addr of None \<Rightarrow> None
      | Some a \<Rightarrow>
          if \<not> offset + len \<le> length a then None
          else Some (alloc_str \<lparr>s_refcount = 1, s_mmap = Some file, s_data = slice offset len a\<rparr>
                       (h\<lparr>mapcount := (mapcount h)(file := mapcount h file + 1)\<rparr>)))"

text \<open>References to freed strings are errors, \<open>None\<close>.\<close>

definition bluesky_string_ref :: "nat option \<Rightarrow> strheap \<Rightarrow> strheap option" where
  "bluesky_string_ref p h =
     (case p of None \<Rightarrow> Some h
      | Some a \<Rightarrow> (case strs h a of None \<Rightarrow> None
                  | Some s \<Rightarrow> Some (h\<lparr>strs := (strs h)(a \<mapsto> s\<lparr>s_refcount := s_refcount s + 1\<rparr>)\<rparr>)))"

definition bluesky_string_unref :: "nat option \<Rightarrow> strheap \<Rightarrow> strheap option" where
  "bluesky_string_unref p h =
     (case p of None \<Rightarrow> Some h
      | Some a \<Rightarrow>
          (case strs h a of None \<Rightarrow> None
           | Some s \<Rightarrow>
               if s_refcount s - 1 = 0 then
                 let h = (case s_mmap s of None \<Rightarrow> h
                          | Some f \<Rightarrow> h\<lparr>mapcount := (mapcount h)(f := mapcount h f - 1)\<rparr>)
                 in Some (h\<lparr>strs := (strs h)(a := None)\<rparr>)
               else Some (h\<lparr>strs := (strs h)(a \<mapsto> s\<lparr>s_refcount := s_refcount s - 1\<rparr>)\<rparr>)))"

definition bluesky_string_dup :: "nat option \<Rightarrow> strheap \<Rightarrow> (nat option \<times> strheap) option" where
  "bluesky_string_dup p h =
     (case p of None \<Rightarrow> Some (None, h)
      | Some a \<Rightarrow>
          (case strs h a of None \<Rightarrow> None
           | Some s \<Rightarrow>
               if s_mmap s \<noteq> None then
                 let (b, h) = bluesky_string_new (s_data s) h in
                 map_option (Pair (Some b)) (bluesky_string_unref p h)
               else if s_refcount s - 1 = 0 then Some (Some a, h)
               else
                 let (b, h) = bluesky_string_new (s_data s)
                                (h\<lparr>strs := (strs h)(a \<mapsto> s\<lparr>s_refcount := s_refcount s - 1\<rparr>)\<rparr>)
                 in Some (Some b, h)))"

text \<open>
  \<^verbatim>\<open>bluesky_string_resize\<close>: \<open>junk\<close> is what \<^verbatim>\<open>g_realloc\<close> leaves in the added bytes.
\<close>

definition bluesky_string_resize :: "bytes \<Rightarrow> nat \<Rightarrow> nat \<Rightarrow> strheap \<Rightarrow> strheap option" where
  "bluesky_string_resize junk a len h =
     (case strs h a of None \<Rightarrow> None
      | Some s \<Rightarrow>
          if s_mmap s \<noteq> None then None
          else if length (s_data s) = len then Some h
          else Some (h\<lparr>strs := (strs h)(a \<mapsto>
                 s\<lparr>s_data := take len (s_data s) @ take (len - length (s_data s)) junk\<rparr>)\<rparr>))"

text \<open>
  The reference counts of a heap account for the references in a bag: \<open>own a\<close> is
  the number of references to string \<open>a\<close> that are held somewhere.
\<close>

definition heap_ok :: "strheap \<Rightarrow> (nat \<Rightarrow> nat) \<Rightarrow> bool" where
  "heap_ok h own \<longleftrightarrow>
     (\<forall>a s. strs h a = Some s \<longrightarrow> s_refcount s = own a \<and> 0 < own a) \<and>
     (\<forall>a. strs h a = None \<longrightarrow> own a = 0) \<and>
     (\<forall>a. next_str h \<le> a \<longrightarrow> strs h a = None)"

lemma heap_okD:
  assumes "heap_ok h own"
  shows "strs h a = Some s \<Longrightarrow> s_refcount s = own a \<and> 0 < own a"
    and "strs h a = None \<Longrightarrow> own a = 0" and "next_str h \<le> a \<Longrightarrow> strs h a = None"
  using assms unfolding heap_ok_def by blast+

lemma heap_ok_alloc:
  assumes "heap_ok h own" "s_refcount x = 1"
  shows "heap_ok (snd (alloc_str x h)) (own(next_str h := 1))"
    and "own (next_str h) = 0"
proof -
  show "own (next_str h) = 0" using heap_okD(2,3) [OF assms(1)] by blast
  show "heap_ok (snd (alloc_str x h)) (own(next_str h := 1))"
    using assms unfolding heap_ok_def alloc_str_def by auto
qed

lemma heap_ok_unref:
  assumes "heap_ok h own" "0 < own a"
  shows "\<exists>h'. bluesky_string_unref (Some a) h = Some h' \<and> heap_ok h' (own(a := own a - 1)) \<and>
           (\<forall>b. b \<noteq> a \<longrightarrow> strs h' b = strs h b) \<and>
           (1 < own a \<longrightarrow> map_option s_data (strs h' a) = map_option s_data (strs h a))"
proof -
  obtain s where s: "strs h a = Some s" "s_refcount s = own a"
    using heap_okD(1,2) [OF assms(1), of a] assms(2) by (cases "strs h a") auto
  have lt: "a < next_str h" using heap_okD(3) [OF assms(1), of a] s(1) by (cases "a < next_str h") auto
  show ?thesis
  proof (cases "own a = 1")
    case True
    with s assms lt show ?thesis
      by (auto simp: bluesky_string_unref_def heap_ok_def split: option.splits)
  next
    case False
    with s assms lt show ?thesis
      by (auto simp: bluesky_string_unref_def heap_ok_def split: option.splits)
  qed
qed

text \<open>C18: bluesky_string_dup gives up the caller's reference to a string and
  returns a string with the same bytes that nobody else refers to and that is
  not memory-mapped; the strings of all other holders, those of the original
  included, keep their bytes, and the reference counts stay exact.\<close>

theorem string_dup_exclusive:
  assumes "heap_ok h own" "strs h a = Some s"
  shows "\<exists>b h' own'. bluesky_string_dup (Some a) h = Some (Some b, h') \<and> heap_ok h' own' \<and>
           own' = (own(a := own a - 1))(b := 1) \<and>
           strs h' b = Some \<lparr>s_refcount = 1, s_mmap = None, s_data = s_data s\<rparr> \<and>
           (\<forall>c. c \<noteq> b \<and> 0 < own' c \<longrightarrow> map_option s_data (strs h' c) = map_option s_data (strs h c))"
proof -
  note sa = heap_okD(1) [OF assms(1,2)]
  have fresh: "next_str h \<noteq> a" using heap_okD(3) [OF assms(1), of a] assms(2) by auto
  consider "s_mmap s \<noteq> None" | "s_mmap s = None" "own a = 1" | "s_mmap s = None" "own a \<noteq> 1" by blast
  then show ?thesis
  proof cases
    case 1
    let ?x = "\<lparr>s_refcount = 1, s_mmap = None, s_data = s_data s\<rparr>"
    let ?h = "snd (alloc_str ?x h)" and ?b = "next_str h"
    have ok: "heap_ok ?h (own(?b := 1))" using heap_ok_alloc(1) [OF assms(1), of ?x] by simp
    have own_a: "(own(?b := 1)) a = own a" using fresh by simp
    then have "0 < (own(?b := 1)) a" using sa by simp
    from heap_ok_unref [OF ok this, unfolded own_a] obtain h' where h': "bluesky_string_unref (Some a) ?h = Some h'"
      "heap_ok h' ((own(?b := 1))(a := own a - 1))" "\<forall>b. b \<noteq> a \<longrightarrow> strs h' b = strs ?h b"
      "1 < own a \<longrightarrow> map_option s_data (strs h' a) = map_option s_data (strs ?h a)"
      by blast
    have "bluesky_string_dup (Some a) h = Some (Some ?b, h')"
      using 1 assms(2) h'(1) by (simp add: bluesky_string_dup_def bluesky_string_new_def alloc_str_def)
    moreover have "(own(?b := 1))(a := own a - 1) = (own(a := own a - 1))(?b := 1)"
      using fresh by (auto simp: fun_eq_iff)
    moreover have "map_option s_data (strs h' c) = map_option s_data (strs h c)"
      if "c \<noteq> ?b" "0 < ((own(a := own a - 1))(?b := 1)) c" for c
      using that h'(3,4) fresh by (cases "c = a") (auto simp: alloc_str_def)
    ultimately show ?thesis
      using h' fresh by (intro exI [of _ ?b] exI [of _ h']) (simp add: alloc_str_def)
  next
    case 2
    then have "bluesky_string_dup (Some a) h = Some (Some a, h)"
      using assms(2) sa by (simp add: bluesky_string_dup_def)
    moreover have "own = (own(a := own a - 1))(a := 1)" using 2 by (auto simp: fun_eq_iff)
    moreover have "s = \<lparr>s_refcount = 1, s_mmap = None, s_data = s_data s\<rparr>" using 2 sa by simp
    ultimately show ?thesis using assms by (intro exI [of _ a] exI [of _ h]) auto
  next
    case 3
    let ?h1 = "h\<lparr>strs := (strs h)(a \<mapsto> s\<lparr>s_refcount := s_refcount s - 1\<rparr>)\<rparr>"
    let ?x = "\<lparr>s_refcount = 1, s_mmap = None, s_data = s_data s\<rparr>"
    have "1 < own a" using sa 3 by simp
    then have "heap_ok ?h1 (own(a := own a - 1))"
      using assms sa heap_okD(3) [OF assms(1), of a] unfolding heap_ok_def by auto
    from heap_ok_alloc(1) [OF this, of ?x]
    have "heap_ok (snd (alloc_str ?x ?h1)) ((own(a := own a - 1))(next_str h := 1))" by simp
    moreover have "bluesky_string_dup (Some a) h = Some (Some (next_str h), snd (alloc_str ?x ?h1))"
      using 3 assms(2) sa by (simp add: bluesky_string_dup_def bluesky_string_new_def alloc_str_def)
    ultimately show ?thesis
      using assms(2) fresh by (intro exI [of _ "next_str h"] exI [of _ "snd (alloc_str ?x ?h1)"])
        (auto simp: alloc_str_def)
  qed
qed

definition sample_heap :: strheap where
  "sample_heap = \<lparr>strs = [0 \<mapsto> \<lparr>s_refcount = 2, s_mmap = None, s_data = [1, 2]\<rparr>], next_str = 1, mapcount = (\<lambda>_. 0)\<rparr>"

theorem string_dup_exclusive_witness:
  "\<exists>b h'. bluesky_string_dup (Some 0) sample_heap = Some (Some b, h') \<and>
     strs h' b = Some \<lparr>s_refcount = 1, s_mmap = None, s_data = [1, 2]\<rparr>"
proof -
  have "heap_ok sample_heap (\<lambda>a. if a = 0 then 2 else 0)" by (simp add: heap_ok_def sample_heap_def)
  moreover have "strs sample_heap 0 = Some \<lparr>s_refcount = 2, s_mmap = None, s_data = [1, 2]\<rparr>"
    by (simp add: sample_heap_def)
  ultimately show ?thesis using string_dup_exclusive by fastforce
qed


section \<open>LRU lists\<close>

text \<open>
  A list of links: each has an identity and the inode it stands for.  The head
  structure points to the first link (\<^verbatim>\<open>next\<close>) and to the last one (\<^verbatim>\<open>prev\<close>).
\<close>

record lru_list =
  lru_links :: "(nat \<times> u64) list"
  lru_tail :: "nat option"
  lru_fresh :: nat

fun link_prev :: "(nat \<times> u64) list \<Rightarrow> nat \<Rightarrow> nat option" where
  "link_prev (x # y # xs) l = (if fst y = l then Some (fst x) else link_prev (y # xs) l)"
| "link_prev xs l = None"

definition bluesky_list_unlink :: "lru_list \<Rightarrow> nat option \<Rightarrow> lru_list" where
  "bluesky_list_unlink head item =
     (case item of None \<Rightarrow> head
      | Some l \<Rightarrow>
          let head = (if lru_tail head = Some l then head\<lparr>lru_tail := link_prev (lru_links head) l\<rparr> else head)
          in head\<lparr>lru_links := filter (\<lambda>x. fst x \<noteq> l) (lru_links head)\<rparr>)"

definition bluesky_list_prepend :: "lru_list \<Rightarrow> u64 \<Rightarrow> lru_list \<times> nat" where
  "bluesky_list_prepend head inode =
     (let l = lru_fresh head; xs = (l, inode) # lru_links head;
          tail = (if lru_tail head = None then Some (fst (last xs)) else lru_tail head)
      in (\<lparr>lru_links = xs, lru_tail = tail, lru_fresh = Suc l\<rparr>, l))"

text \<open>
  \<^verbatim>\<open>bluesky_list_append\<close> links the new element after the one the tail pointer names;
  the assertion that this one is the last aborts.
\<close>

definition bluesky_list_append :: "lru_list \<Rightarrow> u64 \<Rightarrow> (lru_list \<times> nat) option" where
  "bluesky_list_append head inode =
     (if lru_links head = [] then Some (bluesky_list_prepend head inode)
      else if lru_tail head \<noteq> Some (fst (last (lru_links head))) then None
      else let l = lru_fresh head in
           Some (\<lparr>lru_links = lru_links head @ [(l, inode)], lru_tail = Some l, lru_fresh = Suc l\<rparr>, l))"

definition bluesky_list_head :: "lru_list \<Rightarrow> u64 option" where
  "bluesky_list_head head = (case lru_links head of [] \<Rightarrow> None | x # xs \<Rightarrow> Some (snd x))"

definition bluesky_list_tail :: "lru_list \<Rightarrow> u64 option" where
  "bluesky_list_tail head =
     (case lru_tail head of None \<Rightarrow> None | Some l \<Rightarrow> map_of (lru_links head) l)"

definition lru_ok :: "lru_list \<Rightarrow> bool" where
  "lru_ok head \<longleftrightarrow>
     distinct (map fst (lru_links head)) \<and> (\<forall>x \<in> set (lru_links head). fst x < lru_fresh head) \<and>
     lru_tail head = (if lru_links head = [] then None else Some (fst (last (lru_links head))))"

definition lru_inodes :: "lru_list \<Rightarrow> u64 list" where
  "lru_inodes head = map snd (lru_links head)"

lemma link_prev_last:
  "distinct (map fst (xs @ [x])) \<Longrightarrow> link_prev (xs @ [x]) (fst x) = (if xs = [] then None else Some (fst (last xs)))"
proof (induction xs)
  case (Cons y ys)
  then show ?case by (cases ys) auto
qed simp

lemma lru_ok_prepend:
  assumes "lru_ok head"
  shows "lru_ok (fst (bluesky_list_prepend head i))"
    and "lru_inodes (fst (bluesky_list_prepend head i)) = i # lru_inodes head"
    and "(snd (bluesky_list_prepend head i), i) \<in> set (lru_links (fst (bluesky_list_prepend head i)))"
  using assms by (auto simp: lru_ok_def bluesky_list_prepend_def Let_def lru_inodes_def)

lemma filter_link:
  assumes "distinct (map fst (xs @ (l, i) # ys))"
  shows "filter (\<lambda>x. fst x \<noteq> l) (xs @ (l, i) # ys) = xs @ ys"
proof -
  have "l \<notin> fst ` set xs" "l \<notin> fst ` set ys" using assms by auto
  then have "filter (\<lambda>x. fst x \<noteq> l) xs = xs" "filter (\<lambda>x. fst x \<noteq> l) ys = ys" by (auto simp: filter_id_conv)
  then show ?thesis by simp
qed

lemma lru_ok_unlink:
  assumes ok: "lru_ok head" and l: "lru_links head = xs @ (l, i) # ys"
  shows "lru_ok (bluesky_list_unlink head (Some l))"
    and "lru_links (bluesky_list_unlink head (Some l)) = xs @ ys"
proof -
  have d: "distinct (map fst (xs @ (l, i) # ys))" and lt: "\<forall>x \<in> set (xs @ (l, i) # ys). fst x < lru_fresh head"
    and t: "lru_tail head = Some (fst (last (xs @ (l, i) # ys)))"
    using ok l by (auto simp: lru_ok_def)
  show links: "lru_links (bluesky_list_unlink head (Some l)) = xs @ ys"
    using filter_link [OF d] l by (simp add: bluesky_list_unlink_def Let_def)
  have "lru_tail (bluesky_list_unlink head (Some l)) = (if xs @ ys = [] then None else Some (fst (last (xs @ ys))))"
  proof (cases "ys = []")
    case True
    then show ?thesis
      using t d link_prev_last [of xs "(l, i)"] l by (simp add: bluesky_list_unlink_def Let_def)
  next
    case False
    then have "last ys \<in> set ys" by simp
    then have "fst (last ys) \<noteq> l" using d by force
    with False t show ?thesis by (simp add: bluesky_list_unlink_def Let_def)
  qed
  then show "lru_ok (bluesky_list_unlink head (Some l))"
    unfolding lru_ok_def links using d lt by (auto simp: bluesky_list_unlink_def Let_def)
qed

lemma lru_ok_append:
  assumes "lru_ok head"
  shows "\<exists>head' l. bluesky_list_append head i = Some (head', l) \<and> lru_ok head' \<and>
           lru_inodes head' = lru_inodes head @ [i] \<and> (l, i) \<in> set (lru_links head')"
proof (cases "lru_links head = []")
  case True
  with lru_ok_prepend [OF assms, of i] show ?thesis
    by (cases "bluesky_list_prepend head i") (simp add: bluesky_list_append_def lru_inodes_def)
next
  case False
  with assms show ?thesis
    by (auto simp: bluesky_list_append_def lru_ok_def lru_inodes_def Let_def)
qed

lemma lru_head_tail:
  assumes "lru_ok head"
  shows "bluesky_list_head head = (if lru_inodes head = [] then None else Some (hd (lru_inodes head)))"
    and "bluesky_list_tail head = (if lru_inodes head = [] then None else Some (last (lru_inodes head)))"
proof -
  show "bluesky_list_head head = (if lru_inodes head = [] then None else Some (hd (lru_inodes head)))"
    by (auto simp: bluesky_list_head_def lru_inodes_def split: list.splits)
  show "bluesky_list_tail head = (if lru_inodes head = [] then None else Some (last (lru_inodes head)))"
    using assms
    by (auto simp: bluesky_list_tail_def lru_inodes_def lru_ok_def last_map
        intro!: map_of_is_SomeI)
qed

text \<open>
  An LRU list together with the link pointers that the inodes keep: \<open>lp i\<close> is the
  field of inode \<open>i\<close>.  \<open>lru_touch\<close> is the pair of calls by which an inode moves to
  the front, \<open>lru_drop\<close> the one that takes it off the list.
\<close>

definition lru_touch :: "u64 \<Rightarrow> lru_list \<times> (u64 \<Rightarrow> nat option) \<Rightarrow> lru_list \<times> (u64 \<Rightarrow> nat option)" where
  "lru_touch i s =
     (let head = bluesky_list_unlink (fst s) (snd s i); (head, l) = bluesky_list_prepend head i
      in (head, (snd s)(i \<mapsto> l)))"

definition lru_drop :: "u64 \<Rightarrow> lru_list \<times> (u64 \<Rightarrow> nat option) \<Rightarrow> lru_list \<times> (u64 \<Rightarrow> nat option)" where
  "lru_drop i s = (bluesky_list_unlink (fst s) (snd s i), (snd s)(i := None))"

definition lru_sync :: "lru_list \<times> (u64 \<Rightarrow> nat option) \<Rightarrow> bool" where
  "lru_sync s \<longleftrightarrow> lru_ok (fst s) \<and> (\<forall>i l. snd s i = Some l \<longleftrightarrow> (l, i) \<in> set (lru_links (fst s)))"

lemma lru_sync_distinct: "lru_sync s \<Longrightarrow> distinct (lru_inodes (fst s))"
proof -
  assume s: "lru_sync s"
  then have "inj_on snd (set (lru_links (fst s)))"
    by (auto simp: lru_sync_def inj_on_def) (metis option.inject)+
  moreover have "distinct (lru_links (fst s))" using s by (auto simp: lru_sync_def lru_ok_def distinct_map)
  ultimately show ?thesis by (simp add: lru_inodes_def distinct_map)
qed

lemma lru_drop_sync:
  assumes s: "lru_sync s"
  shows "lru_sync (lru_drop i s)" and "lru_inodes (fst (lru_drop i s)) = filter (\<lambda>j. j \<noteq> i) (lru_inodes (fst s))"
proof -
  have "lru_sync (lru_drop i s) \<and> lru_inodes (fst (lru_drop i s)) = filter (\<lambda>j. j \<noteq> i) (lru_inodes (fst s))"
  proof (cases "snd s i")
    case None
    then have "\<not> (l, i) \<in> set (lru_links (fst s))" for l
      using s unfolding lru_sync_def by (metis option.distinct(1))
    then have "\<forall>x \<in> set (lru_links (fst s)). snd x \<noteq> i" by auto
    then have "filter (\<lambda>j. j \<noteq> i) (lru_inodes (fst s)) = lru_inodes (fst s)"
      by (auto simp: lru_inodes_def filter_id_conv)
    moreover have "(snd s)(i := None) = snd s" using None by (auto simp: fun_eq_iff)
    ultimately show ?thesis using s None by (simp add: lru_drop_def bluesky_list_unlink_def)
  next
    case (Some l)
    then have "(l, i) \<in> set (lru_links (fst s))" using s by (simp add: lru_sync_def)
    then obtain xs ys where l: "lru_links (fst s) = xs @ (l, i) # ys" by (meson split_list)
    note u = lru_ok_unlink [OF _ l]
    have ok: "lru_ok (fst s)" using s by (simp add: lru_sync_def)
    have d: "distinct (map snd (xs @ (l, i) # ys))" "distinct (map fst (xs @ (l, i) # ys))"
      using lru_sync_distinct [OF s] ok l by (auto simp: lru_inodes_def lru_ok_def)
    have inv: "snd s j = Some k \<longleftrightarrow> (k, j) \<in> set (xs @ (l, i) # ys)" for j k
      using s l by (auto simp: lru_sync_def)
    have "((snd s)(i := None)) j = Some k \<longleftrightarrow> (k, j) \<in> set (xs @ ys)" for j k
    proof (cases "j = i")
      case True
      then show ?thesis using d(1) by (auto simp: image_iff)
    next
      case False
      then show ?thesis using inv by auto
    qed
    moreover have "i \<notin> set (map snd xs)" "i \<notin> set (map snd ys)" using d(1) by auto
    then have "filter (\<lambda>j. j \<noteq> i) (map snd xs) = map snd xs" "filter (\<lambda>j. j \<noteq> i) (map snd ys) = map snd ys"
      unfolding filter_id_conv by blast+
    then have "map snd (xs @ ys) = filter (\<lambda>j. j \<noteq> i) (map snd (xs @ (l, i) # ys))" by simp
    ultimately show ?thesis
      using u [OF ok] Some l by (simp add: lru_drop_def lru_sync_def lru_inodes_def)
  qed
  then show "lru_sync (lru_drop i s)"
    and "lru_inodes (fst (lru_drop i s)) = filter (\<lambda>j. j \<noteq> i) (lru_inodes (fst s))" by simp_all
qed

lemma lru_touch_sync:
  assumes s: "lru_sync s"
  shows "lru_sync (lru_touch i s)"
    and "lru_inodes (fst (lru_touch i s)) = i # filter (\<lambda>j. j \<noteq> i) (lru_inodes (fst s))"
proof -
  define t where "t = lru_drop i s"
  note t = lru_drop_sync [OF s, of i, folded t_def]
  have touch: "lru_touch i s = (fst (bluesky_list_prepend (fst t) i), (snd t)(i \<mapsto> snd (bluesky_list_prepend (fst t) i)))"
    by (simp add: lru_touch_def t_def lru_drop_def Let_def split: prod.splits)
  have ok: "lru_ok (fst t)" using t(1) by (simp add: lru_sync_def)
  note p = lru_ok_prepend [OF ok, of i]
  show "lru_inodes (fst (lru_touch i s)) = i # filter (\<lambda>j. j \<noteq> i) (lru_inodes (fst s))"
    using p(2) t(2) by (simp add: touch)
  have ti: "snd t i = None" by (simp add: t_def lru_drop_def)
  have inv: "snd t j = Some l \<longleftrightarrow> (l, j) \<in> set (lru_links (fst t))" for j l using t(1) by (simp add: lru_sync_def)
  moreover have "(l, i) \<notin> set (lru_links (fst t))" for l using inv [of i l] ti by simp
  ultimately show "lru_sync (lru_touch i s)"
    using p(1) ti unfolding touch lru_sync_def
    by (auto simp: bluesky_list_prepend_def Let_def)
qed

text \<open>C19: Unlinking an inode from an LRU list and prepending it again moves it to
  the front and keeps the order of all others; the tail pointer still names the
  last link, every inode is on the list at most once, and its own link pointer
  is the link that stands for it.\<close>

theorem lru_move_to_front:
  assumes "lru_sync s"
  shows "lru_sync (lru_touch i s) \<and> distinct (lru_inodes (fst (lru_touch i s))) \<and>
         lru_inodes (fst (lru_touch i s)) = i # filter (\<lambda>j. j \<noteq> i) (lru_inodes (fst s)) \<and>
         bluesky_list_head (fst (lru_touch i s)) = Some i \<and>
         bluesky_list_tail (fst (lru_touch i s)) = Some (last (i # filter (\<lambda>j. j \<noteq> i) (lru_inodes (fst s))))"
proof -
  note t = lru_touch_sync [OF assms, of i]
  have "lru_ok (fst (lru_touch i s))" using t(1) by (simp add: lru_sync_def)
  with t lru_sync_distinct [OF t(1)] lru_head_tail [OF this] show ?thesis by simp
qed

definition sample_lru :: "lru_list \<times> (u64 \<Rightarrow> nat option)" where
  "sample_lru = (\<lparr>lru_links = [(0, 5), (1, 7)], lru_tail = Some 1, lru_fresh = 2\<rparr>, [5 \<mapsto> 0, 7 \<mapsto> 1])"

theorem lru_move_to_front_witness:
  "lru_inodes (fst (lru_touch 7 sample_lru)) = [7, 5] \<and> bluesky_list_tail (fst (lru_touch 7 sample_lru)) = Some 5"
proof -
  have "lru_sync sample_lru" by (auto simp: lru_sync_def lru_ok_def sample_lru_def split: if_splits)
  moreover have "lru_inodes (fst sample_lru) = [5, 7]" by (simp add: sample_lru_def lru_inodes_def)
  ultimately show ?thesis using lru_move_to_front [of sample_lru 7] by simp
qed

end
