(* ===== verification/BlueSky_Items.thy ===== *)
theory BlueSky_Items
  imports BlueSky_Types
begin

text \<open>
  Cloud log items in memory (\<^verbatim>\<open>bluesky/cloudlog.c\<close>, \<^verbatim>\<open>bluesky/bluesky-private.h\<close>):
  their reference counts, the table that finds an item by its identifier, and
  the counters of cached data.  Reference counts are shown to be exact, so that
  no item is freed while it is referenced and no freed item is touched, and the
  counters to count each item in the one category its state belongs to.
\<close>


section \<open>Items and their table\<close>

definition LOGTYPE_INVALID :: int where "LOGTYPE_INVALID = -1"
definition LOGTYPE_UNKNOWN :: int where "LOGTYPE_UNKNOWN = 0"
definition LOGTYPE_DATA :: int where "LOGTYPE_DATA = 1"
definition LOGTYPE_INODE :: int where "LOGTYPE_INODE = 2"
definition LOGTYPE_INODE_MAP :: int where "LOGTYPE_INODE_MAP = 3"
definition LOGTYPE_CHECKPOINT :: int where "LOGTYPE_CHECKPOINT = 4"
definition LOGTYPE_JOURNAL_MARKER :: int where "LOGTYPE_JOURNAL_MARKER = 16"
definition LOGTYPE_JOURNAL_CHECKPOINT :: int where "LOGTYPE_JOURNAL_CHECKPOINT = 17"

lemmas logtype_defs =
  LOGTYPE_INVALID_def LOGTYPE_UNKNOWN_def LOGTYPE_DATA_def LOGTYPE_INODE_def LOGTYPE_INODE_MAP_def
  LOGTYPE_CHECKPOINT_def LOGTYPE_JOURNAL_MARKER_def LOGTYPE_JOURNAL_CHECKPOINT_def

text \<open>The bits of the location masks; a mask is the set of its bits.\<close>

datatype loc_flag = CLOUDLOG_JOURNAL | CLOUDLOG_CLOUD | CLOUDLOG_CACHE | CLOUDLOG_UNCOMMITTED

record cloudptr =
  cp_directory :: u32
  cp_sequence :: u32
  cp_offset :: u32
  cp_size :: u32

definition zero_ptr :: cloudptr where
  "zero_ptr = \<lparr>cp_directory = 0, cp_sequence = 0, cp_offset = 0, cp_size = 0\<rparr>"

record cloudlog =
  cl_refcount :: int
  cl_type :: int
  location_flags :: "loc_flag set"
  pending_write :: "loc_flag set"
  cl_id :: bytes
  cl_inum :: u64
  data_size :: int
  cl_location :: cloudptr
  log_seq :: int
  log_offset :: int
  log_size :: int
  cl_links :: "ref option list"
  cl_data :: "bytes option"
  data_lock_count :: int

text \<open>
  The part of a file system's state that log items use: the items by address
  (\<open>None\<close> once freed), the table \<^verbatim>\<open>fs->locations\<close>, the counters, the queue of delayed
  unreferences and the queue of the journal thread.
\<close>

record clfs =
  cl_items :: "cloudlog option list"
  locations :: "bytes \<rightharpoonup> ref"
  cache_log_dirty :: int
  cache_log_journal :: int
  cache_log_cloud :: int
  unref_queue :: "ref list"
  journal_queue :: "ref list"

definition get_item :: "clfs \<Rightarrow> ref \<Rightarrow> cloudlog option" where
  "get_item fs r = (if r < length (cl_items fs) then cl_items fs ! r else None)"

definition set_item :: "ref \<Rightarrow> cloudlog \<Rightarrow> clfs \<Rightarrow> clfs" where
  "set_item r c fs = fs\<lparr>cl_items := (cl_items fs)[r := Some c]\<rparr>"

text \<open>
  \<^verbatim>\<open>bluesky_cloudlog_new\<close>; \<open>oid\<close> is the identifier passed in or drawn at random.
\<close>

definition new_cloudlog :: "bytes \<Rightarrow> cloudlog" where
  "new_cloudlog oid = \<lparr>cl_refcount = 1, cl_type = LOGTYPE_UNKNOWN, location_flags = {}, pending_write = {},
     cl_id = oid, cl_inum = 0, data_size = 0, cl_location = zero_ptr, log_seq = 0, log_offset = 0,
     log_size = 0, cl_links = [], cl_data = None, data_lock_count = 0\<rparr>"

definition bluesky_cloudlog_new :: "bytes \<Rightarrow> clfs \<Rightarrow> ref \<times> clfs" where
  "bluesky_cloudlog_new oid fs =
     (length (cl_items fs), fs\<lparr>cl_items := cl_items fs @ [Some (new_cloudlog oid)]\<rparr>)"

definition bluesky_cloudlog_stats_update :: "cloudlog \<Rightarrow> int \<Rightarrow> clfs \<Rightarrow> clfs" where
  "bluesky_cloudlog_stats_update log type fs =
     (if CLOUDLOG_CLOUD \<in> location_flags log then fs\<lparr>cache_log_cloud := cache_log_cloud fs + type\<rparr>
      else if CLOUDLOG_JOURNAL \<in> location_flags log then fs\<lparr>cache_log_journal := cache_log_journal fs + type\<rparr>
      else if CLOUDLOG_JOURNAL \<in> pending_write log then fs\<lparr>cache_log_journal := cache_log_journal fs + type\<rparr>
      else if cl_data log \<noteq> None then fs\<lparr>cache_log_dirty := cache_log_dirty fs + type\<rparr>
      else fs)"

text \<open>A reference to a freed item is an error, \<open>None\<close>.\<close>

definition bluesky_cloudlog_ref :: "ref option \<Rightarrow> clfs \<Rightarrow> clfs option" where
  "bluesky_cloudlog_ref p fs =
     (case p of None \<Rightarrow> Some fs
      | Some r \<Rightarrow>
          (case get_item fs r of None \<Rightarrow> None
           | Some c \<Rightarrow> Some (set_item r (c\<lparr>cl_refcount := cl_refcount c + 1\<rparr>) fs)))"

text \<open>
  \<^verbatim>\<open>bluesky_cloudlog_unref\<close> frees an item whose count drops to zero and goes on
  with its links: here a list of references still to be dropped, worked off in
  the order of the recursive calls.
\<close>

definition free_item :: "ref \<Rightarrow> cloudlog \<Rightarrow> clfs \<Rightarrow> clfs" where
  "free_item r c fs =
     (bluesky_cloudlog_stats_update c (-1) (fs\<lparr>locations := (locations fs)(cl_id c := None)\<rparr>))
       \<lparr>cl_items := (cl_items fs)[r := None]\<rparr>"

definition live_count :: "clfs \<Rightarrow> nat" where
  "live_count fs = length (filter (\<lambda>x. x \<noteq> None) (cl_items fs))"

lemma live_count_free:
  assumes "get_item fs r = Some c"
  shows "live_count (free_item r c fs) < live_count fs"
proof -
  have r: "r < length (cl_items fs)" "cl_items fs ! r = Some c"
    using assms by (auto simp: get_item_def split: if_splits)
  have "cl_items fs = take r (cl_items fs) @ Some c # drop (Suc r) (cl_items fs)"
    using id_take_nth_drop [OF r(1)] r(2) by simp
  then have "length (filter (\<lambda>x. x \<noteq> None) (cl_items fs))
      = length (filter (\<lambda>x. x \<noteq> None) (take r (cl_items fs) @ Some c # drop (Suc r) (cl_items fs)))"
    by simp
  then show ?thesis using r(1) by (simp add: live_count_def free_item_def upd_conv_take_nth_drop)
qed

lemma live_count_set:
  assumes "get_item fs r = Some c"
  shows "live_count (set_item r c' fs) = live_count fs"
proof -
  have r: "r < length (cl_items fs)" "cl_items fs ! r = Some c"
    using assms by (auto simp: get_item_def split: if_splits)
  have "cl_items fs = take r (cl_items fs) @ Some c # drop (Suc r) (cl_items fs)"
    using id_take_nth_drop [OF r(1)] r(2) by simp
  then have "length (filter (\<lambda>x. x \<noteq> None) (cl_items fs))
      = length (filter (\<lambda>x. x \<noteq> None) (take r (cl_items fs) @ Some c # drop (Suc r) (cl_items fs)))"
    by simp
  then show ?thesis using r(1) by (simp add: live_count_def set_item_def upd_conv_take_nth_drop)
qed

function unref_all :: "ref option list \<Rightarrow> clfs \<Rightarrow> clfs option" where
  "unref_all [] fs = Some fs"
| "unref_all (None # w) fs = unref_all w fs"
| "unref_all (Some r # w) fs =
     (case get_item fs r of None \<Rightarrow> None
      | Some c \<Rightarrow>
          if cl_refcount c - 1 = 0 then unref_all (cl_links c @ w) (free_item r c fs)
          else unref_all w (set_item r (c\<lparr>cl_refcount := cl_refcount c - 1\<rparr>) fs))"
  by pat_completeness auto
termination
  by (relation "inv_image ({(x, y). x < y} <*lex*> {(x, y). x < y}) (\<lambda>(w, fs). (live_count fs, length w))")
    (auto simp: live_count_free live_count_set wf_less)

definition bluesky_cloudlog_unref :: "ref option \<Rightarrow> clfs \<Rightarrow> clfs option" where
  "bluesky_cloudlog_unref p fs = unref_all [p] fs"

definition bluesky_cloudlog_unref_delayed :: "ref option \<Rightarrow> clfs \<Rightarrow> clfs" where
  "bluesky_cloudlog_unref_delayed p fs =
     (case p of None \<Rightarrow> fs | Some r \<Rightarrow> fs\<lparr>unref_queue := unref_queue fs @ [r]\<rparr>)"

text \<open>One round of \<^verbatim>\<open>cloudlog_unref_thread\<close>; it waits while the queue is empty.\<close>

definition cloudlog_unref_step :: "clfs \<Rightarrow> clfs option" where
  "cloudlog_unref_step fs =
     (case unref_queue fs of [] \<Rightarrow> Some fs
      | r # rs \<Rightarrow> bluesky_cloudlog_unref (Some r) (fs\<lparr>unref_queue := rs\<rparr>))"

definition bluesky_cloudlog_erase :: "ref \<Rightarrow> clfs \<Rightarrow> clfs option" where
  "bluesky_cloudlog_erase r fs =
     (case get_item fs r of None \<Rightarrow> None
      | Some c \<Rightarrow>
          if data_lock_count c \<noteq> 0 then None
          else if cl_type c = LOGTYPE_UNKNOWN then Some fs
          else unref_all (cl_links c)
                 (set_item r (c\<lparr>cl_type := LOGTYPE_UNKNOWN, data_size := 0, cl_data := None,
                                data_lock_count := 0, cl_links := []\<rparr>) fs))"

definition bluesky_cloudlog_insert :: "ref \<Rightarrow> clfs \<Rightarrow> clfs option" where
  "bluesky_cloudlog_insert r fs =
     (case get_item fs r of None \<Rightarrow> None
      | Some c \<Rightarrow> Some (fs\<lparr>locations := (locations fs)(cl_id c \<mapsto> r)\<rparr>))"

definition null_id :: bytes where
  "null_id = replicate 16 0"

definition bluesky_cloudlog_get :: "bytes \<Rightarrow> clfs \<Rightarrow> (ref option \<times> clfs) option" where
  "bluesky_cloudlog_get oid fs =
     (if oid = null_id then Some (None, fs)
      else case locations fs oid of
        None \<Rightarrow>
          let (r, fs) = bluesky_cloudlog_new oid fs;
              fs = bluesky_cloudlog_stats_update (new_cloudlog oid) 1 fs
          in map_option (Pair (Some r)) (bluesky_cloudlog_insert r fs)
      | Some r \<Rightarrow> map_option (Pair (Some r)) (bluesky_cloudlog_ref (Some r) fs))"


section \<open>Exact reference counts\<close>

definition item_links :: "cloudlog option \<Rightarrow> ref \<Rightarrow> nat" where
  "item_links x r = (case x of None \<Rightarrow> 0 | Some c \<Rightarrow> count_list (cl_links c) (Some r))"

definition link_count :: "clfs \<Rightarrow> ref \<Rightarrow> nat" where
  "link_count fs r = (\<Sum>x\<leftarrow>cl_items fs. item_links x r)"

text \<open>
  \<open>own r\<close> is the number of references to item \<open>r\<close> held outside the items: by blocks
  and inodes, the inode map, queues and running operations.
\<close>

definition rc_ok :: "(ref \<Rightarrow> nat) \<Rightarrow> clfs \<Rightarrow> bool" where
  "rc_ok own fs \<longleftrightarrow>
     (\<forall>r c. get_item fs r = Some c \<longrightarrow> cl_refcount c = int (own r + link_count fs r) \<and> 0 < own r + link_count fs r) \<and>
     (\<forall>r. get_item fs r = None \<longrightarrow> own r = 0 \<and> link_count fs r = 0)"

definition loc_ok :: "clfs \<Rightarrow> bool" where
  "loc_ok fs \<longleftrightarrow> (\<forall>i r. locations fs i = Some r \<longrightarrow> (\<exists>c. get_item fs r = Some c \<and> cl_id c = i))"

text \<open>The counters, and the category of an item: every item counts in exactly one of them, or in none.\<close>

definition counts_in_cloud :: "cloudlog \<Rightarrow> bool" where
  "counts_in_cloud c \<longleftrightarrow> CLOUDLOG_CLOUD \<in> location_flags c"

definition counts_in_journal :: "cloudlog \<Rightarrow> bool" where
  "counts_in_journal c \<longleftrightarrow>
     CLOUDLOG_CLOUD \<notin> location_flags c \<and> CLOUDLOG_JOURNAL \<in> location_flags c \<union> pending_write c"

definition counts_dirty :: "cloudlog \<Rightarrow> bool" where
  "counts_dirty c \<longleftrightarrow>
     CLOUDLOG_CLOUD \<notin> location_flags c \<and> CLOUDLOG_JOURNAL \<notin> location_flags c \<union> pending_write c \<and> cl_data c \<noteq> None"

definition tally :: "(cloudlog \<Rightarrow> bool) \<Rightarrow> clfs \<Rightarrow> int" where
  "tally P fs = (\<Sum>x\<leftarrow>cl_items fs. case x of None \<Rightarrow> 0 | Some c \<Rightarrow> of_bool (P c))"

definition stats_ok :: "clfs \<Rightarrow> bool" where
  "stats_ok fs \<longleftrightarrow>
     cache_log_cloud fs = tally counts_in_cloud fs \<and> cache_log_journal fs = tally counts_in_journal fs \<and>
     cache_log_dirty fs = tally counts_dirty fs"

lemma new_cloudlog_simps [simp]:
  "cl_id (new_cloudlog oid) = oid" "cl_refcount (new_cloudlog oid) = 1" "cl_links (new_cloudlog oid) = []"
  "cl_data (new_cloudlog oid) = None" "location_flags (new_cloudlog oid) = {}" "pending_write (new_cloudlog oid) = {}"
  "cl_type (new_cloudlog oid) = LOGTYPE_UNKNOWN"
  by (simp_all add: new_cloudlog_def)

lemma get_item_cong: "cl_items fs' = cl_items fs \<Longrightarrow> get_item fs' = get_item fs"
  by (simp add: get_item_def fun_eq_iff)

lemma get_item_SomeD: "get_item fs r = Some c \<Longrightarrow> r < length (cl_items fs) \<and> cl_items fs ! r = Some c"
  by (auto simp: get_item_def split: if_splits)

lemma get_set_item [simp]:
  "get_item fs r = Some c \<Longrightarrow> get_item (set_item r c' fs) r' = (if r' = r then Some c' else get_item fs r')"
  by (auto simp: get_item_def set_item_def split: if_splits)

lemma stats_update_items [simp]:
  "cl_items (bluesky_cloudlog_stats_update c n fs) = cl_items fs"
  "locations (bluesky_cloudlog_stats_update c n fs) = locations fs"
  "unref_queue (bluesky_cloudlog_stats_update c n fs) = unref_queue fs"
  "journal_queue (bluesky_cloudlog_stats_update c n fs) = journal_queue fs"
  by (simp_all add: bluesky_cloudlog_stats_update_def)

lemma stats_update_counters:
  "cache_log_cloud (bluesky_cloudlog_stats_update c n fs) = cache_log_cloud fs + n * of_bool (counts_in_cloud c)"
  "cache_log_journal (bluesky_cloudlog_stats_update c n fs) = cache_log_journal fs + n * of_bool (counts_in_journal c)"
  "cache_log_dirty (bluesky_cloudlog_stats_update c n fs) = cache_log_dirty fs + n * of_bool (counts_dirty c)"
  by (auto simp: bluesky_cloudlog_stats_update_def counts_in_cloud_def counts_in_journal_def counts_dirty_def)

lemma get_item_stats [simp]: "get_item (bluesky_cloudlog_stats_update c n fs) r = get_item fs r"
  by (simp add: get_item_def)

lemma get_item_free:
  "get_item fs r = Some c \<Longrightarrow> get_item (free_item r c fs) r' = (if r' = r then None else get_item fs r')"
  by (auto simp: get_item_def free_item_def split: if_splits)

lemma get_item_new:
  "get_item (snd (bluesky_cloudlog_new oid fs)) r
   = (if r = length (cl_items fs) then Some (new_cloudlog oid) else get_item fs r)"
  by (auto simp: get_item_def bluesky_cloudlog_new_def nth_append)

lemma link_count_update:
  assumes "r < length (cl_items fs)"
  shows "link_count (fs\<lparr>cl_items := (cl_items fs)[r := x]\<rparr>) r' + item_links (cl_items fs ! r) r'
         = link_count fs r' + item_links x r'"
proof -
  have "cl_items fs = take r (cl_items fs) @ cl_items fs ! r # drop (Suc r) (cl_items fs)"
    by (rule id_take_nth_drop [OF assms])
  then have "link_count fs r'
      = (\<Sum>x\<leftarrow>take r (cl_items fs) @ cl_items fs ! r # drop (Suc r) (cl_items fs). item_links x r')"
    unfolding link_count_def by simp
  then show ?thesis using assms by (simp add: link_count_def upd_conv_take_nth_drop)
qed

lemma tally_update:
  assumes "r < length (cl_items fs)"
  shows "tally P (fs\<lparr>cl_items := (cl_items fs)[r := x]\<rparr>)
         = tally P fs - (case cl_items fs ! r of None \<Rightarrow> 0 | Some c \<Rightarrow> of_bool (P c))
           + (case x of None \<Rightarrow> 0 | Some c \<Rightarrow> of_bool (P c))"
proof -
  let ?f = "\<lambda>x. (case x of None \<Rightarrow> 0 | Some c \<Rightarrow> of_bool (P c)) :: int"
  have "cl_items fs = take r (cl_items fs) @ cl_items fs ! r # drop (Suc r) (cl_items fs)"
    by (rule id_take_nth_drop [OF assms])
  then have "tally P fs = (\<Sum>x\<leftarrow>take r (cl_items fs) @ cl_items fs ! r # drop (Suc r) (cl_items fs). ?f x)"
    unfolding tally_def by simp
  then show ?thesis using assms by (simp add: tally_def upd_conv_take_nth_drop)
qed

text \<open>Only the items matter to the reference counts.\<close>

lemma rc_ok_cong:
  "cl_items fs' = cl_items fs \<Longrightarrow> rc_ok own fs' = rc_ok own fs"
  by (simp add: rc_ok_def get_item_def link_count_def)

lemma rc_okD:
  assumes "rc_ok own fs"
  shows "get_item fs r = Some c \<Longrightarrow> cl_refcount c = int (own r + link_count fs r)"
    and "get_item fs r = Some c \<Longrightarrow> 0 < own r + link_count fs r"
    and "get_item fs r = None \<Longrightarrow> own r = 0 \<and> link_count fs r = 0"
proof -
  note a = assms [unfolded rc_ok_def, THEN conjunct1, rule_format, of r c]
    and b = assms [unfolded rc_ok_def, THEN conjunct2, rule_format, of r]
  show "get_item fs r = Some c \<Longrightarrow> cl_refcount c = int (own r + link_count fs r)" using a by (rule conjunct1)
  show "get_item fs r = Some c \<Longrightarrow> 0 < own r + link_count fs r" using a by (rule conjunct2)
  show "get_item fs r = None \<Longrightarrow> own r = 0 \<and> link_count fs r = 0" using b .
qed

lemma rc_ok_live: "rc_ok own fs \<Longrightarrow> 0 < own r \<Longrightarrow> \<exists>c. get_item fs r = Some c"
  using rc_okD(3) [of own fs r] by (cases "get_item fs r") auto

lemma rc_okI:
  assumes "\<And>r c. get_item fs r = Some c \<Longrightarrow> cl_refcount c = int (own r + link_count fs r) \<and> 0 < own r + link_count fs r"
    and "\<And>r. get_item fs r = None \<Longrightarrow> own r = 0 \<and> link_count fs r = 0"
  shows "rc_ok own fs"
  using assms by (simp add: rc_ok_def)

text \<open>An item changed in place: its count and the references to it change together.\<close>

lemma rc_ok_set:
  assumes ok: "rc_ok own fs" and g: "get_item fs r = Some c"
    and sum: "\<And>r'. r' \<noteq> r \<Longrightarrow> own' r' + item_links (Some c') r' = own r' + item_links (Some c) r'"
    and self: "int (own' r + item_links (Some c') r) + cl_refcount c = int (own r + item_links (Some c) r) + cl_refcount c'"
    and pos: "0 < cl_refcount c'"
  shows "rc_ok own' (set_item r c' fs)"
proof -
  have r: "r < length (cl_items fs)" "cl_items fs ! r = Some c" using get_item_SomeD [OF g] by auto
  have lc: "link_count (set_item r c' fs) r' + item_links (Some c) r' = link_count fs r' + item_links (Some c') r'" for r'
    using link_count_update [OF r(1), of "Some c'" r'] r(2) by (simp add: set_item_def)
  have other: "own' r' + link_count (set_item r c' fs) r' = own r' + link_count fs r'" if "r' \<noteq> r" for r'
    using lc [of r'] sum [OF that] by linarith
  have me: "cl_refcount c' = int (own' r + link_count (set_item r c' fs) r)"
    using lc [of r] self rc_okD(1) [OF ok g] by linarith
  then have gt: "0 < own' r + link_count (set_item r c' fs) r" using pos by linarith
  show ?thesis
  proof (rule rc_okI)
    fix r' c''
    assume a: "get_item (set_item r c' fs) r' = Some c''"
    show "cl_refcount c'' = int (own' r' + link_count (set_item r c' fs) r') \<and>
          0 < own' r' + link_count (set_item r c' fs) r'"
    proof (cases "r' = r")
      case True
      with a g me gt show ?thesis by simp
    next
      case False
      with a g have "get_item fs r' = Some c''" by simp
      from rc_okD(1,2) [OF ok this] other [OF False] show ?thesis by simp
    qed
  next
    fix r'
    assume a: "get_item (set_item r c' fs) r' = None"
    with g have "r' \<noteq> r" "get_item fs r' = None" by (auto split: if_splits)
    with other [of r'] rc_okD(3) [OF ok, of r'] show "own' r' = 0 \<and> link_count (set_item r c' fs) r' = 0" by simp
  qed
qed

lemma rc_ok_free:
  assumes ok: "rc_ok own fs" and g: "get_item fs r = Some c" and one: "cl_refcount c = 1" "0 < own r"
    and own': "\<And>r'. own' r' = (own(r := 0)) r' + item_links (Some c) r'"
  shows "rc_ok own' (free_item r c fs)"
proof -
  have r: "r < length (cl_items fs)" "cl_items fs ! r = Some c" using get_item_SomeD [OF g] by auto
  have lc: "link_count (free_item r c fs) r' + item_links (Some c) r' = link_count fs r'" for r'
    using link_count_update [OF r(1), of None r'] r(2)
    by (simp add: free_item_def link_count_def item_links_def)
  have zero: "link_count fs r = 0" "own r = 1" using rc_okD(1) [OF ok g] one by auto
  have other: "own' r' + link_count (free_item r c fs) r' = own r' + link_count fs r'" if "r' \<noteq> r" for r'
    using lc [of r'] own' [of r'] that by simp
  show ?thesis
  proof (rule rc_okI)
    fix r' c''
    assume "get_item (free_item r c fs) r' = Some c''"
    then have "r' \<noteq> r" "get_item fs r' = Some c''" using g by (auto simp: get_item_free split: if_splits)
    with other [of r'] rc_okD(1,2) [OF ok, of r' c'']
    show "cl_refcount c'' = int (own' r' + link_count (free_item r c fs) r') \<and>
          0 < own' r' + link_count (free_item r c fs) r'" by simp
  next
    fix r'
    assume a: "get_item (free_item r c fs) r' = None"
    show "own' r' = 0 \<and> link_count (free_item r c fs) r' = 0"
    proof (cases "r' = r")
      case True
      with lc [of r] zero own' [of r] show ?thesis by simp
    next
      case False
      with a g have "get_item fs r' = None" by (simp add: get_item_free)
      with other [OF False] rc_okD(3) [OF ok, of r'] show ?thesis by simp
    qed
  qed
qed

lemma unref_all_ok:
  "rc_ok (\<lambda>r. own r + count_list w (Some r)) fs \<Longrightarrow> \<exists>fs'. unref_all w fs = Some fs' \<and> rc_ok own fs'"
proof (induction w fs rule: unref_all.induct)
  case (3 r w fs)
  let ?own = "\<lambda>r'. own r' + count_list (Some r # w) (Some r')"
  from rc_ok_live [OF "3.prems", of r] obtain c where g: "get_item fs r = Some c" by auto
  show ?case
  proof (cases "cl_refcount c - 1 = 0")
    case True
    have "rc_ok (\<lambda>r'. own r' + count_list (cl_links c @ w) (Some r')) (free_item r c fs)"
    proof (rule rc_ok_free [OF "3.prems" g])
      have "own r + count_list w (Some r) = 0" using rc_okD(1) [OF "3.prems" g] True by simp
      then show "own r' + count_list (cl_links c @ w) (Some r') = (?own(r := 0)) r' + item_links (Some c) r'" for r'
        by (simp add: item_links_def count_list_append)
    qed (use True in simp_all)
    from "3.IH"(1) [OF g True this] g True show ?thesis by simp
  next
    case False
    have "0 < cl_refcount c" using rc_okD(1,2) [OF "3.prems" g] by simp
    with False have "rc_ok (\<lambda>r'. own r' + count_list w (Some r')) (set_item r (c\<lparr>cl_refcount := cl_refcount c - 1\<rparr>) fs)"
      by (intro rc_ok_set [OF "3.prems" g]) (auto simp: item_links_def)
    from "3.IH"(2) [OF g False this] g False show ?thesis by simp
  qed
qed (simp_all add: rc_ok_def)

text \<open>What dropping references leaves alone.\<close>

definition survives :: "clfs \<Rightarrow> clfs \<Rightarrow> bool" where
  "survives fs fs' \<longleftrightarrow>
     (\<forall>r c'. get_item fs' r = Some c' \<longrightarrow> (\<exists>c. get_item fs r = Some c \<and> c' = c\<lparr>cl_refcount := cl_refcount c'\<rparr>)) \<and>
     length (cl_items fs') = length (cl_items fs) \<and>
     unref_queue fs' = unref_queue fs \<and> journal_queue fs' = journal_queue fs"

lemma survives_refl: "survives fs fs"
  by (simp add: survives_def)

lemma survivesD:
  assumes "survives fs fs'" "get_item fs' r = Some c'"
  shows "\<exists>c. get_item fs r = Some c \<and> c' = c\<lparr>cl_refcount := cl_refcount c'\<rparr>"
  using assms(1) [unfolded survives_def, THEN conjunct1, rule_format, OF assms(2)] .

lemma survivesD2:
  assumes "survives fs fs'" "get_item fs' r = Some c'" "get_item fs r = Some c"
  shows "c' = c\<lparr>cl_refcount := cl_refcount c'\<rparr>"
  using survivesD [OF assms(1,2)] assms(3) by auto

lemma survives_trans:
  assumes "survives fs fs1" "survives fs1 fs2"
  shows "survives fs fs2"
  unfolding survives_def
proof (intro conjI allI impI)
  fix r c2
  assume "get_item fs2 r = Some c2"
  with assms(2) obtain c1 where c1: "get_item fs1 r = Some c1" "c2 = c1\<lparr>cl_refcount := cl_refcount c2\<rparr>"
    by (auto simp: survives_def)
  with assms(1) obtain c where c: "get_item fs r = Some c" "c1 = c\<lparr>cl_refcount := cl_refcount c1\<rparr>"
    by (auto simp: survives_def)
  have "c1\<lparr>cl_refcount := x\<rparr> = c\<lparr>cl_refcount := x\<rparr>" for x by (subst c(2)) simp
  with c1(2) have "c2 = c\<lparr>cl_refcount := cl_refcount c2\<rparr>" by simp
  with c(1) show "\<exists>c. get_item fs r = Some c \<and> c2 = c\<lparr>cl_refcount := cl_refcount c2\<rparr>" by blast
qed (use assms in \<open>auto simp: survives_def\<close>)

text \<open>The table and the counters, when an item is freed or only its count changes.\<close>

lemma loc_ok_free: "loc_ok fs \<Longrightarrow> get_item fs r = Some c \<Longrightarrow> loc_ok (free_item r c fs)"
  unfolding loc_ok_def
proof (intro allI impI)
  fix i r'
  assume ok: "\<forall>i r. locations fs i = Some r \<longrightarrow> (\<exists>c. get_item fs r = Some c \<and> cl_id c = i)"
    and g: "get_item fs r = Some c" and l: "locations (free_item r c fs) i = Some r'"
  from l have i: "i \<noteq> cl_id c" "locations fs i = Some r'" by (auto simp: free_item_def split: if_splits)
  with ok obtain c' where "get_item fs r' = Some c'" "cl_id c' = i" by blast
  with i g show "\<exists>c'. get_item (free_item r c fs) r' = Some c' \<and> cl_id c' = i" by (auto simp: get_item_free)
qed

lemma loc_ok_set:
  assumes "loc_ok fs" "get_item fs r = Some c" "cl_id c' = cl_id c"
  shows "loc_ok (set_item r c' fs)"
  unfolding loc_ok_def
proof (intro allI impI)
  fix i r'
  assume "locations (set_item r c' fs) i = Some r'"
  then have "locations fs i = Some r'" by (simp add: set_item_def)
  with assms(1) obtain c'' where "get_item fs r' = Some c''" "cl_id c'' = i" by (auto simp: loc_ok_def)
  with assms(2,3) show "\<exists>c''. get_item (set_item r c' fs) r' = Some c'' \<and> cl_id c'' = i" by auto
qed

lemma tally_set:
  "get_item fs r = Some c \<Longrightarrow> tally P (set_item r c' fs) = tally P fs - of_bool (P c) + of_bool (P c')"
  using tally_update [of r fs P "Some c'"] get_item_SomeD [of fs r c] by (simp add: set_item_def)

lemma tally_cong: "cl_items fs' = cl_items fs \<Longrightarrow> tally P fs' = tally P fs"
  by (simp add: tally_def)

lemma tally_free:
  assumes "get_item fs r = Some c"
  shows "tally P (free_item r c fs) = tally P fs - of_bool (P c)"
proof -
  have "tally P (free_item r c fs) = tally P (fs\<lparr>cl_items := (cl_items fs)[r := None]\<rparr>)"
    by (rule tally_cong) (simp add: free_item_def)
  with tally_update [of r fs P None] get_item_SomeD [OF assms] show ?thesis by simp
qed

lemma stats_ok_free:
  assumes "stats_ok fs" "get_item fs r = Some c"
  shows "stats_ok (free_item r c fs)"
proof -
  have "cache_log_cloud (free_item r c fs) = cache_log_cloud fs - of_bool (counts_in_cloud c)"
    "cache_log_journal (free_item r c fs) = cache_log_journal fs - of_bool (counts_in_journal c)"
    "cache_log_dirty (free_item r c fs) = cache_log_dirty fs - of_bool (counts_dirty c)"
    by (simp_all add: free_item_def stats_update_counters)
  with assms show ?thesis by (simp add: stats_ok_def tally_free)
qed

text \<open>A change of an item bracketed by the two counter updates keeps the counters exact.\<close>

lemma stats_ok_bracket:
  assumes "stats_ok fs" "get_item fs r = Some c"
  shows "stats_ok (bluesky_cloudlog_stats_update c' 1 (set_item r c' (bluesky_cloudlog_stats_update c (-1) fs)))"
proof -
  let ?fs = "bluesky_cloudlog_stats_update c (-1) fs"
  have g: "get_item ?fs r = Some c" using assms(2) by simp
  have t: "tally P (bluesky_cloudlog_stats_update c' 1 (set_item r c' ?fs)) = tally P fs - of_bool (P c) + of_bool (P c')" for P
    using tally_set [OF g, of P c'] tally_cong [of "bluesky_cloudlog_stats_update c' 1 (set_item r c' ?fs)" "set_item r c' ?fs" P]
      tally_cong [of ?fs fs P] by simp
  have "cache_log_cloud (set_item r c' ?fs) = cache_log_cloud ?fs"
    "cache_log_journal (set_item r c' ?fs) = cache_log_journal ?fs"
    "cache_log_dirty (set_item r c' ?fs) = cache_log_dirty ?fs"
    by (simp_all add: set_item_def)
  with assms(1) show ?thesis by (simp add: stats_ok_def t stats_update_counters)
qed

lemma stats_ok_set_same:
  assumes "stats_ok fs" "get_item fs r = Some c"
    and "counts_in_cloud c' = counts_in_cloud c" "counts_in_journal c' = counts_in_journal c"
    "counts_dirty c' = counts_dirty c"
  shows "stats_ok (set_item r c' fs)"
  using assms by (simp add: stats_ok_def tally_set) (simp add: set_item_def)

lemma refcount_keeps:
  assumes g: "get_item fs r = Some c"
  shows "loc_ok fs \<Longrightarrow> loc_ok (set_item r (c\<lparr>cl_refcount := n\<rparr>) fs)"
    and "stats_ok fs \<Longrightarrow> stats_ok (set_item r (c\<lparr>cl_refcount := n\<rparr>) fs)"
    and "survives fs (set_item r (c\<lparr>cl_refcount := n\<rparr>) fs)"
proof -
  show "loc_ok fs \<Longrightarrow> loc_ok (set_item r (c\<lparr>cl_refcount := n\<rparr>) fs)" using g by (intro loc_ok_set) auto
  show "stats_ok fs \<Longrightarrow> stats_ok (set_item r (c\<lparr>cl_refcount := n\<rparr>) fs)"
    by (erule stats_ok_set_same [OF _ g]) (simp_all add: counts_in_cloud_def counts_in_journal_def counts_dirty_def)
  show "survives fs (set_item r (c\<lparr>cl_refcount := n\<rparr>) fs)"
    using g by (auto simp: survives_def) (simp_all add: set_item_def)
qed

lemma survives_free: "get_item fs r = Some c \<Longrightarrow> survives fs (free_item r c fs)"
  by (auto simp: survives_def get_item_free split: if_splits) (auto simp: free_item_def)

lemma unref_all_keeps:
  "unref_all w fs = Some fs' \<Longrightarrow>
   (loc_ok fs \<longrightarrow> loc_ok fs') \<and> (stats_ok fs \<longrightarrow> stats_ok fs') \<and> survives fs fs'"
proof (induction w fs rule: unref_all.induct)
  case (3 r w fs)
  then obtain c where g: "get_item fs r = Some c" by (cases "get_item fs r") auto
  show ?case
  proof (cases "cl_refcount c - 1 = 0")
    case True
    with "3.prems" g have "unref_all (cl_links c @ w) (free_item r c fs) = Some fs'" by simp
    from "3.IH"(1) [OF g True this] loc_ok_free [OF _ g] stats_ok_free [OF _ g] survives_free [OF g]
    show ?thesis by (blast intro: survives_trans)
  next
    case False
    with "3.prems" g have "unref_all w (set_item r (c\<lparr>cl_refcount := cl_refcount c - 1\<rparr>) fs) = Some fs'" by simp
    from "3.IH"(2) [OF g False this] refcount_keeps [OF g, of "cl_refcount c - 1"]
    show ?thesis by (blast intro: survives_trans)
  qed
qed (simp_all add: survives_refl)

lemma link_count_new:
  "link_count (snd (bluesky_cloudlog_new oid fs)) r = link_count fs r"
  by (simp add: link_count_def bluesky_cloudlog_new_def item_links_def new_cloudlog_def)

lemma rc_ok_new:
  assumes "rc_ok own fs"
  shows "rc_ok (own(length (cl_items fs) := 1)) (snd (bluesky_cloudlog_new oid fs))"
    and "own (length (cl_items fs)) = 0"
proof -
  let ?n = "length (cl_items fs)"
  have n: "get_item fs ?n = None" by (simp add: get_item_def)
  note z = rc_okD(3) [OF assms n]
  show "own ?n = 0" using z by simp
  show "rc_ok (own(?n := 1)) (snd (bluesky_cloudlog_new oid fs))"
  proof (rule rc_okI)
    fix r c
    assume "get_item (snd (bluesky_cloudlog_new oid fs)) r = Some c"
    then show "cl_refcount c = int ((own(?n := 1)) r + link_count (snd (bluesky_cloudlog_new oid fs)) r) \<and>
        0 < (own(?n := 1)) r + link_count (snd (bluesky_cloudlog_new oid fs)) r"
      using rc_okD(1,2) [OF assms, of r c] z
      by (auto simp: get_item_new link_count_new new_cloudlog_def split: if_splits)
  next
    fix r
    assume "get_item (snd (bluesky_cloudlog_new oid fs)) r = None"
    then show "(own(?n := 1)) r = 0 \<and> link_count (snd (bluesky_cloudlog_new oid fs)) r = 0"
      using rc_okD(3) [OF assms, of r] by (auto simp: get_item_new link_count_new split: if_splits)
  qed
qed

lemma rc_ok_ref:
  assumes "rc_ok own fs" "get_item fs r = Some c"
  shows "rc_ok (own(r := own r + 1)) (set_item r (c\<lparr>cl_refcount := cl_refcount c + 1\<rparr>) fs)"
  using rc_okD(1,2) [OF assms(1,2)] by (intro rc_ok_set [OF assms]) (auto simp: item_links_def)


lemma cloudlog_get_ok:
  assumes "rc_ok own fs" "loc_ok fs" "oid \<noteq> null_id"
  shows "\<exists>r fs' c. bluesky_cloudlog_get oid fs = Some (Some r, fs') \<and> get_item fs' r = Some c \<and> cl_id c = oid \<and>
           locations fs' = (locations fs)(oid \<mapsto> r) \<and> (\<forall>r'. locations fs oid = Some r' \<longrightarrow> r = r') \<and>
           (\<forall>r' c'. get_item fs r' = Some c' \<longrightarrow>
              get_item fs' r' = Some (if r' = r then c'\<lparr>cl_refcount := cl_refcount c' + 1\<rparr> else c')) \<and>
           (\<forall>r'. r' \<noteq> r \<longrightarrow> get_item fs' r' = get_item fs r') \<and>
           rc_ok (own(r := own r + 1)) fs' \<and> loc_ok fs' \<and> (stats_ok fs \<longrightarrow> stats_ok fs')"
proof (cases "locations fs oid")
  case None
  let ?n = "length (cl_items fs)"
  let ?fs1 = "bluesky_cloudlog_stats_update (new_cloudlog oid) 1 (snd (bluesky_cloudlog_new oid fs))"
  let ?fs2 = "?fs1\<lparr>locations := (locations ?fs1)(oid \<mapsto> ?n)\<rparr>"
  have g: "get_item ?fs2 r = (if r = ?n then Some (new_cloudlog oid) else get_item fs r)" for r
    using get_item_new [of oid fs r] get_item_cong [of ?fs2 "snd (bluesky_cloudlog_new oid fs)"] by simp
  have run: "bluesky_cloudlog_get oid fs = Some (Some ?n, ?fs2)"
    using None assms(3) g [of ?n]
    by (simp add: bluesky_cloudlog_get_def bluesky_cloudlog_insert_def bluesky_cloudlog_new_def get_item_def Let_def)
  have "rc_ok (own(?n := 1)) ?fs2"
    using rc_ok_new(1) [OF assms(1), of oid] rc_ok_cong [of ?fs2 "snd (bluesky_cloudlog_new oid fs)"] by simp
  then have "rc_ok (own(?n := own ?n + 1)) ?fs2" using rc_ok_new(2) [OF assms(1)] by simp
  moreover have "loc_ok ?fs2"
    unfolding loc_ok_def
  proof (intro allI impI)
    fix i r
    assume l: "locations ?fs2 i = Some r"
    show "\<exists>c. get_item ?fs2 r = Some c \<and> cl_id c = i"
    proof (cases "i = oid")
      case True
      with l g [of r] show ?thesis by simp
    next
      case False
      with l have "locations fs i = Some r" by (simp add: bluesky_cloudlog_new_def)
      with assms(2) obtain c where c: "get_item fs r = Some c" "cl_id c = i" by (auto simp: loc_ok_def)
      then have "r \<noteq> ?n" by (auto simp: get_item_def)
      with c g [of r] show ?thesis by simp
    qed
  qed
  moreover have "stats_ok fs \<longrightarrow> stats_ok ?fs2"
    by (simp add: stats_ok_def bluesky_cloudlog_new_def tally_def bluesky_cloudlog_stats_update_def new_cloudlog_def
        counts_in_cloud_def counts_in_journal_def counts_dirty_def)
  moreover have "locations ?fs2 = (locations fs)(oid \<mapsto> ?n)" by (simp add: bluesky_cloudlog_new_def)
  moreover have "get_item fs ?n = None" by (simp add: get_item_def)
  ultimately show ?thesis
    using run g None by (intro exI [of _ ?n] exI [of _ ?fs2]) auto
next
  case (Some r)
  then obtain c where c: "get_item fs r = Some c" "cl_id c = oid" using assms(2) by (auto simp: loc_ok_def)
  let ?fs' = "set_item r (c\<lparr>cl_refcount := cl_refcount c + 1\<rparr>) fs"
  have run: "bluesky_cloudlog_get oid fs = Some (Some r, ?fs')"
    using Some assms(3) c by (simp add: bluesky_cloudlog_get_def bluesky_cloudlog_ref_def)
  have "locations ?fs' = (locations fs)(oid \<mapsto> r)" using Some by (auto simp: set_item_def)
  then show ?thesis
    using run c Some rc_ok_ref [OF assms(1) c(1)] refcount_keeps(1,2) [OF c(1)] assms(2,3)
    by (intro exI [of _ r] exI [of _ ?fs']) auto
qed


lemma unref_ok:
  assumes "rc_ok own fs" "loc_ok fs" "stats_ok fs" "0 < own r"
  shows "\<exists>fs'. bluesky_cloudlog_unref (Some r) fs = Some fs' \<and> rc_ok (own(r := own r - 1)) fs' \<and>
           loc_ok fs' \<and> stats_ok fs' \<and> survives fs fs'"
proof -
  have "own = (\<lambda>r'. (own(r := own r - 1)) r' + count_list [Some r] (Some r'))"
    using assms(4) by (auto simp: fun_eq_iff)
  then have "rc_ok (\<lambda>r'. (own(r := own r - 1)) r' + count_list [Some r] (Some r')) fs" using assms(1) by simp
  from unref_all_ok [OF this] obtain fs' where u: "unref_all [Some r] fs = Some fs'" "rc_ok (own(r := own r - 1)) fs'"
    by blast
  with unref_all_keeps [OF u(1)] assms(2,3) show ?thesis by (auto simp: bluesky_cloudlog_unref_def)
qed


section \<open>Properties\<close>

text \<open>The example of the witnesses: an inode item (0) that links to a data item (1).\<close>

definition sample_items :: clfs where
  "sample_items = \<lparr>cl_items = [Some ((new_cloudlog [1])\<lparr>cl_type := LOGTYPE_INODE, cl_links := [Some 1], cl_data := Some []\<rparr>),
                               Some ((new_cloudlog [2])\<lparr>cl_type := LOGTYPE_DATA, cl_data := Some [9]\<rparr>)],
     locations = [[1] \<mapsto> 0, [2] \<mapsto> 1], cache_log_dirty = 2, cache_log_journal = 0, cache_log_cloud = 0,
     unref_queue = [], journal_queue = []\<rparr>"

definition sample_own :: "ref \<Rightarrow> nat" where
  "sample_own r = (if r = 0 then 1 else 0)"

lemma sample_items_ok: "rc_ok sample_own sample_items" "loc_ok sample_items" "stats_ok sample_items"
  by (auto simp: rc_ok_def loc_ok_def stats_ok_def sample_items_def sample_own_def get_item_def link_count_def
      item_links_def new_cloudlog_def tally_def counts_in_cloud_def counts_in_journal_def counts_dirty_def
      less_Suc_eq nth_Cons' split: if_splits)

text \<open>C20: Dropping a reference that is held never touches a freed item: it ends,
  the reference counts are exact again for the owners that are left, the table
  finds only live items, the counters of cached data still count each item in
  its category, and items that are not freed keep their contents.\<close>

theorem cloudlog_unref_exact:
  assumes "rc_ok own fs" "loc_ok fs" "stats_ok fs" "0 < own r"
  shows "\<exists>fs'. bluesky_cloudlog_unref (Some r) fs = Some fs' \<and> rc_ok (own(r := own r - 1)) fs' \<and>
           loc_ok fs' \<and> stats_ok fs' \<and> survives fs fs'"
  by (rule unref_ok [OF assms])

theorem cloudlog_unref_exact_witness:
  "\<exists>fs'. bluesky_cloudlog_unref (Some 0) sample_items = Some fs' \<and> rc_ok (sample_own(0 := 0)) fs' \<and> stats_ok fs'"
  using cloudlog_unref_exact [OF sample_items_ok, of 0] by (auto simp: sample_own_def)

text \<open>C21: Looking up an identifier gives the caller a counted reference to the one
  live item the table has for it, making a fresh item where there is none; the
  null identifier gives no item; counts, table and counters stay exact.\<close>

theorem cloudlog_get_counted:
  assumes "rc_ok own fs" "loc_ok fs" "stats_ok fs" "oid \<noteq> null_id"
  shows "\<exists>r fs' c. bluesky_cloudlog_get oid fs = Some (Some r, fs') \<and> get_item fs' r = Some c \<and> cl_id c = oid \<and>
           locations fs' oid = Some r \<and> (\<forall>r'. locations fs oid = Some r' \<longrightarrow> r = r') \<and>
           rc_ok (own(r := own r + 1)) fs' \<and> loc_ok fs' \<and> stats_ok fs'"
  using cloudlog_get_ok [OF assms(1,2,4)] assms(3) by (metis fun_upd_same)

theorem cloudlog_get_counted_witness:
  "\<exists>r fs' c. bluesky_cloudlog_get [2] sample_items = Some (Some r, fs') \<and> r = 1 \<and>
     rc_ok (sample_own(1 := 1)) fs' \<and> stats_ok fs'"
proof -
  have l: "locations sample_items [2] = Some 1" by (simp add: sample_items_def)
  have o1: "sample_own 1 = 0" by (simp add: sample_own_def)
  have "length ([2] :: bytes) \<noteq> length null_id" by (simp add: null_id_def)
  then have "([2] :: bytes) \<noteq> null_id" by metis
  from cloudlog_get_counted [OF sample_items_ok this] l o1 show ?thesis by fastforce
qed

end
