(* ===== verification/BlueSky_Format.thy ===== *)
theory BlueSky_Format
  imports BlueSky_Items
begin

text \<open>
  The byte layouts of log records (\<^verbatim>\<open>bluesky/bluesky-private.h\<close>): the headers of
  journal and cloud log records, the journal footer, and cloud pointers.  Structs
  are packed and their integers little-endian; cloud pointers and the checksum
  are copied in host order, which is little-endian on the supported machines.
\<close>


section \<open>Header structures\<close>

definition HEADER_MAGIC :: u32 where "HEADER_MAGIC = 0x676f4c0a"
definition FOOTER_MAGIC :: u32 where "FOOTER_MAGIC = 0x2e435243"

text \<open>\<^verbatim>\<open>JOURNAL_MAGIC\<close> is "\<open>\n\<close>Log", \<^verbatim>\<open>CLOUDLOG_MAGIC\<close> "AgI-" and \<^verbatim>\<open>CLOUDLOG_MAGIC_ENCRYPTED\<close> "AgI=".\<close>

definition JOURNAL_MAGIC :: bytes where "JOURNAL_MAGIC = [0x0a, 0x4c, 0x6f, 0x67]"
definition CLOUDLOG_MAGIC :: bytes where "CLOUDLOG_MAGIC = [0x41, 0x67, 0x49, 0x2d]"
definition CLOUDLOG_MAGIC_ENCRYPTED :: bytes where "CLOUDLOG_MAGIC_ENCRYPTED = [0x41, 0x67, 0x49, 0x3d]"

record log_header =
  lh_magic :: u32
  lh_type :: u8
  lh_offset :: u32
  lh_size1 :: u32
  lh_size2 :: u32
  lh_size3 :: u32
  lh_inum :: u64
  lh_id :: bytes

definition log_header_bytes :: "log_header \<Rightarrow> bytes" where
  "log_header_bytes h = le32 (lh_magic h) @ [lh_type h] @ le32 (lh_offset h) @ le32 (lh_size1 h) @
     le32 (lh_size2 h) @ le32 (lh_size3 h) @ le64 (lh_inum h) @ lh_id h"

definition sizeof_log_header :: nat where "sizeof_log_header = 45"
definition sizeof_log_footer :: nat where "sizeof_log_footer = 8"
definition sizeof_cloudlog_header :: nat where "sizeof_cloudlog_header = 89"

text \<open>A struct pointer into a buffer: the fields at their offsets.\<close>

definition log_header_at :: "bytes \<Rightarrow> nat \<Rightarrow> log_header" where
  "log_header_at buf off = (let h = drop off buf in
     \<lparr>lh_magic = le_word (slice 0 4 h), lh_type = h ! 4, lh_offset = le_word (slice 5 4 h),
      lh_size1 = le_word (slice 9 4 h), lh_size2 = le_word (slice 13 4 h), lh_size3 = le_word (slice 17 4 h),
      lh_inum = le_word (slice 21 8 h), lh_id = slice 29 16 h\<rparr>)"

record cloudlog_header =
  ch_magic :: bytes
  crypt_auth :: bytes
  crypt_iv :: bytes
  ch_type :: u8
  ch_id :: bytes
  ch_inum :: u64
  ch_size1 :: u32
  ch_size2 :: u32
  ch_size3 :: u32

definition cloudlog_header_bytes :: "cloudlog_header \<Rightarrow> bytes" where
  "cloudlog_header_bytes h = ch_magic h @ crypt_auth h @ crypt_iv h @ [ch_type h] @ ch_id h @ le64 (ch_inum h) @
     le32 (ch_size1 h) @ le32 (ch_size2 h) @ le32 (ch_size3 h)"

definition cloudlog_header_at :: "bytes \<Rightarrow> nat \<Rightarrow> cloudlog_header" where
  "cloudlog_header_at buf off = (let h = drop off buf in
     \<lparr>ch_magic = slice 0 4 h, crypt_auth = slice 4 32 h, crypt_iv = slice 36 16 h, ch_type = h ! 52,
      ch_id = slice 53 16 h, ch_inum = le_word (slice 69 8 h), ch_size1 = le_word (slice 77 4 h),
      ch_size2 = le_word (slice 81 4 h), ch_size3 = le_word (slice 85 4 h)\<rparr>)"

definition cloudptr_bytes :: "cloudptr \<Rightarrow> bytes" where
  "cloudptr_bytes p = le32 (cp_directory p) @ le32 (cp_sequence p) @ le32 (cp_offset p) @ le32 (cp_size p)"

definition cloudptr_of :: "bytes \<Rightarrow> cloudptr" where
  "cloudptr_of b = \<lparr>cp_directory = le_word (slice 0 4 b), cp_sequence = le_word (slice 4 4 b),
     cp_offset = le_word (slice 8 4 b), cp_size = le_word (slice 12 4 b)\<rparr>"


section \<open>Reading fields\<close>

text \<open>
  A field of a struct is found at its offset: the offset is split off the fields
  in front of it.
\<close>

lemma slice_append_skip [layout_simps]: "length xs \<le> i \<Longrightarrow> slice i n (xs @ ys) = slice (i - length xs) n ys"
  by (simp add: slice_def)

lemma slice_append_first [layout_simps]: "length xs = n \<Longrightarrow> slice 0 n (xs @ ys) = xs"
  by (simp add: slice_def)

lemma slice_0_all [layout_simps]: "length xs = n \<Longrightarrow> slice 0 n xs = xs"
  by (simp add: slice_def)

lemma nth_append_skip [layout_simps]: "length xs \<le> i \<Longrightarrow> (xs @ ys) ! i = ys ! (i - length xs)"
  by (simp add: nth_append)

lemma slice_Cons_skip [layout_simps]: "0 < i \<Longrightarrow> slice i n (x # ys) = slice (i - 1) n ys"
  by (cases i) (simp_all add: slice_def)

lemmas sizeof_defs = sizeof_log_header_def sizeof_log_footer_def sizeof_cloudlog_header_def

lemma length_log_header [layout_simps]: "length (lh_id h) = 16 \<Longrightarrow> length (log_header_bytes h) = 45"
  by (simp add: log_header_bytes_def)

lemma log_header_roundtrip:
  assumes "length (lh_id h) = 16" "length pre = off"
  shows "log_header_at (pre @ log_header_bytes h @ post) off = h"
  using assms by (simp add: log_header_at_def log_header_bytes_def Let_def layout_simps)

definition cloudlog_header_ok :: "cloudlog_header \<Rightarrow> bool" where
  "cloudlog_header_ok h \<longleftrightarrow> length (ch_magic h) = 4 \<and> length (crypt_auth h) = 32 \<and> length (crypt_iv h) = 16 \<and>
     length (ch_id h) = 16"

lemma length_cloudlog_header [layout_simps]: "cloudlog_header_ok h \<Longrightarrow> length (cloudlog_header_bytes h) = 89"
  by (simp add: cloudlog_header_bytes_def cloudlog_header_ok_def)

lemma cloudlog_header_roundtrip:
  assumes "cloudlog_header_ok h" "length pre = off"
  shows "cloudlog_header_at (pre @ cloudlog_header_bytes h @ post) off = h"
  using assms
  by (simp add: cloudlog_header_at_def cloudlog_header_bytes_def cloudlog_header_ok_def Let_def layout_simps)

lemma length_cloudptr_bytes [simp, layout_simps]: "length (cloudptr_bytes p) = 16"
  by (simp add: cloudptr_bytes_def)

lemma cloudptr_roundtrip [simp]: "cloudptr_of (cloudptr_bytes p) = p"
  by (simp add: cloudptr_of_def cloudptr_bytes_def layout_simps)

text \<open>Magic numbers at the start of a record.\<close>

lemma header_magic_bytes: "le32 HEADER_MAGIC = JOURNAL_MAGIC"
  by code_simp

lemma take4_log_header: "take 4 (log_header_bytes h @ rest) = le32 (lh_magic h)"
  by (simp add: log_header_bytes_def)

lemma take4_cloudlog_header: "cloudlog_header_ok h \<Longrightarrow> take 4 (cloudlog_header_bytes h @ rest) = ch_magic h"
  by (simp add: cloudlog_header_bytes_def cloudlog_header_ok_def)

lemma magics_differ: "JOURNAL_MAGIC \<noteq> CLOUDLOG_MAGIC" "CLOUDLOG_MAGIC \<noteq> CLOUDLOG_MAGIC_ENCRYPTED"
  by (simp_all add: JOURNAL_MAGIC_def CLOUDLOG_MAGIC_def CLOUDLOG_MAGIC_ENCRYPTED_def)

end
