(* ===== verification/BlueSky_Serialize.thy ===== *)
theory BlueSky_Serialize
  imports BlueSky_Format BlueSky_Dir
begin

text \<open>
  Serialization (\<^verbatim>\<open>bluesky/serialize.c\<close>): superblocks, inodes and log items to
  bytes and back.  A deserialized inode has the fields, the directory entries,
  the symbolic link and the clean blocks of the inode that was serialized; a
  deserialized log item has the links of the original.  Blocks of zeros do not
  survive the round trip, and deserializing a log item marks the items it links
  to as stored in the cloud.
\<close>


section \<open>Superblocks and inodes\<close>

definition SUPERBLOCK_MAGIC :: u64 where "SUPERBLOCK_MAGIC = 0x65ca91e91b124234"
definition INODE_MAGIC :: u64 where "INODE_MAGIC = 0xa6832100943d71e6"

definition bluesky_serialize_superblock :: "u64 \<Rightarrow> bytes" where
  "bluesky_serialize_superblock next_inum = le64 SUPERBLOCK_MAGIC @ le64 next_inum"

text \<open>The result is the \<^verbatim>\<open>next_inum\<close> of the new file system; the outer \<open>None\<close> is a read past the buffer.\<close>

definition bluesky_deserialize_superblock :: "bytes \<Rightarrow> u64 option option" where
  "bluesky_deserialize_superblock buf =
     (if length buf < 16 then None
      else if le_word (slice 0 8 buf) \<noteq> SUPERBLOCK_MAGIC then Some None
      else Some (Some (le_word (slice 8 8 buf))))"

definition serialized_inode :: "inode \<Rightarrow> bytes" where
  "serialized_inode inode =
     le64 INODE_MAGIC @ le32 (word_of_int (i_type inode)) @ le32 (i_mode inode) @ le32 (i_uid inode) @
     le32 (i_gid inode) @ le32 (i_nlink inode) @ le64 (i_inum inode) @ le64 (change_count inode) @
     le64 (i_atime inode) @ le64 (i_ctime inode) @ le64 (i_mtime inode) @ le64 (i_ntime inode)"

definition sizeof_serialized_inode :: nat where "sizeof_serialized_inode = 76"

definition serialized_dirent :: "dirent \<Rightarrow> bytes" where
  "serialized_dirent d = le32 (d_cookie d) @ le64 (d_inum d) @ d_name d @ [0]"

text \<open>
  The data of a serialized inode.  A directory without its index or a symbolic
  link without contents is a null pointer access.
\<close>

definition inode_payload :: "inode \<Rightarrow> bytes option" where
  "inode_payload inode =
     (if i_type inode = BLUESKY_REGULAR then Some (le64 (i_size inode))
      else if i_type inode = BLUESKY_DIRECTORY then
        map_option (\<lambda>di. concat (map serialized_dirent (dirents di)) @ le32 0) (i_dir inode)
      else if i_type inode = BLUESKY_SYMLINK then map_option (\<lambda>s. s @ [0]) (symlink_contents inode)
      else Some [])"

definition inode_links :: "inode \<Rightarrow> ref option list" where
  "inode_links inode =
     (if i_type inode = BLUESKY_REGULAR
      then map (\<lambda>b. if b_type b = BLUESKY_BLOCK_REF then b_ref b else None) (i_blocks inode)
      else [])"

fun ref_all :: "ref option list \<Rightarrow> clfs \<Rightarrow> clfs option" where
  "ref_all [] fs = Some fs"
| "ref_all (p # ps) fs = Option.bind (bluesky_cloudlog_ref p fs) (ref_all ps)"

text \<open>\<open>oid\<close> is the identifier drawn for the new item.\<close>

definition bluesky_serialize_inode :: "bytes \<Rightarrow> inode \<Rightarrow> clfs \<Rightarrow> (ref \<times> clfs) option" where
  "bluesky_serialize_inode oid inode fs =
     (let (r, fs) = bluesky_cloudlog_new oid fs in
      case inode_payload inode of None \<Rightarrow> None
      | Some payload \<Rightarrow>
          (case ref_all (inode_links inode) fs of None \<Rightarrow> None
           | Some fs \<Rightarrow>
               (case get_item fs r of None \<Rightarrow> None
                | Some c \<Rightarrow>
                    let c = c\<lparr>cl_type := LOGTYPE_INODE, cl_inum := i_inum inode, cl_links := inode_links inode,
                              cl_data := Some (serialized_inode inode @ payload)\<rparr>;
                        fs = set_item r c fs
                    in map_option (\<lambda>fs. (r, bluesky_cloudlog_stats_update c 1 fs)) (bluesky_cloudlog_insert r fs))))"

text \<open>
  The directory part of \<^verbatim>\<open>bluesky_deserialize_inode\<close>.  The source does no bounds
  checks ("TODO: Bounds checking"): a read past the end of the data is \<open>None\<close>.
\<close>

definition add_dirent :: "u32 gsearch \<Rightarrow> dirent \<Rightarrow> dirindex \<Rightarrow> dirindex" where
  "add_dirent srch d di = \<lparr>dirents = gseq_insert_sorted srch d_cookie d (dirents di),
     dirhash = (dirhash di)(d_name d \<mapsto> d), dirhash_folded = (dirhash_folded di)(d_name_folded d \<mapsto> d)\<rparr>"

definition c_string :: "bytes \<Rightarrow> bytes option" where
  "c_string buf = (if 0 \<in> set buf then Some (takeWhile (\<lambda>c. c \<noteq> 0) buf) else None)"

function load_dirents :: "u32 gsearch \<Rightarrow> (bytes \<Rightarrow> bytes) \<Rightarrow> bytes \<Rightarrow> dirindex \<Rightarrow> dirindex option" where
  "load_dirents srch lower buf di =
     (if length buf < 4 then None
      else if (le_word (slice 0 4 buf) :: u32) = 0 then Some di
      else if length buf < 12 then None
      else case c_string (drop 12 buf) of None \<Rightarrow> None
           | Some name \<Rightarrow>
               load_dirents srch lower (drop (12 + length name + 1) buf)
                 (add_dirent srch \<lparr>d_name = name, d_name_folded = lower name, d_cookie = le_word (slice 0 4 buf),
                                   d_inum = le_word (slice 4 8 buf)\<rparr> di))"
  by pat_completeness auto
termination
  by (relation "measure (\<lambda>(srch, lower, buf, di). length buf)") auto

declare load_dirents.simps [simp del]

definition ref_block :: "ref option \<Rightarrow> block" where
  "ref_block p = \<lparr>b_type = BLUESKY_BLOCK_REF, b_ref = p, b_dirty = None\<rparr>"

definition load_payload ::
    "u32 gsearch \<Rightarrow> (bytes \<Rightarrow> bytes) \<Rightarrow> bytes \<Rightarrow> ref option list \<Rightarrow> inode \<Rightarrow> clfs \<Rightarrow> (inode \<times> clfs) option" where
  "load_payload srch lower buf links inode fs =
     (if i_type inode = BLUESKY_REGULAR then
        (if length buf < 8 then None
         else
           let sz = le_word (slice 0 8 buf) :: u64; n = unat (ucast ((sz + 32767) div 32768) :: u32) in
           if n \<noteq> length links then None
           else map_option (Pair (inode\<lparr>i_size := sz, i_blocks := map ref_block links\<rparr>)) (ref_all links fs))
      else if i_type inode = BLUESKY_DIRECTORY then
        (case i_dir inode of None \<Rightarrow> None
         | Some di \<Rightarrow> map_option (\<lambda>di. (inode\<lparr>i_dir := Some di\<rparr>, fs)) (load_dirents srch lower buf di))
      else if i_type inode = BLUESKY_SYMLINK then
        map_option (\<lambda>s. (inode\<lparr>symlink_contents := Some s\<rparr>, fs)) (c_string buf)
      else Some (inode, fs))"

definition load_fields :: "bytes \<Rightarrow> inode \<Rightarrow> inode" where
  "load_fields raw inode =
     (bluesky_init_inode inode (sint (le_word (slice 8 4 raw) :: u32)))
       \<lparr>i_mode := le_word (slice 12 4 raw), i_uid := le_word (slice 16 4 raw), i_gid := le_word (slice 20 4 raw),
        i_nlink := le_word (slice 24 4 raw), change_count := le_word (slice 36 8 raw),
        change_commit := le_word (slice 36 8 raw), i_atime := le_word (slice 44 8 raw),
        i_ctime := le_word (slice 52 8 raw), i_mtime := le_word (slice 60 8 raw), i_ntime := le_word (slice 68 8 raw)\<rparr>"

definition bluesky_deserialize_inode ::
    "u32 gsearch \<Rightarrow> (bytes \<Rightarrow> bytes) \<Rightarrow> inode \<Rightarrow> cloudlog \<Rightarrow> clfs \<Rightarrow> (inode \<times> clfs \<times> bool) option" where
  "bluesky_deserialize_inode srch lower inode item fs =
     (case cl_data item of None \<Rightarrow> None
      | Some buf \<Rightarrow>
          if length buf < sizeof_serialized_inode then None
          else if le_word (slice 0 8 buf) \<noteq> INODE_MAGIC then Some (inode, fs, False)
          else if i_inum inode \<noteq> le_word (slice 28 8 buf) then Some (inode, fs, False)
          else map_option (\<lambda>(inode, fs). (inode, fs, True))
                 (load_payload srch lower (drop sizeof_serialized_inode buf) (cl_links item) (load_fields buf inode) fs))"


section \<open>Log items\<close>

text \<open>
  The three parts of a serialized item: its data, the identifiers it links to
  (null for a null link) and their cloud pointers (none for a null link).
\<close>

fun serialize_links :: "ref option list \<Rightarrow> clfs \<Rightarrow> (bytes \<times> bytes) option" where
  "serialize_links [] fs = Some ([], [])"
| "serialize_links (None # ps) fs = map_option (\<lambda>(a, w). (null_id @ a, w)) (serialize_links ps fs)"
| "serialize_links (Some r # ps) fs =
     (case get_item fs r of None \<Rightarrow> None
      | Some c \<Rightarrow> map_option (\<lambda>(a, w). (cl_id c @ a, cloudptr_bytes (cl_location c) @ w)) (serialize_links ps fs))"

definition bluesky_serialize_cloudlog :: "cloudlog \<Rightarrow> clfs \<Rightarrow> (bytes \<times> bytes \<times> bytes) option" where
  "bluesky_serialize_cloudlog log fs =
     (case cl_data log of None \<Rightarrow> None
      | Some d \<Rightarrow> map_option (\<lambda>(a, w). (d, a, w)) (serialize_links (cl_links log) fs))"

text \<open>The loop of \<^verbatim>\<open>bluesky_deserialize_cloudlog\<close> over the links.\<close>

fun load_links :: "nat \<Rightarrow> bytes \<Rightarrow> bytes \<Rightarrow> clfs \<Rightarrow> (ref option list \<times> clfs) option" where
  "load_links 0 data2 data3 fs = Some ([], fs)"
| "load_links (Suc n) data2 data3 fs =
     (if length data2 < 16 then None
      else case bluesky_cloudlog_get (take 16 data2) fs of
        None \<Rightarrow> None
      | Some (None, fs) \<Rightarrow> map_option (\<lambda>(ps, fs). (None # ps, fs)) (load_links n (drop 16 data2) data3 fs)
      | Some (Some r, fs) \<Rightarrow>
          if length data3 < 16 then None
          else case get_item fs r of None \<Rightarrow> None
          | Some c \<Rightarrow>
              map_option (\<lambda>(ps, fs). (Some r # ps, fs))
                (load_links n (drop 16 data2) (drop 16 data3)
                  (set_item r (c\<lparr>cl_location := cloudptr_of (take 16 data3),
                                 location_flags := insert CLOUDLOG_CLOUD (location_flags c)\<rparr>) fs)))"

text \<open>The sizes and fields both kinds of headers give, with the position of the data.\<close>

definition parse_header :: "bytes \<Rightarrow> ((int \<times> u64 \<times> nat \<times> nat \<times> nat \<times> nat) option) option" where
  "parse_header data =
     (if length data \<le> 4 then None
      else if take 4 data = JOURNAL_MAGIC then
        (if length data < sizeof_log_header then None
         else let h = log_header_at data 0 in
           Some (Some (uint (lh_type h) - 48, lh_inum h, sizeof_log_header,
                       unat (lh_size1 h), unat (lh_size2 h), unat (lh_size3 h))))
      else if take 4 data = CLOUDLOG_MAGIC then
        (if length data < sizeof_cloudlog_header then None
         else let h = cloudlog_header_at data 0 in
           Some (Some (uint (ch_type h) - 48, ch_inum h, sizeof_cloudlog_header,
                       unat (ch_size1 h), unat (ch_size2 h), unat (ch_size3 h))))
      else Some None)"

definition bluesky_deserialize_cloudlog :: "ref \<Rightarrow> bytes \<Rightarrow> clfs \<Rightarrow> clfs option" where
  "bluesky_deserialize_cloudlog r data fs =
     (case get_item fs r of None \<Rightarrow> None
      | Some item \<Rightarrow>
          (case parse_header data of None \<Rightarrow> None
           | Some None \<Rightarrow> Some fs
           | Some (Some (type, inum, hlen, len1, len2, len3)) \<Rightarrow>
               if \<not> hlen + len1 + len2 + len3 \<le> length data then None
               else
                 let old = cl_links item;
                     fs = set_item r (item\<lparr>cl_type := type, cl_inum := inum, cl_data := None, data_size := int len1\<rparr>) fs
                 in
                 (case load_links (len2 div 16) (slice (hlen + len1) len2 data)
                         (slice (hlen + len1 + len2) len3 data) fs of
                    None \<Rightarrow> None
                  | Some (links, fs) \<Rightarrow>
                      (case unref_all old fs of None \<Rightarrow> None
                       | Some fs \<Rightarrow>
                           (case get_item fs r of None \<Rightarrow> None
                            | Some item \<Rightarrow> Some (set_item r (item\<lparr>cl_links := links\<rparr>) fs))))))"


section \<open>Directories and link lists round trip\<close>

lemma c_string_append: "0 \<notin> set s \<Longrightarrow> c_string (s @ 0 # rest) = Some s"
  by (induction s) (auto simp: c_string_def)

lemma load_dirents_bytes:
  assumes "\<And>d. d \<in> set es \<Longrightarrow> 0 \<notin> set (d_name d) \<and> d_cookie d \<noteq> 0 \<and> d_name_folded d = lower (d_name d)"
  shows "load_dirents srch lower (concat (map serialized_dirent es) @ le32 0 @ rest) di
         = Some (foldl (\<lambda>di d. add_dirent srch d di) di es)"
  using assms
proof (induction es arbitrary: di)
  case Nil
  show ?case by (subst load_dirents.simps) (simp add: layout_simps)
next
  case (Cons d es)
  let ?rest = "concat (map serialized_dirent es) @ le32 0 @ rest"
  have buf: "concat (map serialized_dirent (d # es)) @ le32 0 @ rest
      = le32 (d_cookie d) @ le64 (d_inum d) @ d_name d @ 0 # ?rest"
    by (simp add: serialized_dirent_def)
  have d: "0 \<notin> set (d_name d)" "d_cookie d \<noteq> 0" "d_name_folded d = lower (d_name d)"
    using Cons.prems [of d] by simp_all
  have eq: "\<lparr>d_name = d_name d, d_name_folded = lower (d_name d), d_cookie = d_cookie d, d_inum = d_inum d\<rparr> = d"
    using d(3) by simp
  have "load_dirents srch lower (le32 (d_cookie d) @ le64 (d_inum d) @ d_name d @ 0 # ?rest) di
      = load_dirents srch lower ?rest (add_dirent srch d di)"
    using d(1,2) eq by (subst load_dirents.simps) (simp add: layout_simps c_string_append)
  with Cons show ?case by (simp only: buf foldl_Cons) simp
qed


text \<open>Entries loaded in cookie order are appended, and make up a well-formed index.\<close>

lemma load_all:
  assumes g: "gsequence srch" and s: "sorted_wrt (<) (map d_cookie es)"
  shows "dirents (foldl (\<lambda>di d. add_dirent srch d di) empty_dirindex es) = es \<and>
         dirhash (foldl (\<lambda>di d. add_dirent srch d di) empty_dirindex es) = map_of (rev (map (\<lambda>d. (d_name d, d)) es)) \<and>
         dirhash_folded (foldl (\<lambda>di d. add_dirent srch d di) empty_dirindex es)
           = map_of (rev (map (\<lambda>d. (d_name_folded d, d)) es))"
  using s
proof (induction es rule: rev_induct)
  case (snoc d es)
  have lt: "sorted_wrt (<) (map d_cookie es)" "\<And>x. x \<in> set es \<Longrightarrow> d_cookie x \<le> d_cookie d"
    using snoc.prems by (auto simp: sorted_wrt_append less_imp_le)
  then have "sorted (map d_cookie es)" by (simp add: strict_sorted_iff)
  from gsequence.insert_sorted_snoc [OF g this lt(2)] snoc.IH [OF lt(1)]
  show ?case by (simp add: add_dirent_def map_of_append fun_eq_iff)
qed (simp add: empty_dirindex_def)

lemma load_all_wf:
  assumes g: "gsequence srch" and wf: "dir_wf lower di"
  defines "di' \<equiv> foldl (\<lambda>di d. add_dirent srch d di) empty_dirindex (dirents di)"
  shows "dirents di' = dirents di" "dirhash di' = dirhash di" "dir_wf lower di'"
proof -
  note l = load_all [OF g dir_wfD(4) [OF wf], folded di'_def]
  show es: "dirents di' = dirents di" using l by simp
  have names: "map_of (rev (map (\<lambda>d. (d_name d, d)) (dirents di))) n = Some d \<longleftrightarrow> d \<in> set (dirents di) \<and> d_name d = n" for n d
  proof
    assume "map_of (rev (map (\<lambda>d. (d_name d, d)) (dirents di))) n = Some d"
    from map_of_SomeD [OF this] show "d \<in> set (dirents di) \<and> d_name d = n" by auto
  next
    assume d: "d \<in> set (dirents di) \<and> d_name d = n"
    then obtain e where e: "map_of (rev (map (\<lambda>d. (d_name d, d)) (dirents di))) n = Some e"
      using weak_map_of_SomeI [of n d "rev (map (\<lambda>d. (d_name d, d)) (dirents di))"] by force
    from map_of_SomeD [OF this] have "e \<in> set (dirents di)" "d_name e = n" by auto
    with d dir_wf_hash(1) [OF wf, of n] have "e = d" by (metis option.inject)
    with e show "map_of (rev (map (\<lambda>d. (d_name d, d)) (dirents di))) n = Some d" by simp
  qed
  have "dirhash di' n = dirhash di n" for n
  proof (cases "dirhash di n")
    case None
    then have "dirhash di' n \<noteq> Some d" for d
      using names [of n d] dir_wf_hash(1) [OF wf, of n d] l by simp
    with None show ?thesis by (cases "dirhash di' n") auto
  next
    case (Some d)
    with names [of n d] dir_wf_hash(1) [OF wf, of n d] l show ?thesis by simp
  qed
  then show hash: "dirhash di' = dirhash di" by blast
  have folded: "d \<in> set (dirents di) \<and> d_name_folded d = f" if "dirhash_folded di' f = Some d" for f d
  proof -
    have "map_of (rev (map (\<lambda>d. (d_name_folded d, d)) (dirents di))) f = Some d" using that l by simp
    from map_of_SomeD [OF this] show ?thesis by auto
  qed
  show "dir_wf lower di'"
    unfolding dir_wf_def es hash
    by (intro conjI allI ballI impI dir_wfD(4) [OF wf] dir_wf_hash(1) [OF wf])
      (use dir_wf_hash(3) [OF wf] folded in blast)+
qed

text \<open>References taken for a list of links.\<close>

lemma ref_all_ok:
  assumes "rc_ok own fs" "\<And>r. Some r \<in> set ps \<Longrightarrow> get_item fs r \<noteq> None"
  shows "\<exists>fs'. ref_all ps fs = Some fs' \<and> rc_ok (\<lambda>r. own r + count_list ps (Some r)) fs' \<and>
           survives fs fs' \<and> (\<forall>r. get_item fs r \<noteq> None \<longrightarrow> get_item fs' r \<noteq> None) \<and>
           locations fs' = locations fs \<and> (loc_ok fs \<longrightarrow> loc_ok fs') \<and> (stats_ok fs \<longrightarrow> stats_ok fs')"
  using assms
proof (induction ps arbitrary: own fs)
  case Nil
  then show ?case by (simp add: survives_refl)
next
  case (Cons p ps)
  show ?case
  proof (cases p)
    case None
    with Cons.IH [OF Cons.prems(1)] Cons.prems(2) show ?thesis
      by (simp add: bluesky_cloudlog_ref_def)
  next
    case (Some r)
    then obtain c where c: "get_item fs r = Some c" using Cons.prems(2) [of r] by auto
    let ?fs = "set_item r (c\<lparr>cl_refcount := cl_refcount c + 1\<rparr>) fs"
    have live: "get_item fs r' \<noteq> None \<Longrightarrow> get_item ?fs r' \<noteq> None" for r' using c by simp
    have "\<And>r'. Some r' \<in> set ps \<Longrightarrow> get_item ?fs r' \<noteq> None" using Cons.prems(2) live by simp
    from Cons.IH [OF rc_ok_ref [OF Cons.prems(1) c] this] obtain fs'
      where f: "ref_all ps ?fs = Some fs'" "rc_ok (\<lambda>r'. (own(r := own r + 1)) r' + count_list ps (Some r')) fs'"
        "survives ?fs fs'" "\<forall>r. get_item ?fs r \<noteq> None \<longrightarrow> get_item fs' r \<noteq> None" "locations fs' = locations ?fs"
        "loc_ok ?fs \<longrightarrow> loc_ok fs'" "stats_ok ?fs \<longrightarrow> stats_ok fs'" by blast
    have "(\<lambda>r'. (own(r := own r + 1)) r' + count_list ps (Some r')) = (\<lambda>r'. own r' + count_list (p # ps) (Some r'))"
      using Some by (auto simp: fun_eq_iff)
    moreover have "locations ?fs = locations fs" by (simp add: set_item_def)
    ultimately show ?thesis
      using f live refcount_keeps [OF c, of "cl_refcount c + 1"] Some c survives_trans
      by (auto simp: bluesky_cloudlog_ref_def)
  qed
qed



section \<open>Inodes round trip\<close>

text \<open>
  An inode that serialization can represent: the type fits its field, a regular
  file has a block for every 32 KiB begun, a directory is well-formed, and no
  name or link target contains a null byte.
\<close>

definition storable :: "(bytes \<Rightarrow> bytes) \<Rightarrow> inode \<Rightarrow> bool" where
  "storable lower i \<longleftrightarrow>
     - (2 ^ 31) \<le> i_type i \<and> i_type i < 2 ^ 31 \<and>
     (i_type i = BLUESKY_REGULAR \<longrightarrow> length (i_blocks i) = unat (ucast ((i_size i + 32767) div 32768) :: u32)) \<and>
     (i_type i = BLUESKY_DIRECTORY \<longrightarrow>
        (\<exists>di. i_dir i = Some di \<and> dir_wf lower di \<and> (\<forall>d \<in> set (dirents di). 0 \<notin> set (d_name d)))) \<and>
     (i_type i = BLUESKY_SYMLINK \<longrightarrow> (\<exists>s. symlink_contents i = Some s \<and> 0 \<notin> set s))"

definition same_attributes :: "inode \<Rightarrow> inode \<Rightarrow> bool" where
  "same_attributes i j \<longleftrightarrow>
     i_type j = i_type i \<and> i_mode j = i_mode i \<and> i_uid j = i_uid i \<and> i_gid j = i_gid i \<and> i_nlink j = i_nlink i \<and>
     i_inum j = i_inum i \<and> change_count j = change_count i \<and> i_atime j = i_atime i \<and> i_ctime j = i_ctime i \<and>
     i_mtime j = i_mtime i \<and> i_ntime j = i_ntime i"

definition same_contents :: "(bytes \<Rightarrow> bytes) \<Rightarrow> inode \<Rightarrow> inode \<Rightarrow> bool" where
  "same_contents lower i j \<longleftrightarrow>
     (i_type i = BLUESKY_REGULAR \<longrightarrow> i_size j = i_size i \<and> i_blocks j = map ref_block (inode_links i)) \<and>
     (i_type i = BLUESKY_DIRECTORY \<longrightarrow>
        (\<exists>di dj. i_dir i = Some di \<and> i_dir j = Some dj \<and> dirents dj = dirents di \<and> dirhash dj = dirhash di \<and>
           dir_wf lower dj)) \<and>
     (i_type i = BLUESKY_SYMLINK \<longrightarrow> symlink_contents j = symlink_contents i)"

lemma storable_payload: "storable lower i \<Longrightarrow> inode_payload i \<noteq> None"
  by (auto simp: storable_def inode_payload_def)

lemma count_list_links:
  "0 < count_list ps x \<longleftrightarrow> x \<in> set ps"
  by (induction ps) auto

lemma link_count_ge: "get_item fs r = Some c \<Longrightarrow> count_list (cl_links c) (Some r') \<le> link_count fs r'"
  using link_count_update [of r fs None r'] get_item_SomeD [of fs r c] by (simp add: item_links_def)

lemma length_serialized_inode [simp]: "length (serialized_inode i) = 76"
  by (simp add: serialized_inode_def)

lemma load_fields_bytes:
  assumes "- (2 ^ 31) \<le> i_type i" "i_type i < 2 ^ 31"
  shows "load_fields (serialized_inode i @ rest) j =
    (bluesky_init_inode j (i_type i))
       \<lparr>i_mode := i_mode i, i_uid := i_uid i, i_gid := i_gid i, i_nlink := i_nlink i,
        change_count := change_count i, change_commit := change_count i, i_atime := i_atime i,
        i_ctime := i_ctime i, i_mtime := i_mtime i, i_ntime := i_ntime i\<rparr>"
proof -
  have "sint (word_of_int (i_type i) :: u32) = i_type i"
    using assms by (simp add: sint_sbintrunc' signed_take_bit_int_eq_self)
  then show ?thesis by (simp add: load_fields_def serialized_inode_def layout_simps)
qed

lemma load_payload_bytes:
  assumes g: "gsequence srch" and st: "storable lower i" and p: "inode_payload i = Some payload"
    and rc: "rc_ok own fs" and live: "\<And>r. Some r \<in> set (inode_links i) \<Longrightarrow> get_item fs r \<noteq> None"
    and j: "i_type j = i_type i" "i_type i = BLUESKY_DIRECTORY \<Longrightarrow> i_dir j = Some empty_dirindex"
  shows "\<exists>j' fs'. load_payload srch lower payload (inode_links i) j fs = Some (j', fs') \<and>
           rc_ok (\<lambda>r. own r + count_list (inode_links i) (Some r)) fs' \<and> same_contents lower i j' \<and>
           (\<exists>sz bl di sl. j' = j\<lparr>i_size := sz, i_blocks := bl, i_dir := di, symlink_contents := sl\<rparr>)"
proof -
  have rc': "inode_links i = [] \<Longrightarrow> rc_ok (\<lambda>r. own r + count_list (inode_links i) (Some r)) fs" using rc by simp
  have fin: ?thesis
    if "load_payload srch lower payload (inode_links i) j fs = Some (j', fs')"
      "rc_ok (\<lambda>r. own r + count_list (inode_links i) (Some r)) fs'" "same_contents lower i j'"
      "j' = j\<lparr>i_size := sz, i_blocks := bl, i_dir := di, symlink_contents := sl\<rparr>" for j' fs' sz bl di sl
    using that by blast
  consider (reg) "i_type i = BLUESKY_REGULAR" | (dir) "i_type i = BLUESKY_DIRECTORY"
    | (sym) "i_type i = BLUESKY_SYMLINK"
    | (other) "i_type i \<noteq> BLUESKY_REGULAR" "i_type i \<noteq> BLUESKY_DIRECTORY" "i_type i \<noteq> BLUESKY_SYMLINK" by blast
  then show ?thesis
  proof cases
    case reg
    then have pl: "payload = le64 (i_size i)" using p by (simp add: inode_payload_def)
    have len: "length (inode_links i) = unat (ucast ((i_size i + 32767) div 32768) :: u32)"
      using st reg by (simp add: storable_def inode_links_def)
    from ref_all_ok [OF rc live] obtain fs' where f: "ref_all (inode_links i) fs = Some fs'"
      "rc_ok (\<lambda>r. own r + count_list (inode_links i) (Some r)) fs'" by blast
    have "load_payload srch lower payload (inode_links i) j fs
        = Some (j\<lparr>i_size := i_size i, i_blocks := map ref_block (inode_links i)\<rparr>, fs')"
      using reg len f(1) j(1) by (simp add: load_payload_def pl layout_simps Let_def)
    moreover have "same_contents lower i (j\<lparr>i_size := i_size i, i_blocks := map ref_block (inode_links i)\<rparr>)"
      using reg by (simp add: same_contents_def file_type_defs)
    moreover have "j\<lparr>i_size := i_size i, i_blocks := map ref_block (inode_links i)\<rparr>
        = j\<lparr>i_size := i_size i, i_blocks := map ref_block (inode_links i), i_dir := i_dir j,
            symlink_contents := symlink_contents j\<rparr>" by simp
    ultimately show ?thesis by (rule fin [OF _ f(2)])
  next
    case dir
    then obtain di where di: "i_dir i = Some di" "dir_wf lower di" "\<forall>d \<in> set (dirents di). 0 \<notin> set (d_name d)"
      using st by (auto simp: storable_def)
    have nl: "inode_links i = []" using dir by (simp add: inode_links_def file_type_defs)
    have pl: "payload = concat (map serialized_dirent (dirents di)) @ le32 0 @ []"
      using p dir di by (simp add: inode_payload_def file_type_defs)
    let ?dj = "foldl (\<lambda>di d. add_dirent srch d di) empty_dirindex (dirents di)"
    have "load_dirents srch lower payload empty_dirindex = Some ?dj"
      unfolding pl
    proof (rule load_dirents_bytes)
      fix d assume "d \<in> set (dirents di)"
      with di(3) dir_wf_hash(3) [OF di(2), of d]
      show "0 \<notin> set (d_name d) \<and> d_cookie d \<noteq> 0 \<and> d_name_folded d = lower (d_name d)" by auto
    qed
    then have run: "load_payload srch lower payload (inode_links i) j fs = Some (j\<lparr>i_dir := Some ?dj\<rparr>, fs)"
      using dir j by (simp add: load_payload_def file_type_defs)
    have "same_contents lower i (j\<lparr>i_dir := Some ?dj\<rparr>)"
      using dir di(1) load_all_wf [OF g di(2)] by (simp add: same_contents_def file_type_defs)
    moreover have "j\<lparr>i_dir := Some ?dj\<rparr>
        = j\<lparr>i_size := i_size j, i_blocks := i_blocks j, i_dir := Some ?dj, symlink_contents := symlink_contents j\<rparr>" by simp
    ultimately show ?thesis by (rule fin [OF run rc' [OF nl]])
  next
    case sym
    then obtain t where t: "symlink_contents i = Some t" "0 \<notin> set t" using st by (auto simp: storable_def)
    then have "payload = t @ 0 # []" using p sym by (simp add: inode_payload_def file_type_defs)
    then have run: "load_payload srch lower payload (inode_links i) j fs = Some (j\<lparr>symlink_contents := Some t\<rparr>, fs)"
      using sym j c_string_append [OF t(2), of "[]"] by (simp add: load_payload_def file_type_defs)
    have nl: "inode_links i = []" using sym by (simp add: inode_links_def file_type_defs)
    have "same_contents lower i (j\<lparr>symlink_contents := Some t\<rparr>)"
      using sym t by (simp add: same_contents_def file_type_defs)
    moreover have "j\<lparr>symlink_contents := Some t\<rparr>
        = j\<lparr>i_size := i_size j, i_blocks := i_blocks j, i_dir := i_dir j, symlink_contents := Some t\<rparr>" by simp
    ultimately show ?thesis by (rule fin [OF run rc' [OF nl]])
  next
    case other
    then have run: "load_payload srch lower payload (inode_links i) j fs = Some (j, fs)" "inode_links i = []"
      using j by (simp_all add: load_payload_def inode_links_def)
    have "same_contents lower i j" using other by (simp add: same_contents_def)
    moreover have "j = j\<lparr>i_size := i_size j, i_blocks := i_blocks j, i_dir := i_dir j,
        symlink_contents := symlink_contents j\<rparr>" by simp
    ultimately show ?thesis by (rule fin [OF run(1) rc' [OF run(2)]])
  qed
qed

text \<open>Serialization takes references on the linked items, adds the new item, and leaves all others as they are.\<close>

definition inode_item :: "bytes \<Rightarrow> inode \<Rightarrow> bytes \<Rightarrow> cloudlog" where
  "inode_item oid i payload = (new_cloudlog oid)\<lparr>cl_type := LOGTYPE_INODE, cl_inum := i_inum i, cl_links := inode_links i,
     cl_data := Some (serialized_inode i @ payload)\<rparr>"

lemma serialize_inode_run:
  assumes rc: "rc_ok own fs" and p: "inode_payload i = Some payload"
    and live: "\<And>r. Some r \<in> set (inode_links i) \<Longrightarrow> get_item fs r \<noteq> None"
  defines "r \<equiv> length (cl_items fs)"
  obtains fs' item where "bluesky_serialize_inode oid i fs = Some (r, fs')" "get_item fs' r = Some item"
    "item = (inode_item oid i payload)\<lparr>cl_refcount := cl_refcount item\<rparr>" "locations fs' oid = Some r" "rc_ok (own(r := 1)) fs'"
    "loc_ok fs \<Longrightarrow> loc_ok fs'" "stats_ok fs \<Longrightarrow> stats_ok fs'" "journal_queue fs' = journal_queue fs"
    "\<forall>q y. get_item fs' q = Some y \<longrightarrow> q \<noteq> r \<longrightarrow> (\<exists>x. get_item fs q = Some x \<and> y = x\<lparr>cl_refcount := cl_refcount y\<rparr>)"
proof -
  define fs1 where "fs1 = snd (bluesky_cloudlog_new oid fs)"
  have new: "bluesky_cloudlog_new oid fs = (r, fs1)" by (simp add: bluesky_cloudlog_new_def r_def fs1_def)
  have g1: "get_item fs1 r' = (if r' = r then Some (new_cloudlog oid) else get_item fs r')" for r'
    by (simp add: get_item_new r_def fs1_def)
  have live1: "\<And>r'. Some r' \<in> set (inode_links i) \<Longrightarrow> get_item fs1 r' \<noteq> None" using live by (simp add: g1)
  have fresh: "get_item fs r = None" by (simp add: get_item_def r_def)
  have rc1: "rc_ok (own(r := 1)) fs1" using rc_ok_new(1) [OF rc] by (simp add: r_def fs1_def)
  from ref_all_ok [OF rc1 live1] obtain fs2
    where f2: "ref_all (inode_links i) fs1 = Some fs2" "rc_ok (\<lambda>r'. (own(r := 1)) r' + count_list (inode_links i) (Some r')) fs2"
      "survives fs1 fs2" "\<forall>r. get_item fs1 r \<noteq> None \<longrightarrow> get_item fs2 r \<noteq> None" "loc_ok fs1 \<longrightarrow> loc_ok fs2" "stats_ok fs1 \<longrightarrow> stats_ok fs2"
    by blast
  from f2(4) g1 obtain c where c: "get_item fs2 r = Some c" by (metis not_None_eq)
  have cn: "c = (new_cloudlog oid)\<lparr>cl_refcount := cl_refcount c\<rparr>"
    by (rule survivesD2 [OF f2(3) c]) (simp add: g1)
  let ?c = "c\<lparr>cl_type := LOGTYPE_INODE, cl_inum := i_inum i, cl_links := inode_links i,
              cl_data := Some (serialized_inode i @ payload)\<rparr>"
  let ?fs3 = "set_item r ?c fs2"
  let ?fs4 = "bluesky_cloudlog_stats_update ?c 1 (?fs3\<lparr>locations := (locations ?fs3)(cl_id ?c \<mapsto> r)\<rparr>)"
  have idc: "cl_id c = oid" "cl_links c = []" by (subst cn, simp)+
  have g3: "get_item ?fs3 r = Some ?c" using c by simp
  have g4: "get_item ?fs4 = get_item ?fs3" by (rule get_item_cong) simp
  have "Some r \<notin> set (inode_links i)" using live fresh by blast
  then have "count_list (inode_links i) (Some r) = 0" by (simp add: count_list_0_iff)
  then have "rc_ok (own(r := 1)) ?fs3"
    using rc_okD(1,2) [OF f2(2) c] idc
    by (intro rc_ok_set [OF f2(2) c]) (auto simp: item_links_def)
  then have rc4: "rc_ok (own(r := 1)) ?fs4" using rc_ok_cong [of ?fs4 ?fs3] by simp
  have loc4: "loc_ok ?fs4" if "loc_ok fs"
  proof -
    have l1: "locations fs1 = locations fs" by (simp add: fs1_def bluesky_cloudlog_new_def)
    have "loc_ok fs1"
      unfolding loc_ok_def l1
    proof (intro allI impI)
      fix j q assume "locations fs j = Some q"
      then obtain x where "get_item fs q = Some x" "cl_id x = j" using \<open>loc_ok fs\<close> by (auto simp: loc_ok_def)
      then show "\<exists>x. get_item fs1 q = Some x \<and> cl_id x = j" using fresh by (cases "q = r") (auto simp: g1)
    qed
    then have l3: "loc_ok ?fs3" using f2(5) c by (intro loc_ok_set [of _ _ c]) auto
    show ?thesis
      unfolding loc_ok_def g4
    proof (intro allI impI)
      fix j q assume "locations ?fs4 j = Some q"
      then have "q = r \<and> j = cl_id c \<or> locations ?fs3 j = Some q" by (simp split: if_splits)
      then show "\<exists>x. get_item ?fs3 q = Some x \<and> cl_id x = j"
        using g3 l3 [unfolded loc_ok_def, rule_format, of j q] by fastforce
    qed
  qed
  have stats4: "stats_ok ?fs4" if "stats_ok fs"
  proof -
    have "stats_ok fs1" using that
      by (simp add: stats_ok_def fs1_def bluesky_cloudlog_new_def tally_def new_cloudlog_def counts_in_cloud_def counts_in_journal_def counts_dirty_def)
    then have "stats_ok fs2" using f2(6) by blast
    from stats_ok_bracket [OF this c, of ?c]
    have "stats_ok (bluesky_cloudlog_stats_update ?c 1 (set_item r ?c (bluesky_cloudlog_stats_update c (-1) fs2)))" .
    moreover have "bluesky_cloudlog_stats_update c (-1) fs2 = fs2"
      by (subst cn) (simp add: bluesky_cloudlog_stats_update_def new_cloudlog_def)
    ultimately show ?thesis by (simp add: stats_ok_def tally_def stats_update_counters)
  qed
  show thesis
  proof (rule that [of ?fs4 ?c])
    show "bluesky_serialize_inode oid i fs = Some (r, ?fs4)"
      using new p f2(1) c g3 by (simp add: bluesky_serialize_inode_def bluesky_cloudlog_insert_def Let_def)
    show "get_item ?fs4 r = Some ?c" using g3 g4 by simp
    show "?c = (inode_item oid i payload)\<lparr>cl_refcount := cl_refcount ?c\<rparr>" by (subst cn) (simp add: inode_item_def)
    show "locations ?fs4 oid = Some r" using idc by simp
    show "journal_queue ?fs4 = journal_queue fs"
      using f2(3) by (simp add: survives_def set_item_def fs1_def bluesky_cloudlog_new_def)
    show "\<forall>q y. get_item ?fs4 q = Some y \<longrightarrow> q \<noteq> r \<longrightarrow> (\<exists>x. get_item fs q = Some x \<and> y = x\<lparr>cl_refcount := cl_refcount y\<rparr>)"
    proof (intro allI impI)
      fix q y assume y: "get_item ?fs4 q = Some y" "q \<noteq> r"
      then have "get_item ?fs3 q = Some y" by (simp only: g4)
      then have "get_item fs2 q = Some y" using y(2) c by simp
      from survivesD [OF f2(3) this] y(2) show "\<exists>x. get_item fs q = Some x \<and> y = x\<lparr>cl_refcount := cl_refcount y\<rparr>" by (simp add: g1)
    qed
  qed (use rc4 loc4 stats4 in auto)
qed

lemma serialize_inode_ok:
  assumes rc: "rc_ok own fs" and p: "inode_payload i = Some payload"
    and live: "\<And>r. Some r \<in> set (inode_links i) \<Longrightarrow> get_item fs r \<noteq> None"
  defines "r \<equiv> length (cl_items fs)"
  shows "\<exists>fs' item. bluesky_serialize_inode oid i fs = Some (r, fs') \<and> get_item fs' r = Some item \<and>
           cl_id item = oid \<and> cl_type item = LOGTYPE_INODE \<and> cl_inum item = i_inum i \<and>
           cl_data item = Some (serialized_inode i @ payload) \<and> cl_links item = inode_links i \<and>
           locations fs' oid = Some r \<and> rc_ok (own(r := 1)) fs'"
proof -
  obtain fs' item
    where f: "bluesky_serialize_inode oid i fs = Some (r, fs')" "get_item fs' r = Some item"
      "item = (inode_item oid i payload)\<lparr>cl_refcount := cl_refcount item\<rparr>" "locations fs' oid = Some r" "rc_ok (own(r := 1)) fs'"
    unfolding r_def by (rule serialize_inode_run [OF rc p live, where oid = oid]) simp_all
  have "cl_id item = oid \<and> cl_type item = LOGTYPE_INODE \<and> cl_inum item = i_inum i \<and>
      cl_data item = Some (serialized_inode i @ payload) \<and> cl_links item = inode_links i"
    by (subst (1 2 3 4 5) f(3)) (simp add: inode_item_def)
  with f show ?thesis by blast
qed

text \<open>
  The example of the witnesses: an item for a file (0) with one block (1) and a
  hole, the file itself, and a state with nothing but an unread item.
\<close>

definition sample_log :: clfs where
  "sample_log = \<lparr>cl_items = [Some ((new_cloudlog (replicate 16 1))\<lparr>cl_type := LOGTYPE_INODE, cl_links := [Some 1, None], cl_data := Some [7]\<rparr>),
                             Some ((new_cloudlog (replicate 16 2))\<lparr>cl_type := LOGTYPE_DATA, cl_data := Some [9]\<rparr>)],
     locations = [replicate 16 1 \<mapsto> 0, replicate 16 2 \<mapsto> 1], cache_log_dirty = 2, cache_log_journal = 0, cache_log_cloud = 0,
     unref_queue = [], journal_queue = []\<rparr>"

definition sample_file :: inode where
  "sample_file = (bluesky_new_inode 5 BLUESKY_REGULAR)\<lparr>i_size := 40000, i_blocks := [ref_block (Some 1), zero_block]\<rparr>"

definition sample_blank :: clfs where
  "sample_blank = \<lparr>cl_items = [Some (new_cloudlog (replicate 16 1))], locations = [replicate 16 1 \<mapsto> 0],
     cache_log_dirty = 0, cache_log_journal = 0, cache_log_cloud = 0, unref_queue = [], journal_queue = []\<rparr>"

lemma sample_log_ok: "rc_ok sample_own sample_log" "rc_ok sample_own sample_blank" "loc_ok sample_blank"
  by (auto simp: rc_ok_def loc_ok_def sample_log_def sample_blank_def sample_own_def get_item_def link_count_def
      item_links_def new_cloudlog_def less_Suc_eq nth_Cons' split: if_splits)




section \<open>Links round trip\<close>

text \<open>
  The links of an item as serialization records them: for every link that is not
  null an identifier and a cloud pointer.
\<close>

type_synonym link_desc = "(bytes \<times> cloudptr) option"

definition desc_of :: "clfs \<Rightarrow> ref option \<Rightarrow> link_desc" where
  "desc_of fs p = Option.bind p (\<lambda>r. map_option (\<lambda>c. (cl_id c, cl_location c)) (get_item fs r))"

fun id_bytes :: "link_desc \<Rightarrow> bytes" where
  "id_bytes None = null_id"
| "id_bytes (Some (i, l)) = i"

fun loc_bytes :: "link_desc \<Rightarrow> bytes" where
  "loc_bytes None = []"
| "loc_bytes (Some (i, l)) = cloudptr_bytes l"

lemma serialize_links_bytes:
  assumes "\<And>r. Some r \<in> set ps \<Longrightarrow> get_item fs r \<noteq> None"
  shows "serialize_links ps fs = Some (concat (map (id_bytes \<circ> desc_of fs) ps), concat (map (loc_bytes \<circ> desc_of fs) ps))"
  using assms
proof (induction ps)
  case (Cons p ps)
  show ?case
  proof (cases p)
    case None
    with Cons show ?thesis by (simp add: desc_of_def)
  next
    case (Some r)
    with Cons.prems [of r] obtain c where "get_item fs r = Some c" by auto
    with Some Cons show ?thesis by (simp add: desc_of_def)
  qed
qed simp

text \<open>The identifier names a live item with the cloud pointer \<open>f\<close> gives for it, marked as stored in the cloud.\<close>

definition good_link :: "(bytes \<Rightarrow> cloudptr) \<Rightarrow> clfs \<Rightarrow> bytes \<Rightarrow> bool" where
  "good_link f fs i \<longleftrightarrow> (\<exists>r c. locations fs i = Some r \<and> get_item fs r = Some c \<and> cl_id c = i \<and> cl_location c = f i \<and>
     CLOUDLOG_CLOUD \<in> location_flags c)"

text \<open>Items are only added, and those there keep all but counts, cloud pointers and location flags.\<close>

definition only_links :: "clfs \<Rightarrow> clfs \<Rightarrow> bool" where
  "only_links fs fs' \<longleftrightarrow>
     (\<forall>i r. locations fs i = Some r \<longrightarrow> locations fs' i = Some r) \<and>
     (\<forall>r c. get_item fs r = Some c \<longrightarrow>
        (\<exists>n l F. get_item fs' r = Some (c\<lparr>cl_refcount := n, cl_location := l, location_flags := F\<rparr>)))"

lemma only_linksD:
  assumes "only_links fs fs'"
  shows "locations fs i = Some r \<Longrightarrow> locations fs' i = Some r"
    and "get_item fs r = Some c \<Longrightarrow> \<exists>n l F. get_item fs' r = Some (c\<lparr>cl_refcount := n, cl_location := l, location_flags := F\<rparr>)"
  using assms unfolding only_links_def by blast+

lemma only_links_refl: "only_links fs fs"
  by (auto simp: only_links_def) (metis cloudlog.surjective cloudlog.update_convs(1,3,8))

lemma only_links_trans:
  assumes "only_links a b" "only_links b c"
  shows "only_links a c"
  unfolding only_links_def
proof (intro conjI allI impI)
  fix r x
  assume "get_item a r = Some x"
  from only_linksD(2) [OF assms(1) this] obtain n l F
    where "get_item b r = Some (x\<lparr>cl_refcount := n, cl_location := l, location_flags := F\<rparr>)" by blast
  from only_linksD(2) [OF assms(2) this]
  show "\<exists>n l F. get_item c r = Some (x\<lparr>cl_refcount := n, cl_location := l, location_flags := F\<rparr>)" by auto
qed (use only_linksD(1) [OF assms(1)] only_linksD(1) [OF assms(2)] in blast)

text \<open>Every live item is in the table under its identifier.\<close>

definition reg_ok :: "clfs \<Rightarrow> bool" where
  "reg_ok fs \<longleftrightarrow> (\<forall>r c. get_item fs r = Some c \<longrightarrow> locations fs (cl_id c) = Some r)"

lemma reg_okD: "reg_ok fs \<Longrightarrow> get_item fs r = Some c \<Longrightarrow> locations fs (cl_id c) = Some r"
  by (simp add: reg_ok_def)

lemma get_link_keeps:
  assumes ok: "rc_ok own fs" "loc_ok fs" "oid \<noteq> null_id"
  shows "\<exists>r fs1 c. bluesky_cloudlog_get oid fs = Some (Some r, fs1) \<and> get_item fs1 r = Some c \<and>
     (let fs' = set_item r (c\<lparr>cl_location := f oid, location_flags := insert CLOUDLOG_CLOUD (location_flags c)\<rparr>) fs1
      in rc_ok (own(r := own r + 1)) fs' \<and> loc_ok fs' \<and> only_links fs fs' \<and> good_link f fs' oid \<and>
         locations fs' oid = Some r \<and> (reg_ok fs \<longrightarrow> reg_ok fs') \<and> (\<forall>i. good_link f fs i \<longrightarrow> good_link f fs' i))"
proof -
  from cloudlog_get_ok [OF ok] obtain r fs1 c
    where g: "bluesky_cloudlog_get oid fs = Some (Some r, fs1)" "get_item fs1 r = Some c" "cl_id c = oid"
      "locations fs1 = (locations fs)(oid \<mapsto> r)" "\<forall>r'. locations fs oid = Some r' \<longrightarrow> r = r'"
      "\<forall>r' c'. get_item fs r' = Some c' \<longrightarrow>
         get_item fs1 r' = Some (if r' = r then c'\<lparr>cl_refcount := cl_refcount c' + 1\<rparr> else c')"
      "rc_ok (own(r := own r + 1)) fs1" "loc_ok fs1" "\<forall>r'. r' \<noteq> r \<longrightarrow> get_item fs1 r' = get_item fs r'" by metis
  let ?c = "c\<lparr>cl_location := f oid, location_flags := insert CLOUDLOG_CLOUD (location_flags c)\<rparr>"
  let ?fs = "set_item r ?c fs1"
  have item: "get_item ?fs r' = (if r' = r then Some ?c else get_item fs1 r')" for r' using g(2) by simp
  have loc: "locations ?fs = (locations fs)(oid \<mapsto> r)" using g(4) by (simp add: set_item_def)
  have "rc_ok (own(r := own r + 1)) ?fs"
    using rc_okD(1,2) [OF g(7,2)] by (intro rc_ok_set [OF g(7,2)]) (simp_all add: item_links_def)
  moreover have "loc_ok ?fs" by (rule loc_ok_set [OF g(8,2)]) simp
  moreover have "only_links fs ?fs"
    unfolding only_links_def
  proof (intro conjI allI impI)
    fix i r' assume "locations fs i = Some r'"
    then show "locations ?fs i = Some r'" using loc g(5) by auto
  next
    fix r' c' assume c': "get_item fs r' = Some c'"
    show "\<exists>n l F. get_item ?fs r' = Some (c'\<lparr>cl_refcount := n, cl_location := l, location_flags := F\<rparr>)"
    proof (cases "r' = r")
      case True
      with g(2,6) c' have "c = c'\<lparr>cl_refcount := cl_refcount c' + 1\<rparr>" by auto
      with True item show ?thesis by (metis cloudlog.update_convs(1,3,8) cloudlog.surjective)
    next
      case False
      with c' g(6) item have "get_item ?fs r' = Some c'" by auto
      then show ?thesis by (metis cloudlog.update_convs(1,3,8) cloudlog.surjective)
    qed
  qed
  moreover have "good_link f ?fs oid" using loc item g(3) by (auto simp: good_link_def)
  moreover have "good_link f ?fs i" if "good_link f fs i" for i
  proof -
    from that obtain r' c' where c': "locations fs i = Some r'" "get_item fs r' = Some c'" "cl_id c' = i"
      "cl_location c' = f i" "CLOUDLOG_CLOUD \<in> location_flags c'" by (auto simp: good_link_def)
    have l: "locations ?fs i = Some r'" using loc g(5) c'(1) by auto
    show ?thesis
    proof (cases "r' = r")
      case True
      with g(2,3,6) c' have "i = oid" by auto
      with True item l g(3) show ?thesis by (auto simp: good_link_def)
    next
      case False
      with c'(2) g(6) item have "get_item ?fs r' = Some c'" by auto
      with l c' show ?thesis by (auto simp: good_link_def)
    qed
  qed
  moreover have "reg_ok ?fs" if reg: "reg_ok fs"
    unfolding reg_ok_def
  proof (intro allI impI)
    fix r' c' assume c': "get_item ?fs r' = Some c'"
    show "locations ?fs (cl_id c') = Some r'"
    proof (cases "r' = r")
      case True
      with c' item g(3) loc show ?thesis by auto
    next
      case False
      with c' item g(9) have l: "locations fs (cl_id c') = Some r'" by (simp add: reg_okD [OF reg])
      with False g(5) have "cl_id c' \<noteq> oid" by auto
      with l loc show ?thesis by simp
    qed
  qed
  moreover have "locations ?fs oid = Some r" using loc by simp
  ultimately show ?thesis using g(1,2) by (auto simp: Let_def)
qed

definition desc_ok :: "(bytes \<Rightarrow> cloudptr) \<Rightarrow> link_desc list \<Rightarrow> bool" where
  "desc_ok f ds \<longleftrightarrow> (\<forall>i l. Some (i, l) \<in> set ds \<longrightarrow> length i = 16 \<and> i \<noteq> null_id \<and> l = f i)"

text \<open>What a link must be after loading: null for null, and the one live item with the identifier otherwise.\<close>

definition link_restored :: "(bytes \<Rightarrow> cloudptr) \<Rightarrow> clfs \<Rightarrow> link_desc \<Rightarrow> ref option \<Rightarrow> bool" where
  "link_restored f fs d p \<longleftrightarrow>
     (case d of None \<Rightarrow> p = None | Some (i, l) \<Rightarrow> good_link f fs i \<and> p = locations fs i)"

lemma load_links_ok:
  assumes "rc_ok own fs" "loc_ok fs" "desc_ok f ds"
  shows "\<exists>ps fs'. load_links (length ds) (concat (map id_bytes ds)) (concat (map loc_bytes ds)) fs = Some (ps, fs') \<and>
           rc_ok (\<lambda>r. own r + count_list ps (Some r)) fs' \<and> loc_ok fs' \<and> only_links fs fs' \<and> (reg_ok fs \<longrightarrow> reg_ok fs') \<and>
           (\<forall>i. good_link f fs i \<longrightarrow> good_link f fs' i) \<and> list_all2 (link_restored f fs') ds ps"
  using assms
proof (induction ds arbitrary: own fs)
  case Nil
  then show ?case by (simp add: only_links_refl)
next
  case (Cons d ds)
  have ok: "desc_ok f ds" using Cons.prems(3) by (simp add: desc_ok_def)
  show ?case
  proof (cases d)
    case None
    from Cons.IH [OF Cons.prems(1,2) ok] obtain ps fs'
      where i: "load_links (length ds) (concat (map id_bytes ds)) (concat (map loc_bytes ds)) fs = Some (ps, fs')"
        "rc_ok (\<lambda>r. own r + count_list ps (Some r)) fs'" "loc_ok fs'" "only_links fs fs'"
        "\<forall>i. good_link f fs i \<longrightarrow> good_link f fs' i" "list_all2 (link_restored f fs') ds ps" "reg_ok fs \<longrightarrow> reg_ok fs'"
      by blast
    have "load_links (length (d # ds)) (concat (map id_bytes (d # ds))) (concat (map loc_bytes (d # ds))) fs
        = Some (None # ps, fs')"
      using None i(1) by (simp add: bluesky_cloudlog_get_def null_id_def)
    moreover have "link_restored f fs' d None" using None by (simp add: link_restored_def)
    ultimately show ?thesis using i by (intro exI [of _ "None # ps"] exI [of _ fs']) simp
  next
    case (Some e)
    obtain oid l where e: "e = (oid, l)" by force
    with Some Cons.prems(3) have o: "length oid = 16" "oid \<noteq> null_id" "l = f oid" by (simp_all add: desc_ok_def)
    from get_link_keeps [OF Cons.prems(1,2) o(2), of f] obtain r fs1 c fs2
      where g: "bluesky_cloudlog_get oid fs = Some (Some r, fs1)" "get_item fs1 r = Some c"
        "fs2 = set_item r (c\<lparr>cl_location := f oid, location_flags := insert CLOUDLOG_CLOUD (location_flags c)\<rparr>) fs1"
        "rc_ok (own(r := own r + 1)) fs2" "loc_ok fs2" "only_links fs fs2" "good_link f fs2 oid"
        "locations fs2 oid = Some r" "\<forall>i. good_link f fs i \<longrightarrow> good_link f fs2 i" "reg_ok fs \<longrightarrow> reg_ok fs2"
      unfolding Let_def by blast
    from Cons.IH [OF g(4,5) ok] obtain ps fs'
      where i: "load_links (length ds) (concat (map id_bytes ds)) (concat (map loc_bytes ds)) fs2 = Some (ps, fs')"
        "rc_ok (\<lambda>r'. (own(r := own r + 1)) r' + count_list ps (Some r')) fs'" "loc_ok fs'" "only_links fs2 fs'"
        "\<forall>i. good_link f fs2 i \<longrightarrow> good_link f fs' i" "list_all2 (link_restored f fs') ds ps" "reg_ok fs2 \<longrightarrow> reg_ok fs'"
      by blast
    have "load_links (length (d # ds)) (concat (map id_bytes (d # ds))) (concat (map loc_bytes (d # ds))) fs
        = Some (Some r # ps, fs')"
      using Some e o g(1,2) i(1) by (simp add: g(3))
    moreover have "(\<lambda>r'. (own(r := own r + 1)) r' + count_list ps (Some r'))
        = (\<lambda>r'. own r' + count_list (Some r # ps) (Some r'))" by (auto simp: fun_eq_iff)
    moreover have "link_restored f fs' d (Some r)"
      using Some e i(5) g(7) only_linksD(1) [OF i(4) g(8)] by (simp add: link_restored_def)
    ultimately show ?thesis
      using i g(9,10) only_links_trans [OF g(6) i(4)] by (intro exI [of _ "Some r # ps"] exI [of _ fs']) auto
  qed
qed

text \<open>Dropping references does not depend on the links of an item that survives.\<close>

definition relink :: "ref \<Rightarrow> ref option list \<Rightarrow> clfs \<Rightarrow> clfs" where
  "relink r L fs = (case get_item fs r of None \<Rightarrow> fs | Some c \<Rightarrow> set_item r (c\<lparr>cl_links := L\<rparr>) fs)"

lemma get_relink:
  "get_item (relink r L fs) r' = map_option (\<lambda>c. if r' = r then c\<lparr>cl_links := L\<rparr> else c) (get_item fs r')"
  by (cases "get_item fs r'"; cases "get_item fs r") (auto simp: relink_def)

lemma good_link_relink:
  assumes "good_link f fs i"
  shows "good_link f (relink r L fs) i"
proof -
  from assms obtain q c where q: "locations fs i = Some q" "get_item fs q = Some c" "cl_id c = i" "cl_location c = f i"
    "CLOUDLOG_CLOUD \<in> location_flags c" by (auto simp: good_link_def)
  let ?c = "if q = r then c\<lparr>cl_links := L\<rparr> else c"
  have "get_item (relink r L fs) q = Some ?c" "cl_id ?c = i" "cl_location ?c = f i" "CLOUDLOG_CLOUD \<in> location_flags ?c"
    using q by (simp_all add: get_relink)
  moreover have "locations (relink r L fs) i = Some q" using q by (simp add: relink_def set_item_def split: option.splits)
  ultimately show ?thesis unfolding good_link_def by blast
qed

lemma set_item_same:
  assumes "get_item fs r = Some c"
  shows "set_item r c fs = fs"
proof -
  have "(cl_items fs)[r := Some c] = cl_items fs" using get_item_SomeD [OF assms] by (metis list_update_id)
  then show ?thesis by (simp add: set_item_def)
qed

lemma set_item_twice: "set_item r c (set_item r c' fs) = set_item r c fs"
  by (simp add: set_item_def)

lemma relink_set:
  assumes "get_item fs r' = Some c" "cl_links c' = cl_links c"
  shows "set_item r' (if r' = r then c'\<lparr>cl_links := L\<rparr> else c') (relink r L fs) = relink r L (set_item r' c' fs)"
  using assms by (auto simp: relink_def set_item_def get_item_def list_update_swap split: option.splits)

lemma relink_free:
  assumes "get_item fs r' = Some c" "r' \<noteq> r"
  shows "free_item r' c (relink r L fs) = relink r L (free_item r' c fs)"
  using assms
  by (auto simp: relink_def free_item_def get_item_free set_item_def get_item_def list_update_swap
      bluesky_cloudlog_stats_update_def split: option.splits)

lemma unref_all_relink:
  "unref_all w fs = Some fs' \<Longrightarrow> get_item fs' r \<noteq> None \<Longrightarrow> unref_all w (relink r L fs) = Some (relink r L fs')"
proof (induction w fs rule: unref_all.induct)
  case (3 r' w fs)
  then obtain c where g: "get_item fs r' = Some c" by (cases "get_item fs r'") auto
  show ?case
  proof (cases "cl_refcount c - 1 = 0")
    case True
    with "3.prems" g have u: "unref_all (cl_links c @ w) (free_item r' c fs) = Some fs'" by simp
    have "r' \<noteq> r"
    proof
      assume "r' = r"
      then have "get_item (free_item r' c fs) r = None" using g by (simp add: get_item_free)
      moreover obtain c' where "get_item fs' r = Some c'" using "3.prems"(2) by blast
      ultimately show False using survivesD [of "free_item r' c fs" fs' r c'] unref_all_keeps [OF u] by auto
    qed
    with "3.IH"(1) [OF g True u "3.prems"(2)] g True show ?thesis by (simp add: get_relink relink_free)
  next
    case False
    with "3.prems" g have u: "unref_all w (set_item r' (c\<lparr>cl_refcount := cl_refcount c - 1\<rparr>) fs) = Some fs'" by simp
    have "set_item r' (if r' = r then c\<lparr>cl_links := L, cl_refcount := cl_refcount c - 1\<rparr> else c\<lparr>cl_refcount := cl_refcount c - 1\<rparr>)
        (relink r L fs) = relink r L (set_item r' (c\<lparr>cl_refcount := cl_refcount c - 1\<rparr>) fs)"
      by (subst relink_set [OF g, symmetric]) (auto intro!: arg_cong [where f = "\<lambda>c. set_item r c (relink r L fs)"])
    with "3.IH"(2) [OF g False u "3.prems"(2)] False g
    show ?thesis by (cases "r' = r") (simp_all add: get_relink)
  qed
qed simp_all

lemma reg_ok_unref: "unref_all w fs = Some fs' \<Longrightarrow> reg_ok fs \<Longrightarrow> reg_ok fs'"
proof (induction w fs rule: unref_all.induct)
  case (3 r w fs)
  then obtain c where g: "get_item fs r = Some c" by (cases "get_item fs r") auto
  have "reg_ok (free_item r c fs)"
    unfolding reg_ok_def
  proof (intro allI impI)
    fix r' c' assume "get_item (free_item r c fs) r' = Some c'"
    then have "r' \<noteq> r" "get_item fs r' = Some c'" using g by (auto simp: get_item_free split: if_splits)
    with reg_okD [OF "3.prems"(2), of r' c'] reg_okD [OF "3.prems"(2) g]
    have "locations fs (cl_id c') = Some r'" "cl_id c' \<noteq> cl_id c" by auto
    then show "locations (free_item r c fs) (cl_id c') = Some r'" by (simp add: free_item_def)
  qed
  moreover have "reg_ok (set_item r (c\<lparr>cl_refcount := cl_refcount c - 1\<rparr>) fs)"
    using g reg_okD [OF "3.prems"(2)] by (auto simp: reg_ok_def) (simp_all add: set_item_def)
  ultimately show ?case using "3.IH" g "3.prems"(1) by (auto split: if_splits)
qed simp_all

text \<open>Links that are restored stay so while references to other items are dropped.\<close>

lemma restored_unref:
  assumes l: "list_all2 (link_restored f fs) ds ps" and u: "survives fs fs'" and reg: "reg_ok fs'"
    and live: "\<And>q. Some q \<in> set ps \<Longrightarrow> get_item fs' q \<noteq> None"
  shows "list_all2 (link_restored f fs') ds ps"
proof (rule list.rel_mono_strong [OF l])
  fix d p
  assume p: "p \<in> set ps" and r: "link_restored f fs d p"
  show "link_restored f fs' d p"
  proof (cases d)
    case None
    with r show ?thesis by (simp add: link_restored_def)
  next
    case (Some e)
    obtain i x where e: "e = (i, x)" by force
    from r Some e obtain q c where q: "p = Some q" "get_item fs q = Some c" "cl_id c = i" "cl_location c = f i"
      "CLOUDLOG_CLOUD \<in> location_flags c" by (auto simp: link_restored_def good_link_def)
    with live [of q] p obtain c' where c': "get_item fs' q = Some c'" by auto
    have "c' = c\<lparr>cl_refcount := cl_refcount c'\<rparr>" by (rule survivesD2 [OF u c' q(2)])
    then have "cl_id c' = cl_id c" "cl_location c' = cl_location c" "location_flags c' = location_flags c"
      by (metis cloudlog.select_convs cloudlog.surjective cloudlog.update_convs(1))+
    with q reg_okD [OF reg c'] c' Some e show ?thesis by (auto simp: link_restored_def good_link_def)
  qed
qed

text \<open>
  The links replaced: references to the new links are taken, those to the old
  ones dropped, then the list is exchanged.
\<close>

lemma exchange_links:
  assumes rc: "rc_ok (\<lambda>q. own q + count_list ps (Some q)) fs" and g: "get_item fs r = Some c" and r: "0 < own r"
    and ok: "loc_ok fs" "reg_ok fs" and l: "list_all2 (link_restored f fs) ds ps"
  shows "\<exists>fs' c'. unref_all (cl_links c) fs = Some fs' \<and> get_item fs' r = Some c' \<and> c' = c\<lparr>cl_refcount := cl_refcount c'\<rparr> \<and>
           rc_ok own (set_item r (c'\<lparr>cl_links := ps\<rparr>) fs') \<and> loc_ok fs' \<and>
           list_all2 (link_restored f (set_item r (c'\<lparr>cl_links := ps\<rparr>) fs')) ds ps"
proof -
  let ?c0 = "c\<lparr>cl_links := ps\<rparr>" and ?fs0 = "relink r ps fs"
  have fs0: "?fs0 = set_item r ?c0 fs" using g by (simp add: relink_def)
  have loc0: "locations ?fs0 = locations fs" by (simp add: fs0 set_item_def)
  have g0: "get_item ?fs0 r = Some ?c0" using g by (simp add: get_relink)
  have "rc_ok (\<lambda>q. own q + count_list (cl_links c) (Some q)) ?fs0"
    unfolding fs0 using rc_okD(1,2) [OF rc g]
    by (intro rc_ok_set [OF rc g]) (auto simp: item_links_def)
  from unref_all_ok [OF this] obtain fs0' where u: "unref_all (cl_links c) ?fs0 = Some fs0'" "rc_ok own fs0'" by blast
  note k = unref_all_keeps [OF u(1)]
  obtain c0 where c0: "get_item fs0' r = Some c0" using rc_ok_live [OF u(2) r] by blast
  have c0_eq: "c0 = ?c0\<lparr>cl_refcount := cl_refcount c0\<rparr>" by (rule survivesD2 [OF _ c0 g0]) (use k in blast)
  have again: "relink r (cl_links c) ?fs0 = fs"
    using g set_item_same [OF g] by (simp add: relink_def set_item_twice)
  let ?fs' = "relink r (cl_links c) fs0'" and ?c' = "c0\<lparr>cl_links := cl_links c\<rparr>"
  have un: "unref_all (cl_links c) fs = Some ?fs'"
    using unref_all_relink [OF u(1), of r "cl_links c"] c0 again by simp
  have g': "get_item ?fs' r = Some ?c'" using c0 by (simp add: get_relink)
  have "c0\<lparr>cl_links := ps\<rparr> = c0" by (subst c0_eq, subst (2) c0_eq) simp
  then have set: "set_item r (?c'\<lparr>cl_links := ps\<rparr>) ?fs' = fs0'"
    using c0 set_item_same [OF c0] by (simp add: relink_def set_item_twice)
  have reg0: "reg_ok ?fs0"
    using g reg_okD [OF ok(2)] by (auto simp: reg_ok_def fs0) (simp_all add: set_item_def)
  have l0: "list_all2 (link_restored f ?fs0) ds ps"
  proof (rule list_all2_mono [OF l])
    fix d p assume "link_restored f fs d p"
    then show "link_restored f ?fs0 d p"
      using good_link_relink [of f fs _ r ps] by (auto simp: link_restored_def loc0 split: option.splits)
  qed
  have "list_all2 (link_restored f fs0') ds ps"
  proof (rule restored_unref [OF l0 _ reg_ok_unref [OF u(1) reg0]])
    fix q assume q: "Some q \<in> set ps"
    have "cl_links c0 = ps" by (subst c0_eq) simp
    with q link_count_ge [OF c0, of q] have "0 < link_count fs0' q" by (simp add: count_list_links [symmetric])
    then show "get_item fs0' q \<noteq> None" using rc_okD(3) [OF u(2), of q] by auto
  qed (use k in blast)
  moreover have "?c' = c\<lparr>cl_refcount := cl_refcount ?c'\<rparr>" by (subst c0_eq) simp
  moreover have "loc_ok ?fs'"
    using unref_all_keeps [OF un] ok(1) by blast
  ultimately show ?thesis using un g' set u(2) by (intro exI [of _ ?fs'] exI [of _ ?c']) simp
qed


text \<open>The position of the parts of a record behind its header.\<close>

lemma parse_journal_header:
  assumes "length (lh_id h) = 16" "lh_magic h = HEADER_MAGIC"
  shows "parse_header (log_header_bytes h @ rest) =
    Some (Some (uint (lh_type h) - 48, lh_inum h, 45, unat (lh_size1 h), unat (lh_size2 h), unat (lh_size3 h)))"
  using assms log_header_roundtrip [OF assms(1), of "[]" 0 rest] take4_log_header [of h "[]"]
  by (simp add: parse_header_def header_magic_bytes sizeof_defs length_log_header Let_def)

lemma length_id_bytes: "desc_ok f ds \<Longrightarrow> length (concat (map id_bytes ds)) = 16 * length ds"
proof (induction ds)
  case (Cons d ds)
  then have "desc_ok f ds" by (simp add: desc_ok_def)
  with Cons show ?case by (cases d rule: id_bytes.cases) (simp_all add: desc_ok_def null_id_def)
qed simp

text \<open>The identifiers and cloud pointers an item is serialized with.\<close>

definition links_registered :: "clfs \<Rightarrow> ref option list \<Rightarrow> bool" where
  "links_registered fs ps \<longleftrightarrow> (\<forall>q. Some q \<in> set ps \<longrightarrow>
     (\<exists>c. get_item fs q = Some c \<and> length (cl_id c) = 16 \<and> cl_id c \<noteq> null_id \<and> locations fs (cl_id c) = Some q))"

definition location_of :: "clfs \<Rightarrow> bytes \<Rightarrow> cloudptr" where
  "location_of fs i = (case Option.bind (locations fs i) (get_item fs) of None \<Rightarrow> zero_ptr | Some c \<Rightarrow> cl_location c)"

lemma registered_desc_ok:
  assumes "links_registered fs ps"
  shows "desc_ok (location_of fs) (map (desc_of fs) ps)"
  unfolding desc_ok_def
proof (intro allI impI)
  fix i l
  assume "Some (i, l) \<in> set (map (desc_of fs) ps)"
  then obtain p where p: "p \<in> set ps" "desc_of fs p = Some (i, l)" by (metis (no_types) image_iff list.set_map)
  from p(2) obtain q c where "p = Some q" "get_item fs q = Some c" "i = cl_id c" "l = cl_location c"
    by (cases p) (auto simp: desc_of_def)
  with p(1) have q: "Some q \<in> set ps" "get_item fs q = Some c" "i = cl_id c" "l = cl_location c" by simp_all
  with assms have "length (cl_id c) = 16" "cl_id c \<noteq> null_id" "locations fs (cl_id c) = Some q"
    by (auto simp: links_registered_def)
  with q show "length i = 16 \<and> i \<noteq> null_id \<and> l = location_of fs i" by (simp add: location_of_def)
qed



end
