(* ===== verification/BlueSky_Crc32c.thy ===== *)
theory BlueSky_Crc32c
  imports BlueSky_Prelude
begin

unbundle bit_operations_syntax

text \<open>
  The checksum of journal records: \<^verbatim>\<open>bluesky/crc32c.c\<close>.  The table-driven loop of
  the source, its equivalence with the bit-serial CRC of the generator
  polynomial the source names, the residue that the journal's validator
  compares with, and what the checksum detects.
\<close>


section \<open>The source's routine\<close>

definition crc32c_table :: "u32 list" where
  "crc32c_table =
    [0x00000000, 0xF26B8303, 0xE13B70F7, 0x1350F3F4,
     0xC79A971F, 0x35F1141C, 0x26A1E7E8, 0xD4CA64EB,
     0x8AD958CF, 0x78B2DBCC, 0x6BE22838, 0x9989AB3B,
     0x4D43CFD0, 0xBF284CD3, 0xAC78BF27, 0x5E133C24,
     0x105EC76F, 0xE235446C, 0xF165B798, 0x030E349B,
     0xD7C45070, 0x25AFD373, 0x36FF2087, 0xC494A384,
     0x9A879FA0, 0x68EC1CA3, 0x7BBCEF57, 0x89D76C54,
     0x5D1D08BF, 0xAF768BBC, 0xBC267848, 0x4E4DFB4B,
     0x20BD8EDE, 0xD2D60DDD, 0xC186FE29, 0x33ED7D2A,
     0xE72719C1, 0x154C9AC2, 0x061C6936, 0xF477EA35,
     0xAA64D611, 0x580F5512, 0x4B5FA6E6, 0xB93425E5,
     0x6DFE410E, 0x9F95C20D, 0x8CC531F9, 0x7EAEB2FA,
     0x30E349B1, 0xC288CAB2, 0xD1D83946, 0x23B3BA45,
     0xF779DEAE, 0x05125DAD, 0x1642AE59, 0xE4292D5A,
     0xBA3A117E, 0x4851927D, 0x5B016189, 0xA96AE28A,
     0x7DA08661, 0x8FCB0562, 0x9C9BF696, 0x6EF07595,
     0x417B1DBC, 0xB3109EBF, 0xA0406D4B, 0x522BEE48,
     0x86E18AA3, 0x748A09A0, 0x67DAFA54, 0x95B17957,
     0xCBA24573, 0x39C9C670, 0x2A993584, 0xD8F2B687,
     0x0C38D26C, 0xFE53516F, 0xED03A29B, 0x1F682198,
     0x5125DAD3, 0xA34E59D0, 0xB01EAA24, 0x42752927,
     0x96BF4DCC, 0x64D4CECF, 0x77843D3B, 0x85EFBE38,
     0xDBFC821C, 0x2997011F, 0x3AC7F2EB, 0xC8AC71E8,
     0x1C661503, 0xEE0D9600, 0xFD5D65F4, 0x0F36E6F7,
     0x61C69362, 0x93AD1061, 0x80FDE395, 0x72966096,
     0xA65C047D, 0x5437877E, 0x4767748A, 0xB50CF789,
     0xEB1FCBAD, 0x197448AE, 0x0A24BB5A, 0xF84F3859,
     0x2C855CB2, 0xDEEEDFB1, 0xCDBE2C45, 0x3FD5AF46,
     0x7198540D, 0x83F3D70E, 0x90A324FA, 0x62C8A7F9,
     0xB602C312, 0x44694011, 0x5739B3E5, 0xA55230E6,
     0xFB410CC2, 0x092A8FC1, 0x1A7A7C35, 0xE811FF36,
     0x3CDB9BDD, 0xCEB018DE, 0xDDE0EB2A, 0x2F8B6829,
     0x82F63B78, 0x709DB87B, 0x63CD4B8F, 0x91A6C88C,
     0x456CAC67, 0xB7072F64, 0xA457DC90, 0x563C5F93,
     0x082F63B7, 0xFA44E0B4, 0xE9141340, 0x1B7F9043,
     0xCFB5F4A8, 0x3DDE77AB, 0x2E8E845F, 0xDCE5075C,
     0x92A8FC17, 0x60C37F14, 0x73938CE0, 0x81F80FE3,
     0x55326B08, 0xA759E80B, 0xB4091BFF, 0x466298FC,
     0x1871A4D8, 0xEA1A27DB, 0xF94AD42F, 0x0B21572C,
     0xDFEB33C7, 0x2D80B0C4, 0x3ED04330, 0xCCBBC033,
     0xA24BB5A6, 0x502036A5, 0x4370C551, 0xB11B4652,
     0x65D122B9, 0x97BAA1BA, 0x84EA524E, 0x7681D14D,
     0x2892ED69, 0xDAF96E6A, 0xC9A99D9E, 0x3BC21E9D,
     0xEF087A76, 0x1D63F975, 0x0E330A81, 0xFC588982,
     0xB21572C9, 0x407EF1CA, 0x532E023E, 0xA145813D,
     0x758FE5D6, 0x87E466D5, 0x94B49521, 0x66DF1622,
     0x38CC2A06, 0xCAA7A905, 0xD9F75AF1, 0x2B9CD9F2,
     0xFF56BD19, 0x0D3D3E1A, 0x1E6DCDEE, 0xEC064EED,
     0xC38D26C4, 0x31E6A5C7, 0x22B65633, 0xD0DDD530,
     0x0417B1DB, 0xF67C32D8, 0xE52CC12C, 0x1747422F,
     0x49547E0B, 0xBB3FFD08, 0xA86F0EFC, 0x5A048DFF,
     0x8ECEE914, 0x7CA56A17, 0x6FF599E3, 0x9D9E1AE0,
     0xD3D3E1AB, 0x21B862A8, 0x32E8915C, 0xC083125F,
     0x144976B4, 0xE622F5B7, 0xF5720643, 0x07198540,
     0x590AB964, 0xAB613A67, 0xB831C993, 0x4A5A4A90,
     0x9E902E7B, 0x6CFBAD78, 0x7FAB5E8C, 0x8DC0DD8F,
     0xE330A81A, 0x115B2B19, 0x020BD8ED, 0xF0605BEE,
     0x24AA3F05, 0xD6C1BC06, 0xC5914FF2, 0x37FACCF1,
     0x69E9F0D5, 0x9B8273D6, 0x88D28022, 0x7AB90321,
     0xAE7367CA, 0x5C18E4C9, 0x4F48173D, 0xBD23943E,
     0xF36E6F75, 0x0105EC76, 0x12551F82, 0xE03E9C81,
     0x34F4F86A, 0xC69F7B69, 0xD5CF889D, 0x27A40B9E,
     0x79B737BA, 0x8BDCB4B9, 0x988C474D, 0x6AE7C44E,
     0xBE2DA0A5, 0x4C4623A6, 0x5F16D052, 0xAD7D5351]"

text \<open>
  One round of the loop of \<^verbatim>\<open>crc32c\<close>: the index into the table is masked to
  eight bits, so it is in range.
\<close>

definition crc32c_round :: "u32 \<Rightarrow> u8 \<Rightarrow> u32" where
  "crc32c_round crc d =
     crc32c_table ! unat ((crc XOR ucast d) AND 0xFF) XOR drop_bit 8 crc"

fun crc32c :: "u32 \<Rightarrow> bytes \<Rightarrow> u32" where
  "crc32c crc [] = crc"
| "crc32c crc (d # ds) = crc32c (crc32c_round crc d) ds"

definition crc32c_finalize :: "u32 \<Rightarrow> u32" where
  "crc32c_finalize crc = NOT crc"

definition BLUESKY_CRC32C_SEED :: u32 where
  "BLUESKY_CRC32C_SEED = NOT 0"

definition BLUESKY_CRC32C_VALIDATOR :: u32 where
  "BLUESKY_CRC32C_VALIDATOR = 0xb798b438"


section \<open>The bit-serial reference\<close>

text \<open>
  A shift register over the generator polynomial 0x1edc6f41, reflected: bits
  leave at the low end, and a bit that leaves is added back through the
  reversed polynomial.
\<close>

definition crc_poly :: u32 where
  "crc_poly = word_reverse 0x1edc6f41"

definition crc_shift :: "u32 \<Rightarrow> u32" where
  "crc_shift c = (if bit c 0 then drop_bit 1 c XOR crc_poly else drop_bit 1 c)"

definition crc_serial :: "u32 \<Rightarrow> bytes \<Rightarrow> u32" where
  "crc_serial c ds = foldl (\<lambda>c d. (crc_shift ^^ 8) (c XOR ucast d)) c ds"

lemma crc_poly_eq: "crc_poly = 0x82F63B78"
proof -
  have "[0..<32] = [0, 1, 2, 3, 4, 5, 6, 7, 8, 9, 10, 11, 12, 13, 14, 15,
     16, 17, 18, 19, 20, 21, 22, 23, 24, 25, 26, 27, 28, 29, 30, 31]"
    by (simp add: upt_conv_Cons)
  then show ?thesis by (simp add: crc_poly_def word_reverse_def)
qed

text \<open>
  The table is what eight shifts make of each byte.  The entries are evaluated
  one by one.
\<close>

lemma byte_values: "map of_nat [0..<256] =
    ([0, 1, 2, 3, 4, 5, 6, 7, 8, 9, 10, 11, 12, 13, 14, 15,
     16, 17, 18, 19, 20, 21, 22, 23, 24, 25, 26, 27, 28, 29, 30, 31,
     32, 33, 34, 35, 36, 37, 38, 39, 40, 41, 42, 43, 44, 45, 46, 47,
     48, 49, 50, 51, 52, 53, 54, 55, 56, 57, 58, 59, 60, 61, 62, 63,
     64, 65, 66, 67, 68, 69, 70, 71, 72, 73, 74, 75, 76, 77, 78, 79,
     80, 81, 82, 83, 84, 85, 86, 87, 88, 89, 90, 91, 92, 93, 94, 95,
     96, 97, 98, 99, 100, 101, 102, 103, 104, 105, 106, 107, 108, 109, 110, 111,
     112, 113, 114, 115, 116, 117, 118, 119, 120, 121, 122, 123, 124, 125, 126, 127,
     128, 129, 130, 131, 132, 133, 134, 135, 136, 137, 138, 139, 140, 141, 142, 143,
     144, 145, 146, 147, 148, 149, 150, 151, 152, 153, 154, 155, 156, 157, 158, 159,
     160, 161, 162, 163, 164, 165, 166, 167, 168, 169, 170, 171, 172, 173, 174, 175,
     176, 177, 178, 179, 180, 181, 182, 183, 184, 185, 186, 187, 188, 189, 190, 191,
     192, 193, 194, 195, 196, 197, 198, 199, 200, 201, 202, 203, 204, 205, 206, 207,
     208, 209, 210, 211, 212, 213, 214, 215, 216, 217, 218, 219, 220, 221, 222, 223,
     224, 225, 226, 227, 228, 229, 230, 231, 232, 233, 234, 235, 236, 237, 238, 239,
     240, 241, 242, 243, 244, 245, 246, 247, 248, 249, 250, 251, 252, 253, 254, 255] :: u32 list)"
  by (simp add: upt_conv_Cons)

definition crc_shift8 :: "u32 \<Rightarrow> u32" where
  "crc_shift8 c =
     crc_shift (crc_shift (crc_shift (crc_shift (crc_shift (crc_shift (crc_shift (crc_shift c)))))))"

lemma crc_shift_8: "crc_shift ^^ 8 = crc_shift8"
  by (simp add: numeral_eq_Suc crc_shift8_def fun_eq_iff)

lemma crc_shift_numeral:
  "crc_shift c = (if bit c 0 then drop_bit 1 c XOR 0x82F63B78 else drop_bit 1 c)"
  by (simp add: crc_shift_def crc_poly_eq)

lemma crc32c_table_map: "crc32c_table = map (crc_shift ^^ 8) (map of_nat [0..<256])"
  unfolding byte_values crc_shift_8 crc32c_table_def
  by (simp add: crc_shift8_def crc_shift_numeral)

lemma crc32c_table_nth: "i < 256 \<Longrightarrow> crc32c_table ! i = (crc_shift ^^ 8) (of_nat i)"
  by (simp add: crc32c_table_map)

text \<open>The shift register is linear, invertible, and shifts zeroes out unchanged.\<close>

lemma crc_shift_xor: "crc_shift (a XOR b) = crc_shift a XOR crc_shift b"
  by (auto simp: crc_shift_def bit_simps ac_simps intro!: bit_word_eqI)

lemma crc_shifts_xor: "(crc_shift ^^ n) (a XOR b) = (crc_shift ^^ n) a XOR (crc_shift ^^ n) b"
  by (induction n) (simp_all add: crc_shift_xor)

lemma crc_shifts_zeroes: "(\<And>i. i < n \<Longrightarrow> \<not> bit h i) \<Longrightarrow> (crc_shift ^^ n) h = drop_bit n h"
proof (induction n)
  case 0
  show ?case by simp
next
  case (Suc n)
  then have "(crc_shift ^^ n) h = drop_bit n h" by simp
  moreover have "\<not> bit (drop_bit n h) 0" using Suc.prems [of n] by (simp add: bit_simps)
  ultimately have "(crc_shift ^^ Suc n) h = drop_bit 1 (drop_bit n h)"
    by (simp add: crc_shift_def [of "drop_bit n h"])
  then show ?case by simp
qed

lemma crc_shift_eq_0: "crc_shift z = 0 \<Longrightarrow> z = 0"
proof (rule ccontr)
  assume z: "crc_shift z = 0" and "z \<noteq> 0"
  show False
  proof (cases "bit z 0")
    case True
    then have "bit (crc_shift z) 31"
      by (auto simp: crc_shift_def crc_poly_eq bit_simps dest: bit_imp_le_length)
    with z show False by simp
  next
    case False
    then have "\<not> bit z i" for i
      using z by (cases i) (auto simp: crc_shift_def bit_simps dest: arg_cong [where f = "\<lambda>w. bit w _"])
    with \<open>z \<noteq> 0\<close> show False by (auto simp: bit_eq_iff)
  qed
qed

lemma crc_shifts_inj: "(crc_shift ^^ n) a = (crc_shift ^^ n) b \<Longrightarrow> a = b"
proof -
  assume "(crc_shift ^^ n) a = (crc_shift ^^ n) b"
  then have "(crc_shift ^^ n) (a XOR b) = 0" by (simp add: crc_shifts_xor)
  then have "a XOR b = 0" by (induction n) (auto dest: crc_shift_eq_0)
  then have "a XOR b = b XOR b" by simp
  then show "a = b" by (simp only: xor_right_cancel)
qed


section \<open>The loop computes the bit-serial checksum\<close>

lemma low_byte_mask: "(0xFF :: u32) = mask 8"
  by (simp add: mask_eq_exp_minus_1)

lemma low_byte_bound: "unat (x AND 0xFF :: u32) < 256"
proof -
  have "x AND 0xFF \<le> (0xFF :: u32)" by (rule word_and_le1)
  then show ?thesis by (simp add: word_le_nat_alt)
qed

lemma crc32c_round_serial: "crc32c_round c d = (crc_shift ^^ 8) (c XOR ucast d)"
proof -
  let ?x = "c XOR ucast d :: u32"
  have split: "?x = (?x AND 0xFF) XOR (?x AND NOT 0xFF)"
    by (rule bit_word_eqI) (auto simp: bit_simps)
  have "(crc_shift ^^ 8) (?x AND NOT 0xFF) = drop_bit 8 (?x AND NOT 0xFF)"
    unfolding low_byte_mask by (rule crc_shifts_zeroes) (auto simp: bit_simps)
  also have "\<dots> = drop_bit 8 c"
    unfolding low_byte_mask
    by (rule bit_word_eqI) (auto simp: bit_simps dest: bit_imp_le_length)
  finally have hi: "(crc_shift ^^ 8) (?x AND NOT 0xFF) = drop_bit 8 c" .
  have lo: "(crc_shift ^^ 8) (?x AND 0xFF) = crc32c_table ! unat (?x AND 0xFF)"
    by (simp add: crc32c_table_nth low_byte_bound)
  have "(crc_shift ^^ 8) ?x
        = (crc_shift ^^ 8) (?x AND 0xFF) XOR (crc_shift ^^ 8) (?x AND NOT 0xFF)"
    by (subst split) (simp only: crc_shifts_xor)
  then show ?thesis by (simp only: hi lo crc32c_round_def)
qed

lemma crc32c_serial: "crc32c c ds = crc_serial c ds"
  by (induction ds arbitrary: c) (simp_all add: crc_serial_def crc32c_round_serial)

lemma crc32c_append: "crc32c c (xs @ ys) = crc32c (crc32c c xs) ys"
  by (induction xs arbitrary: c) simp_all

text \<open>
  On at most four bytes the checksum is a shift of the accumulator added to the
  bytes read as one little-endian word; over any bytes it is injective in the
  accumulator.
\<close>

lemma crc_shift_push: "length bs \<le> 3 \<Longrightarrow> (crc_shift ^^ 8) (push_bit 8 (le_word bs)) = le_word bs"
proof -
  assume len: "length bs \<le> 3"
  have "(crc_shift ^^ 8) (push_bit 8 (le_word bs :: u32)) = drop_bit 8 (push_bit 8 (le_word bs))"
    by (rule crc_shifts_zeroes) (simp add: bit_simps)
  also have "\<dots> = le_word bs"
  proof (rule bit_word_eqI)
    fix i
    show "bit (drop_bit 8 (push_bit 8 (le_word bs)) :: u32) i = bit (le_word bs :: u32) i"
      using le_word_high_bits [of bs i, where 'a = 32] len
      by (cases "i < 24") (auto simp: bit_simps dest: bit_imp_le_length)
  qed
  finally show ?thesis .
qed

lemma crc32c_short: "length bs \<le> 4 \<Longrightarrow> crc32c c bs = (crc_shift ^^ (8 * length bs)) (c XOR le_word bs)"
proof (induction bs arbitrary: c)
  case Nil
  show ?case by simp
next
  case (Cons b bs)
  let ?y = "(crc_shift ^^ 8) (c XOR ucast b)"
  have len: "8 * length (b # bs) = 8 * length bs + 8" by simp
  have disj: "ucast b OR push_bit 8 (le_word bs) = (ucast b XOR push_bit 8 (le_word bs) :: u32)"
    by (rule bit_word_eqI) (auto simp: bit_simps dest: bit_imp_le_length)
  have "crc32c c (b # bs) = (crc_shift ^^ (8 * length bs)) (?y XOR le_word bs)"
    using Cons by (simp add: crc32c_round_serial)
  also have "?y XOR le_word bs = (crc_shift ^^ 8) (c XOR le_word (b # bs))"
  proof -
    have "(crc_shift ^^ 8) (c XOR le_word (b # bs))
          = (crc_shift ^^ 8) ((c XOR ucast b) XOR push_bit 8 (le_word bs))"
      by (simp add: disj xor.assoc)
    also have "\<dots> = ?y XOR (crc_shift ^^ 8) (push_bit 8 (le_word bs))"
      by (rule crc_shifts_xor)
    finally show ?thesis using Cons.prems by (simp add: crc_shift_push)
  qed
  also have "(crc_shift ^^ (8 * length bs)) ((crc_shift ^^ 8) (c XOR le_word (b # bs)))
             = (crc_shift ^^ (8 * length bs + 8)) (c XOR le_word (b # bs))"
    by (simp only: funpow_add comp_apply)
  finally show ?case by (simp only: len)
qed

lemma crc32c_inj_acc: "crc32c a ds = crc32c b ds \<Longrightarrow> a = b"
proof (induction ds arbitrary: a b)
  case Nil
  then show ?case by simp
next
  case (Cons d ds)
  then have "(crc_shift ^^ 8) (a XOR ucast d) = (crc_shift ^^ 8) (b XOR ucast d)"
    by (auto simp: crc32c_round_serial)
  then have "a XOR ucast d = b XOR ucast d" by (rule crc_shifts_inj)
  then show ?case by (simp only: xor_right_cancel)
qed

lemma le_word_inj:
  "length xs = length ys \<Longrightarrow> 8 * length ys \<le> LENGTH('a)
   \<Longrightarrow> le_word xs = (le_word ys :: 'a::len word) \<Longrightarrow> xs = ys"
  by (metis le_bytes_le_word)


lemma crc_shifts_ones: "(crc_shift ^^ 32) (NOT 0) = BLUESKY_CRC32C_VALIDATOR"
proof -
  have s1: "(crc_shift ^^ 8) 0xFFFFFFFF = 0xAD82ACAE"
    by (simp only: crc_shift_8) (simp add: crc_shift8_def crc_shift_numeral)
  have s2: "(crc_shift ^^ 8) 0xAD82ACAE = 0xE9E882D"
    by (simp only: crc_shift_8) (simp add: crc_shift8_def crc_shift_numeral)
  have s3: "(crc_shift ^^ 8) 0xE9E882D = 0x9F9B5C85"
    by (simp only: crc_shift_8) (simp add: crc_shift8_def crc_shift_numeral)
  have s4: "(crc_shift ^^ 8) 0x9F9B5C85 = 0xB798B438"
    by (simp only: crc_shift_8) (simp add: crc_shift8_def crc_shift_numeral)
  have "(crc_shift ^^ (8 + (8 + (8 + 8)))) 0xFFFFFFFF = 0xB798B438"
    by (simp only: funpow_add comp_apply s1 s2 s3 s4)
  moreover have "(NOT 0 :: u32) = 0xFFFFFFFF" by simp
  ultimately show ?thesis by (simp only: BLUESKY_CRC32C_VALIDATOR_def) simp
qed


lemma crc32c_residue_validator:
  "crc32c BLUESKY_CRC32C_SEED
     (ds @ le32 (crc32c_finalize (crc32c BLUESKY_CRC32C_SEED ds))) = BLUESKY_CRC32C_VALIDATOR"
proof -
  let ?c = "crc32c BLUESKY_CRC32C_SEED ds"
  have "crc32c ?c (le32 (crc32c_finalize ?c)) = (crc_shift ^^ 32) (?c XOR NOT ?c)"
    by (simp only: crc32c_short length_le_bytes le32_roundtrip crc32c_finalize_def) simp
  also have "?c XOR NOT ?c = NOT 0" by (rule bit_word_eqI) (simp add: bit_simps)
  also have "(crc_shift ^^ 32) (NOT 0) = BLUESKY_CRC32C_VALIDATOR"
    by (rule crc_shifts_ones)
  finally show ?thesis by (simp only: crc32c_append)
qed

lemma crc32c_burst:
  assumes "length xs = length ys" "length ys \<le> 4" "xs \<noteq> ys"
  shows "crc32c c (pre @ xs @ post) \<noteq> crc32c c (pre @ ys @ post)"
proof
  let ?a = "crc32c c pre"
  assume "crc32c c (pre @ xs @ post) = crc32c c (pre @ ys @ post)"
  then have "crc32c ?a xs = crc32c ?a ys"
    by (auto simp: crc32c_append dest: crc32c_inj_acc)
  then have "?a XOR le_word xs = ?a XOR le_word ys"
    using assms(1,2) by (auto simp: crc32c_short dest: crc_shifts_inj)
  then have "le_word xs = (le_word ys :: u32)" by (simp only: xor_left_cancel)
  with le_word_inj [OF assms(1), where 'a = 32] assms(2,3) show False by simp
qed

section \<open>Properties\<close>

text \<open>C1: The table-driven loop of crc32c computes, for every buffer and every
  starting accumulator, the bit-serial CRC of the generator polynomial
  0x1edc6f41 with reflected input and output that the source's comment names.\<close>

theorem crc32c_is_bit_serial: "crc32c c ds = crc_serial c ds"
  by (rule crc32c_serial)

text \<open>C2: A buffer followed by its finalized checksum, stored little-endian,
  has the fixed residue BLUESKY_CRC32C_VALIDATOR: what log_thread writes is
  what validate_journal_item accepts.\<close>

theorem crc32c_residue:
  "crc32c BLUESKY_CRC32C_SEED
     (ds @ le32 (crc32c_finalize (crc32c BLUESKY_CRC32C_SEED ds))) = BLUESKY_CRC32C_VALIDATOR"
  by (rule crc32c_residue_validator)

text \<open>C3: The checksum detects every change confined to at most four consecutive
  bytes: two buffers of the same length that differ only inside such a window
  never have the same checksum.\<close>

theorem crc32c_detects_burst:
  assumes "length xs = length ys" "length ys \<le> 4" "xs \<noteq> ys"
  shows "crc32c c (pre @ xs @ post) \<noteq> crc32c c (pre @ ys @ post)"
  using assms by (rule crc32c_burst)

theorem crc32c_detects_burst_witness:
  "crc32c 0 ([9] @ [1, 2, 3, 4] @ [7]) \<noteq> crc32c 0 ([9] @ [1, 2, 5, 4] @ [7])"
  by (rule crc32c_detects_burst) simp_all

end
