(* ===== verification/BlueSky_Record.thy ===== *)
theory BlueSky_Record
  imports BlueSky_Format BlueSky_Crc32c
begin

text \<open>
  Records of the local journal (\<^verbatim>\<open>bluesky/log.c\<close>): what the log thread writes for an
  item, and how replay validates and scans a journal file.  A record that was
  written validates; a record of which only a first part reached the disk, with
  zeros behind it, does not; so after a crash a scan sees exactly the records
  that are complete.
\<close>


section \<open>Writing and validating records\<close>

text \<open>An item as the log thread writes it: the item and its three serialized parts.\<close>

type_synonym log_entry = "cloudlog \<times> bytes \<times> bytes \<times> bytes"

definition journal_header :: "nat \<Rightarrow> log_entry \<Rightarrow> log_header" where
  "journal_header offset e = (case e of (item, d1, d2, d3) \<Rightarrow>
     \<lparr>lh_magic = HEADER_MAGIC, lh_type = word_of_int (cl_type item + 48), lh_offset = of_nat offset,
      lh_size1 = of_nat (length d1), lh_size2 = of_nat (length d2), lh_size3 = of_nat (length d3),
      lh_inum = cl_inum item, lh_id = cl_id item\<rparr>)"

definition journal_record :: "nat \<Rightarrow> log_entry \<Rightarrow> bytes" where
  "journal_record offset e = (case e of (item, d1, d2, d3) \<Rightarrow>
     let h = log_header_bytes (journal_header offset e);
         crc = crc32c BLUESKY_CRC32C_SEED h;
         crc = crc32c crc d1;
         crc = crc32c crc d2;
         crc = crc32c crc d3;
         crc = crc32c crc (le32 FOOTER_MAGIC)
     in h @ d1 @ d2 @ d3 @ le32 FOOTER_MAGIC @ le32 (crc32c_finalize crc))"

text \<open>
  The sum of the three sizes is computed in 32 bits.  The offset is a signed
  64-bit number, compared with the length after conversion to an unsigned one;
  a read before the start of the buffer is \<open>None\<close>.
\<close>

definition payload_size :: "log_header \<Rightarrow> nat" where
  "payload_size h = unat (lh_size1 h + lh_size2 h + lh_size3 h)"

definition validate_journal_item :: "bytes \<Rightarrow> int \<Rightarrow> bool option" where
  "validate_journal_item buf offset =
     (if (offset + int sizeof_log_header + int sizeof_log_footer) mod 2 ^ 64 > int (length buf) then Some False
      else if offset < 0 \<or> nat offset + sizeof_log_header + sizeof_log_footer > length buf then None
      else
        let off = nat offset; h = log_header_at buf off; size = payload_size h;
            footer = off + sizeof_log_header + size
        in
        if lh_magic h \<noteq> HEADER_MAGIC then Some False
        else if int (unat (lh_offset h)) \<noteq> offset then Some False
        else if footer + sizeof_log_footer > length buf then Some False
        else if le_word (slice footer 4 buf) \<noteq> FOOTER_MAGIC then Some False
        else Some (crc32c BLUESKY_CRC32C_SEED (slice off (sizeof_log_header + sizeof_log_footer + size) buf)
                   = BLUESKY_CRC32C_VALIDATOR))"

lemma validate_bounds:
  assumes "validate_journal_item buf offset = Some True"
  shows "0 \<le> offset"
    and "nat offset + sizeof_log_header + payload_size (log_header_at buf (nat offset)) + sizeof_log_footer \<le> length buf"
  using assms by (auto simp: validate_journal_item_def Let_def split: if_splits)

text \<open>\<^verbatim>\<open>bluesky_replay_scan_journal\<close>: the position in the last checkpoint record of a file.\<close>

definition checkpoint_update :: "bytes \<Rightarrow> nat \<Rightarrow> u32 \<times> u32 \<Rightarrow> u32 \<times> u32" where
  "checkpoint_update buf off p =
     (if uint (lh_type (log_header_at buf off)) - 48 = LOGTYPE_JOURNAL_CHECKPOINT
      then (le_word (slice (off + sizeof_log_header) 4 buf), le_word (slice (off + sizeof_log_header + 4) 4 buf))
      else p)"

function bluesky_replay_scan_journal :: "bytes \<Rightarrow> int \<Rightarrow> u32 \<times> u32 \<Rightarrow> (u32 \<times> u32) option" where
  "bluesky_replay_scan_journal buf offset p =
     (case validate_journal_item buf offset of
        None \<Rightarrow> None
      | Some False \<Rightarrow> Some p
      | Some True \<Rightarrow>
          bluesky_replay_scan_journal buf
            (offset + int (sizeof_log_header + payload_size (log_header_at buf (nat offset)) + sizeof_log_footer))
            (checkpoint_update buf (nat offset) p))"
  by pat_completeness auto
termination
proof (relation "measure (\<lambda>(buf, offset, p). nat (int (length buf) - offset))", goal_cases)
  case (2 buf offset p)
  then have "validate_journal_item buf offset = Some True" by simp
  from validate_bounds [OF this] show ?case by (auto simp: sizeof_defs)
qed simp

declare bluesky_replay_scan_journal.simps [simp del]


section \<open>Validation at a position\<close>

text \<open>Validation looks only at the bytes from the offset on.\<close>

definition valid_here :: "nat \<Rightarrow> bytes \<Rightarrow> bool" where
  "valid_here off rest \<longleftrightarrow>
     53 \<le> length rest \<and>
     (let h = log_header_at rest 0; n = payload_size h in
      lh_magic h = HEADER_MAGIC \<and> unat (lh_offset h) = off \<and> 53 + n \<le> length rest \<and>
      le_word (slice (45 + n) 4 rest) = FOOTER_MAGIC \<and>
      crc32c BLUESKY_CRC32C_SEED (take (53 + n) rest) = BLUESKY_CRC32C_VALIDATOR)"

lemma log_header_at_append: "log_header_at (pre @ rest) (length pre) = log_header_at rest 0"
  by (simp add: log_header_at_def)

lemma validate_at:
  assumes "length pre < 2 ^ 63"
  shows "validate_journal_item (pre @ rest) (int (length pre)) = Some (valid_here (length pre) rest)"
proof -
  let ?off = "length pre"
  have m: "(int ?off + int sizeof_log_header + int sizeof_log_footer) mod 2 ^ 64 = int ?off + 53"
    using assms by (simp add: sizeof_defs)
  have s: "slice (?off + i) n (pre @ rest) = slice i n rest" for i n by (rule slice_append_right)
  have "slice ?off n (pre @ rest) = take n rest" for n using s [of 0 n] by (simp add: slice_def)
  moreover have "uint (x :: u32) = int ?off \<longleftrightarrow> unat x = ?off" for x by (metis uint_nat of_nat_eq_iff)
  ultimately show ?thesis
    using s unfolding validate_journal_item_def m
    by (auto simp: sizeof_defs log_header_at_append Let_def add.assoc valid_here_def)
qed

definition entry_ok :: "log_entry \<Rightarrow> bool" where
  "entry_ok e = (case e of (item, d1, d2, d3) \<Rightarrow>
     length (cl_id item) = 16 \<and> length d1 + length d2 + length d3 < 2 ^ 32)"

definition entry_size :: "log_entry \<Rightarrow> nat" where
  "entry_size e = (case e of (item, d1, d2, d3) \<Rightarrow> length d1 + length d2 + length d3)"

text \<open>A record is its body followed by the checksum of the body.\<close>

definition record_body :: "nat \<Rightarrow> log_entry \<Rightarrow> bytes" where
  "record_body off e = (case e of (item, d1, d2, d3) \<Rightarrow>
     log_header_bytes (journal_header off e) @ d1 @ d2 @ d3 @ le32 FOOTER_MAGIC)"

lemma journal_record_body:
  "journal_record off e
   = record_body off e @ le32 (crc32c_finalize (crc32c BLUESKY_CRC32C_SEED (record_body off e)))"
  by (cases e) (simp add: journal_record_def record_body_def crc32c_append Let_def)

lemma journal_header_id: "entry_ok e \<Longrightarrow> length (lh_id (journal_header off e)) = 16"
  by (cases e) (simp add: entry_ok_def journal_header_def)

lemma length_record_body: "entry_ok e \<Longrightarrow> length (record_body off e) = 49 + entry_size e"
  using length_log_header [OF journal_header_id [of e off]]
  by (cases e) (simp add: record_body_def entry_size_def)

lemma length_journal_record: "entry_ok e \<Longrightarrow> length (journal_record off e) = 53 + entry_size e"
  by (simp add: journal_record_body length_record_body)

lemma payload_size_header: "entry_ok e \<Longrightarrow> payload_size (journal_header off e) = entry_size e"
proof -
  assume "entry_ok e"
  then obtain item d1 d2 d3 where e: "e = (item, d1, d2, d3)" "length d1 + length d2 + length d3 < 2 ^ 32"
    by (cases e) (auto simp: entry_ok_def)
  have "payload_size (journal_header off e) = unat (of_nat (length d1 + length d2 + length d3) :: u32)"
    by (simp add: payload_size_def journal_header_def e(1))
  also have "\<dots> = length d1 + length d2 + length d3" using e(2) by (intro unat_of_nat_small) simp
  finally show ?thesis by (simp add: entry_size_def e(1))
qed

lemma header_of_record:
  "entry_ok e \<Longrightarrow> log_header_at (journal_record off e @ post) 0 = journal_header off e"
  using log_header_roundtrip [OF journal_header_id, of e "[]" 0 off]
  by (cases e) (simp add: journal_record_def Let_def)

lemma record_footer:
  "entry_ok e \<Longrightarrow> slice (45 + entry_size e) 4 (journal_record off e @ post) = le32 FOOTER_MAGIC"
  using length_log_header [OF journal_header_id [of e off]]
  by (cases e) (simp add: journal_record_def entry_size_def Let_def layout_simps)

lemma record_valid_here:
  assumes "entry_ok e" "off < 2 ^ 32"
  shows "valid_here off (journal_record off e @ post)"
proof -
  have "crc32c BLUESKY_CRC32C_SEED (journal_record off e) = BLUESKY_CRC32C_VALIDATOR"
    by (simp only: journal_record_body crc32c_residue_validator)
  moreover have "unat (lh_offset (journal_header off e)) = off" "lh_magic (journal_header off e) = HEADER_MAGIC"
    using assms(2) by (cases e, simp add: journal_header_def unat_of_nat_small)+
  ultimately show ?thesis
    using record_footer [OF assms(1), of off post]
    by (simp add: valid_here_def header_of_record [OF assms(1)] payload_size_header [OF assms(1)]
        length_journal_record [OF assms(1)] Let_def)
qed


section \<open>Incomplete records\<close>

lemma slice_take: "i + n \<le> m \<Longrightarrow> slice i n (take m xs) = slice i n xs"
  by (simp add: slice_def drop_take min_def)

lemma log_header_at_cong:
  assumes "take 45 a = take 45 b"
  shows "log_header_at a 0 = log_header_at b 0"
proof -
  have "slice i n a = slice i n b" if "i + n \<le> 45" for i n
    using slice_take [OF that, of a] slice_take [OF that, of b] assms by simp
  moreover have "a ! 4 = b ! 4" using arg_cong [OF assms, of "\<lambda>xs. xs ! 4"] by simp
  ultimately show ?thesis by (simp add: log_header_at_def)
qed

lemma le32_read: "length bs = 4 \<Longrightarrow> le_word bs = (w :: u32) \<Longrightarrow> bs = le32 w"
  using le_bytes_le_word [of bs, where 'a = 32] by auto

lemma footer_magic_last: "le32 FOOTER_MAGIC ! 3 = 0x2e"
  by code_simp

lemma torn_record:
  assumes ok: "entry_ok e" and off: "off < 2 ^ 32" and k: "k \<le> length (journal_record off e)"
    and valid: "valid_here off (take k (journal_record off e) @ replicate m 0)"
  shows "take (length (journal_record off e)) (take k (journal_record off e) @ replicate m 0) = journal_record off e"
proof -
  let ?R = "journal_record off e" and ?B = "take k (journal_record off e) @ replicate m 0"
  let ?n = "payload_size (log_header_at ?B 0)" and ?crc = "crc32c_finalize (crc32c BLUESKY_CRC32C_SEED (record_body off e))"
  have v: "53 + ?n \<le> length ?B" "le_word (slice (45 + ?n) 4 ?B) = FOOTER_MAGIC"
    "crc32c BLUESKY_CRC32C_SEED (take (53 + ?n) ?B) = BLUESKY_CRC32C_VALIDATOR"
    using valid by (simp_all add: valid_here_def Let_def)
  have "slice (45 + ?n) 4 ?B = le32 FOOTER_MAGIC" by (rule le32_read [OF _ v(2)]) (use v(1) in simp)
  moreover have "slice (45 + ?n) 4 ?B ! 3 = ?B ! (45 + ?n + 3)" by (rule nth_slice) (use v(1) in simp_all)
  ultimately have "?B ! (45 + ?n + 3) = 0x2e" using footer_magic_last by simp
  then have big: "45 + ?n + 3 < k" using v(1) k by (auto simp: nth_append split: if_splits)
  then have "take 45 ?B = take 45 ?R" using k by (simp add: min_def)
  then have "log_header_at ?B 0 = log_header_at ?R 0" by (rule log_header_at_cong)
  also have "\<dots> = journal_header off e" using header_of_record [OF ok, of off "[]"] by simp
  finally have n: "?n = entry_size e" by (simp only: payload_size_header [OF ok])
  have len: "length (record_body off e) = 49 + ?n" "length ?R = 53 + ?n"
    using length_record_body [OF ok] length_journal_record [OF ok] n by simp_all
  define xs where "xs = drop (49 + ?n) (take (53 + ?n) ?B)"
  have "take (49 + ?n) (take (53 + ?n) ?B) = take (49 + ?n) ?R" using big k by (simp add: min_def)
  also have "\<dots> = record_body off e" using len(1) by (simp add: journal_record_body)
  finally have B: "take (53 + ?n) ?B = record_body off e @ xs @ []"
    using append_take_drop_id [of "49 + ?n" "take (53 + ?n) ?B"] by (simp add: xs_def)
  have lx: "length xs = 4" using v(1) by (simp add: xs_def)
  have "crc32c BLUESKY_CRC32C_SEED (record_body off e @ le32 ?crc @ []) = BLUESKY_CRC32C_VALIDATOR"
    using crc32c_residue_validator [of "record_body off e"] by simp
  with v(3) B have "crc32c BLUESKY_CRC32C_SEED (record_body off e @ xs @ [])
      = crc32c BLUESKY_CRC32C_SEED (record_body off e @ le32 ?crc @ [])" by simp
  then have xs: "xs = le32 ?crc" using crc32c_burst [of xs "le32 ?crc"] lx by (metis length_le_bytes order_refl)
  have "take (length ?R) ?B = record_body off e @ xs" using B by (simp only: len(2) append_Nil2)
  also have "\<dots> = ?R" by (simp only: xs journal_record_body)
  finally show ?thesis .
qed


section \<open>Scanning a file\<close>

text \<open>A file made of records, and what a scan does with each.\<close>

fun journal_segment :: "nat \<Rightarrow> log_entry list \<Rightarrow> bytes" where
  "journal_segment off [] = []"
| "journal_segment off (e # es) = journal_record off e @ journal_segment (off + length (journal_record off e)) es"

definition wf_entry :: "log_entry \<Rightarrow> bool" where
  "wf_entry e \<longleftrightarrow> entry_ok e \<and> (case e of (item, d1, d2, d3) \<Rightarrow>
     -48 \<le> cl_type item \<and> cl_type item < 208 \<and> (cl_type item = LOGTYPE_JOURNAL_CHECKPOINT \<longrightarrow> 8 \<le> length d1))"

definition note_checkpoint :: "u32 \<times> u32 \<Rightarrow> log_entry \<Rightarrow> u32 \<times> u32" where
  "note_checkpoint p e = (case e of (item, d1, d2, d3) \<Rightarrow>
     if cl_type item = LOGTYPE_JOURNAL_CHECKPOINT then (le_word (slice 0 4 d1), le_word (slice 4 4 d1)) else p)"

lemma checkpoint_of_record:
  assumes "wf_entry e"
  shows "checkpoint_update (pre @ journal_record off e @ post) (length pre) p = note_checkpoint p e"
proof -
  obtain item d1 d2 d3 where e: "e = (item, d1, d2, d3)" by (cases e)
  have ok: "entry_ok e" using assms by (simp add: wf_entry_def)
  have ty: "-48 \<le> cl_type item" "cl_type item < 208" "cl_type item = LOGTYPE_JOURNAL_CHECKPOINT \<Longrightarrow> 8 \<le> length d1"
    using assms by (simp_all add: wf_entry_def e)
  have h: "log_header_at (pre @ journal_record off e @ post) (length pre) = journal_header off e"
    by (simp only: log_header_at_append header_of_record [OF ok])
  have "uint (word_of_int k :: u8) = k" if "0 \<le> k" "k < 256" for k
    using that by (simp add: uint_word_of_int)
  from this [of "cl_type item + 48"] have t: "uint (lh_type (journal_header off e)) - 48 = cl_type item"
    using ty by (simp add: journal_header_def e del: of_int_add)
  have d: "slice (45 + i) 4 (journal_record off e @ post) = slice i 4 d1" if "i + 4 \<le> length d1" for i
    using that length_log_header [OF journal_header_id [OF ok, of off]]
    by (simp add: journal_record_def e Let_def layout_simps slice_append_left)
  have n: "note_checkpoint p e
      = (if cl_type item = LOGTYPE_JOURNAL_CHECKPOINT then (le_word (slice 0 4 d1), le_word (slice 4 4 d1)) else p)"
    by (simp add: note_checkpoint_def e)
  show ?thesis
  proof (cases "cl_type item = LOGTYPE_JOURNAL_CHECKPOINT")
    case True
    then have "slice (length pre + 45) 4 (pre @ journal_record off e @ post) = slice 0 4 d1"
      "slice (length pre + 49) 4 (pre @ journal_record off e @ post) = slice 4 4 d1"
      using d [of 0] d [of 4] ty(3) by (simp_all add: slice_append_right)
    with True show ?thesis
      by (simp add: checkpoint_update_def h t n sizeof_defs add.commute)
  next
    case False
    then show ?thesis by (simp add: checkpoint_update_def h t n)
  qed
qed

lemma journal_segment_snoc:
  "journal_segment off (es @ [e]) = journal_segment off es @ journal_record (off + length (journal_segment off es)) e"
  by (induction es arbitrary: off) (simp_all add: add.assoc)

lemma scan_segment:
  assumes "\<forall>e \<in> set es. wf_entry e" "length pre + length (journal_segment (length pre) es) \<le> 2 ^ 32"
    and "length (pre @ journal_segment (length pre) es @ post) < 2 ^ 63"
  shows "bluesky_replay_scan_journal (pre @ journal_segment (length pre) es @ post) (int (length pre)) p
       = bluesky_replay_scan_journal (pre @ journal_segment (length pre) es @ post)
           (int (length (pre @ journal_segment (length pre) es))) (foldl note_checkpoint p es)"
  using assms
proof (induction es arbitrary: pre p)
  case (Cons e es)
  let ?R = "journal_record (length pre) e"
  let ?rest = "journal_segment (length pre + length ?R) es @ post"
  have wf: "wf_entry e" "entry_ok e" using Cons.prems(1) by (simp_all add: wf_entry_def)
  have len: "length ?R = 53 + entry_size e" by (rule length_journal_record [OF wf(2)])
  have "validate_journal_item (pre @ ?R @ ?rest) (int (length pre)) = Some True"
    using record_valid_here [OF wf(2), of "length pre" ?rest] Cons.prems(2,3) len by (subst validate_at) simp_all
  moreover have "payload_size (log_header_at (pre @ ?R @ ?rest) (length pre)) = entry_size e"
    by (simp only: log_header_at_append header_of_record [OF wf(2)] payload_size_header [OF wf(2)])
  ultimately have "bluesky_replay_scan_journal (pre @ ?R @ ?rest) (int (length pre)) p
      = bluesky_replay_scan_journal ((pre @ ?R) @ ?rest) (int (length (pre @ ?R))) (note_checkpoint p e)"
    using checkpoint_of_record [OF wf(1), of pre "length pre" ?rest p] len
    by (subst bluesky_replay_scan_journal.simps) (simp add: sizeof_defs ac_simps)
  also have "\<dots> = bluesky_replay_scan_journal ((pre @ ?R) @ ?rest)
      (int (length ((pre @ ?R) @ journal_segment (length pre + length ?R) es))) (foldl note_checkpoint (note_checkpoint p e) es)"
    using Cons.IH [of "pre @ ?R" "note_checkpoint p e"] Cons.prems by simp
  finally show ?case by (simp add: ac_simps)
qed simp

lemma scan_stops:
  "length pre + length rest < 2 ^ 63 \<Longrightarrow> \<not> valid_here (length pre) rest \<Longrightarrow>
   bluesky_replay_scan_journal (pre @ rest) (int (length pre)) p = Some p"
  by (subst bluesky_replay_scan_journal.simps) (simp add: validate_at)

lemma scan_file:
  assumes "\<forall>e \<in> set es. wf_entry e" "length (journal_segment 0 es) \<le> 2 ^ 32"
    and "length (journal_segment 0 es) + length rest < 2 ^ 63" "\<not> valid_here (length (journal_segment 0 es)) rest"
  shows "bluesky_replay_scan_journal (journal_segment 0 es @ rest) 0 p = Some (foldl note_checkpoint p es)"
  using scan_segment [of es "[]" rest p] scan_stops [OF assms(3,4)] assms by simp

lemma zeros_invalid: "\<not> valid_here off (replicate m 0)"
proof
  assume "valid_here off (replicate m 0)"
  then have "lh_magic (log_header_at (replicate m 0) 0) = HEADER_MAGIC" "53 \<le> m"
    by (simp_all add: valid_here_def Let_def)
  then have "le_word (replicate 4 0) = HEADER_MAGIC" by (simp add: log_header_at_def slice_def)
  moreover have "le_word (replicate n 0) = (0 :: u32)" for n by (induction n) simp_all
  ultimately show False by (simp add: HEADER_MAGIC_def)
qed


section \<open>Properties\<close>

text \<open>C22: A record the log thread writes at the end of a journal file validates at
  its offset, whatever is behind it.\<close>

theorem journal_record_validates:
  assumes "entry_ok e" "length pre < 2 ^ 32" "length (pre @ journal_record (length pre) e @ post) < 2 ^ 63"
  shows "validate_journal_item (pre @ journal_record (length pre) e @ post) (int (length pre)) = Some True"
  using assms record_valid_here [OF assms(1,2)] by (subst validate_at) simp_all

theorem journal_record_validates_witness:
  "validate_journal_item ([1, 2, 3] @ journal_record (length ([1, 2, 3] :: bytes)) (new_cloudlog (replicate 16 1), [7], [], []) @ [0])
     (int (length ([1, 2, 3] :: bytes))) = Some True"
  by (rule journal_record_validates)
    (simp_all add: entry_ok_def length_journal_record entry_size_def new_cloudlog_def)

text \<open>C23: A torn write is detected: where only a first part of a record reached the
  disk and the rest of the file is zeros, the record does not validate, unless the
  missing bytes are zeros themselves and the record is there in full.\<close>

theorem torn_record_rejected:
  assumes "entry_ok e" "length pre < 2 ^ 32" "k \<le> length (journal_record (length pre) e)"
    and "length pre + k + m < 2 ^ 63"
    and "take (length (journal_record (length pre) e)) (take k (journal_record (length pre) e) @ replicate m 0)
         \<noteq> journal_record (length pre) e"
  shows "validate_journal_item (pre @ take k (journal_record (length pre) e) @ replicate m 0) (int (length pre)) = Some False"
  using torn_record [OF assms(1-3), of m] assms(3-5) by (subst validate_at) auto

theorem torn_record_rejected_witness:
  "validate_journal_item ([] @ take 40 (journal_record (length ([] :: bytes)) (new_cloudlog (replicate 16 1), [7], [], [])) @ replicate 100 0)
     (int (length ([] :: bytes))) = Some False"
proof (rule torn_record_rejected)
  let ?e = "(new_cloudlog (replicate 16 1), [7], [], []) :: log_entry"
  show ok: "entry_ok ?e" by (simp add: entry_ok_def new_cloudlog_def)
  have "(take (length (journal_record 0 ?e)) (take 40 (journal_record 0 ?e) @ replicate 100 0)) ! 45 \<noteq> journal_record 0 ?e ! 45"
    using length_log_header [OF journal_header_id [OF ok, of 0]]
    by (simp add: length_journal_record [OF ok] entry_size_def nth_append)
      (simp add: journal_record_def Let_def nth_append)
  then show "take (length (journal_record (length ([] :: bytes)) ?e)) (take 40 (journal_record (length ([] :: bytes)) ?e) @ replicate 100 0)
      \<noteq> journal_record (length ([] :: bytes)) ?e" by auto
qed (simp_all add: entry_ok_def length_journal_record entry_size_def new_cloudlog_def)

text \<open>C24: After a crash, with some records complete and the next one cut off at
  any point, the scan of the file sees exactly the complete records: it returns
  the position in the last checkpoint among them, or the given start if there is none.\<close>

theorem replay_scan_after_crash:
  assumes wf: "\<forall>e' \<in> set (es @ [e]). wf_entry e'"
    and small: "length (journal_segment 0 (es @ [e])) \<le> 2 ^ 32" "length (journal_segment 0 (es @ [e])) + m < 2 ^ 63"
    and R: "R = journal_record (length (journal_segment 0 es)) e" "k \<le> length R"
    and complete: "complete \<longleftrightarrow> take (length R) (take k R @ replicate m 0) = R"
  shows "bluesky_replay_scan_journal (journal_segment 0 es @ take k R @ replicate m 0) 0 p
       = Some (foldl note_checkpoint p (if complete then es @ [e] else es))"
proof -
  let ?pre = "journal_segment 0 es" and ?tail = "take k R @ replicate m 0"
  have ok: "entry_ok e" using wf by (simp add: wf_entry_def)
  have seg: "journal_segment 0 (es @ [e]) = ?pre @ R" by (simp add: journal_segment_snoc R(1))
  have lR: "length R = 53 + entry_size e" using length_journal_record [OF ok] R(1) by simp
  show ?thesis
  proof (cases complete)
    case True
    have "drop (length R) ?tail = replicate (m - (length R - k)) 0" using R(2) by simp
    with True complete have tail: "?tail = R @ replicate (m - (length R - k)) 0"
      using append_take_drop_id [of "length R" ?tail] by simp
    have "bluesky_replay_scan_journal (journal_segment 0 (es @ [e]) @ replicate (m - (length R - k)) 0) 0 p
        = Some (foldl note_checkpoint p (es @ [e]))"
      using small by (intro scan_file wf zeros_invalid) simp_all
    with tail seg True show ?thesis by simp
  next
    case False
    have "\<not> valid_here (length ?pre) ?tail"
      using torn_record [OF ok, of "length ?pre" k m] False complete R small(1) seg lR by auto
    then have "bluesky_replay_scan_journal (?pre @ ?tail) 0 p = Some (foldl note_checkpoint p es)"
      using small wf seg R(2) by (intro scan_file) simp_all
    with False show ?thesis by simp
  qed
qed

definition sample_checkpoint :: log_entry where
  "sample_checkpoint = ((new_cloudlog (replicate 16 1))\<lparr>cl_type := LOGTYPE_JOURNAL_CHECKPOINT\<rparr>, le32 3 @ le32 4, [], [])"

definition sample_entry :: log_entry where
  "sample_entry = (new_cloudlog (replicate 16 2), [7], [], [])"

theorem replay_scan_after_crash_witness:
  "bluesky_replay_scan_journal (journal_segment 0 [sample_checkpoint] @
       take 0 (journal_record (length (journal_segment 0 [sample_checkpoint])) sample_entry) @ replicate 100 0) 0 (0, 0)
   = Some (3, 4)"
proof -
  let ?R = "journal_record (length (journal_segment 0 [sample_checkpoint])) sample_entry"
  have wf: "wf_entry sample_checkpoint" "wf_entry sample_entry"
    by (simp_all add: wf_entry_def entry_ok_def sample_checkpoint_def sample_entry_def new_cloudlog_def
        LOGTYPE_JOURNAL_CHECKPOINT_def LOGTYPE_UNKNOWN_def)
  then have ok: "entry_ok sample_checkpoint" "entry_ok sample_entry" by (simp_all add: wf_entry_def)
  have len: "length (journal_record off sample_checkpoint) = 61" "length (journal_record off sample_entry) = 54" for off
    by (simp_all add: length_journal_record ok) (simp_all add: entry_size_def sample_checkpoint_def sample_entry_def)
  have "(replicate 54 0 :: bytes) \<noteq> ?R"
  proof
    assume a: "(replicate 54 0 :: bytes) = ?R"
    have "?R ! 0 = 0x0a"
      by (simp add: journal_record_def sample_entry_def Let_def log_header_bytes_def journal_header_def header_magic_bytes JOURNAL_MAGIC_def)
    then show False using a [symmetric] by simp
  qed
  then have c: "False \<longleftrightarrow> take (length ?R) (take 0 ?R @ replicate 100 0) = ?R" by (simp add: len)
  have "note_checkpoint (0, 0) sample_checkpoint = (3, 4)"
    by (simp add: note_checkpoint_def sample_checkpoint_def slice_def)
  then show ?thesis
    using replay_scan_after_crash [of "[sample_checkpoint]" sample_entry 100 ?R 0 False "(0, 0)"] wf c
    by (simp add: len)
qed

end
