(* ===== verification/BlueSky_Crypto.thy ===== *)
theory BlueSky_Crypto
  imports BlueSky_Format BlueSky_Rangeset
begin

text \<open>
  Encryption and authentication of cloud log items (\<^verbatim>\<open>bluesky/crypto.c\<close>) and the
  passes over whole segments (\<^verbatim>\<open>bluesky/cloudlog.c\<close>).  The algorithms are those of
  libgcrypt and GLib, a record \<open>gcrypt\<close> that is an argument of the definitions;
  \<open>gcrypt_ok\<close> is what is relied upon: the sizes of the results, and that decryption
  in counter mode undoes encryption under the same key and counter.  Errors that
  libgcrypt reports for a cipher it does not support are not modelled.
\<close>


section \<open>Keys and blocks\<close>

definition CRYPTO_BLOCK_SIZE :: nat where "CRYPTO_BLOCK_SIZE = 16"
definition CRYPTO_KEY_SIZE :: nat where "CRYPTO_KEY_SIZE = 16"
definition CRYPTO_HASH_SIZE :: nat where "CRYPTO_HASH_SIZE = 32"

lemmas crypto_sizes = CRYPTO_BLOCK_SIZE_def CRYPTO_KEY_SIZE_def CRYPTO_HASH_SIZE_def

record gcrypt =
  sha256 :: "bytes \<Rightarrow> bytes"
  hmac_sha256 :: "bytes \<Rightarrow> bytes \<Rightarrow> bytes"
  aes_ctr_encrypt :: "bytes \<Rightarrow> bytes \<Rightarrow> bytes \<Rightarrow> bytes"
  aes_ctr_decrypt :: "bytes \<Rightarrow> bytes \<Rightarrow> bytes \<Rightarrow> bytes"

definition gcrypt_ok :: "gcrypt \<Rightarrow> bool" where
  "gcrypt_ok g \<longleftrightarrow>
     (\<forall>m. length (sha256 g m) = 32) \<and> (\<forall>k m. length (hmac_sha256 g k m) = 32) \<and>
     (\<forall>k iv d. length (aes_ctr_encrypt g k iv d) = length d) \<and>
     (\<forall>k iv d. aes_ctr_decrypt g k iv (aes_ctr_encrypt g k iv d) = d)"

record crypt_keys =
  encryption_key :: bytes
  authentication_key :: bytes

definition bluesky_crypt_hash_key :: "gcrypt \<Rightarrow> bytes \<Rightarrow> bytes" where
  "bluesky_crypt_hash_key g keystr = take CRYPTO_KEY_SIZE (sha256 g keystr)"

definition bluesky_crypt_hmac :: "gcrypt \<Rightarrow> bytes \<Rightarrow> bytes \<Rightarrow> bytes" where
  "bluesky_crypt_hmac g buf key = take CRYPTO_HASH_SIZE (hmac_sha256 g (take CRYPTO_HASH_SIZE key) buf)"

text \<open>The labels are "ENCRYPT" and "AUTH".\<close>

definition bluesky_crypt_derive_keys :: "gcrypt \<Rightarrow> bytes \<Rightarrow> crypt_keys" where
  "bluesky_crypt_derive_keys g master =
     \<lparr>encryption_key = take CRYPTO_KEY_SIZE (bluesky_crypt_hmac g [0x45, 0x4e, 0x43, 0x52, 0x59, 0x50, 0x54] master),
      authentication_key = bluesky_crypt_hmac g [0x41, 0x55, 0x54, 0x48] master\<rparr>"

definition bluesky_crypt_block_needs_encryption :: "u8 \<Rightarrow> bool" where
  "bluesky_crypt_block_needs_encryption type =
     (let type = uint (type - 48) in
      if type = LOGTYPE_DATA \<or> type = LOGTYPE_INODE then True
      else if type = LOGTYPE_INODE_MAP \<or> type = LOGTYPE_CHECKPOINT then False
      else True)"

text \<open>
  The range the authentication code covers: from the initialisation vector on,
  without the third part.  A range that reaches outside the block is \<open>None\<close>.
\<close>

definition hmac_range :: "bytes \<Rightarrow> bytes option" where
  "hmac_range block =
     (let h = cloudlog_header_at block 0 in
      if 36 + unat (ch_size3 h) > length block then None
      else Some (slice 36 (length block - 36 - unat (ch_size3 h)) block))"

text \<open>\<open>disable\<close> is the option \<^verbatim>\<open>disable_crypto\<close>, \<open>iv\<close> the random initialisation vector.\<close>

definition bluesky_crypt_block_encrypt :: "gcrypt \<Rightarrow> bool \<Rightarrow> bytes \<Rightarrow> crypt_keys \<Rightarrow> bytes \<Rightarrow> bytes option" where
  "bluesky_crypt_block_encrypt g disable iv keys block =
     (if disable then Some block
      else if length block < sizeof_cloudlog_header then None
      else
        let h = cloudlog_header_at block 0 in
        if ch_magic h \<noteq> CLOUDLOG_MAGIC then None
        else
          case (if bluesky_crypt_block_needs_encryption (ch_type h) then
                  let n = unat (ch_size1 h);
                      block = overwrite 3 [block ! 3 XOR 0x10] block;
                      block = overwrite 36 iv block
                  in if sizeof_cloudlog_header + n > length block then None
                     else Some (overwrite sizeof_cloudlog_header
                            (aes_ctr_encrypt g (encryption_key keys) iv (slice sizeof_cloudlog_header n block)) block)
                else Some (overwrite 36 (replicate CRYPTO_BLOCK_SIZE 0) block)) of
            None \<Rightarrow> None
          | Some block \<Rightarrow>
              (case hmac_range block of None \<Rightarrow> None
               | Some m \<Rightarrow> Some (overwrite 4 (bluesky_crypt_hmac g m (authentication_key keys)) block)))"

text \<open>The result of decryption: the block and whether it is accepted.\<close>

definition decrypt_payload :: "gcrypt \<Rightarrow> crypt_keys \<Rightarrow> bytes \<Rightarrow> bytes option" where
  "decrypt_payload g keys block =
     (let h = cloudlog_header_at block 0; n = unat (ch_size1 h) in
      if sizeof_cloudlog_header + n > length block then None
      else
        let block = overwrite sizeof_cloudlog_header
              (aes_ctr_decrypt g (encryption_key keys) (crypt_iv h) (slice sizeof_cloudlog_header n block)) block;
            block = overwrite 3 [block ! 3 XOR 0x10] block
        in Some (overwrite 36 (replicate CRYPTO_BLOCK_SIZE 0) block))"

definition bluesky_crypt_block_decrypt ::
    "gcrypt \<Rightarrow> bool \<Rightarrow> crypt_keys \<Rightarrow> bool \<Rightarrow> bytes \<Rightarrow> (bytes \<times> bool) option" where
  "bluesky_crypt_block_decrypt g disable keys allow_unauth block =
     (if length block < sizeof_cloudlog_header then None
      else
        let h = cloudlog_header_at block 0; encrypted = (ch_magic h \<noteq> CLOUDLOG_MAGIC) in
        if encrypted \<and> ch_magic h \<noteq> CLOUDLOG_MAGIC_ENCRYPTED then None
        else if disable then (if encrypted then None else Some (block, True))
        else
          case hmac_range block of None \<Rightarrow> None
          | Some m \<Rightarrow>
              if bluesky_crypt_hmac g m (authentication_key keys) \<noteq> crypt_auth h \<and>
                 \<not> (allow_unauth \<and> (uint (ch_type h) = LOGTYPE_INODE_MAP + 48 \<or> uint (ch_type h) = LOGTYPE_CHECKPOINT + 48))
              then Some (block, False)
              else if encrypted then map_option (\<lambda>b. (b, True)) (decrypt_payload g keys block)
              else Some (block, True))"


section \<open>Segments\<close>

text \<open>The size of the item at the start of a segment.\<close>

definition item_size :: "bytes \<Rightarrow> nat" where
  "item_size data = (let h = cloudlog_header_at data 0 in
     sizeof_cloudlog_header + unat (ch_size1 h) + unat (ch_size2 h) + unat (ch_size3 h))"

text \<open>\<open>ivs\<close> are the random initialisation vectors, one for each item.\<close>

function bluesky_cloudlog_encrypt :: "gcrypt \<Rightarrow> bool \<Rightarrow> (nat \<Rightarrow> bytes) \<Rightarrow> crypt_keys \<Rightarrow> bytes \<Rightarrow> bytes option" where
  "bluesky_cloudlog_encrypt g disable ivs keys data =
     (if length data < sizeof_cloudlog_header then Some data
      else let n = item_size data in
        if n > length data then Some data
        else case bluesky_crypt_block_encrypt g disable (ivs 0) keys (take n data) of None \<Rightarrow> None
          | Some b \<Rightarrow> map_option ((@) b) (bluesky_cloudlog_encrypt g disable (\<lambda>i. ivs (Suc i)) keys (drop n data)))"
  by pat_completeness auto
termination
  by (relation "measure (\<lambda>(g, disable, ivs, keys, data). length data)")
    (auto simp: item_size_def sizeof_cloudlog_header_def Let_def)

text \<open>
  The loop of \<^verbatim>\<open>bluesky_cloudlog_decrypt\<close>; \<open>items\<close> may be null.  Both branches of the source add the item to
  \<open>items\<close>, so the result of the authentication is not used.
\<close>

function decrypt_loop ::
    "u64 gsearch \<Rightarrow> gcrypt \<Rightarrow> bool \<Rightarrow> crypt_keys \<Rightarrow> bool \<Rightarrow> bytes \<Rightarrow> u64 \<Rightarrow> bool rangeset_item list option
     \<Rightarrow> (bytes \<times> bool rangeset_item list option) option" where
  "decrypt_loop srch g disable keys allow_unauth data offset items =
     (if length data < sizeof_cloudlog_header then Some (data, items)
      else let n = item_size data in
        if n > length data then Some (data, items)
        else case bluesky_crypt_block_decrypt g disable keys allow_unauth (take n data) of None \<Rightarrow> None
          | Some (b, authentic) \<Rightarrow>
              map_option (\<lambda>(rest, items). (b @ rest, items))
                (decrypt_loop srch g disable keys allow_unauth (drop n data) (offset + of_nat n)
                  (if authentic then map_option (\<lambda>rs. fst (bluesky_rangeset_insert srch rs offset (of_nat n) True)) items
                   else map_option (\<lambda>rs. fst (bluesky_rangeset_insert srch rs offset (of_nat n) True)) items)))"
  by pat_completeness auto
termination
  by (relation "measure (\<lambda>(srch, g, disable, keys, a, data, offset, items). length data)")
    (auto simp: item_size_def sizeof_cloudlog_header_def Let_def)

definition bluesky_cloudlog_decrypt ::
    "u64 gsearch \<Rightarrow> gcrypt \<Rightarrow> bool \<Rightarrow> crypt_keys \<Rightarrow> bool \<Rightarrow> bytes \<Rightarrow> bool rangeset_item list option
     \<Rightarrow> (bytes \<times> bool rangeset_item list option) option" where
  "bluesky_cloudlog_decrypt srch g disable keys allow_unauth segment items =
     decrypt_loop srch g disable keys allow_unauth segment 0 items"

declare bluesky_cloudlog_encrypt.simps [simp del] decrypt_loop.simps [simp del]


section \<open>Blocks by their parts\<close>

type_synonym cloud_parts = "cloudlog_header \<times> bytes \<times> bytes \<times> bytes"

definition cloud_block :: "cloud_parts \<Rightarrow> bytes" where
  "cloud_block p = (case p of (h, d1, d2, d3) \<Rightarrow> cloudlog_header_bytes h @ d1 @ d2 @ d3)"

definition parts_ok :: "cloud_parts \<Rightarrow> bool" where
  "parts_ok p = (case p of (h, d1, d2, d3) \<Rightarrow>
     cloudlog_header_ok h \<and> unat (ch_size1 h) = length d1 \<and> unat (ch_size2 h) = length d2 \<and> unat (ch_size3 h) = length d3)"

text \<open>What is authenticated, and a block as it is stored.\<close>

definition auth_part :: "cloudlog_header \<Rightarrow> bytes \<Rightarrow> bytes \<Rightarrow> bytes" where
  "auth_part h d1 d2 = crypt_iv h @ [ch_type h] @ ch_id h @ le64 (ch_inum h) @ le32 (ch_size1 h) @ le32 (ch_size2 h) @
     le32 (ch_size3 h) @ d1 @ d2"

definition hide :: "gcrypt \<Rightarrow> bytes \<Rightarrow> crypt_keys \<Rightarrow> cloud_parts \<Rightarrow> cloud_parts" where
  "hide g iv keys p = (case p of (h, d1, d2, d3) \<Rightarrow>
     if bluesky_crypt_block_needs_encryption (ch_type h)
     then (h\<lparr>ch_magic := CLOUDLOG_MAGIC_ENCRYPTED, crypt_iv := iv\<rparr>, aes_ctr_encrypt g (encryption_key keys) iv d1, d2, d3)
     else (h\<lparr>crypt_iv := replicate 16 0\<rparr>, d1, d2, d3))"

definition stamp :: "gcrypt \<Rightarrow> crypt_keys \<Rightarrow> cloud_parts \<Rightarrow> cloud_parts" where
  "stamp g keys p = (case p of (h, d1, d2, d3) \<Rightarrow>
     (h\<lparr>crypt_auth := bluesky_crypt_hmac g (auth_part h d1 d2) (authentication_key keys)\<rparr>, d1, d2, d3))"

lemma overwrite_middle: "length x = length b \<Longrightarrow> overwrite (length a) x (a @ b @ c) = a @ x @ c"
  by (simp add: overwrite_def)

lemma block_header: "parts_ok (h, d1, d2, d3) \<Longrightarrow> cloudlog_header_at (cloud_block (h, d1, d2, d3) @ rest) 0 = h"
  using cloudlog_header_roundtrip [of h "[]" 0 "d1 @ d2 @ d3 @ rest"] by (simp add: cloud_block_def parts_ok_def)

lemma block_header_end: "parts_ok (h, d1, d2, d3) \<Longrightarrow> cloudlog_header_at (cloud_block (h, d1, d2, d3)) 0 = h"
  using block_header [of h d1 d2 d3 "[]"] by simp

lemma length_cloud_block:
  "parts_ok (h, d1, d2, d3) \<Longrightarrow> length (cloud_block (h, d1, d2, d3)) = 89 + length d1 + length d2 + length d3"
  by (simp add: cloud_block_def parts_ok_def length_cloudlog_header)

lemma header_split:
  "cloudlog_header_bytes h = ch_magic h @ crypt_auth h @ crypt_iv h @ drop 52 (cloudlog_header_bytes h)"
  if "cloudlog_header_ok h"
  using that by (simp add: cloudlog_header_bytes_def cloudlog_header_ok_def)

lemma header_tail:
  "cloudlog_header_ok h \<Longrightarrow> drop 52 (cloudlog_header_bytes h)
     = [ch_type h] @ ch_id h @ le64 (ch_inum h) @ le32 (ch_size1 h) @ le32 (ch_size2 h) @ le32 (ch_size3 h)"
  by (simp add: cloudlog_header_bytes_def cloudlog_header_ok_def)

lemma block_magic3:
  assumes "cloudlog_header_ok h" "length m = 4" "take 3 m = take 3 (ch_magic h)"
  shows "overwrite 3 [m ! 3] (cloudlog_header_bytes h @ rest) = cloudlog_header_bytes (h\<lparr>ch_magic := m\<rparr>) @ rest"
proof -
  have l: "length (ch_magic h) = 4" using assms(1) by (simp add: cloudlog_header_ok_def)
  have "ch_magic h = take 3 (ch_magic h) @ [ch_magic h ! 3]" "m = take 3 m @ [m ! 3]"
    using l assms(2) by (simp_all add: take_Suc_conv_app_nth [symmetric])
  with assms(3) have e: "cloudlog_header_bytes h @ rest = take 3 (ch_magic h) @ [ch_magic h ! 3] @ drop 4 (cloudlog_header_bytes h) @ rest"
    "cloudlog_header_bytes (h\<lparr>ch_magic := m\<rparr>) @ rest = take 3 (ch_magic h) @ [m ! 3] @ drop 4 (cloudlog_header_bytes h) @ rest"
    using l by (simp_all add: cloudlog_header_bytes_def)
  have "length (take 3 (ch_magic h)) = 3" using l by simp
  then show ?thesis unfolding e using overwrite_middle [of "[m ! 3]" "[ch_magic h ! 3]" "take 3 (ch_magic h)"] by simp
qed

lemma block_iv:
  assumes "cloudlog_header_ok h" "length iv = 16"
  shows "overwrite 36 iv (cloudlog_header_bytes h @ rest) = cloudlog_header_bytes (h\<lparr>crypt_iv := iv\<rparr>) @ rest"
  using assms overwrite_middle [of iv "crypt_iv h" "ch_magic h @ crypt_auth h"]
  by (simp add: cloudlog_header_bytes_def cloudlog_header_ok_def)

lemma block_auth:
  assumes "cloudlog_header_ok h" "length a = 32"
  shows "overwrite 4 a (cloudlog_header_bytes h @ rest) = cloudlog_header_bytes (h\<lparr>crypt_auth := a\<rparr>) @ rest"
  using assms overwrite_middle [of a "crypt_auth h" "ch_magic h"]
  by (simp add: cloudlog_header_bytes_def cloudlog_header_ok_def)

lemma block_data:
  assumes "cloudlog_header_ok h" "length x = length d1"
  shows "overwrite 89 x (cloudlog_header_bytes h @ d1 @ rest) = cloudlog_header_bytes h @ x @ rest"
  using assms overwrite_middle [of x d1 "cloudlog_header_bytes h" rest] by (simp add: length_cloudlog_header)

lemma hmac_range_block:
  assumes "parts_ok (h, d1, d2, d3)"
  shows "hmac_range (cloud_block (h, d1, d2, d3)) = Some (auth_part h d1 d2)"
proof -
  have h: "cloudlog_header_ok h" using assms by (simp add: parts_ok_def)
  have "cloud_block (h, d1, d2, d3) = (ch_magic h @ crypt_auth h) @ auth_part h d1 d2 @ d3"
    by (simp add: cloud_block_def cloudlog_header_bytes_def auth_part_def)
  moreover have "length (auth_part h d1 d2) = 53 + length d1 + length d2" "length (ch_magic h @ crypt_auth h) = 36"
    using h by (simp_all add: auth_part_def cloudlog_header_ok_def)
  ultimately show ?thesis
    using assms block_header_end [OF assms] length_cloud_block [OF assms]
    by (simp add: hmac_range_def Let_def parts_ok_def slice_def)
qed


section \<open>Encryption round trips\<close>

lemma gcrypt_okD:
  assumes "gcrypt_ok g"
  shows "length (bluesky_crypt_hmac g m k) = 32" "length (aes_ctr_encrypt g k iv d) = length d"
    "aes_ctr_decrypt g k iv (aes_ctr_encrypt g k iv d) = d"
  using assms by (simp_all add: gcrypt_ok_def bluesky_crypt_hmac_def CRYPTO_HASH_SIZE_def)

lemma magic_flip:
  "CLOUDLOG_MAGIC ! 3 XOR 0x10 = CLOUDLOG_MAGIC_ENCRYPTED ! 3" "CLOUDLOG_MAGIC_ENCRYPTED ! 3 XOR 0x10 = CLOUDLOG_MAGIC ! 3"
  "take 3 CLOUDLOG_MAGIC = take 3 CLOUDLOG_MAGIC_ENCRYPTED" "length CLOUDLOG_MAGIC = 4" "length CLOUDLOG_MAGIC_ENCRYPTED = 4"
  by (simp_all add: CLOUDLOG_MAGIC_def CLOUDLOG_MAGIC_ENCRYPTED_def numeral_eq_Suc)

lemma block_byte3: "cloudlog_header_ok h \<Longrightarrow> (cloudlog_header_bytes h @ rest) ! 3 = ch_magic h ! 3"
  by (simp add: cloudlog_header_bytes_def cloudlog_header_ok_def nth_append)

lemma hide_ok:
  "gcrypt_ok g \<Longrightarrow> parts_ok p \<Longrightarrow> length iv = 16 \<Longrightarrow> parts_ok (hide g iv keys p)"
  by (cases p) (simp add: hide_def parts_ok_def cloudlog_header_ok_def magic_flip gcrypt_okD)

lemma stamp_ok: "gcrypt_ok g \<Longrightarrow> parts_ok p \<Longrightarrow> parts_ok (stamp g keys p)"
  by (cases p) (simp add: stamp_def parts_ok_def cloudlog_header_ok_def gcrypt_okD)

lemma hide_parts: "\<exists>h' x. hide g iv keys (h, d1, d2, d3) = (h', x, d2, d3)"
  by (simp add: hide_def)

lemma encrypt_block:
  assumes g: "gcrypt_ok g" and ok: "parts_ok (h, d1, d2, d3)" "ch_magic h = CLOUDLOG_MAGIC" "length iv = 16"
  shows "bluesky_crypt_block_encrypt g False iv keys (cloud_block (h, d1, d2, d3))
       = Some (cloud_block (stamp g keys (hide g iv keys (h, d1, d2, d3))))"
proof -
  let ?p = "(h, d1, d2, d3)" and ?n = "bluesky_crypt_block_needs_encryption (ch_type h)"
  let ?B = "cloudlog_header_bytes h @ d1 @ d2 @ d3"
  have h: "cloudlog_header_ok h" "unat (ch_size1 h) = length d1" using ok(1) by (simp_all add: parts_ok_def)
  obtain h' x where hd: "hide g iv keys ?p = (h', x, d2, d3)" using hide_parts by blast
  note hok = hide_ok [OF g ok(1,3), of keys, unfolded hd]
  have "(if ?n then
           let n = unat (ch_size1 h); block = overwrite 3 [?B ! 3 XOR 0x10] ?B; block = overwrite 36 iv block
           in if sizeof_cloudlog_header + n > length block then None
              else Some (overwrite sizeof_cloudlog_header
                     (aes_ctr_encrypt g (encryption_key keys) iv (slice sizeof_cloudlog_header n block)) block)
         else Some (overwrite 36 (replicate CRYPTO_BLOCK_SIZE 0) ?B)) = Some (cloud_block (h', x, d2, d3))"
  proof (cases ?n)
    case True
    let ?h1 = "h\<lparr>ch_magic := CLOUDLOG_MAGIC_ENCRYPTED\<rparr>" and ?h2 = "h\<lparr>ch_magic := CLOUDLOG_MAGIC_ENCRYPTED, crypt_iv := iv\<rparr>"
    have h12: "cloudlog_header_ok ?h1" "cloudlog_header_ok ?h2"
      using h ok(3) by (simp_all add: cloudlog_header_ok_def magic_flip)
    have b1: "overwrite 3 [?B ! 3 XOR 0x10] ?B = cloudlog_header_bytes ?h1 @ d1 @ d2 @ d3"
      using block_magic3 [OF h(1), of CLOUDLOG_MAGIC_ENCRYPTED "d1 @ d2 @ d3"] ok(2)
      by (simp add: block_byte3 [OF h(1)] magic_flip)
    have b2: "overwrite 36 iv (cloudlog_header_bytes ?h1 @ d1 @ d2 @ d3) = cloudlog_header_bytes ?h2 @ d1 @ d2 @ d3"
      using block_iv [OF h12(1) ok(3)] by simp
    have s: "slice 89 (length d1) (cloudlog_header_bytes ?h2 @ d1 @ d2 @ d3) = d1"
      using length_cloudlog_header [OF h12(2)] by (simp add: slice_def)
    have b3: "overwrite 89 (aes_ctr_encrypt g (encryption_key keys) iv d1) (cloudlog_header_bytes ?h2 @ d1 @ d2 @ d3)
        = cloudlog_header_bytes ?h2 @ aes_ctr_encrypt g (encryption_key keys) iv d1 @ d2 @ d3"
      by (rule block_data [OF h12(2)]) (simp add: gcrypt_okD [OF g])
    from True hd show ?thesis
      by (simp add: b1 b2 s b3 h(2) Let_def sizeof_cloudlog_header_def length_cloudlog_header [OF h12(2)])
        (auto simp: hide_def cloud_block_def)
  next
    case False
    with hd show ?thesis
      using block_iv [OF h(1), of "replicate 16 0" "d1 @ d2 @ d3"]
      by (auto simp: hide_def cloud_block_def CRYPTO_BLOCK_SIZE_def)
  qed
  moreover have "overwrite 4 (bluesky_crypt_hmac g (auth_part h' x d2) (authentication_key keys)) (cloud_block (h', x, d2, d3))
      = cloud_block (stamp g keys (h', x, d2, d3))"
    using hok block_auth [of h' "bluesky_crypt_hmac g (auth_part h' x d2) (authentication_key keys)" "x @ d2 @ d3"]
    by (simp add: cloud_block_def stamp_def parts_ok_def gcrypt_okD [OF g])
  ultimately show ?thesis
    using block_header_end [OF ok(1)] length_cloud_block [OF ok(1)] ok(2) hmac_range_block [OF hok] hd
    by (simp add: bluesky_crypt_block_encrypt_def cloud_block_def [of "(h, d1, d2, d3)"] sizeof_cloudlog_header_def Let_def)
qed

text \<open>A block after decryption: only the vector and the authentication code differ from the original.\<close>

definition unlocked :: "cloud_parts \<Rightarrow> cloud_parts \<Rightarrow> bool" where
  "unlocked p q \<longleftrightarrow> (case (p, q) of ((h, d1, d2, d3), (h', d1', d2', d3')) \<Rightarrow>
     (\<exists>iv a. h' = h\<lparr>crypt_iv := iv, crypt_auth := a\<rparr>) \<and> d1' = d1 \<and> d2' = d2 \<and> d3' = d3)"

lemma decrypt_block:
  assumes g: "gcrypt_ok g" and ok: "parts_ok (h, d1, d2, d3)" "ch_magic h = CLOUDLOG_MAGIC" "length iv = 16"
  shows "\<exists>q. bluesky_crypt_block_decrypt g False keys au (cloud_block (stamp g keys (hide g iv keys (h, d1, d2, d3))))
             = Some (cloud_block q, True) \<and> unlocked (h, d1, d2, d3) q \<and> parts_ok q \<and> length (cloud_block q) = length (cloud_block (h, d1, d2, d3))"
proof -
  let ?p = "(h, d1, d2, d3)"
  obtain h' x where hd: "hide g iv keys ?p = (h', x, d2, d3)" using hide_parts by blast
  note hok = hide_ok [OF g ok(1,3), of keys, unfolded hd]
  define a where "a = bluesky_crypt_hmac g (auth_part h' x d2) (authentication_key keys)"
  let ?h = "h'\<lparr>crypt_auth := a\<rparr>"
  have st: "stamp g keys (hide g iv keys ?p) = (?h, x, d2, d3)" by (simp add: hd stamp_def a_def)
  have sok: "parts_ok (?h, x, d2, d3)" using stamp_ok [OF g hok, of keys] by (simp add: stamp_def a_def)
  have auth: "auth_part ?h x d2 = auth_part h' x d2" by (simp add: auth_part_def)
  show ?thesis
  proof (cases "bluesky_crypt_block_needs_encryption (ch_type h)")
    case True
    then have h': "h' = h\<lparr>ch_magic := CLOUDLOG_MAGIC_ENCRYPTED, crypt_iv := iv\<rparr>" "x = aes_ctr_encrypt g (encryption_key keys) iv d1"
      using hd by (simp_all add: hide_def)
    let ?h2 = "h\<lparr>crypt_iv := iv, crypt_auth := a\<rparr>" and ?h3 = "h\<lparr>crypt_auth := a, crypt_iv := replicate 16 0\<rparr>"
    have hoks: "cloudlog_header_ok ?h" "cloudlog_header_ok ?h2" "cloudlog_header_ok ?h3"
      using sok ok by (simp_all add: parts_ok_def cloudlog_header_ok_def)
    have lens: "unat (ch_size1 h) = length d1" "length x = length d1"
      using ok(1) h'(2) by (simp_all add: parts_ok_def gcrypt_okD [OF g])
    have s: "slice 89 (length d1) (cloudlog_header_bytes ?h @ x @ d2 @ d3) = x"
      using length_cloudlog_header [OF hoks(1)] lens(2) by (simp add: slice_def)
    have b1: "overwrite 89 d1 (cloudlog_header_bytes ?h @ x @ d2 @ d3) = cloudlog_header_bytes ?h @ d1 @ d2 @ d3"
      by (rule block_data [OF hoks(1)]) (simp add: lens)
    have b2: "overwrite 3 [(cloudlog_header_bytes ?h @ d1 @ d2 @ d3) ! 3 XOR 0x10] (cloudlog_header_bytes ?h @ d1 @ d2 @ d3)
        = cloudlog_header_bytes ?h2 @ d1 @ d2 @ d3"
    proof -
      have "?h\<lparr>ch_magic := CLOUDLOG_MAGIC\<rparr> = ?h2" using ok(2) h'(1) by (cases h) simp
      moreover have "(cloudlog_header_bytes ?h @ d1 @ d2 @ d3) ! 3 XOR 0x10 = CLOUDLOG_MAGIC ! 3"
        by (simp only: block_byte3 [OF hoks(1)]) (simp add: h'(1) magic_flip)
      moreover have "take 3 CLOUDLOG_MAGIC = take 3 (ch_magic ?h)" by (simp add: h'(1) magic_flip)
      ultimately show ?thesis
        using block_magic3 [OF hoks(1) magic_flip(4), of "d1 @ d2 @ d3"] by (simp only:)
    qed
    have b3: "overwrite 36 (replicate 16 0) (cloudlog_header_bytes ?h2 @ d1 @ d2 @ d3) = cloudlog_header_bytes ?h3 @ d1 @ d2 @ d3"
      using block_iv [OF hoks(2), of "replicate 16 0" "d1 @ d2 @ d3"] by simp
    have dp: "decrypt_payload g keys (cloud_block (?h, x, d2, d3)) = Some (cloud_block (?h3, d1, d2, d3))"
      using block_header_end [OF sok] lens length_cloudlog_header [OF hoks(1)] s b1 b2 b3 h'
      by (simp add: decrypt_payload_def Let_def cloud_block_def sizeof_cloudlog_header_def gcrypt_okD [OF g] CRYPTO_BLOCK_SIZE_def)
    have "bluesky_crypt_block_decrypt g False keys au (cloud_block (?h, x, d2, d3)) = Some (cloud_block (?h3, d1, d2, d3), True)"
      using block_header_end [OF sok] length_cloud_block [OF sok] hmac_range_block [OF sok] auth dp h'(1) magics_differ a_def
      by (simp add: bluesky_crypt_block_decrypt_def Let_def sizeof_cloudlog_header_def)
    moreover have "parts_ok (?h3, d1, d2, d3)" using ok(1) hoks(3) by (simp add: parts_ok_def)
    moreover have "?h3 = h\<lparr>crypt_iv := replicate 16 0, crypt_auth := a\<rparr>" by simp
    then have "unlocked ?p (?h3, d1, d2, d3)" unfolding unlocked_def by (simp only: prod.case) blast
    ultimately show ?thesis using st length_cloud_block [OF ok(1)] length_cloud_block [of ?h3 d1 d2 d3] by force
  next
    case False
    then have h': "h' = h\<lparr>crypt_iv := replicate 16 0\<rparr>" "x = d1" using hd by (simp_all add: hide_def)
    then have "ch_magic ?h = CLOUDLOG_MAGIC" using ok(2) by simp
    then have "bluesky_crypt_block_decrypt g False keys au (cloud_block (?h, x, d2, d3)) = Some (cloud_block (?h, x, d2, d3), True)"
      using block_header_end [OF sok] length_cloud_block [OF sok] hmac_range_block [OF sok] auth a_def
      by (simp add: bluesky_crypt_block_decrypt_def Let_def sizeof_cloudlog_header_def)
    moreover have "unlocked ?p (?h, x, d2, d3)" using h' by (auto simp: unlocked_def)
    ultimately show ?thesis using st sok h'(2) length_cloud_block [OF ok(1)] length_cloud_block [OF sok] by force
  qed
qed


section \<open>Whole segments\<close>

definition segment_ok :: "cloud_parts list \<Rightarrow> bool" where
  "segment_ok ps \<longleftrightarrow> (\<forall>p \<in> set ps. parts_ok p \<and> ch_magic (fst p) = CLOUDLOG_MAGIC)"

definition segment_bytes :: "cloud_parts list \<Rightarrow> bytes" where
  "segment_bytes ps = concat (map cloud_block ps)"

fun segment_items :: "nat \<Rightarrow> cloud_parts list \<Rightarrow> bool rangeset_item list" where
  "segment_items off [] = []"
| "segment_items off (p # ps) =
     \<lparr>rs_start = of_nat off, rs_length = of_nat (length (cloud_block p)), rs_data = True\<rparr>
       # segment_items (off + length (cloud_block p)) ps"

lemma item_size_block: "parts_ok p \<Longrightarrow> item_size (cloud_block p @ rest) = length (cloud_block p)"
  by (cases p) (simp add: item_size_def Let_def block_header length_cloud_block sizeof_cloudlog_header_def parts_ok_def)

lemma block_long: "parts_ok p \<Longrightarrow> sizeof_cloudlog_header \<le> length (cloud_block p)"
  by (cases p) (simp add: length_cloud_block sizeof_cloudlog_header_def)

fun sealed :: "gcrypt \<Rightarrow> (nat \<Rightarrow> bytes) \<Rightarrow> crypt_keys \<Rightarrow> cloud_parts list \<Rightarrow> cloud_parts list" where
  "sealed g ivs keys [] = []"
| "sealed g ivs keys (p # ps) = stamp g keys (hide g (ivs 0) keys p) # sealed g (\<lambda>i. ivs (Suc i)) keys ps"

lemma encrypt_segment:
  assumes "gcrypt_ok g" "segment_ok ps" "\<And>i. length (ivs i) = 16" "length tail < sizeof_cloudlog_header"
  shows "bluesky_cloudlog_encrypt g False ivs keys (segment_bytes ps @ tail) = Some (segment_bytes (sealed g ivs keys ps) @ tail)"
  using assms(2,3)
proof (induction ps arbitrary: ivs)
  case Nil
  then show ?case using assms(4) by (subst bluesky_cloudlog_encrypt.simps) (simp add: segment_bytes_def)
next
  case (Cons p ps)
  then have p: "parts_ok p" "ch_magic (fst p) = CLOUDLOG_MAGIC" "segment_ok ps" by (simp_all add: segment_ok_def)
  have "bluesky_crypt_block_encrypt g False (ivs 0) keys (cloud_block p) = Some (cloud_block (stamp g keys (hide g (ivs 0) keys p)))"
    using encrypt_block [OF assms(1)] p(1,2) Cons.prems(2) by (cases p) simp
  moreover have "bluesky_cloudlog_encrypt g False (\<lambda>i. ivs (Suc i)) keys (segment_bytes ps @ tail)
      = Some (segment_bytes (sealed g (\<lambda>i. ivs (Suc i)) keys ps) @ tail)"
    by (rule Cons.IH [OF p(3)]) (rule Cons.prems(2))
  ultimately show ?case
    using item_size_block [OF p(1)] block_long [OF p(1)]
    by (subst bluesky_cloudlog_encrypt.simps) (simp add: segment_bytes_def Let_def)
qed

lemma insert_item_last:
  assumes g: "gsequence srch" and last: "\<And>it. it \<in> set rs \<Longrightarrow> rs_start it \<le> off" "sorted (map rs_start rs)"
  shows "fst (bluesky_rangeset_insert srch rs off n True) = rs @ [\<lparr>rs_start = off, rs_length = n, rs_data = True\<rparr>]"
  using gsequence.insert_sorted_snoc [OF g assms(3), of "\<lparr>rs_start = off, rs_length = n, rs_data = True\<rparr>"] assms(2)
  by (simp add: bluesky_rangeset_insert_def)

lemma decrypt_segment:
  assumes g: "gcrypt_ok g" "gsequence srch" and tail: "length tail < sizeof_cloudlog_header"
    and "segment_ok ps" "\<And>i. length (ivs i) = 16" "off + length (segment_bytes ps) < 2 ^ 64"
    and "\<And>it. it \<in> set rs \<Longrightarrow> rs_start it \<le> of_nat off" "sorted (map rs_start rs)"
  shows "\<exists>qs. decrypt_loop srch g False keys au (segment_bytes (sealed g ivs keys ps) @ tail) (of_nat off) (Some rs)
         = Some (segment_bytes qs @ tail, Some (rs @ segment_items off ps)) \<and> list_all2 unlocked ps qs"
  using assms(4-8)
proof (induction ps arbitrary: ivs off rs)
  case Nil
  then show ?case using tail by (subst decrypt_loop.simps) (simp add: segment_bytes_def)
next
  case (Cons p ps)
  let ?p = "stamp g keys (hide g (ivs 0) keys p)" and ?n = "length (cloud_block p)"
  let ?it = "\<lparr>rs_start = of_nat off, rs_length = of_nat ?n, rs_data = True\<rparr> :: bool rangeset_item"
  have p: "parts_ok p" "ch_magic (fst p) = CLOUDLOG_MAGIC" "segment_ok ps" using Cons.prems(1) by (simp_all add: segment_ok_def)
  have pok: "parts_ok ?p" by (rule stamp_ok [OF g(1) hide_ok [OF g(1) p(1) Cons.prems(2)]])
  have len: "length (cloud_block ?p) = ?n"
  proof -
    obtain h d1 d2 d3 where "p = (h, d1, d2, d3)" by (cases p)
    with p(1) pok show ?thesis
      using hide_ok [OF g(1) p(1) Cons.prems(2)]
      by (auto simp: length_cloud_block stamp_def hide_def gcrypt_okD [OF g(1)] split: if_splits)
  qed
  have "\<exists>q. bluesky_crypt_block_decrypt g False keys au (cloud_block ?p) = Some (cloud_block q, True) \<and> unlocked p q"
    using decrypt_block [OF g(1) _ _ Cons.prems(2)] p(1,2) by (cases p) fastforce
  then obtain q where q: "bluesky_crypt_block_decrypt g False keys au (cloud_block ?p) = Some (cloud_block q, True)" "unlocked p q"
    by blast
  have ins: "fst (bluesky_rangeset_insert srch rs (of_nat off) (of_nat ?n) True) = rs @ [?it]"
    by (rule insert_item_last [OF g(2) Cons.prems(4,5)])
  have big: "off + ?n + length (segment_bytes ps) < 2 ^ 64" using Cons.prems(3) by (simp add: segment_bytes_def)
  have le: "rs_start it \<le> of_nat (off + ?n)" if "it \<in> set (rs @ [?it])" for it
  proof -
    have "(of_nat off :: u64) \<le> of_nat (off + ?n)" using big by (simp add: word_le_nat_alt unat_of_nat_small del: of_nat_add)
    then show ?thesis using that Cons.prems(4) [of it] by (auto simp del: of_nat_add)
  qed
  have "sorted (map rs_start (rs @ [?it]))" using Cons.prems(4,5) by (auto simp: sorted_append)
  from Cons.IH [OF p(3) Cons.prems(2) big le this] obtain qs
    where qs: "decrypt_loop srch g False keys au (segment_bytes (sealed g (\<lambda>i. ivs (Suc i)) keys ps) @ tail)
        (of_nat (off + ?n)) (Some (rs @ [?it]))
      = Some (segment_bytes qs @ tail, Some ((rs @ [?it]) @ segment_items (off + ?n) ps))" "list_all2 unlocked ps qs" by blast
  have "decrypt_loop srch g False keys au (segment_bytes (sealed g ivs keys (p # ps)) @ tail) (of_nat off) (Some rs)
      = Some (segment_bytes (q # qs) @ tail, Some (rs @ segment_items off (p # ps)))"
    using item_size_block [OF pok] block_long [OF pok] len q(1) ins qs(1)
    by (subst decrypt_loop.simps) (simp add: segment_bytes_def Let_def)
  with q(2) qs(2) show ?case by (intro exI [of _ "q # qs"]) simp
qed


section \<open>Properties\<close>

text \<open>The example of the witnesses: a stand-in for the algorithms, and two items.\<close>

definition sample_gcrypt :: gcrypt where
  "sample_gcrypt = \<lparr>sha256 = (\<lambda>m. replicate 32 0), hmac_sha256 = (\<lambda>k m. replicate 32 (of_nat (length m))),
     aes_ctr_encrypt = (\<lambda>k iv d. map (\<lambda>b. b XOR 0x55) d), aes_ctr_decrypt = (\<lambda>k iv d. map (\<lambda>b. b XOR 0x55) d)\<rparr>"

definition sample_item :: "u8 \<Rightarrow> bytes \<Rightarrow> cloud_parts" where
  "sample_item type d =
     (\<lparr>ch_magic = CLOUDLOG_MAGIC, crypt_auth = replicate 32 9, crypt_iv = replicate 16 9, ch_type = type,
       ch_id = replicate 16 1, ch_inum = 5, ch_size1 = of_nat (length d), ch_size2 = 0, ch_size3 = 0\<rparr>, d, [], [])"

lemma sample_gcrypt_ok: "gcrypt_ok sample_gcrypt"
  by (simp add: gcrypt_ok_def sample_gcrypt_def comp_def xor.assoc)

text \<open>C25: A segment of items that is encrypted for the cloud and decrypted again has
  the same items, up to the initialisation vectors and authentication codes, and
  the pass lists exactly the ranges of these items.\<close>

theorem segment_encrypt_roundtrip:
  assumes "gcrypt_ok g" "gsequence srch" "segment_ok ps" "\<And>i. length (ivs i) = 16"
    and "length tail < sizeof_cloudlog_header" "length (segment_bytes ps) < 2 ^ 64"
  shows "\<exists>enc qs. bluesky_cloudlog_encrypt g False ivs keys (segment_bytes ps @ tail) = Some enc \<and>
           bluesky_cloudlog_decrypt srch g False keys au enc (Some []) = Some (segment_bytes qs @ tail, Some (segment_items 0 ps)) \<and>
           list_all2 unlocked ps qs"
  using encrypt_segment [OF assms(1,3,4,5)] decrypt_segment [OF assms(1,2,5,3,4), where off = 0 and rs = "[]"] assms(6)
  by (simp add: bluesky_cloudlog_decrypt_def)

theorem segment_encrypt_roundtrip_witness:
  "\<exists>enc qs. bluesky_cloudlog_encrypt sample_gcrypt False (\<lambda>i. replicate 16 3) \<lparr>encryption_key = [], authentication_key = []\<rparr>
        (segment_bytes [sample_item 49 [1, 2], sample_item 52 [3]] @ [0]) = Some enc \<and>
     bluesky_cloudlog_decrypt linear_search sample_gcrypt False \<lparr>encryption_key = [], authentication_key = []\<rparr> False enc (Some [])
       = Some (segment_bytes qs @ [0], Some (segment_items 0 [sample_item 49 [1, 2], sample_item 52 [3]])) \<and>
     list_all2 unlocked [sample_item 49 [1, 2], sample_item 52 [3]] qs"
proof (rule segment_encrypt_roundtrip [OF sample_gcrypt_ok linear.gsequence_axioms])
  have ok: "parts_ok (sample_item 49 [1, 2])" "parts_ok (sample_item 52 [3])"
    by (simp_all add: parts_ok_def sample_item_def cloudlog_header_ok_def CLOUDLOG_MAGIC_def)
  then show "segment_ok [sample_item 49 [1, 2], sample_item 52 [3]]"
    by (simp add: segment_ok_def) (simp add: sample_item_def)
  show "length (segment_bytes [sample_item 49 [1, 2], sample_item 52 [3]]) < 2 ^ 64"
    using ok by (simp add: segment_bytes_def sample_item_def length_cloud_block)
qed (simp_all add: sizeof_cloudlog_header_def)

text \<open>C26: An item whose authentication code does not match, and that is not of a kind
  a cleaner may rewrite, is rejected; but the pass over a segment lists it as a
  valid item all the same, because both branches of the source add it.\<close>

theorem unauthenticated_item_listed:
  assumes "gsequence srch" "parts_ok (h, d1, d2, d3)" "ch_magic h = CLOUDLOG_MAGIC \<or> ch_magic h = CLOUDLOG_MAGIC_ENCRYPTED"
    and "bluesky_crypt_hmac g (auth_part h d1 d2) (authentication_key keys) \<noteq> crypt_auth h"
    and "\<not> au \<or> uint (ch_type h) \<noteq> LOGTYPE_INODE_MAP + 48 \<and> uint (ch_type h) \<noteq> LOGTYPE_CHECKPOINT + 48"
  shows "bluesky_crypt_block_decrypt g False keys au (cloud_block (h, d1, d2, d3)) = Some (cloud_block (h, d1, d2, d3), False) \<and>
         bluesky_cloudlog_decrypt srch g False keys au (cloud_block (h, d1, d2, d3)) (Some [])
           = Some (cloud_block (h, d1, d2, d3), Some (segment_items 0 [(h, d1, d2, d3)]))"
proof -
  let ?p = "(h, d1, d2, d3)"
  have rej: "bluesky_crypt_block_decrypt g False keys au (cloud_block ?p) = Some (cloud_block ?p, False)"
    using block_header_end [OF assms(2)] length_cloud_block [OF assms(2)] hmac_range_block [OF assms(2)] assms(3-5)
    by (auto simp: bluesky_crypt_block_decrypt_def Let_def sizeof_cloudlog_header_def)
  have "decrypt_loop srch g False keys au [] off (Some rs) = Some ([], Some rs)" for off rs
    by (subst decrypt_loop.simps) (simp add: sizeof_cloudlog_header_def)
  then have "decrypt_loop srch g False keys au (cloud_block ?p) 0 (Some []) = Some (cloud_block ?p, Some (segment_items 0 [?p]))"
    using rej item_size_block [OF assms(2), of "[]"] block_long [OF assms(2)] insert_item_last [OF assms(1), of "[]"]
    by (subst decrypt_loop.simps) (simp add: Let_def)
  with rej show ?thesis by (simp add: bluesky_cloudlog_decrypt_def)
qed

theorem unauthenticated_item_listed_witness:
  "bluesky_cloudlog_decrypt linear_search sample_gcrypt False \<lparr>encryption_key = [], authentication_key = []\<rparr> False
      (cloud_block (sample_item 49 [1, 2])) (Some [])
   = Some (cloud_block (sample_item 49 [1, 2]), Some (segment_items 0 [sample_item 49 [1, 2]]))"
  unfolding sample_item_def
  by (rule unauthenticated_item_listed [THEN conjunct2])
    (simp_all add: linear.gsequence_axioms parts_ok_def cloudlog_header_ok_def CLOUDLOG_MAGIC_def bluesky_crypt_hmac_def
      sample_gcrypt_def crypto_sizes auth_part_def)

end
