(* ===== verification/BlueSky_Imap.thy ===== *)
theory BlueSky_Imap
  imports BlueSky_Serialize
begin

text \<open>
  The inode map (\<^verbatim>\<open>bluesky/imap.c\<close>): for every inode the log item with its latest
  version, in ranges of 4096 inode numbers that are serialized separately.  The
  two-level search is shown to implement a finite map from inode numbers, and
  the assertion in the creation of a range never fails.
\<close>


section \<open>Lookup, creation and deletion\<close>

record imap_entry =
  e_inum :: u64
  e_item :: "ref option"

record imap_range =
  r_start :: u64
  r_end :: u64
  map_entries :: "imap_entry list"
  serialized :: "ref option"

definition target_imap_size :: u64 where "target_imap_size = 4096"

text \<open>A new range for an inode number, next to position \<open>i\<close>; \<open>None\<close> is the failed assertion.\<close>

definition new_range :: "imap_range list \<Rightarrow> nat \<Rightarrow> u64 \<Rightarrow> imap_range option" where
  "new_range imap i inum =
     (let start = (if i \<noteq> 0 \<and> i \<noteq> length imap then r_end (imap ! i) + 1 else 0);
          j = iter_next imap i;
          fin = (if j \<noteq> length imap then r_start (imap ! j) - 1 else - 1)
      in
      if \<not> (inum \<ge> start \<and> inum \<le> fin) then None
      else
        let start = max start (inum AND NOT (target_imap_size - 1));
            fin = min fin (start + target_imap_size - 1)
        in Some \<lparr>r_start = start, r_end = fin, map_entries = [], serialized = None\<rparr>)"

text \<open>
  The part of \<^verbatim>\<open>bluesky_inode_map_lookup\<close> inside a range: the entry, if one is returned,
  and the range.
\<close>

definition range_lookup ::
    "u64 gsearch \<Rightarrow> imap_range \<Rightarrow> u64 \<Rightarrow> int \<Rightarrow> clfs \<Rightarrow> imap_entry option \<times> imap_range \<times> clfs" where
  "range_lookup srch rg inum action fs =
     (let i = iter_prev (srch (map e_inum (map_entries rg)) inum);
          found = (i < length (map_entries rg) \<and> e_inum (map_entries rg ! i) = inum)
      in
      if \<not> found \<and> action \<le> 0 then (None, rg, fs)
      else
        let entry = (if found then map_entries rg ! i else \<lparr>e_inum = inum, e_item = None\<rparr>);
            entries = (if found then map_entries rg else gseq_insert_sorted srch e_inum entry (map_entries rg));
            fs = (if action \<noteq> 0 then bluesky_cloudlog_unref_delayed (serialized rg) fs else fs);
            ser = (if action \<noteq> 0 then None else serialized rg)
        in if action < 0 then (None, rg\<lparr>map_entries := gseq_remove i entries, serialized := ser\<rparr>, fs)
           else (Some entry, rg\<lparr>map_entries := entries, serialized := ser\<rparr>, fs))"

text \<open>A range is known by its first inode number.\<close>

definition put_range :: "imap_range \<Rightarrow> imap_range list \<Rightarrow> imap_range list" where
  "put_range rg imap = map (\<lambda>x. if r_start x = r_start rg then rg else x) imap"

definition bluesky_inode_map_lookup ::
    "u64 gsearch \<Rightarrow> imap_range list \<Rightarrow> u64 \<Rightarrow> int \<Rightarrow> clfs \<Rightarrow> (imap_entry option \<times> imap_range list \<times> clfs) option" where
  "bluesky_inode_map_lookup srch imap inum action fs =
     (let i = iter_prev (srch (map r_start imap) inum) in
      if i = length imap \<or> inum < r_start (imap ! i) \<or> inum > r_end (imap ! i) then
        (if action \<le> 0 then Some (None, imap, fs)
         else case new_range imap i inum of None \<Rightarrow> None
           | Some rg \<Rightarrow>
               let (e, rg', fs) = range_lookup srch rg inum action fs
               in Some (e, put_range rg' (gseq_insert_sorted srch r_start rg imap), fs))
      else
        let (e, rg', fs) = range_lookup srch (imap ! i) inum action fs
        in Some (e, put_range rg' imap, fs))"

text \<open>The assignment of an item to the entry a lookup returned.\<close>

definition set_entry_item :: "u64 \<Rightarrow> ref option \<Rightarrow> imap_range list \<Rightarrow> imap_range list" where
  "set_entry_item inum item imap =
     map (\<lambda>rg. rg\<lparr>map_entries := map (\<lambda>e. if e_inum e = inum then e\<lparr>e_item := item\<rparr> else e) (map_entries rg)\<rparr>) imap"


section \<open>Serialization\<close>

definition CHECKPOINT_MAGIC :: u64 where "CHECKPOINT_MAGIC = 0x7ad7dafb42a498b4"
definition BLUESKY_CLOUD_DIR_CLEANER :: u32 where "BLUESKY_CLOUD_DIR_CLEANER = 1"

definition section_data :: "imap_range \<Rightarrow> bytes" where
  "section_data rg = concat (map (\<lambda>e. le64 (e_inum e)) (map_entries rg))"

text \<open>\<open>oid\<close> is the identifier drawn for the new item.\<close>

definition bluesky_inode_map_serialize_section :: "bytes \<Rightarrow> imap_range \<Rightarrow> clfs \<Rightarrow> (imap_range \<times> clfs) option" where
  "bluesky_inode_map_serialize_section oid rg fs =
     (if serialized rg \<noteq> None then Some (rg, fs)
      else
        let (r, fs) = bluesky_cloudlog_new oid fs; links = map e_item (map_entries rg) in
        case ref_all links fs of None \<Rightarrow> None
        | Some fs \<Rightarrow>
            (case get_item fs r of None \<Rightarrow> None
             | Some c \<Rightarrow>
                 let c = c\<lparr>cl_type := LOGTYPE_INODE_MAP, cl_inum := 0, cl_links := links, cl_data := Some (section_data rg)\<rparr>
                 in Some (rg\<lparr>serialized := Some r\<rparr>, bluesky_cloudlog_stats_update c 1 (set_item r c fs))))"

text \<open>
  The loop of \<^verbatim>\<open>bluesky_inode_map_serialize\<close> over the ranges: the ranges, the data and
  links of the checkpoint, and whether a range was serialized anew.  The
  identifiers drawn are \<open>oids\<close>, in order.
\<close>

fun serialize_ranges ::
    "(nat \<Rightarrow> bytes) \<Rightarrow> imap_range list \<Rightarrow> clfs \<Rightarrow> (imap_range list \<times> bytes \<times> ref option list \<times> bool \<times> clfs) option" where
  "serialize_ranges oids [] fs = Some ([], [], [], False, fs)"
| "serialize_ranges oids (rg # rgs) fs =
     (case (if serialized rg = None then bluesky_inode_map_serialize_section (oids 0) rg fs else Some (rg, fs)) of
        None \<Rightarrow> None
      | Some (rg', fs) \<Rightarrow>
          (case bluesky_cloudlog_ref (serialized rg') fs of None \<Rightarrow> None
           | Some fs \<Rightarrow>
               map_option (\<lambda>(rgs', buf, links, updated, fs).
                   (rg' # rgs', le64 (r_start rg) @ le64 (r_end rg) @ buf, serialized rg' # links,
                    serialized rg = None \<or> updated, fs))
                 (serialize_ranges (if serialized rg = None then (\<lambda>i. oids (Suc i)) else oids) rgs fs)))"

definition version_vector :: "int \<Rightarrow> bytes" where
  "version_vector latest_cleaner_seq_seen =
     (if latest_cleaner_seq_seen \<ge> 0
      then le32 1 @ le32 BLUESKY_CLOUD_DIR_CLEANER @ le32 (word_of_int latest_cleaner_seq_seen)
      else le32 0)"

definition bluesky_inode_map_serialize ::
    "(nat \<Rightarrow> bytes) \<Rightarrow> int \<Rightarrow> imap_range list \<Rightarrow> clfs \<Rightarrow> (ref option \<times> imap_range list \<times> clfs) option" where
  "bluesky_inode_map_serialize oids latest_cleaner_seq_seen imap fs =
     (let (r, fs) = bluesky_cloudlog_new (oids 0) fs in
      case serialize_ranges (\<lambda>i. oids (Suc i)) imap fs of None \<Rightarrow> None
      | Some (imap, buf, links, updated, fs) \<Rightarrow>
          (case get_item fs r of None \<Rightarrow> None
           | Some c \<Rightarrow>
               let c = c\<lparr>cl_type := LOGTYPE_CHECKPOINT, cl_inum := 0, cl_links := links,
                         cl_data := Some (le64 CHECKPOINT_MAGIC @ version_vector latest_cleaner_seq_seen @ buf)\<rparr>;
                   fs = bluesky_cloudlog_stats_update c 1 (set_item r c fs)
               in if updated then Some (Some r, imap, fs)
                  else map_option (\<lambda>fs. (None, imap, fs)) (bluesky_cloudlog_unref (Some r) fs)))"

fun minimize_entries :: "imap_entry list \<Rightarrow> clfs \<Rightarrow> clfs option" where
  "minimize_entries [] fs = Some fs"
| "minimize_entries (e # es) fs =
     (case e_item e of None \<Rightarrow> minimize_entries es fs
      | Some r \<Rightarrow>
          (case get_item fs r of None \<Rightarrow> None
           | Some c \<Rightarrow>
               if cl_refcount c = 1 then Option.bind (bluesky_cloudlog_erase r fs) (minimize_entries es)
               else minimize_entries es fs))"

fun bluesky_inode_map_minimize :: "imap_range list \<Rightarrow> clfs \<Rightarrow> clfs option" where
  "bluesky_inode_map_minimize [] fs = Some fs"
| "bluesky_inode_map_minimize (rg # rgs) fs =
     Option.bind (case serialized rg of None \<Rightarrow> Some fs | Some r \<Rightarrow> bluesky_cloudlog_erase r fs)
       (\<lambda>fs. Option.bind (minimize_entries (map_entries rg) fs) (bluesky_inode_map_minimize rgs))"


section \<open>The invariant\<close>

definition chunk :: "u64 \<Rightarrow> u64" where
  "chunk inum = inum AND NOT 4095"

definition range_ok :: "imap_range \<Rightarrow> bool" where
  "range_ok rg \<longleftrightarrow> chunk (r_start rg) = r_start rg \<and> r_end rg = r_start rg + 4095 \<and>
     sorted_wrt (<) (map e_inum (map_entries rg)) \<and> (\<forall>e \<in> set (map_entries rg). chunk (e_inum e) = r_start rg)"

definition imap_ok :: "imap_range list \<Rightarrow> bool" where
  "imap_ok imap \<longleftrightarrow> sorted_wrt (<) (map r_start imap) \<and> (\<forall>rg \<in> set imap. range_ok rg)"

text \<open>The map an inode map stands for, and the three actions of a lookup on it.\<close>

definition range_map :: "imap_range \<Rightarrow> u64 \<Rightarrow> ref option option" where
  "range_map rg = map_of (map (\<lambda>e. (e_inum e, e_item e)) (map_entries rg))"

definition imap_map :: "imap_range list \<Rightarrow> u64 \<Rightarrow> ref option option" where
  "imap_map imap inum = Option.bind (find (\<lambda>rg. r_start rg = chunk inum) imap) (\<lambda>rg. range_map rg inum)"

definition imap_spec :: "int \<Rightarrow> u64 \<Rightarrow> (u64 \<Rightarrow> ref option option) \<Rightarrow> u64 \<Rightarrow> ref option option" where
  "imap_spec action inum m =
     (if 0 < action then m(inum \<mapsto> (case m inum of None \<Rightarrow> None | Some p \<Rightarrow> p))
      else if action < 0 then m(inum := None) else m)"

lemma chunk_shift: "chunk x = push_bit 12 (drop_bit 12 x)"
proof -
  have m: "(4095 :: u64) = mask 12" by (simp add: mask_eq_exp_minus_1)
  show ?thesis
    unfolding chunk_def m
    by (rule bit_eqI) (auto simp: bit_simps)
qed

lemma unat_chunk: "unat (chunk x) = unat x div 4096 * 4096"
proof -
  have d: "unat (drop_bit 12 x) = unat x div 4096" by (simp add: drop_bit_eq_div unat_div)
  have "unat x div 4096 * 4096 < 2 ^ 64" using unsigned_less [of x] by (rule le_less_trans [OF div_times_less_eq_dividend, THEN order.strict_trans2]) simp
  with d show ?thesis by (simp add: chunk_shift push_bit_eq_mult unat_word_ariths)
qed

lemma chunk_twice [simp]: "chunk (chunk x) = chunk x"
  by (simp add: word_unat_eq_iff unat_chunk)

lemma unat_chunk_end: "chunk s = s \<Longrightarrow> unat (s + 4095) = unat s + 4095"
proof -
  assume "chunk s = s"
  then have s: "unat s = unat s div 4096 * 4096" using unat_chunk [of s] by simp
  have "unat s < 2 ^ 64" using unsigned_less [of s] by simp
  then have "unat s div 4096 < 2 ^ 52" by (simp add: less_mult_imp_div_less)
  then have "unat s + 4095 < 2 ^ 64" using s by simp
  then show ?thesis by (simp add: unat_word_ariths)
qed

lemma in_chunk: "chunk s = s \<Longrightarrow> s \<le> x \<and> x \<le> s + 4095 \<longleftrightarrow> chunk x = s"
proof -
  assume s: "chunk s = s"
  then obtain q where q: "unat s = q * 4096" using unat_chunk [of s] by metis
  have "s \<le> x \<and> x \<le> s + 4095 \<longleftrightarrow> q * 4096 \<le> unat x \<and> unat x \<le> q * 4096 + 4095"
    using unat_chunk_end [OF s] q by (simp add: word_le_nat_alt)
  also have "\<dots> \<longleftrightarrow> unat x div 4096 = q" using div_mult_mod_eq [of "unat x" 4096] mod_less_divisor [of 4096 "unat x"] by linarith
  also have "\<dots> \<longleftrightarrow> chunk x = s" by (simp add: word_unat_eq_iff unat_chunk q)
  finally show ?thesis .
qed


section \<open>Ranges\<close>

lemma range_map_iff:
  assumes "sorted_wrt (<) (map e_inum (map_entries rg))"
  shows "range_map rg n = Some p \<longleftrightarrow> (\<exists>e \<in> set (map_entries rg). e_inum e = n \<and> e_item e = p)"
proof -
  have "distinct (map fst (map (\<lambda>e. (e_inum e, e_item e)) (map_entries rg)))"
    using assms by (simp add: strict_sorted_iff comp_def)
  from map_of_eq_Some_iff [OF this, of n p] show ?thesis unfolding range_map_def by auto
qed

lemma range_map_none:
  assumes "sorted_wrt (<) (map e_inum (map_entries rg))"
  shows "range_map rg n = None \<longleftrightarrow> n \<notin> e_inum ` set (map_entries rg)"
  by (auto simp: range_map_def map_of_eq_None_iff image_image)

lemma range_mapI:
  assumes "sorted_wrt (<) (map e_inum (map_entries rg))" "e \<in> set (map_entries rg)"
  shows "range_map rg (e_inum e) = Some (e_item e)"
  using range_map_iff [OF assms(1)] assms(2) by blast

lemma range_map_ext:
  assumes "sorted_wrt (<) (map e_inum (map_entries rg))"
    and "\<And>n p. m n = Some p \<longleftrightarrow> (\<exists>e \<in> set (map_entries rg). e_inum e = n \<and> e_item e = p)"
  shows "range_map rg = m"
proof
  fix n
  have "range_map rg n = Some p \<longleftrightarrow> m n = Some p" for p
    by (simp only: range_map_iff [OF assms(1)] assms(2))
  then show "range_map rg n = m n" by (metis option.exhaust)
qed

lemma range_lookup_ok:
  assumes g: "gsequence srch" and ok: "range_ok rg" and n: "chunk inum = r_start rg"
    and run: "range_lookup srch rg inum action fs = (e, rg', fs')"
  shows "range_ok rg' \<and> r_start rg' = r_start rg \<and> range_map rg' = imap_spec action inum (range_map rg) \<and>
    map_option e_item e = (if action < 0 then None else range_map rg' inum) \<and> (\<forall>x. e = Some x \<longrightarrow> e_inum x = inum)"
proof -
  let ?es = "map_entries rg"
  define i where "i = iter_prev (srch (map e_inum ?es) inum)"
  have s: "sorted_wrt (<) (map e_inum ?es)" using ok by (simp add: range_ok_def)
  have exact: "i < length ?es \<and> e_inum (?es ! i) = inum \<longleftrightarrow> inum \<in> e_inum ` set ?es"
    unfolding i_def by (rule gsequence.search_prev_exact [OF g s])
  show ?thesis
  proof (cases "inum \<in> e_inum ` set ?es")
    case True
    with exact have i: "i < length ?es" "e_inum (?es ! i) = inum" by simp_all
    then have mem: "?es ! i \<in> set ?es" by simp
    have m: "range_map rg inum = Some (e_item (?es ! i))" using range_mapI [OF s mem] i(2) by simp
    show ?thesis
    proof (cases "action < 0")
      case True
      then have r: "e = None" "rg' = rg\<lparr>map_entries := gseq_remove i ?es, serialized := None\<rparr>"
        using run i by (simp_all add: range_lookup_def i_def [symmetric] Let_def)
      have d: "distinct ?es" using s by (simp add: strict_sorted_iff distinct_map)
      have set: "set (map_entries rg') = set ?es - {?es ! i}" using set_gseq_remove [OF i(1) d] r(2) by simp
      have s': "sorted_wrt (<) (map e_inum (map_entries rg'))" using sorted_wrt_gseq_remove [OF i(1) s] r(2) by simp
      have "range_map rg' = (range_map rg)(inum := None)"
      proof (rule range_map_ext [OF s'])
        fix n p
        show "((range_map rg)(inum := None)) n = Some p \<longleftrightarrow> (\<exists>e \<in> set (map_entries rg'). e_inum e = n \<and> e_item e = p)"
          using range_map_iff [OF s, of n p] set i(2) m mem range_mapI [OF s] by (auto simp: set)
      qed
      with True r ok s' set show ?thesis by (auto simp: range_ok_def imap_spec_def)
    next
      case False
      then have r: "e = Some (?es ! i)" "map_entries rg' = ?es" "r_start rg' = r_start rg" "r_end rg' = r_end rg"
        using run i by (auto simp: range_lookup_def i_def [symmetric] Let_def)
      then have "range_map rg' = range_map rg" by (simp add: range_map_def)
      moreover have "imap_spec action inum (range_map rg) = range_map rg"
        using False m by (auto simp: imap_spec_def fun_upd_idem_iff)
      ultimately show ?thesis using False r ok m i(2) by (simp add: range_ok_def)
    qed
  next
    case False
    with exact have nf: "\<not> (i < length ?es \<and> e_inum (?es ! i) = inum)" by simp
    have m: "range_map rg inum = None" using range_map_none [OF s] False by simp
    show ?thesis
    proof (cases "action \<le> 0")
      case True
      then have "e = None" "rg' = rg" using run nf by (auto simp: range_lookup_def i_def [symmetric] Let_def)
      moreover have "imap_spec action inum (range_map rg) = range_map rg"
        using True m by (simp add: imap_spec_def fun_upd_idem_iff)
      ultimately show ?thesis using ok m by simp
    next
      case a: False
      let ?e = "\<lparr>e_inum = inum, e_item = None\<rparr>"
      have r: "e = Some ?e" "map_entries rg' = gseq_insert_sorted srch e_inum ?e ?es" "r_start rg' = r_start rg" "r_end rg' = r_end rg"
        using run a nf by (auto simp: range_lookup_def i_def [symmetric] Let_def)
      have set: "set (map_entries rg') = insert ?e (set ?es)"
        using r(2) gsequence.set_insert_sorted [OF g, of e_inum ?e ?es] by simp
      have s': "sorted_wrt (<) (map e_inum (map_entries rg'))"
        unfolding r(2) by (rule gsequence.strict_insert_sorted [OF g s]) (use False in simp)
      have "range_map rg' = (range_map rg)(inum \<mapsto> None)"
      proof (rule range_map_ext [OF s'])
        fix n p
        show "((range_map rg)(inum \<mapsto> None)) n = Some p \<longleftrightarrow> (\<exists>e \<in> set (map_entries rg'). e_inum e = n \<and> e_item e = p)"
          using range_map_iff [OF s, of n p] set False by (auto simp: set)
      qed
      with a r ok m s' set n show ?thesis by (auto simp: range_ok_def imap_spec_def)
    qed
  qed
qed


section \<open>The whole map\<close>

lemma imap_okD:
  assumes "imap_ok imap"
  shows "sorted_wrt (<) (map r_start imap)" "sorted (map r_start imap)" "rg \<in> set imap \<Longrightarrow> range_ok rg"
  using assms by (auto simp: imap_ok_def strict_sorted_iff)

lemma range_okD:
  "range_ok rg \<Longrightarrow> chunk (r_start rg) = r_start rg" "range_ok rg \<Longrightarrow> r_end rg = r_start rg + 4095"
  by (simp_all add: range_ok_def)

lemma range_covers: "range_ok rg \<Longrightarrow> r_start rg \<le> n \<and> n \<le> r_end rg \<longleftrightarrow> chunk n = r_start rg"
  using in_chunk [OF range_okD(1)] range_okD(2) by metis

lemma chunk_le: "chunk n \<le> n"
  using in_chunk [OF chunk_twice, of n n] by simp

lemma lookup_covering:
  fixes inum :: u64
  assumes g: "gsequence srch" and ok: "imap_ok imap"
  defines "i \<equiv> iter_prev (srch (map r_start imap) inum)"
  shows "i < length imap \<and> r_start (imap ! i) \<le> inum \<and> inum \<le> r_end (imap ! i)
     \<longleftrightarrow> chunk inum \<in> r_start ` set imap"
proof
  assume "i < length imap \<and> r_start (imap ! i) \<le> inum \<and> inum \<le> r_end (imap ! i)"
  then show "chunk inum \<in> r_start ` set imap"
    using range_covers [OF imap_okD(3) [OF ok nth_mem], of i inum] by auto
next
  assume "chunk inum \<in> r_start ` set imap"
  then obtain rg where rg: "rg \<in> set imap" "r_start rg = chunk inum" by auto
  note f = gsequence.search_prev_found [OF g imap_okD(2) [OF ok] rg(1), of inum, folded i_def]
  have le: "r_start rg \<le> inum" using rg(2) chunk_le by simp
  have i: "i < length imap" "r_start (imap ! i) \<le> inum" using f(1,2) [OF le] by simp_all
  have i3: "chunk inum \<le> r_start (imap ! i)" using f(3) [OF le rg(1) le] rg(2) by simp
  have "r_start (imap ! i) \<le> chunk inum + 4095"
    using i(2) in_chunk [OF chunk_twice, of inum inum] by auto
  then have "chunk (r_start (imap ! i)) = chunk inum" using in_chunk [OF chunk_twice] i3 by blast
  then have "chunk inum = r_start (imap ! i)" using range_okD(1) [OF imap_okD(3) [OF ok nth_mem [OF i(1)]]] by simp
  then show "i < length imap \<and> r_start (imap ! i) \<le> inum \<and> inum \<le> r_end (imap ! i)"
    using i(1) range_covers [OF imap_okD(3) [OF ok nth_mem [OF i(1)]], of inum] by auto
qed

lemma chunk_below: "chunk s = s \<Longrightarrow> s + 4095 < n \<Longrightarrow> s + 4096 \<le> chunk n \<and> s + 4095 < chunk n"
proof -
  assume a: "chunk s = s" "s + 4095 < n"
  have s: "unat s = unat s div 4096 * 4096" using unat_chunk [of s] a(1) by simp
  have n: "unat s + 4095 < unat n" using a unat_chunk_end [OF a(1)] by (simp add: word_less_nat_alt)
  then have "unat s + 4096 < 2 ^ 64" using unsigned_less [of n, where 'a = nat] by simp
  then have e: "unat (s + 4096) = unat s + 4096" by (simp add: unat_word_ariths)
  have "unat s + 4096 \<le> unat n div 4096 * 4096"
  proof -
    obtain q where q: "unat s = q * 4096" using s by blast
    with n have "q + 1 \<le> unat n div 4096" by (simp add: less_eq_div_iff_mult_less_eq)
    from mult_le_mono1 [OF this, of 4096] q show ?thesis by simp
  qed
  then show ?thesis using e unat_chunk_end [OF a(1)] by (simp add: word_le_nat_alt word_less_nat_alt unat_chunk)
qed

lemma chunk_above: "chunk s = s \<Longrightarrow> n < s \<Longrightarrow> chunk n + 4095 \<le> s - 1 \<and> n \<le> s - 1"
proof -
  assume a: "chunk s = s" "n < s"
  have s: "unat s = unat s div 4096 * 4096" using unat_chunk [of s] a(1) by simp
  have n: "unat n < unat s" using a(2) by (simp add: word_less_nat_alt)
  then have m: "unat (s - 1) = unat s - 1" by (subst unat_sub) (simp_all add: word_le_nat_alt)
  have "unat n div 4096 * 4096 + 4095 \<le> unat s - 1"
  proof -
    obtain q where q: "unat s = q * 4096" using s by blast
    with n have "unat n div 4096 + 1 \<le> q" using less_mult_imp_div_less [of "unat n" q 4096] by simp
    from mult_le_mono1 [OF this, of 4096] q show ?thesis by simp
  qed
  then show ?thesis using m n unat_chunk_end [OF chunk_twice, of n] by (simp add: word_le_nat_alt unat_chunk)
qed

lemma new_range_ok:
  assumes g: "gsequence srch" and ok: "imap_ok imap" and none: "chunk inum \<notin> r_start ` set imap"
  defines "i \<equiv> iter_prev (srch (map r_start imap) inum)"
  shows "new_range imap i inum = Some \<lparr>r_start = chunk inum, r_end = chunk inum + 4095, map_entries = [], serialized = None\<rparr>"
proof -
  let ?p = "srch (map r_start imap) inum"
  note srt = imap_okD(2) [OF ok]
  have p: "?p \<le> length imap" using gsequence.search_le_length [OF g srt, of inum] by simp
  have end1: "r_start (imap ! k) \<le> inum \<and> r_end (imap ! k) < inum" if "k < ?p" for k
  proof -
    have k: "k < length imap" using that p by simp
    have "r_start (imap ! k) \<le> inum" using gsequence.search_below [OF g srt that] k by simp
    moreover have "chunk inum \<noteq> r_start (imap ! k)" using none k by (metis image_eqI nth_mem)
    ultimately show ?thesis using range_covers [OF imap_okD(3) [OF ok nth_mem [OF k]], of inum] by auto
  qed
  let ?start = "if i \<noteq> 0 \<and> i \<noteq> length imap then r_end (imap ! i) + 1 else 0"
  let ?j = "iter_next imap i"
  let ?fin = "if ?j \<noteq> length imap then r_start (imap ! ?j) - 1 else - 1"
  have start: "?start \<le> chunk inum"
  proof (cases "i \<noteq> 0 \<and> i \<noteq> length imap")
    case True
    then have k: "i < ?p" "i < length imap" using p by (auto simp: i_def iter_prev_def)
    note r = imap_okD(3) [OF ok nth_mem [OF k(2)]]
    from chunk_below [OF range_okD(1) [OF r]] end1 [OF k(1)] range_okD(2) [OF r] True
    show ?thesis by (simp add: add.assoc)
  qed auto
  have fin: "chunk inum + 4095 \<le> ?fin \<and> inum \<le> ?fin"
  proof (cases "?j \<noteq> length imap")
    case True
    then have k: "?j < length imap" "?p \<le> ?j" using p by (auto simp: i_def iter_prev_def iter_next_def)
    have "inum < r_start (imap ! ?j)" using gsequence.search_above [OF g srt k(2)] k(1) by simp
    from chunk_above [OF range_okD(1) [OF imap_okD(3) [OF ok nth_mem [OF k(1)]]] this] True show ?thesis by simp
  qed (simp add: word_order.extremum)
  have "?start \<le> inum" using start chunk_le order_trans by blast
  moreover have ch: "inum AND NOT (target_imap_size - 1) = chunk inum" by (simp add: chunk_def target_imap_size_def)
  moreover have t: "chunk inum + target_imap_size - 1 = chunk inum + 4095" by (simp add: target_imap_size_def)
  moreover have m: "max ?start (chunk inum) = chunk inum" "min ?fin (chunk inum + 4095) = chunk inum + 4095"
    using start fin by (auto intro: max_absorb2 min_absorb2)
  ultimately show ?thesis
    unfolding new_range_def Let_def ch m(1) t m(2) by (intro if_not_P) (use fin in blast)
qed

lemma find_map_start:
  assumes "\<And>x. r_start (f x) = r_start x"
  shows "find (\<lambda>rg. r_start rg = c) (map f xs) = map_option f (find (\<lambda>rg. r_start rg = c) xs)"
  by (induction xs) (simp_all add: assms)

lemma find_start:
  assumes "sorted_wrt (<) (map r_start imap)" "rg \<in> set imap"
  shows "find (\<lambda>x. r_start x = r_start rg) imap = Some rg"
proof (cases "find (\<lambda>x. r_start x = r_start rg) imap")
  case None
  with assms(2) show ?thesis by (auto simp: find_None_iff)
next
  case (Some x)
  then have "x \<in> set imap" "r_start x = r_start rg" by (auto simp: find_Some_iff)
  with assms have "x = rg" by (auto simp: strict_sorted_iff distinct_map inj_on_def)
  with Some show ?thesis by simp
qed

lemma find_start_none: "c \<notin> r_start ` set imap \<Longrightarrow> find (\<lambda>x. r_start x = c) imap = None"
  by (induction imap) auto

lemma put_range_ok:
  assumes ok: "imap_ok imap" and rg: "rg \<in> set imap" "range_ok rg'" "r_start rg' = r_start rg"
  shows "imap_ok (put_range rg' imap) \<and>
    imap_map (put_range rg' imap) = (\<lambda>n. if chunk n = r_start rg then range_map rg' n else imap_map imap n)"
proof
  let ?f = "\<lambda>x. if r_start x = r_start rg' then rg' else x"
  have st: "r_start (?f x) = r_start x" for x by simp
  have "map r_start (put_range rg' imap) = map r_start imap" by (simp add: put_range_def)
  moreover have "\<forall>x \<in> set (put_range rg' imap). range_ok x" using ok rg(2) by (auto simp: imap_ok_def put_range_def)
  ultimately show "imap_ok (put_range rg' imap)" using imap_okD(1) [OF ok] by (simp add: imap_ok_def)
  show "imap_map (put_range rg' imap) = (\<lambda>n. if chunk n = r_start rg then range_map rg' n else imap_map imap n)"
  proof
    fix n
    have e: "find (\<lambda>x. r_start x = chunk n) (put_range rg' imap) = map_option ?f (find (\<lambda>x. r_start x = chunk n) imap)"
      unfolding put_range_def by (rule find_map_start [OF st])
    show "imap_map (put_range rg' imap) n = (if chunk n = r_start rg then range_map rg' n else imap_map imap n)"
    proof (cases "chunk n = r_start rg")
      case True
      with find_start [OF imap_okD(1) [OF ok] rg(1)] e rg(3) show ?thesis by (simp add: imap_map_def)
    next
      case False
      have "map_option ?f (find (\<lambda>x. r_start x = chunk n) imap) = find (\<lambda>x. r_start x = chunk n) imap"
      proof (cases "find (\<lambda>x. r_start x = chunk n) imap")
        case (Some x)
        then have "r_start x = chunk n" by (auto simp: find_Some_iff)
        with Some False rg(3) show ?thesis by simp
      qed simp
      with e False show ?thesis by (simp add: imap_map_def)
    qed
  qed
qed

lemma insert_range_ok:
  assumes g: "gsequence srch" and ok: "imap_ok imap" and new: "range_ok rg" "r_start rg \<notin> r_start ` set imap" "map_entries rg = []"
  shows "imap_ok (gseq_insert_sorted srch r_start rg imap) \<and> imap_map (gseq_insert_sorted srch r_start rg imap) = imap_map imap"
proof
  let ?new = "gseq_insert_sorted srch r_start rg imap"
  have set: "set ?new = insert rg (set imap)" by (rule gsequence.set_insert_sorted [OF g])
  have s: "sorted_wrt (<) (map r_start ?new)" by (rule gsequence.strict_insert_sorted [OF g imap_okD(1) [OF ok] new(2)])
  then show "imap_ok ?new" using ok new(1) set by (auto simp: imap_ok_def)
  show "imap_map ?new = imap_map imap"
  proof
    fix n
    show "imap_map ?new n = imap_map imap n"
    proof (cases "chunk n = r_start rg")
      case True
      have "find (\<lambda>x. r_start x = chunk n) imap = None" using True new(2) by (simp add: find_start_none)
      moreover have "find (\<lambda>x. r_start x = chunk n) ?new = Some rg" using find_start [OF s, of rg] set True by simp
      ultimately show ?thesis using new(3) by (simp add: imap_map_def range_map_def)
    next
      case False
      show ?thesis
      proof (cases "find (\<lambda>x. r_start x = chunk n) imap")
        case None
        then have "find (\<lambda>x. r_start x = chunk n) ?new = None" using False set by (auto simp: find_None_iff)
        with None show ?thesis by (simp add: imap_map_def)
      next
        case (Some x)
        then have x: "x \<in> set ?new" "r_start x = chunk n" using set by (auto simp: find_Some_iff)
        from find_start [OF s x(1)] Some x(2) show ?thesis by (simp add: imap_map_def)
      qed
    qed
  qed
qed

lemma imap_lookup_ok:
  assumes g: "gsequence srch" and ok: "imap_ok imap"
  shows "\<exists>e imap' fs'. bluesky_inode_map_lookup srch imap inum action fs = Some (e, imap', fs') \<and> imap_ok imap' \<and>
    imap_map imap' = imap_spec action inum (imap_map imap) \<and>
    map_option e_item e = (if action < 0 then None else imap_map imap' inum) \<and> (\<forall>x. e = Some x \<longrightarrow> e_inum x = inum)"
proof -
  have main: ?thesis
    if run: "bluesky_inode_map_lookup srch imap inum action fs
        = (let (e, rg', fs) = range_lookup srch rg inum action fs in Some (e, put_range rg' im, fs))"
      and im: "imap_ok im" "imap_map im = imap_map imap" "rg \<in> set im" "r_start rg = chunk inum" for rg im
  proof -
    obtain e rg' fs' where r: "range_lookup srch rg inum action fs = (e, rg', fs')" by (metis prod_cases3)
    note k = range_lookup_ok [OF g imap_okD(3) [OF im(1,3)] im(4) [symmetric] r]
    have "range_ok rg'" "r_start rg' = r_start rg" using k by simp_all
    note p = put_range_ok [OF im(1,3) this]
    have m: "imap_map imap n = range_map rg n" if "chunk n = chunk inum" for n
      using find_start [OF imap_okD(1) [OF im(1)] im(3)] im(2) [symmetric] im(4) that by (simp add: imap_map_def)
    have "imap_map (put_range rg' im) = imap_spec action inum (imap_map imap)"
    proof
      fix n
      show "imap_map (put_range rg' im) n = imap_spec action inum (imap_map imap) n"
        using p k m [of n] m [of inum] im(2,4) by (auto simp: imap_spec_def)
    qed
    moreover have "imap_map (put_range rg' im) inum = range_map rg' inum" using p im(4) by simp
    ultimately show ?thesis using run r k p by (intro exI [of _ e] exI [of _ "put_range rg' im"] exI [of _ fs']) simp
  qed
  let ?i = "iter_prev (srch (map r_start imap) inum)"
  note cov = lookup_covering [OF g ok, of inum]
  show ?thesis
  proof (cases "chunk inum \<in> r_start ` set imap")
    case True
    with cov have c: "?i < length imap" "r_start (imap ! ?i) \<le> inum" "inum \<le> r_end (imap ! ?i)" by simp_all
    then have "\<not> (?i = length imap \<or> inum < r_start (imap ! ?i) \<or> inum > r_end (imap ! ?i))" by auto
    then have run: "bluesky_inode_map_lookup srch imap inum action fs
        = (let (e, rg', fs) = range_lookup srch (imap ! ?i) inum action fs in Some (e, put_range rg' imap, fs))"
      unfolding bluesky_inode_map_lookup_def Let_def [of ?i] by (rule if_not_P)
    have "r_start (imap ! ?i) = chunk inum" using range_covers [OF imap_okD(3) [OF ok nth_mem [OF c(1)]], of inum] c by simp
    then show ?thesis by (rule main [OF run ok refl nth_mem [OF c(1)]])
  next
    case none: False
    with cov have nc: "?i = length imap \<or> inum < r_start (imap ! ?i) \<or> inum > r_end (imap ! ?i)"
      using gsequence.search_le_length [OF g imap_okD(2) [OF ok], of inum]
      by (auto simp: iter_prev_def not_le)
    show ?thesis
    proof (cases "action \<le> 0")
      case True
      have "find (\<lambda>x. r_start x = chunk inum) imap = None" using none by (simp add: find_start_none)
      then have m: "imap_map imap inum = None" by (simp add: imap_map_def)
      have "bluesky_inode_map_lookup srch imap inum action fs = Some (None, imap, fs)"
        unfolding bluesky_inode_map_lookup_def Let_def [of ?i] by (simp only: if_P [OF nc] if_P [OF True])
      moreover have "imap_spec action inum (imap_map imap) = imap_map imap"
        using True m by (simp add: imap_spec_def fun_upd_idem_iff)
      ultimately show ?thesis using ok m by simp
    next
      case False
      let ?rg = "\<lparr>r_start = chunk inum, r_end = chunk inum + 4095, map_entries = [], serialized = None\<rparr>"
      have rg: "range_ok ?rg" "r_start ?rg \<notin> r_start ` set imap" using none by (simp_all add: range_ok_def)
      note ins = insert_range_ok [OF g ok rg, simplified]
      have "?rg \<in> set (gseq_insert_sorted srch r_start ?rg imap)"
        using gsequence.set_insert_sorted [OF g, of r_start ?rg imap] by simp
      moreover have "bluesky_inode_map_lookup srch imap inum action fs
          = (let (e, rg', fs) = range_lookup srch ?rg inum action fs
             in Some (e, put_range rg' (gseq_insert_sorted srch r_start ?rg imap), fs))"
        unfolding bluesky_inode_map_lookup_def Let_def [of ?i]
        by (simp only: if_P [OF nc] if_not_P [OF False] new_range_ok [OF g ok none] option.case)
      ultimately show ?thesis using ins main [of ?rg "gseq_insert_sorted srch r_start ?rg imap"] by simp
    qed
  qed
qed

text \<open>C29: A lookup in the inode map implements a finite map from inode numbers: it
  never fails its assertion, keeps the ranges sorted and within their 4096
  numbers, returns the entry of the inode, and adds it where asked to create
  (action 1), removes it where asked to delete (action -1) and leaves all other
  entries alone.\<close>

theorem inode_map_lookup_refines_map:
  assumes "gsequence srch" "imap_ok imap"
  shows "\<exists>e imap' fs'. bluesky_inode_map_lookup srch imap inum action fs = Some (e, imap', fs') \<and> imap_ok imap' \<and>
    imap_map imap' = imap_spec action inum (imap_map imap) \<and>
    map_option e_item e = (if action < 0 then None else imap_map imap' inum) \<and> (\<forall>x. e = Some x \<longrightarrow> e_inum x = inum)"
  by (rule imap_lookup_ok [OF assms])

theorem inode_map_lookup_refines_map_witness:
  "\<exists>e imap' fs'. bluesky_inode_map_lookup linear_search
       [\<lparr>r_start = 0, r_end = 4095, map_entries = [\<lparr>e_inum = 7, e_item = Some 1\<rparr>], serialized = None\<rparr>] 5000 1 sample_log
     = Some (e, imap', fs') \<and> imap_map imap' 5000 = Some None \<and> imap_map imap' 7 = Some (Some 1)"
proof -
  let ?imap = "[\<lparr>r_start = 0, r_end = 4095, map_entries = [\<lparr>e_inum = 7, e_item = Some 1\<rparr>], serialized = None\<rparr>] :: imap_range list"
  have c: "chunk 0 = 0" "chunk 7 = 0" "chunk 5000 = 4096" by (simp_all add: chunk_def)
  then have "imap_ok ?imap" by (simp add: imap_ok_def range_ok_def)
  from inode_map_lookup_refines_map [OF linear.gsequence_axioms this, of 5000 1 sample_log] obtain e imap' fs'
    where r: "bluesky_inode_map_lookup linear_search ?imap 5000 1 sample_log = Some (e, imap', fs')"
      "imap_map imap' = imap_spec 1 5000 (imap_map ?imap)" by blast
  have "imap_map ?imap 5000 = None" "imap_map ?imap 7 = Some (Some 1)"
    using c by (simp_all add: imap_map_def range_map_def)
  then have "imap_map imap' 5000 = Some None" "imap_map imap' 7 = Some (Some 1)" by (simp_all add: r(2) imap_spec_def)
  with r(1) show ?thesis by blast
qed

end
