(* ===== verification/BlueSky_Log.thy ===== *)
theory BlueSky_Log
  imports BlueSky_Imap BlueSky_Record BlueSky_Crypto "HOL-Library.AList"
begin

text \<open>
  The log files (\<^verbatim>\<open>bluesky/log.c\<close>): the journal that the log thread writes, the table of
  cached journal and cloud segments, fetching segments from the cloud, and
  mapping items from these files.  The state \<open>lfs\<close> is the part of \<^verbatim>\<open>BlueSkyFS\<close> and
  \<^verbatim>\<open>BlueSkyLog\<close> behind the log items, with the files of the log directory: \<open>disk\<close> is
  what reads see and \<open>stable\<close> what has been forced to disk.  A file is known by the
  pair of directory and sequence number its name is made of, with directory -1
  for the journal (the names are one-to-one).  Failures of file operations other
  than those the code uses to test for existence are not modelled.
\<close>


section \<open>State\<close>

type_synonym logkey = "int \<times> int"

text \<open>\<^verbatim>\<open>BlueSkyCacheFile\<close>; \<open>cf_mapped\<close> is the length of the mapping if the file is mapped.\<close>

record cachefile =
  cf_refcount :: int
  cf_mapcount :: int
  cf_mapped :: "nat option"
  cf_disk_used :: int
  cf_fetching :: bool
  cf_complete :: bool
  cf_atime :: i64
  cf_items :: "bool rangeset_item list"
  cf_prefetches :: "bool rangeset_item list option"

text \<open>\<^verbatim>\<open>SerializedRecord\<close>: a segment on its way to the cloud.\<close>

record segment =
  sg_key :: logkey
  sg_raw :: "bytes option"
  sg_data :: "bytes option"
  sg_items :: "ref list"
  sg_complete :: bool

record lfs =
  fs_items :: clfs
  disk :: "(logkey \<times> bytes) list"
  stable :: "(logkey \<times> bytes) list"
  log_fd :: "logkey option"
  log_pos :: nat
  seq_num :: int
  committed :: "ref list"
  current_log :: "logkey option"
  mmap_cache :: "logkey \<Rightarrow> cachefile option"
  log_disk_used :: int
  fetch_requests :: "(logkey \<times> nat \<times> nat) list"
  seg_data :: bytes
  seg_location :: cloudptr
  writeback_list :: "ref list"
  pending_segments :: "segment list"
  uploads_pending :: int
  latest_cleaner_seq_seen :: int
  inode_map :: "imap_range list"
  next_inum :: u64

text \<open>
  What the operations are given from outside: the search of GLib, the algorithms
  and keys of encryption, the options, and the number of 512-byte blocks the file
  system reports for a file.
\<close>

record env =
  seq_search :: "u64 gsearch"
  env_crypt :: gcrypt
  fs_keys :: crypt_keys
  disable_crypto :: bool
  full_segment_fetches :: bool
  disable_aggregation :: bool
  disable_read_aggregation :: bool
  st_blocks :: "bytes \<Rightarrow> int"

definition LOG_SEGMENT_SIZE :: nat where "LOG_SEGMENT_SIZE = 2 ^ 22"
definition CLOUDLOG_SEGMENT_SIZE :: nat where "CLOUDLOG_SEGMENT_SIZE = 4 * 2 ^ 20"

text \<open>File contents: \<^verbatim>\<open>ftruncate\<close> is \<open>resize_zero\<close>, and a write may extend the file.\<close>

definition file_write :: "nat \<Rightarrow> bytes \<Rightarrow> bytes \<Rightarrow> bytes" where
  "file_write pos d buf = overwrite pos d (if length buf < pos + length d then resize_zero (pos + length d) buf else buf)"

abbreviation journal_key :: "int \<Rightarrow> logkey" where
  "journal_key seq \<equiv> (-1, seq)"

definition map_items :: "(clfs \<Rightarrow> clfs option) \<Rightarrow> lfs \<Rightarrow> lfs option" where
  "map_items f s = map_option (\<lambda>fs. s\<lparr>fs_items := fs\<rparr>) (f (fs_items s))"

definition upd_cachefile :: "logkey \<Rightarrow> (cachefile \<Rightarrow> cachefile) \<Rightarrow> lfs \<Rightarrow> lfs" where
  "upd_cachefile k f s = s\<lparr>mmap_cache := (mmap_cache s)(k := map_option f (mmap_cache s k))\<rparr>"


section \<open>Committing and opening journal files\<close>

text \<open>The loop of \<^verbatim>\<open>log_commit\<close> over the items written since the last commit.\<close>

definition commit_item :: "ref \<Rightarrow> clfs \<Rightarrow> clfs option" where
  "commit_item r fs =
     (case get_item fs r of None \<Rightarrow> None
      | Some c \<Rightarrow>
          let fs = bluesky_cloudlog_stats_update c (-1) fs;
              c = c\<lparr>pending_write := pending_write c - {CLOUDLOG_JOURNAL},
                    location_flags := location_flags c - {CLOUDLOG_UNCOMMITTED} \<union> {CLOUDLOG_JOURNAL}\<rparr>;
              fs = bluesky_cloudlog_stats_update c 1 (set_item r c fs)
          in bluesky_cloudlog_unref (Some r) fs)"

fun commit_items :: "ref list \<Rightarrow> clfs \<Rightarrow> clfs option" where
  "commit_items [] fs = Some fs"
| "commit_items (r # rs) fs = Option.bind (commit_item r fs) (commit_items rs)"

definition update_disk_used :: "env \<Rightarrow> logkey \<Rightarrow> lfs \<Rightarrow> lfs" where
  "update_disk_used env k s =
     (case mmap_cache s k of None \<Rightarrow> s
      | Some cf \<Rightarrow>
          let used = (case map_of (disk s) k of None \<Rightarrow> cf_disk_used cf | Some buf \<Rightarrow> (st_blocks env buf + 1) div 2) in
          (upd_cachefile k (\<lambda>cf. cf\<lparr>cf_disk_used := used\<rparr>) s)
            \<lparr>log_disk_used := log_disk_used s - cf_disk_used cf + used\<rparr>)"

definition log_commit :: "env \<Rightarrow> lfs \<Rightarrow> lfs option" where
  "log_commit env s =
     (case log_fd s of None \<Rightarrow> Some s
      | Some k \<Rightarrow>
          let s = (case map_of (disk s) k of None \<Rightarrow> s | Some buf \<Rightarrow> s\<lparr>stable := AList.update k buf (stable s)\<rparr>) in
          (case current_log s of None \<Rightarrow> None
           | Some cur \<Rightarrow>
               let s = update_disk_used env cur s in
               map_option (\<lambda>fs. s\<lparr>fs_items := fs, committed := []\<rparr>) (commit_items (committed s) (fs_items s))))"

definition bluesky_cachefile_unref :: "logkey \<Rightarrow> lfs \<Rightarrow> lfs" where
  "bluesky_cachefile_unref k s = upd_cachefile k (\<lambda>cf. cf\<lparr>cf_refcount := cf_refcount cf - 1\<rparr>) s"

text \<open>
  \<^verbatim>\<open>cloudlog_fetch_start\<close> and \<^verbatim>\<open>cloudlog_partial_fetch_start\<close>: a request to the store, with the
  offset and length asked for (0 for all).
\<close>

definition cloudlog_fetch_start :: "logkey \<Rightarrow> lfs \<Rightarrow> lfs" where
  "cloudlog_fetch_start k s =
     (upd_cachefile k (\<lambda>cf. cf\<lparr>cf_refcount := cf_refcount cf + 1, cf_fetching := True\<rparr>) s)
       \<lparr>fetch_requests := fetch_requests s @ [(k, 0, 0)]\<rparr>"

definition cloudlog_partial_fetch_start :: "logkey \<Rightarrow> nat \<Rightarrow> nat \<Rightarrow> lfs \<Rightarrow> lfs" where
  "cloudlog_partial_fetch_start k offset len s =
     (upd_cachefile k (\<lambda>cf. cf\<lparr>cf_refcount := cf_refcount cf + 1\<rparr>) s)
       \<lparr>fetch_requests := fetch_requests s @ [(k, offset, len)]\<rparr>"

definition new_cachefile :: cachefile where
  "new_cachefile = \<lparr>cf_refcount = 0, cf_mapcount = 0, cf_mapped = None, cf_disk_used = 0, cf_fetching = False,
     cf_complete = False, cf_atime = 0, cf_items = bluesky_rangeset_new, cf_prefetches = None\<rparr>"

text \<open>
  A stale reference to a journal file that no longer exists gives no cache file;
  a new entry creates the file and sets its length to 5 MiB.
\<close>

definition bluesky_cachefile_lookup :: "int \<Rightarrow> int \<Rightarrow> bool \<Rightarrow> lfs \<Rightarrow> logkey option \<times> lfs" where
  "bluesky_cachefile_lookup clouddir seq start_fetch s =
     (let k = (if clouddir < 0 then journal_key seq else (clouddir, seq)) in
      if mmap_cache s k = None \<and> clouddir < 0 \<and> map_of (disk s) k = None then (None, s)
      else
        let s = (if mmap_cache s k = None then
                   s\<lparr>mmap_cache := (mmap_cache s)(k \<mapsto> new_cachefile),
                     disk := AList.update k (resize_zero (5 * 2 ^ 20) (case map_of (disk s) k of None \<Rightarrow> [] | Some buf \<Rightarrow> buf)) (disk s)\<rparr>
                 else s);
            s = (case mmap_cache s k of None \<Rightarrow> s
                 | Some cf \<Rightarrow>
                     if clouddir \<ge> 0 \<and> start_fetch \<and> \<not> cf_complete cf \<and> \<not> cf_fetching cf then cloudlog_fetch_start k s
                     else s)
        in (Some k, upd_cachefile k (\<lambda>cf. cf\<lparr>cf_refcount := cf_refcount cf + 1\<rparr>) s))"

text \<open>
  The loop of \<^verbatim>\<open>log_open\<close> for a name that is not taken; a directory has only so many
  files, so \<open>fuel\<close> above their number is enough.
\<close>

fun free_seq :: "nat \<Rightarrow> (logkey \<times> bytes) list \<Rightarrow> int \<Rightarrow> int option" where
  "free_seq 0 files seq = None"
| "free_seq (Suc fuel) files seq = (if map_of files (journal_key seq) = None then Some seq else free_seq fuel files (seq + 1))"

definition log_open :: "env \<Rightarrow> lfs \<Rightarrow> lfs option" where
  "log_open env s =
     (case (if log_fd s \<noteq> None
            then map_option (\<lambda>s. s\<lparr>seq_num := seq_num s + 1, log_fd := None\<rparr>) (log_commit env s)
            else Some s) of
        None \<Rightarrow> None
      | Some s \<Rightarrow>
          let s = (case current_log s of None \<Rightarrow> s | Some k \<Rightarrow> (bluesky_cachefile_unref k s)\<lparr>current_log := None\<rparr>) in
          (case free_seq (Suc (length (disk s))) (disk s) (seq_num s) of None \<Rightarrow> None
           | Some seq \<Rightarrow>
               let k = journal_key seq;
                   s = s\<lparr>seq_num := seq, log_fd := Some k, log_pos := 0, disk := AList.update k [] (disk s)\<rparr>;
                   (cur, s) = bluesky_cachefile_lookup (-1) seq False s
               in
               (case cur of None \<Rightarrow> None
                | Some cur \<Rightarrow>
                    let buf = resize_zero LOG_SEGMENT_SIZE (case map_of (disk s) k of None \<Rightarrow> [] | Some buf \<Rightarrow> buf)
                    in Some (s\<lparr>current_log := Some cur, disk := AList.update k buf (disk s),
                               stable := AList.update k buf (stable s)\<rparr>))))"


section \<open>Fetching segments and mapping items\<close>

text \<open>
  \<^verbatim>\<open>bluesky_cachefile_map_raw\<close>.  A mapping is shared, so it shows the contents of the file.
  The last case of the source reads with \<^verbatim>\<open>readbuf\<close>, which always returns 0, so it
  succeeds only for an empty range.  Offsets and sizes are not negative.
\<close>

definition bluesky_cachefile_map_raw :: "i64 \<Rightarrow> logkey \<Rightarrow> nat \<Rightarrow> nat \<Rightarrow> lfs \<Rightarrow> (bytes option \<times> lfs) option" where
  "bluesky_cachefile_map_raw now k offset len s =
     (case mmap_cache s k of None \<Rightarrow> None
      | Some cf \<Rightarrow>
          let s = upd_cachefile k (\<lambda>cf. cf\<lparr>cf_atime := now\<rparr>) s in
          (case map_of (disk s) k of
             None \<Rightarrow> (case cf_mapped cf of None \<Rightarrow> Some (None, s) | Some l \<Rightarrow> if offset + len \<le> l then None else Some (None, s))
           | Some buf \<Rightarrow>
               (case cf_mapped cf of
                  None \<Rightarrow>
                    if offset + len > length buf then Some (None, s)
                    else Some (Some (slice offset len buf),
                           upd_cachefile k (\<lambda>cf. cf\<lparr>cf_mapped := Some (length buf), cf_refcount := cf_refcount cf + 1,
                                                     cf_mapcount := cf_mapcount cf + 1\<rparr>) s)
                | Some l \<Rightarrow>
                    if offset + len \<le> l then
                      (if offset + len > length buf then None
                       else Some (Some (slice offset len buf), upd_cachefile k (\<lambda>cf. cf\<lparr>cf_mapcount := cf_mapcount cf + 1\<rparr>) s))
                    else if offset + len > length buf then Some (None, s)
                    else if len = 0 then Some (Some [], s)
                    else Some (None, s))))"

text \<open>\<^verbatim>\<open>bluesky_mmap_unref\<close>, when a string that refers to a mapping is released.\<close>

definition bluesky_mmap_unref :: "logkey \<Rightarrow> lfs \<Rightarrow> lfs option" where
  "bluesky_mmap_unref k s =
     (case mmap_cache s k of None \<Rightarrow> Some s
      | Some cf \<Rightarrow>
          let n = cf_mapcount cf - 1;
              cf = cf\<lparr>cf_mapcount := n\<rparr>;
              cf = (if n = 0 \<and> cf_mapped cf \<noteq> None then cf\<lparr>cf_mapped := None, cf_refcount := cf_refcount cf - 1\<rparr> else cf)
          in if n < 0 then None else Some (upd_cachefile k (\<lambda>_. cf) s))"

text \<open>
  The loop of \<^verbatim>\<open>cloudlog_partial_fetch_complete\<close> that merges the items of the fetched data
  into the file; an item is visited once, so as many rounds as there are items
  are enough.
\<close>

definition merge_item :: "env \<Rightarrow> logkey \<Rightarrow> nat \<Rightarrow> bytes \<Rightarrow> bool rangeset_item \<Rightarrow> lfs \<Rightarrow> lfs" where
  "merge_item env k start data item s =
     (case (mmap_cache s k, map_of (disk s) k) of
        (Some cf, Some buf) \<Rightarrow>
          let (rs, inserted) = bluesky_rangeset_insert (seq_search env) (cf_items cf) (of_nat start + rs_start item)
                                 (rs_length item) (rs_data item);
              s = upd_cachefile k (\<lambda>cf. cf\<lparr>cf_items := rs\<rparr>) s
          in if inserted
             then s\<lparr>disk := AList.update k (file_write (start + unat (rs_start item))
                      (slice (unat (rs_start item)) (unat (rs_length item)) data) buf) (disk s)\<rparr>
             else s
      | _ \<Rightarrow> s)"

fun merge_items :: "nat \<Rightarrow> env \<Rightarrow> logkey \<Rightarrow> nat \<Rightarrow> bytes \<Rightarrow> bool rangeset_item list \<Rightarrow> u64 \<Rightarrow> lfs \<Rightarrow> lfs option" where
  "merge_items 0 env k start data items off s = None"
| "merge_items (Suc fuel) env k start data items off s =
     (case bluesky_rangeset_lookup_next (seq_search env) items off of
        None \<Rightarrow> Some s
      | Some item \<Rightarrow> merge_items fuel env k start data items (rs_start item + 1) (merge_item env k start data item s))"

text \<open>The result of a store request: the file, the range asked for, and the data or an error.\<close>

type_synonym fetch_result = "logkey \<times> nat \<times> nat \<times> bytes option"

definition cloudlog_partial_fetch_complete :: "env \<Rightarrow> fetch_result \<Rightarrow> lfs \<Rightarrow> lfs option" where
  "cloudlog_partial_fetch_complete env res s =
     (case res of (k, start, len, result) \<Rightarrow>
        (case (case result of
                 None \<Rightarrow> Some (cloudlog_partial_fetch_start k start len s)
               | Some data \<Rightarrow>
                   let s = (if len = 0 then upd_cachefile k (\<lambda>cf. cf\<lparr>cf_complete := True\<rparr>) s else s) in
                   (case map_of (disk s) k of None \<Rightarrow> Some s
                    | Some buf \<Rightarrow>
                        (case bluesky_cloudlog_decrypt (seq_search env) (env_crypt env) (disable_crypto env) (fs_keys env)
                                (fst k = int (unat BLUESKY_CLOUD_DIR_CLEANER)) data (Some bluesky_rangeset_new) of
                           None \<Rightarrow> None
                         | Some (data, items) \<Rightarrow>
                             let items = (case items of None \<Rightarrow> [] | Some rs \<Rightarrow> rs)
                             in merge_items (Suc (length items)) env k start data items 0 s))) of
           None \<Rightarrow> None
         | Some s \<Rightarrow> Some (bluesky_cachefile_unref k (update_disk_used env k s))))"

text \<open>
  The loop of \<^verbatim>\<open>bluesky_log_map_object\<close> that waits for an item of a cloud segment: each
  round that does not find it takes the next result of a store request.  The
  result is whether the item is there; with no more results the wait does not
  end, \<open>None\<close>.
\<close>

definition request_item :: "logkey \<Rightarrow> nat \<Rightarrow> nat \<Rightarrow> lfs \<Rightarrow> lfs" where
  "request_item k off len s =
     (case mmap_cache s k of None \<Rightarrow> s
      | Some cf \<Rightarrow>
          let (start, n) = (case cf_prefetches cf of None \<Rightarrow> (off, len)
                            | Some rs \<Rightarrow> let (a, b) = bluesky_rangeset_get_extents rs in (unat a, unat b));
              start = min start off;
              fin = max (start + n) (off + len);
              s = cloudlog_partial_fetch_start k start (fin - start) s
          in upd_cachefile k (\<lambda>cf. cf\<lparr>cf_prefetches := None\<rparr>) s)"

fun cloud_wait :: "fetch_result list \<Rightarrow> env \<Rightarrow> logkey \<Rightarrow> nat \<Rightarrow> nat \<Rightarrow> lfs \<Rightarrow> (bool \<times> lfs) option" where
  "cloud_wait results env k off len s =
     (case mmap_cache s k of None \<Rightarrow> None
      | Some cf \<Rightarrow>
          (case bluesky_rangeset_lookup (seq_search env) (cf_items cf) (of_nat off) of
             Some item \<Rightarrow> Some (rs_start item = of_nat off \<and> rs_length item = of_nat len, s)
           | None \<Rightarrow>
               let s = (if full_segment_fetches env then s else request_item k off len s) in
               (case results of [] \<Rightarrow> None
                | res # results \<Rightarrow>
                    (case cloudlog_partial_fetch_complete env res s of None \<Rightarrow> None
                     | Some s \<Rightarrow> cloud_wait results env k off len s))))"

declare cloud_wait.simps [simp del]

text \<open>The end of \<^verbatim>\<open>bluesky_log_map_object\<close>: map the range, release the file, count the item again.\<close>

definition recount :: "ref \<Rightarrow> lfs \<Rightarrow> lfs" where
  "recount r s = (case get_item (fs_items s) r of None \<Rightarrow> s
     | Some c \<Rightarrow> s\<lparr>fs_items := bluesky_cloudlog_stats_update c 1 (fs_items s)\<rparr>)"

definition map_found :: "i64 \<Rightarrow> ref \<Rightarrow> bool \<Rightarrow> logkey \<Rightarrow> nat \<Rightarrow> nat \<Rightarrow> nat \<Rightarrow> nat \<Rightarrow> lfs \<Rightarrow> (bytes option \<times> lfs) option" where
  "map_found now r map_data k header dsize off len s =
     map_option (\<lambda>(str, s). (str, recount r (bluesky_cachefile_unref k s)))
       (if map_data then bluesky_cachefile_map_raw now k (off + header) dsize s
        else bluesky_cachefile_map_raw now k off len s)"

definition bluesky_log_map_object ::
    "env \<Rightarrow> i64 \<Rightarrow> fetch_result list \<Rightarrow> ref \<Rightarrow> bool \<Rightarrow> lfs \<Rightarrow> (bytes option \<times> lfs) option" where
  "bluesky_log_map_object env now results r map_data s =
     (case get_item (fs_items s) r of None \<Rightarrow> None
      | Some item \<Rightarrow>
          let s = s\<lparr>fs_items := bluesky_cloudlog_stats_update item (-1) (fs_items s)\<rparr>;
              (jk, s) = (if CLOUDLOG_JOURNAL \<in> location_flags item \<union> pending_write item
                         then bluesky_cachefile_lookup (-1) (log_seq item) True s else (None, s));
              dsize = nat (data_size item)
          in
          (case jk of
             Some k \<Rightarrow> map_found now r map_data k sizeof_log_header dsize (nat (log_offset item)) (nat (log_size item)) s
           | None \<Rightarrow>
               if CLOUDLOG_CLOUD \<notin> location_flags item then None
               else
                 let item = item\<lparr>location_flags := location_flags item - {CLOUDLOG_JOURNAL}\<rparr>;
                     s = s\<lparr>fs_items := set_item r item (fs_items s)\<rparr>;
                     p = cl_location item;
                     (ck, s) = bluesky_cachefile_lookup (sint (cp_directory p)) (sint (cp_sequence p)) (full_segment_fetches env) s
                 in
                 (case ck of None \<Rightarrow> Some (None, recount r s)
                  | Some k \<Rightarrow>
                      (case cloud_wait results env k (unat (cp_offset p)) (unat (cp_size p)) s of
                         None \<Rightarrow> None
                       | Some (False, s) \<Rightarrow> Some (None, recount r (bluesky_cachefile_unref k s))
                       | Some (True, s) \<Rightarrow>
                           map_found now r map_data k sizeof_cloudlog_header dsize (unat (cp_offset p)) (unat (cp_size p)) s))))"

text \<open>\<^verbatim>\<open>bluesky_cloudlog_fetch\<close> of \<^verbatim>\<open>bluesky/cloudlog.c\<close>.\<close>

definition set_data :: "ref \<Rightarrow> bytes option \<Rightarrow> lfs \<Rightarrow> lfs" where
  "set_data r d s = (case get_item (fs_items s) r of None \<Rightarrow> s
     | Some c \<Rightarrow> s\<lparr>fs_items := set_item r (c\<lparr>cl_data := d\<rparr>) (fs_items s)\<rparr>)"

definition bluesky_cloudlog_fetch :: "env \<Rightarrow> i64 \<Rightarrow> fetch_result list \<Rightarrow> ref \<Rightarrow> lfs \<Rightarrow> lfs option" where
  "bluesky_cloudlog_fetch env now results r s =
     (case get_item (fs_items s) r of None \<Rightarrow> None
      | Some item \<Rightarrow>
          if cl_data item \<noteq> None then Some s
          else
            case (if cl_type item = LOGTYPE_UNKNOWN then
                    (case bluesky_log_map_object env now results r False s of
                       Some (Some raw, s) \<Rightarrow> map_items (bluesky_deserialize_cloudlog r raw) s
                     | _ \<Rightarrow> None)
                  else Some s) of
              None \<Rightarrow> None
            | Some s \<Rightarrow>
                (case bluesky_log_map_object env now results r True s of
                   Some (Some d, s) \<Rightarrow> Some (set_data r (Some d) s)
                 | _ \<Rightarrow> None))"


section \<open>The log thread\<close>

definition bluesky_log_item_submit :: "ref \<Rightarrow> clfs \<Rightarrow> clfs option" where
  "bluesky_log_item_submit r fs =
     (case get_item fs r of None \<Rightarrow> None
      | Some c \<Rightarrow>
          if CLOUDLOG_JOURNAL \<in> location_flags c then Some fs
          else Some ((set_item r (c\<lparr>cl_refcount := cl_refcount c + 1,
                                    location_flags := insert CLOUDLOG_UNCOMMITTED (location_flags c),
                                    data_lock_count := data_lock_count c + 1\<rparr>) fs)
                       \<lparr>journal_queue := journal_queue fs @ [r]\<rparr>))"

text \<open>
  The part of a round of \<^verbatim>\<open>log_thread\<close> after an item was taken from the queue: it is
  written at the end of the journal, in a new file if it does not fit, and its
  data replaced by the mapped copy.
\<close>

definition log_space :: "env \<Rightarrow> nat \<Rightarrow> lfs \<Rightarrow> lfs option" where
  "log_space env rsize s =
     (if log_pos s + rsize \<ge> LOG_SEGMENT_SIZE \<and> log_pos s > 0 then log_open env s else Some s)"

definition log_write :: "bytes \<Rightarrow> lfs \<Rightarrow> lfs option" where
  "log_write rec s =
     (case log_fd s of None \<Rightarrow> None
      | Some k \<Rightarrow>
          (case map_of (disk s) k of None \<Rightarrow> None
           | Some buf \<Rightarrow> Some (s\<lparr>disk := AList.update k (file_write (log_pos s) rec buf) (disk s),
                                log_pos := log_pos s + length rec\<rparr>)))"

definition set_logged :: "ref \<Rightarrow> nat \<Rightarrow> nat \<Rightarrow> lfs \<Rightarrow> lfs option" where
  "set_logged r offset rsize s =
     (case get_item (fs_items s) r of None \<Rightarrow> None
      | Some c \<Rightarrow>
          Some (s\<lparr>fs_items := set_item r (c\<lparr>log_seq := seq_num s, log_offset := int offset, log_size := int rsize,
                    data_size := (case cl_data c of None \<Rightarrow> 0 | Some d \<Rightarrow> int (length d)), cl_data := None\<rparr>) (fs_items s)\<rparr>))"

definition log_item :: "env \<Rightarrow> i64 \<Rightarrow> ref \<Rightarrow> lfs \<Rightarrow> lfs option" where
  "log_item env now r s =
     (case get_item (fs_items s) r of None \<Rightarrow> None
      | Some c \<Rightarrow>
          let fs = bluesky_cloudlog_stats_update c (-1) (fs_items s);
              c = c\<lparr>pending_write := insert CLOUDLOG_JOURNAL (pending_write c)\<rparr>;
              s = s\<lparr>fs_items := bluesky_cloudlog_stats_update c 1 (set_item r c fs)\<rparr>
          in
          (case bluesky_serialize_cloudlog c (fs_items s) of None \<Rightarrow> None
           | Some (d1, d2, d3) \<Rightarrow>
               let rsize = sizeof_log_header + sizeof_log_footer + (length d1 + length d2 + length d3) in
               Option.bind (log_space env rsize s) (\<lambda>s.
               Option.bind (log_write (journal_record (log_pos s) (c, d1, d2, d3)) s) (\<lambda>s'.
               Option.bind (set_logged r (log_pos s) rsize s') (\<lambda>s'.
               Option.bind (bluesky_cloudlog_fetch env now [] r s') (\<lambda>s'.
               case get_item (fs_items s') r of None \<Rightarrow> None
               | Some c \<Rightarrow>
                   let s' = s'\<lparr>fs_items := set_item r (c\<lparr>data_lock_count := data_lock_count c - 1\<rparr>) (fs_items s'),
                               committed := r # committed s'\<rparr>
                   in if journal_queue (fs_items s') = [] then log_commit env s' else Some s'))))))"

text \<open>
  One round of \<^verbatim>\<open>log_thread\<close>; with an empty queue it waits.  For an item that is in the
  journal already the source drops the reference of the queue first and then the
  data lock, which is an error if that was the last reference.
\<close>

definition log_thread_step :: "env \<Rightarrow> i64 \<Rightarrow> lfs \<Rightarrow> lfs option" where
  "log_thread_step env now s =
     Option.bind (if log_fd s = None then log_open env s else Some s) (\<lambda>s.
     case journal_queue (fs_items s) of [] \<Rightarrow> Some s
     | r # rs \<Rightarrow>
         let s = s\<lparr>fs_items := (fs_items s)\<lparr>journal_queue := rs\<rparr>\<rparr> in
         (case get_item (fs_items s) r of None \<Rightarrow> None
          | Some c \<Rightarrow>
              if cl_data c = None then None
              else if CLOUDLOG_JOURNAL \<in> location_flags c \<union> pending_write c then
                Option.bind (map_items (bluesky_cloudlog_unref (Some r)) s) (\<lambda>s.
                case get_item (fs_items s) r of None \<Rightarrow> None
                | Some c \<Rightarrow> Some (s\<lparr>fs_items := set_item r (c\<lparr>data_lock_count := data_lock_count c - 1\<rparr>) (fs_items s)\<rparr>))
              else log_item env now r s))"

text \<open>
  \<^verbatim>\<open>bluesky_log_finish_all\<close>: the items that are left to wait for, as soon as one is not
  committed.
\<close>

fun bluesky_log_finish_all :: "ref list \<Rightarrow> clfs \<Rightarrow> (ref list \<times> clfs) option" where
  "bluesky_log_finish_all [] fs = Some ([], fs)"
| "bluesky_log_finish_all (r # rs) fs =
     (case get_item fs r of None \<Rightarrow> None
      | Some c \<Rightarrow>
          if CLOUDLOG_UNCOMMITTED \<in> location_flags c then Some (r # rs, fs)
          else Option.bind (bluesky_cloudlog_unref (Some r) fs) (bluesky_log_finish_all rs))"

text \<open>
  The markers of the journal: the item written to find out how far the journal
  got, what its writer waits for, and the record that says that everything
  before the marker is in the cloud.
\<close>

definition journal_marker :: "int \<Rightarrow> bytes \<Rightarrow> bytes \<Rightarrow> clfs \<Rightarrow> (ref \<times> clfs) option" where
  "journal_marker type data oid fs =
     (let (r, fs) = bluesky_cloudlog_new oid fs;
          c = (new_cloudlog oid)\<lparr>cl_type := type, cl_data := Some data\<rparr>;
          fs = bluesky_cloudlog_stats_update c 1 (set_item r c fs)
      in map_option (Pair r) (bluesky_log_item_submit r fs))"

definition bluesky_log_get_commit_point :: "bytes \<Rightarrow> clfs \<Rightarrow> (ref \<times> clfs) option" where
  "bluesky_log_get_commit_point oid fs = journal_marker LOGTYPE_JOURNAL_MARKER [] oid fs"

definition commit_point_ready :: "ref \<Rightarrow> clfs \<Rightarrow> bool option" where
  "commit_point_ready marker fs =
     map_option (\<lambda>c. CLOUDLOG_JOURNAL \<notin> pending_write c) (get_item fs marker)"

definition bluesky_log_write_commit_point :: "ref \<Rightarrow> bytes \<Rightarrow> clfs \<Rightarrow> (ref \<times> clfs) option" where
  "bluesky_log_write_commit_point marker oid fs =
     (case get_item fs marker of None \<Rightarrow> None
      | Some m \<Rightarrow>
          journal_marker LOGTYPE_JOURNAL_CHECKPOINT (le32 (word_of_int (log_seq m)) @ le32 (word_of_int (log_offset m))) oid fs)"

definition finish_commit_point :: "ref \<Rightarrow> ref \<Rightarrow> clfs \<Rightarrow> clfs option" where
  "finish_commit_point marker commit fs =
     Option.bind (bluesky_cloudlog_unref (Some marker) fs) (bluesky_cloudlog_unref (Some commit))"

end
