(* ===== verification/BlueSky_Journal.thy ===== *)
theory BlueSky_Journal
  imports BlueSky_Log
begin

text \<open>
  Correctness of the journal: the log thread keeps the state of the log
  consistent, an item it has written can be read back from the journal, and an
  item marked as committed has a complete, valid record on stable storage.
\<close>


section \<open>Committing items\<close>

definition mark_committed :: "cloudlog \<Rightarrow> cloudlog" where
  "mark_committed c = c\<lparr>pending_write := pending_write c - {CLOUDLOG_JOURNAL},
     location_flags := location_flags c - {CLOUDLOG_UNCOMMITTED} \<union> {CLOUDLOG_JOURNAL}\<rparr>"

text \<open>Items may be freed and their counts change; those in \<open>R\<close> that are left are marked.\<close>

definition marked :: "ref set \<Rightarrow> clfs \<Rightarrow> clfs \<Rightarrow> bool" where
  "marked R fs fs' \<longleftrightarrow>
     (\<forall>q c'. get_item fs' q = Some c' \<longrightarrow>
        (\<exists>c. get_item fs q = Some c \<and> c' = (if q \<in> R then mark_committed c else c)\<lparr>cl_refcount := cl_refcount c'\<rparr>)) \<and>
     length (cl_items fs') = length (cl_items fs) \<and>
     unref_queue fs' = unref_queue fs \<and> journal_queue fs' = journal_queue fs"

lemma markedD:
  assumes "marked R fs fs'" "get_item fs' q = Some c'"
  shows "\<exists>c. get_item fs q = Some c \<and> c' = (if q \<in> R then mark_committed c else c)\<lparr>cl_refcount := cl_refcount c'\<rparr>"
  using assms unfolding marked_def by blast

lemma mark_refcount: "mark_committed (c\<lparr>cl_refcount := n\<rparr>) = (mark_committed c)\<lparr>cl_refcount := n\<rparr>"
  by (simp add: mark_committed_def)

lemma mark_twice: "mark_committed (mark_committed c) = mark_committed c"
  by (cases c) (auto simp: mark_committed_def)

lemma mark_simps [simp]:
  "cl_data (mark_committed c) = cl_data c" "cl_type (mark_committed c) = cl_type c" "cl_id (mark_committed c) = cl_id c"
  "log_seq (mark_committed c) = log_seq c" "log_offset (mark_committed c) = log_offset c" "log_size (mark_committed c) = log_size c"
  "data_size (mark_committed c) = data_size c" "cl_links (mark_committed c) = cl_links c" "cl_refcount (mark_committed c) = cl_refcount c"
  "pending_write (mark_committed c) = pending_write c - {CLOUDLOG_JOURNAL}"
  "location_flags (mark_committed c) = location_flags c - {CLOUDLOG_UNCOMMITTED} \<union> {CLOUDLOG_JOURNAL}"
  by (simp_all add: mark_committed_def)

lemma marked_refl: "marked {} fs fs"
  by (simp add: marked_def)

lemma marked_trans:
  assumes "marked A a b" "marked B b c"
  shows "marked (A \<union> B) a c"
  unfolding marked_def
proof (intro conjI allI impI)
  fix q z
  assume "get_item c q = Some z"
  from markedD [OF assms(2) this] obtain y where y: "get_item b q = Some y"
    "z = (if q \<in> B then mark_committed y else y)\<lparr>cl_refcount := cl_refcount z\<rparr>" by blast
  from markedD [OF assms(1) y(1)] obtain x where x: "get_item a q = Some x"
    "y = (if q \<in> A then mark_committed x else x)\<lparr>cl_refcount := cl_refcount y\<rparr>" by blast
  have "z = (if q \<in> A \<union> B then mark_committed x else x)\<lparr>cl_refcount := cl_refcount z\<rparr>"
  proof -
    have e: "y\<lparr>cl_refcount := n\<rparr> = (if q \<in> A then mark_committed x else x)\<lparr>cl_refcount := n\<rparr>" for n by (subst x(2)) simp
    have "(mark_committed y)\<lparr>cl_refcount := n\<rparr> = (mark_committed x)\<lparr>cl_refcount := n\<rparr>" for n
      by (simp only: mark_refcount [symmetric] e) (simp add: mark_refcount mark_twice)
    with e show ?thesis by (subst y(2)) simp
  qed
  with x(1) show "\<exists>x. get_item a q = Some x \<and> z = (if q \<in> A \<union> B then mark_committed x else x)\<lparr>cl_refcount := cl_refcount z\<rparr>"
    by blast
qed (use assms in \<open>auto simp: marked_def\<close>)

lemma survives_marked: "survives fs fs' \<Longrightarrow> marked {} fs fs'"
  by (auto simp: survives_def marked_def)

lemma loc_ok_cong: "cl_items fs' = cl_items fs \<Longrightarrow> locations fs' = locations fs \<Longrightarrow> loc_ok fs' = loc_ok fs"
  by (simp add: loc_ok_def get_item_def)

lemma commit_item_ok:
  assumes ok: "rc_ok own fs" "loc_ok fs" "stats_ok fs" and r: "0 < own r"
  shows "\<exists>fs'. commit_item r fs = Some fs' \<and> rc_ok (own(r := own r - 1)) fs' \<and> loc_ok fs' \<and> stats_ok fs' \<and> marked {r} fs fs'"
proof -
  from rc_ok_live [OF ok(1) r] obtain c where c: "get_item fs r = Some c" by blast
  let ?fs0 = "bluesky_cloudlog_stats_update c (-1) fs"
  let ?fs1 = "bluesky_cloudlog_stats_update (mark_committed c) 1 (set_item r (mark_committed c) ?fs0)"
  have g0: "get_item ?fs0 r = Some c" using c by simp
  have rc: "rc_ok own ?fs1"
  proof -
    have "rc_ok own (set_item r (mark_committed c) fs)"
      using rc_okD(1,2) [OF ok(1) c] by (intro rc_ok_set [OF ok(1) c]) (auto simp: item_links_def)
    then show ?thesis using rc_ok_cong [of ?fs1 "set_item r (mark_committed c) fs"] by (simp add: set_item_def)
  qed
  have loc: "loc_ok ?fs1"
  proof -
    have "loc_ok (set_item r (mark_committed c) fs)" by (rule loc_ok_set [OF ok(2) c]) simp
    then show ?thesis using loc_ok_cong [of ?fs1 "set_item r (mark_committed c) fs"] by (simp add: set_item_def)
  qed
  have m: "marked {r} fs ?fs1"
    unfolding marked_def
  proof (intro conjI allI impI)
    fix q c'
    assume "get_item ?fs1 q = Some c'"
    then have "(if q = r then Some (mark_committed c) else get_item fs q) = Some c'" using g0 by (simp split: if_splits)
    then show "\<exists>x. get_item fs q = Some x \<and> c' = (if q \<in> {r} then mark_committed x else x)\<lparr>cl_refcount := cl_refcount c'\<rparr>"
      using c by (auto split: if_splits)
  qed (simp_all add: set_item_def)
  from unref_ok [OF rc loc stats_ok_bracket [OF ok(3) c] r] obtain fs'
    where u: "bluesky_cloudlog_unref (Some r) ?fs1 = Some fs'" "rc_ok (own(r := own r - 1)) fs'" "loc_ok fs'" "stats_ok fs'"
      "survives ?fs1 fs'" by blast
  have "commit_item r fs = Some fs'"
    using c u(1) by (simp add: commit_item_def mark_committed_def Let_def)
  with u marked_trans [OF m survives_marked [OF u(5)]] show ?thesis by auto
qed

lemma commit_items_ok:
  assumes "rc_ok (\<lambda>q. own q + count_list rs q) fs" "loc_ok fs" "stats_ok fs"
  shows "\<exists>fs'. commit_items rs fs = Some fs' \<and> rc_ok own fs' \<and> loc_ok fs' \<and> stats_ok fs' \<and> marked (set rs) fs fs'"
  using assms
proof (induction rs arbitrary: fs)
  case Nil
  then show ?case by (simp add: marked_refl)
next
  case (Cons r rs)
  let ?own = "\<lambda>q. own q + count_list (r # rs) q"
  from commit_item_ok [OF Cons.prems, of r] obtain fs1
    where f: "commit_item r fs = Some fs1" "rc_ok (?own(r := ?own r - 1)) fs1" "loc_ok fs1" "stats_ok fs1" "marked {r} fs fs1"
    by auto
  have "?own(r := ?own r - 1) = (\<lambda>q. own q + count_list rs q)" by (auto simp: fun_eq_iff)
  with f(2) have "rc_ok (\<lambda>q. own q + count_list rs q) fs1" by simp
  from Cons.IH [OF this f(3,4)] obtain fs' where i: "commit_items rs fs1 = Some fs'" "rc_ok own fs'" "loc_ok fs'" "stats_ok fs'"
    "marked (set rs) fs1 fs'" by blast
  with f(1) marked_trans [OF f(5) i(5)] show ?case by auto
qed


section \<open>The invariant of the log\<close>

text \<open>Whether a file is cached and, if so, how much of it is mapped.\<close>

definition mapped :: "lfs \<Rightarrow> logkey \<Rightarrow> nat option option" where
  "mapped s k = map_option cf_mapped (mmap_cache s k)"

text \<open>A record for the entry is in the buffer at the offset.\<close>

definition entry_at :: "bytes \<Rightarrow> nat \<Rightarrow> log_entry \<Rightarrow> bool" where
  "entry_at buf off e \<longleftrightarrow> entry_ok e \<and> off < 2 ^ 32 \<and> off + length (journal_record off e) \<le> length buf \<and>
     slice off (length (journal_record off e)) buf = journal_record off e"

definition in_file :: "(logkey \<times> bytes) list \<Rightarrow> cloudlog \<Rightarrow> log_entry \<Rightarrow> bool" where
  "in_file files c e \<longleftrightarrow>
     (\<exists>buf. map_of files (journal_key (log_seq c)) = Some buf \<and> 0 \<le> log_offset c \<and> entry_at buf (nat (log_offset c)) e)"

text \<open>The entry is the item: its identifier, its data if that is in memory, and the sizes the item records.\<close>

definition record_of :: "cloudlog \<Rightarrow> log_entry \<Rightarrow> bool" where
  "record_of c e = (case e of (c0, d1, d2, d3) \<Rightarrow>
     cl_id c0 = cl_id c \<and> cl_inum c0 = cl_inum c \<and> log_size c = int (53 + entry_size e) \<and> data_size c = int (length d1) \<and>
     length d1 + 32 * length (cl_links c) < 2 ^ 32 \<and> (cl_data c = None \<or> cl_data c = Some d1))"

definition logged :: "lfs \<Rightarrow> cloudlog \<Rightarrow> bool" where
  "logged s c \<longleftrightarrow>
     (\<exists>e. in_file (disk s) c e \<and> record_of c e \<and> (CLOUDLOG_JOURNAL \<in> location_flags c \<longrightarrow> in_file (stable s) c e)) \<and>
     mapped s (journal_key (log_seq c)) \<noteq> None \<and>
     (log_fd s = Some (journal_key (log_seq c)) \<longrightarrow> nat (log_offset c) + nat (log_size c) \<le> log_pos s)"

text \<open>Cache files have their file, mapped in full; the journal file that is open has room.\<close>

definition file_inv :: "lfs \<Rightarrow> bool" where
  "file_inv s \<longleftrightarrow>
     (\<forall>k m. mapped s k = Some m \<longrightarrow> (\<exists>buf. map_of (disk s) k = Some buf \<and> (\<forall>l. m = Some l \<longrightarrow> l = length buf))) \<and>
     (case log_fd s of None \<Rightarrow> current_log s = None \<and> committed s = []
      | Some k \<Rightarrow> k = journal_key (seq_num s) \<and> current_log s = Some k \<and>
          (\<exists>m buf. mapped s k = Some m \<and> map_of (disk s) k = Some buf \<and> log_pos s \<le> length buf \<and>
             LOG_SEGMENT_SIZE \<le> length buf \<and> (log_pos s = 0 \<longrightarrow> m = None)))"

text \<open>Items whose record is small enough, and items of the queue and those written but not committed.\<close>

definition item_small :: "cloudlog \<Rightarrow> bool" where
  "item_small c \<longleftrightarrow> length (cl_id c) = 16 \<and> (\<forall>d. cl_data c = Some d \<longrightarrow> length d + 32 * length (cl_links c) < 2 ^ 32)"

definition queued_ok :: "cloudlog \<Rightarrow> bool" where
  "queued_ok c \<longleftrightarrow> cl_data c \<noteq> None \<and> cl_type c \<noteq> LOGTYPE_UNKNOWN \<and> 0 < data_lock_count c \<and>
     CLOUDLOG_UNCOMMITTED \<in> location_flags c \<and> CLOUDLOG_JOURNAL \<notin> location_flags c \<union> pending_write c"

definition waiting :: "lfs \<Rightarrow> ref \<Rightarrow> cloudlog \<Rightarrow> bool" where
  "waiting s r c \<longleftrightarrow>
     (CLOUDLOG_UNCOMMITTED \<in> location_flags c \<longrightarrow> r \<in> set (journal_queue (fs_items s)) \<union> set (committed s)) \<and>
     (CLOUDLOG_JOURNAL \<in> pending_write c \<longrightarrow> r \<in> set (committed s))"

definition item_inv :: "ref set \<Rightarrow> lfs \<Rightarrow> bool" where
  "item_inv X s \<longleftrightarrow>
     (\<forall>r c. get_item (fs_items s) r = Some c \<longrightarrow>
        item_small c \<and>
        (r \<notin> X \<longrightarrow> waiting s r c \<and> (CLOUDLOG_JOURNAL \<in> location_flags c \<union> pending_write c \<longrightarrow> logged s c))) \<and>
     (\<forall>r \<in> set (committed s). r \<notin> X \<and> (\<exists>c. get_item (fs_items s) r = Some c \<and> CLOUDLOG_JOURNAL \<in> pending_write c \<and>
        log_fd s = Some (journal_key (log_seq c)))) \<and>
     (\<forall>r c. get_item (fs_items s) r = Some c \<longrightarrow> r \<in> set (journal_queue (fs_items s)) \<longrightarrow> queued_ok c) \<and>
     distinct (journal_queue (fs_items s))"

definition journal_refs :: "lfs \<Rightarrow> ref \<Rightarrow> nat" where
  "journal_refs s r = count_list (journal_queue (fs_items s)) r + count_list (committed s) r"

text \<open>\<open>own\<close> counts the references from outside the log; the items in \<open>X\<close> are about to be written.\<close>

definition log_inv :: "ref set \<Rightarrow> (ref \<Rightarrow> nat) \<Rightarrow> lfs \<Rightarrow> bool" where
  "log_inv X own s \<longleftrightarrow>
     rc_ok (\<lambda>r. own r + journal_refs s r) (fs_items s) \<and> loc_ok (fs_items s) \<and> stats_ok (fs_items s) \<and>
     file_inv s \<and> item_inv X s"

lemma log_invD:
  assumes "log_inv X own s"
  shows "rc_ok (\<lambda>r. own r + journal_refs s r) (fs_items s)" "loc_ok (fs_items s)" "stats_ok (fs_items s)"
    "file_inv s" "item_inv X s"
  using assms by (simp_all add: log_inv_def)

lemma file_invD:
  assumes "file_inv s"
  shows "mapped s k = Some m \<Longrightarrow> \<exists>buf. map_of (disk s) k = Some buf \<and> (\<forall>l. m = Some l \<longrightarrow> l = length buf)"
    and "log_fd s = None \<Longrightarrow> current_log s = None \<and> committed s = []"
    and "log_fd s = Some k \<Longrightarrow> k = journal_key (seq_num s) \<and> current_log s = Some k \<and>
          (\<exists>m buf. mapped s k = Some m \<and> map_of (disk s) k = Some buf \<and> log_pos s \<le> length buf \<and>
             LOG_SEGMENT_SIZE \<le> length buf \<and> (log_pos s = 0 \<longrightarrow> m = None))"
proof -
  note a = assms [unfolded file_inv_def, THEN conjunct1] and b = assms [unfolded file_inv_def, THEN conjunct2]
  show "\<exists>buf. map_of (disk s) k = Some buf \<and> (\<forall>l. m = Some l \<longrightarrow> l = length buf)" if "mapped s k = Some m"
    by (rule a [THEN spec, THEN spec, THEN mp, OF that])
  show "current_log s = None \<and> committed s = []" if "log_fd s = None" using b that by simp
  show "k = journal_key (seq_num s) \<and> current_log s = Some k \<and>
          (\<exists>m buf. mapped s k = Some m \<and> map_of (disk s) k = Some buf \<and> log_pos s \<le> length buf \<and>
             LOG_SEGMENT_SIZE \<le> length buf \<and> (log_pos s = 0 \<longrightarrow> m = None))" if "log_fd s = Some k"
    using b [unfolded that option.case] .
qed

lemma item_invD:
  assumes "item_inv X s"
  shows "get_item (fs_items s) r = Some c \<Longrightarrow> item_small c"
    and "get_item (fs_items s) r = Some c \<Longrightarrow> r \<notin> X \<Longrightarrow> CLOUDLOG_JOURNAL \<in> location_flags c \<union> pending_write c \<Longrightarrow> logged s c"
    and "r \<in> set (committed s) \<Longrightarrow> r \<notin> X \<and> (\<exists>c. get_item (fs_items s) r = Some c \<and> CLOUDLOG_JOURNAL \<in> pending_write c \<and>
           log_fd s = Some (journal_key (log_seq c)))"
    and "get_item (fs_items s) r = Some c \<Longrightarrow> r \<in> set (journal_queue (fs_items s)) \<Longrightarrow> queued_ok c"
    and "distinct (journal_queue (fs_items s))"
    and "get_item (fs_items s) r = Some c \<Longrightarrow> r \<notin> X \<Longrightarrow> waiting s r c"
  using assms unfolding item_inv_def by blast+

lemma file_journal_cases:
  assumes "file_inv s" "log_fd s = Some k"
  obtains m buf where "k = journal_key (seq_num s)" "current_log s = Some k" "mapped s k = Some m"
    "map_of (disk s) k = Some buf" "log_pos s \<le> length buf" "LOG_SEGMENT_SIZE \<le> length buf"
    "log_pos s = 0 \<longrightarrow> m = None"
  using file_invD(3) [OF assms] by (elim conjE exE) (rule that)


text \<open>What the invariants depend on.\<close>

lemma file_inv_cong:
  assumes "file_inv s" "mapped s' = mapped s" "disk s' = disk s" "log_fd s' = log_fd s" "log_pos s' = log_pos s"
    "seq_num s' = seq_num s" "current_log s' = current_log s" "committed s' = committed s \<or> committed s' = []"
  shows "file_inv s'"
  using assms by (auto simp: file_inv_def split: option.splits)

lemma logged_cong:
  assumes "logged s c" "mapped s' = mapped s" "disk s' = disk s" "stable s' = stable s" "log_fd s' = log_fd s" "log_pos s' = log_pos s"
  shows "logged s' c"
  using assms by (simp add: logged_def)

lemma mapped_simps [simp]:
  "mapped (s\<lparr>fs_items := a\<rparr>) = mapped s" "mapped (s\<lparr>disk := b\<rparr>) = mapped s" "mapped (s\<lparr>stable := b\<rparr>) = mapped s"
  "mapped (s\<lparr>log_fd := d\<rparr>) = mapped s" "mapped (s\<lparr>log_pos := e\<rparr>) = mapped s" "mapped (s\<lparr>seq_num := f\<rparr>) = mapped s"
  "mapped (s\<lparr>committed := g\<rparr>) = mapped s" "mapped (s\<lparr>current_log := d\<rparr>) = mapped s"
  "mapped (s\<lparr>log_disk_used := f\<rparr>) = mapped s"
  by (simp_all add: mapped_def fun_eq_iff)

lemma mapped_upd:
  "(\<And>cf. cf_mapped (f cf) = cf_mapped cf) \<Longrightarrow> mapped (upd_cachefile k f s) = mapped s"
  by (auto simp: mapped_def upd_cachefile_def fun_eq_iff option.map_comp comp_def)

lemma loggedI:
  assumes "in_file (disk s) c e" "record_of c e" "CLOUDLOG_JOURNAL \<in> location_flags c \<longrightarrow> in_file (stable s) c e"
    "mapped s (journal_key (log_seq c)) \<noteq> None"
    "log_fd s = Some (journal_key (log_seq c)) \<Longrightarrow> nat (log_offset c) + nat (log_size c) \<le> log_pos s"
  shows "logged s c"
  using assms unfolding logged_def by blast

text \<open>The data of a record, as the mapped file shows it.\<close>

definition journal_file :: "lfs \<Rightarrow> cloudlog \<Rightarrow> bytes" where
  "journal_file s c = (case map_of (disk s) (journal_key (log_seq c)) of None \<Rightarrow> [] | Some buf \<Rightarrow> buf)"

definition journal_data :: "lfs \<Rightarrow> cloudlog \<Rightarrow> bytes" where
  "journal_data s c = slice (nat (log_offset c) + sizeof_log_header) (nat (data_size c)) (journal_file s c)"

lemma entry_at_data:
  assumes "entry_at buf off (c0, d1, d2, d3)"
  shows "slice (off + sizeof_log_header) (length d1) buf = d1" "off + sizeof_log_header + length d1 \<le> length buf"
proof -
  let ?e = "(c0, d1, d2, d3)"
  let ?r = "journal_record off ?e"
  have ok: "entry_ok ?e" and fit: "off + length ?r \<le> length buf" and s: "slice off (length ?r) buf = ?r"
    using assms by (auto simp: entry_at_def)
  have L: "length ?r = 53 + (length d1 + length d2 + length d3)" by (simp add: length_journal_record [OF ok] entry_size_def)
  have h: "length (log_header_bytes (journal_header off ?e)) = 45"
    by (rule length_log_header [OF journal_header_id [OF ok]])
  have "slice (off + 45) (length d1) buf = slice 45 (length d1) (slice off (length ?r) buf)"
    using L by (simp add: slice_def drop_take take_take min_def add.commute)
  also have "\<dots> = slice 45 (length d1) ?r" by (simp only: s)
  also have "\<dots> = d1" using h by (simp add: journal_record_def Let_def slice_def)
  finally show "slice (off + sizeof_log_header) (length d1) buf = d1" by (simp add: sizeof_defs)
  show "off + sizeof_log_header + length d1 \<le> length buf" using fit L by (simp add: sizeof_defs)
qed

lemma logged_cases:
  assumes "logged s c"
  obtains buf e where "map_of (disk s) (journal_key (log_seq c)) = Some buf" "0 \<le> log_offset c"
    "entry_at buf (nat (log_offset c)) e" "record_of c e" "CLOUDLOG_JOURNAL \<in> location_flags c \<longrightarrow> in_file (stable s) c e"
    "fst (snd e) = journal_data s c" "nat (log_offset c) + sizeof_log_header + nat (data_size c) \<le> length buf"
    "journal_file s c = buf"
proof -
  from assms obtain e where e: "in_file (disk s) c e" "record_of c e" "CLOUDLOG_JOURNAL \<in> location_flags c \<longrightarrow> in_file (stable s) c e"
    by (auto simp: logged_def)
  from e(1) obtain buf where b: "map_of (disk s) (journal_key (log_seq c)) = Some buf" "0 \<le> log_offset c"
    "entry_at buf (nat (log_offset c)) e" by (auto simp: in_file_def)
  obtain c0 d1 d2 d3 where d: "e = (c0, d1, d2, d3)" by (cases e)
  have "nat (data_size c) = length d1" using e(2) d by (simp add: record_of_def)
  with entry_at_data [of buf "nat (log_offset c)" c0 d1 d2 d3] b e d that [of buf e] show ?thesis
    by (simp add: journal_data_def journal_file_def)
qed

lemma logged_data:
  assumes "logged s c"
  shows "cl_data c = None \<or> cl_data c = Some (journal_data s c)"
  by (rule logged_cases [OF assms]) (auto simp: record_of_def split: prod.splits)

lemma logged_loaded:
  assumes l: "logged s c" and d: "d = None \<or> d = Some (journal_data s c)"
  shows "logged s (c\<lparr>cl_data := d\<rparr>)"
proof (rule logged_cases [OF l])
  fix buf e
  assume a: "map_of (disk s) (journal_key (log_seq c)) = Some buf" "0 \<le> log_offset c"
    "entry_at buf (nat (log_offset c)) e" "record_of c e" "CLOUDLOG_JOURNAL \<in> location_flags c \<longrightarrow> in_file (stable s) c e"
    "fst (snd e) = journal_data s c"
  show ?thesis
  proof (rule loggedI [of s _ e])
    show "in_file (disk s) (c\<lparr>cl_data := d\<rparr>) e" using a(1,2,3) by (simp add: in_file_def)
    show "record_of (c\<lparr>cl_data := d\<rparr>) e" using a(4,6) d by (auto simp: record_of_def split: prod.splits)
  qed (use a(5) l in \<open>auto simp: in_file_def logged_def\<close>)
qed

text \<open>What later states keep: the records, and the items with their contents.\<close>

definition same_log :: "lfs \<Rightarrow> lfs \<Rightarrow> bool" where
  "same_log s s' \<longleftrightarrow> (\<forall>c. logged s c \<longrightarrow> logged s' c \<and> journal_data s' c = journal_data s c)"

lemma same_log_refl [simp]: "same_log s s"
  by (simp add: same_log_def)

lemma same_log_trans: "same_log s s' \<Longrightarrow> same_log s' s'' \<Longrightarrow> same_log s s''"
  by (simp add: same_log_def)

lemma same_logD: "same_log s s' \<Longrightarrow> logged s c \<Longrightarrow> logged s' c" "same_log s s' \<Longrightarrow> logged s c \<Longrightarrow> journal_data s' c = journal_data s c"
  by (simp_all add: same_log_def)


section \<open>Commit\<close>

lemma map_of_update [simp]: "map_of (AList.update k v xs) = (map_of xs)(k \<mapsto> v)"
  by (rule update_conv')

lemma update_disk_used_simps [simp]:
  "mapped (update_disk_used env k s) = mapped s" "disk (update_disk_used env k s) = disk s"
  "stable (update_disk_used env k s) = stable s" "log_fd (update_disk_used env k s) = log_fd s"
  "log_pos (update_disk_used env k s) = log_pos s" "seq_num (update_disk_used env k s) = seq_num s"
  "current_log (update_disk_used env k s) = current_log s" "committed (update_disk_used env k s) = committed s"
  "fs_items (update_disk_used env k s) = fs_items s"
  by (auto simp: update_disk_used_def upd_cachefile_def mapped_def Let_def fun_eq_iff option.map_comp comp_def split: option.splits)

text \<open>Writing the file back makes the records of the open file stable.\<close>

lemma logged_stable:
  assumes l: "logged s c" and k: "map_of (disk s) k = Some buf"
    and s': "mapped s' = mapped s" "disk s' = disk s" "stable s' = AList.update k buf (stable s)" "log_fd s' = log_fd s" "log_pos s' = log_pos s"
    and c': "c' = c\<lparr>cl_refcount := n\<rparr> \<or> k = journal_key (log_seq c) \<and> c' = (mark_committed c)\<lparr>cl_refcount := n\<rparr>"
  shows "logged s' c'"
proof -
  from l obtain e where e: "in_file (disk s) c e" "record_of c e" "CLOUDLOG_JOURNAL \<in> location_flags c \<longrightarrow> in_file (stable s) c e"
    by (auto simp: logged_def)
  have same: "in_file (disk s') c' e" "record_of c' e"
    using e(1,2) c' s'(2) by (auto simp: in_file_def record_of_def mark_committed_def split: prod.splits)
  have "in_file (stable s') c' e" if "k = journal_key (log_seq c)"
    using e(1) c' s'(3) k that by (auto simp: in_file_def)
  moreover have "in_file (stable s') c' e" if "k \<noteq> journal_key (log_seq c)" "CLOUDLOG_JOURNAL \<in> location_flags c'"
    using e(3) c' s'(3) that by (auto simp: in_file_def)
  moreover have "log_seq c' = log_seq c" "log_offset c' = log_offset c" "log_size c' = log_size c" using c' by auto
  ultimately show ?thesis using l same s' unfolding logged_def by metis
qed

lemma item_inv_commit:
  assumes inv: "item_inv X s" and k: "log_fd s = Some k" "map_of (disk s) k = Some buf"
    and s': "mapped s' = mapped s" "disk s' = disk s" "stable s' = AList.update k buf (stable s)" "log_fd s' = log_fd s"
      "log_pos s' = log_pos s" "committed s' = []" and m: "marked (set (committed s)) (fs_items s) (fs_items s')"
  shows "item_inv X s'"
proof -
  note i = item_invD [OF inv]
  have q: "journal_queue (fs_items s') = journal_queue (fs_items s)" using m by (simp add: marked_def)
  show ?thesis unfolding item_inv_def
  proof (intro conjI allI impI)
    fix r c'
    assume "get_item (fs_items s') r = Some c'"
    from markedD [OF m this] obtain c n where c: "get_item (fs_items s) r = Some c"
      "c' = (if r \<in> set (committed s) then mark_committed c else c)\<lparr>cl_refcount := n\<rparr>" by blast
    show "item_small c'" using i(1) [OF c(1)] c(2) by (simp add: item_small_def mark_committed_def)
    show "waiting s' r c'" if "r \<notin> X"
      using i(6) [OF c(1) that] c(2) q s'(6) by (auto simp: waiting_def mark_committed_def split: if_splits)
    show "logged s' c'" if x: "r \<notin> X" "CLOUDLOG_JOURNAL \<in> location_flags c' \<union> pending_write c'"
    proof (cases "r \<in> set (committed s)")
      case True
      then have p: "CLOUDLOG_JOURNAL \<in> pending_write c" "k = journal_key (log_seq c)" using i(3) [OF True] c(1) k(1) by auto
      then have "logged s c" using i(2) [OF c(1) x(1)] by simp
      then show ?thesis by (rule logged_stable [OF _ k(2), where n = n]) (use s' c(2) True p(2) in auto)
    next
      case False
      then have "logged s c" using i(2) [OF c(1) x(1)] x(2) c(2) by simp
      then show ?thesis by (rule logged_stable [OF _ k(2), where n = n]) (use s' c(2) False in auto)
    qed
    assume "r \<in> set (journal_queue (fs_items s'))"
    then have "queued_ok c" using i(4) [OF c(1)] q by simp
    moreover from this have "r \<notin> set (committed s)" using i(3) [of r] c(1) by (auto simp: queued_ok_def)
    ultimately show "queued_ok c'" using c(2) by (simp add: queued_ok_def)
  qed (use i(5) q s'(6) in simp_all)
qed

lemma log_commit_ok:
  assumes inv: "log_inv X own s"
  shows "\<exists>s'. log_commit env s = Some s' \<and> log_inv X own s' \<and> committed s' = [] \<and> disk s' = disk s \<and> mapped s' = mapped s \<and>
           log_fd s' = log_fd s \<and> log_pos s' = log_pos s \<and> seq_num s' = seq_num s \<and> current_log s' = current_log s \<and>
           marked (set (committed s)) (fs_items s) (fs_items s') \<and> same_log s s'"
proof (cases "log_fd s")
  case None
  then have "committed s = []" using file_invD(2) [OF log_invD(4) [OF inv]] by simp
  with None inv show ?thesis by (simp add: log_commit_def marked_refl)
next
  case (Some k)
  from file_journal_cases [OF log_invD(4) [OF inv] Some] obtain m buf
    where k: "k = journal_key (seq_num s)" "current_log s = Some k" "mapped s k = Some m" "map_of (disk s) k = Some buf" .
  let ?s1 = "update_disk_used env k (s\<lparr>stable := AList.update k buf (stable s)\<rparr>)"
  have rc: "rc_ok (\<lambda>q. (own q + count_list (journal_queue (fs_items s)) q) + count_list (committed s) q) (fs_items s)"
    using log_invD(1) [OF inv] by (simp add: journal_refs_def add.assoc)
  from commit_items_ok [OF rc log_invD(2,3) [OF inv]] obtain fs'
    where f: "commit_items (committed s) (fs_items s) = Some fs'" "rc_ok (\<lambda>q. own q + count_list (journal_queue (fs_items s)) q) fs'"
      "loc_ok fs'" "stats_ok fs'" "marked (set (committed s)) (fs_items s) fs'" by blast
  let ?s' = "?s1\<lparr>fs_items := fs', committed := []\<rparr>"
  have m': "mapped ?s' = mapped s" by simp
  have run: "log_commit env s = Some ?s'"
    using Some k(2,4) f(1) by (simp add: log_commit_def Let_def)
  have q: "journal_queue fs' = journal_queue (fs_items s)" using f(5) by (simp add: marked_def)
  have "file_inv ?s'" by (rule file_inv_cong [OF log_invD(4) [OF inv] m']) simp_all
  moreover have "item_inv X ?s'"
    by (rule item_inv_commit [OF log_invD(5) [OF inv] Some k(4)]) (use f(5) m' in simp_all)
  moreover have "rc_ok (\<lambda>r. own r + journal_refs ?s' r) (fs_items ?s')" using f(2) q by (simp add: journal_refs_def)
  ultimately have "log_inv X own ?s'" using f(3,4) by (simp add: log_inv_def)
  moreover have "same_log s ?s'"
    unfolding same_log_def
  proof (intro allI impI conjI)
    fix c assume "logged s c"
    then show "logged ?s' c" by (rule logged_stable [OF _ k(4), where n = "cl_refcount c"]) (use m' in simp_all)
  qed (simp add: journal_data_def journal_file_def)
  ultimately show ?thesis using run f(5) m' by simp
qed


section \<open>Opening a new journal file\<close>

lemma free_seq_taken:
  "free_seq n files seq = None \<Longrightarrow> journal_key ` {seq ..< seq + int n} \<subseteq> dom (map_of files)"
proof (induction n arbitrary: seq)
  case (Suc n)
  then have "map_of files (journal_key seq) \<noteq> None" "free_seq n files (seq + 1) = None" by (auto split: if_splits)
  moreover have "{seq ..< seq + int (Suc n)} = insert seq {seq + 1 ..< seq + 1 + int n}" by auto
  ultimately show ?case using Suc.IH [of "seq + 1"] by auto
qed simp

lemma free_seq_free: "free_seq n files seq = Some q \<Longrightarrow> map_of files (journal_key q) = None"
  by (induction n arbitrary: seq) (auto split: if_splits)

text \<open>The search for a free name ends.\<close>

lemma free_seq_total:
  obtains q where "free_seq (Suc (length files)) files seq = Some q" "map_of files (journal_key q) = None"
proof (cases "free_seq (Suc (length files)) files seq")
  case None
  let ?S = "{seq ..< seq + int (Suc (length files))}"
  from free_seq_taken [OF None] have "card (journal_key ` ?S) \<le> card (dom (map_of files))"
    by (rule card_mono [OF finite_dom_map_of])
  moreover have "card (journal_key ` ?S) = Suc (length files)" by (subst card_image) (simp_all add: inj_on_def)
  moreover have "card (dom (map_of files)) \<le> length files"
    unfolding dom_map_of_conv_image_fst using card_image_le [of "set files" fst] card_length [of files] by simp
  ultimately show ?thesis by simp
next
  case (Some q)
  then show ?thesis using free_seq_free that by blast
qed

lemma logged_frame:
  assumes "logged s c" "map_of (disk s') (journal_key (log_seq c)) = map_of (disk s) (journal_key (log_seq c))"
    "map_of (stable s') (journal_key (log_seq c)) = map_of (stable s) (journal_key (log_seq c))"
    "mapped s' (journal_key (log_seq c)) \<noteq> None"
    "log_fd s' = Some (journal_key (log_seq c)) \<Longrightarrow> log_fd s = log_fd s' \<and> log_pos s \<le> log_pos s'"
  shows "logged s' c"
  using assms by (auto simp: logged_def in_file_def)

lemma logged_on_disk:
  assumes "logged s c"
  obtains buf where "map_of (disk s) (journal_key (log_seq c)) = Some buf"
  using assms by (auto simp: logged_def in_file_def)

lemma item_inv_frame:
  assumes "item_inv X s" "fs_items s' = fs_items s" "committed s' = committed s"
    "committed s = [] \<or> log_fd s' = log_fd s" "\<And>c. logged s c \<Longrightarrow> logged s' c"
  shows "item_inv X s'"
proof -
  note i = item_invD [OF assms(1)]
  show ?thesis unfolding item_inv_def assms(2,3)
  proof (intro conjI allI ballI impI)
    fix r assume r: "r \<in> set (committed s)"
    then have "log_fd s' = log_fd s" using assms(4) by auto
    with i(3) [OF r] show "r \<notin> X" "\<exists>c. get_item (fs_items s) r = Some c \<and> CLOUDLOG_JOURNAL \<in> pending_write c \<and>
        log_fd s' = Some (journal_key (log_seq c))" by auto
  qed (use i(1,2,4,5,6) assms(2,3,5) in \<open>simp_all add: waiting_def\<close>)
qed

lemma journal_closed:
  assumes inv: "log_inv X own s"
  obtains s' where "(if log_fd s \<noteq> None then map_option (\<lambda>s. s\<lparr>seq_num := seq_num s + 1, log_fd := None\<rparr>) (log_commit env s)
      else Some s) = Some s'" "log_fd s' = None" "committed s' = []" "marked (set (committed s)) (fs_items s) (fs_items s') \<and> same_log s s'"
    "rc_ok (\<lambda>r. own r + journal_refs s' r) (fs_items s')" "loc_ok (fs_items s')" "stats_ok (fs_items s')" "item_inv X s'"
    "\<forall>k m. mapped s' k = Some m \<longrightarrow> (\<exists>buf. map_of (disk s') k = Some buf \<and> (\<forall>l. m = Some l \<longrightarrow> l = length buf))"
proof (cases "log_fd s")
  case None
  then show ?thesis using that [of s] log_invD [OF inv] file_invD(1,2) [OF log_invD(4) [OF inv]] marked_refl by simp
next
  case (Some k)
  from log_commit_ok [OF inv, of env] obtain s1 where c: "log_commit env s = Some s1" "log_inv X own s1" "committed s1 = []"
    "marked (set (committed s)) (fs_items s) (fs_items s1)" "same_log s s1" by blast
  let ?s' = "s1\<lparr>seq_num := seq_num s1 + 1, log_fd := None\<rparr>"
  have "item_inv X ?s'"
    by (rule item_inv_frame [OF log_invD(5) [OF c(2)]]) (use c(3) in \<open>auto simp: logged_def\<close>)
  moreover have "same_log s1 ?s'" by (simp add: same_log_def logged_def journal_data_def journal_file_def)
  ultimately show ?thesis
    using that [of ?s'] same_log_trans [OF c(5)] c Some log_invD [OF c(2)] file_invD(1) [OF log_invD(4) [OF c(2)]] by (simp add: journal_refs_def)
qed

lemma log_open_ok:
  assumes inv: "log_inv X own s"
  shows "\<exists>s'. log_open env s = Some s' \<and> log_inv X own s' \<and> committed s' = [] \<and> log_fd s' = Some (journal_key (seq_num s')) \<and>
           log_pos s' = 0 \<and> marked (set (committed s)) (fs_items s) (fs_items s') \<and> same_log s s'"
proof -
  obtain s1
    where s1: "(if log_fd s \<noteq> None then map_option (\<lambda>s. s\<lparr>seq_num := seq_num s + 1, log_fd := None\<rparr>) (log_commit env s)
      else Some s) = Some s1" "log_fd s1 = None" "committed s1 = []" "marked (set (committed s)) (fs_items s) (fs_items s1) \<and> same_log s s1"
    "rc_ok (\<lambda>r. own r + journal_refs s1 r) (fs_items s1)" "loc_ok (fs_items s1)" "stats_ok (fs_items s1)" "item_inv X s1"
    "\<forall>k m. mapped s1 k = Some m \<longrightarrow> (\<exists>buf. map_of (disk s1) k = Some buf \<and> (\<forall>l. m = Some l \<longrightarrow> l = length buf))"
    by (rule journal_closed [OF inv, of env])
  define s2 where "s2 = (case current_log s1 of None \<Rightarrow> s1 | Some k \<Rightarrow> (bluesky_cachefile_unref k s1)\<lparr>current_log := None\<rparr>)"
  have m2: "mapped s2 = mapped s1"
    by (auto simp: s2_def bluesky_cachefile_unref_def mapped_upd split: option.splits)
  have e2: "disk s2 = disk s1" "stable s2 = stable s1" "fs_items s2 = fs_items s1" "committed s2 = committed s1" "log_fd s2 = log_fd s1"
    by (auto simp: s2_def bluesky_cachefile_unref_def upd_cachefile_def split: option.splits)
  obtain q where q: "free_seq (Suc (length (disk s2))) (disk s2) (seq_num s2) = Some q" "map_of (disk s2) (journal_key q) = None"
    by (rule free_seq_total)
  let ?k = "journal_key q"
  have nk: "mapped s1 ?k = None" using s1(9) [rule_format, of ?k] q(2) e2 by (cases "mapped s1 ?k") auto
  then have "mapped s2 ?k = None" using m2 by simp
  then have nm: "mmap_cache s2 ?k = None" by (simp add: mapped_def)
  let ?buf = "resize_zero LOG_SEGMENT_SIZE (resize_zero (5 * 2 ^ 20) [])"
  let ?d = "AList.update ?k ?buf (AList.update ?k (resize_zero (5 * 2 ^ 20) []) (AList.update ?k [] (disk s2)))"
  let ?s' = "s2\<lparr>seq_num := q, log_fd := Some ?k, log_pos := 0, disk := ?d, stable := AList.update ?k ?buf (stable s2),
      current_log := Some ?k, mmap_cache := (mmap_cache s2)(?k \<mapsto> new_cachefile\<lparr>cf_refcount := 1\<rparr>)\<rparr>"
  have run: "log_open env s = Some ?s'"
    unfolding log_open_def using q nm
    by (subst s1(1)) (simp add: s2_def [symmetric] bluesky_cachefile_lookup_def upd_cachefile_def Let_def new_cachefile_def fun_eq_iff)
  have m': "mapped ?s' = (mapped s1)(?k \<mapsto> None)"
    using m2 by (auto simp: mapped_def fun_eq_iff new_cachefile_def)
  have len: "length ?buf = LOG_SEGMENT_SIZE" by simp
  have "file_inv ?s'"
    unfolding file_inv_def using m' s1(9) e2 by (auto simp: len)
  moreover have l': "logged ?s' c \<and> journal_data ?s' c = journal_data s1 c" if l: "logged s1 c" for c
  proof -
    from l have "map_of (disk s1) (journal_key (log_seq c)) \<noteq> None" by (rule logged_on_disk) simp
    then have "journal_key (log_seq c) \<noteq> ?k" using q(2) e2(1) by auto
    moreover have "mapped s1 (journal_key (log_seq c)) \<noteq> None" using l by (simp add: logged_def)
    ultimately show ?thesis
      using m' e2 by (intro conjI logged_frame [OF l]) (auto simp: journal_data_def journal_file_def)
  qed
  moreover from l' have "item_inv X ?s'"
    by (intro item_inv_frame [OF s1(8)]) (use e2 s1(3) in simp_all)
  ultimately have "log_inv X own ?s'" using s1(5,6,7) e2 by (simp add: log_inv_def journal_refs_def)
  moreover have "same_log s ?s'" using s1(4) l' same_log_trans [of s s1 ?s'] by (simp add: same_log_def)
  ultimately show ?thesis using run s1(3,4) e2 by simp
qed


section \<open>Writing a record\<close>

lemma file_write_length: "length (file_write pos d buf) = max (length buf) (pos + length d)"
  by (auto simp: file_write_def max_def)

lemma file_write_before: "pos \<le> length buf \<Longrightarrow> take pos (file_write pos d buf) = take pos buf"
  by (auto simp: file_write_def overwrite_def resize_zero_def)

lemma file_write_at: "slice pos (length d) (file_write pos d buf) = d"
  by (simp add: file_write_def slice_overwrite_same)

lemma entry_at_frame:
  assumes "entry_at buf off e" "off + 53 + entry_size e \<le> pos" "pos \<le> length buf"
  shows "entry_at (file_write pos d buf) off e"
proof -
  have ok: "entry_ok e" using assms(1) by (simp add: entry_at_def)
  have "slice off (length (journal_record off e)) (file_write pos d buf) = slice off (length (journal_record off e)) buf"
    using assms(2) slice_take [of off "53 + entry_size e" pos] file_write_before [OF assms(3), of d]
    by (metis add.assoc length_journal_record [OF ok])
  then show ?thesis using assms(1) by (auto simp: entry_at_def file_write_length)
qed

lemma entry_at_written:
  "entry_ok e \<Longrightarrow> pos < 2 ^ 32 \<Longrightarrow> entry_at (file_write pos (journal_record pos e) buf) pos e"
  by (simp add: entry_at_def file_write_length file_write_at)

definition fits :: "lfs \<Rightarrow> nat \<Rightarrow> bool" where
  "fits s n \<longleftrightarrow> log_pos s + n < LOG_SEGMENT_SIZE \<or> log_pos s = 0"

definition written :: "bytes \<Rightarrow> logkey \<Rightarrow> bytes \<Rightarrow> lfs \<Rightarrow> lfs" where
  "written rec k buf s = s\<lparr>disk := AList.update k (file_write (log_pos s) rec buf) (disk s), log_pos := log_pos s + length rec\<rparr>"

lemma logged_written:
  assumes l: "logged s c" and k: "log_fd s = Some k" "map_of (disk s) k = Some buf" "log_pos s \<le> length buf"
  shows "logged (written rec k buf s) c \<and> journal_data (written rec k buf s) c = journal_data s c"
proof (cases "journal_key (log_seq c) = k")
  case False
  then show ?thesis
    by (intro conjI logged_frame [OF l]) (use l k in \<open>auto simp: written_def logged_def journal_data_def journal_file_def\<close>)
next
  case True
  from l obtain e where e: "in_file (disk s) c e" "record_of c e" "CLOUDLOG_JOURNAL \<in> location_flags c \<longrightarrow> in_file (stable s) c e"
    "nat (log_offset c) + nat (log_size c) \<le> log_pos s" using k(1) True by (auto simp: logged_def)
  have "nat (log_offset c) + 53 + entry_size e \<le> log_pos s" using e(2,4) by (auto simp: record_of_def split: prod.splits)
  then have "in_file (disk (written rec k buf s)) c e"
    using e(1) k(2,3) True entry_at_frame [of buf "nat (log_offset c)" e "log_pos s" rec]
    by (auto simp: in_file_def written_def)
  then have "logged (written rec k buf s) c"
  proof (rule loggedI [OF _ e(2)])
    show "CLOUDLOG_JOURNAL \<in> location_flags c \<longrightarrow> in_file (stable (written rec k buf s)) c e" using e(3) by (simp add: written_def)
    show "mapped (written rec k buf s) (journal_key (log_seq c)) \<noteq> None" using l by (simp add: written_def logged_def)
    show "nat (log_offset c) + nat (log_size c) \<le> log_pos (written rec k buf s)" using e(4) by (simp add: written_def)
  qed
  moreover have "nat (log_offset c) + sizeof_log_header + nat (data_size c) \<le> log_pos s"
    using e(2,4) by (auto simp: record_of_def entry_size_def sizeof_defs split: prod.splits)
  from slice_take [OF this, of "file_write (log_pos s) rec buf"] slice_take [OF this, of buf]
  have "journal_data (written rec k buf s) c = journal_data s c"
    using k(2) True by (simp add: journal_data_def journal_file_def written_def file_write_before [OF k(3)])
  ultimately show ?thesis by simp
qed

lemma log_write_ok:
  assumes inv: "file_inv s" and k: "log_fd s = Some k" and fit: "fits s (length rec)" and ne: "rec \<noteq> []"
  obtains buf where "map_of (disk s) k = Some buf" "log_pos s \<le> length buf" "log_write rec s = Some (written rec k buf s)"
    "file_inv (written rec k buf s)"
proof -
  from file_journal_cases [OF inv k] obtain m buf where c: "k = journal_key (seq_num s)" "current_log s = Some k" "mapped s k = Some m"
    "map_of (disk s) k = Some buf" "log_pos s \<le> length buf" "LOG_SEGMENT_SIZE \<le> length buf" "log_pos s = 0 \<longrightarrow> m = None" .
  have len: "length (file_write (log_pos s) rec buf) = length buf" if "m \<noteq> None"
    using fit c(6,7) that by (auto simp: file_write_length fits_def)
  have m: "\<And>l. m = Some l \<Longrightarrow> l = length buf" using file_invD(1) [OF inv c(3)] c(4) by auto
  have "file_inv (written rec k buf s)"
    unfolding file_inv_def
  proof (intro conjI allI impI)
    fix k' m' assume m': "mapped (written rec k buf s) k' = Some m'"
    show "\<exists>b. map_of (disk (written rec k buf s)) k' = Some b \<and> (\<forall>l. m' = Some l \<longrightarrow> l = length b)"
    proof (cases "k' = k")
      case True
      with m' c(3) m len show ?thesis by (auto simp: written_def)
    next
      case False
      with m' file_invD(1) [OF inv, of k' m'] show ?thesis by (auto simp: written_def)
    qed
  next
    show "case log_fd (written rec k buf s) of None \<Rightarrow> current_log (written rec k buf s) = None \<and> committed (written rec k buf s) = []
      | Some ka \<Rightarrow> ka = journal_key (seq_num (written rec k buf s)) \<and> current_log (written rec k buf s) = Some ka \<and>
        (\<exists>m b. mapped (written rec k buf s) ka = Some m \<and> map_of (disk (written rec k buf s)) ka = Some b \<and>
           log_pos (written rec k buf s) \<le> length b \<and> LOG_SEGMENT_SIZE \<le> length b \<and>
           (log_pos (written rec k buf s) = 0 \<longrightarrow> m = None))"
      using k c ne by (auto simp: written_def file_write_length)
  qed
  with that [OF c(4,5)] k c(4) show ?thesis by (simp add: log_write_def written_def)
qed

text \<open>Changing one item, with its record in place.\<close>

lemma item_inv_set:
  assumes inv: "item_inv X s" and g: "get_item (fs_items s) r = Some c"
    and s': "get_item (fs_items s') = (get_item (fs_items s))(r \<mapsto> c')" "journal_queue (fs_items s') = journal_queue (fs_items s)"
      "committed s' = committed s" "log_fd s' = log_fd s"
    and l: "\<And>x. logged s x \<Longrightarrow> logged s' x"
    and X': "X \<subseteq> insert r X'" "set (committed s) \<inter> X' = {}"
    and c': "item_small c'" "r \<notin> X' \<Longrightarrow> CLOUDLOG_JOURNAL \<in> location_flags c' \<union> pending_write c' \<Longrightarrow> logged s' c'"
      "r \<in> set (committed s) \<Longrightarrow> CLOUDLOG_JOURNAL \<in> pending_write c' \<and> log_seq c' = log_seq c"
      "r \<in> set (journal_queue (fs_items s)) \<Longrightarrow> queued_ok c'" "r \<notin> X' \<Longrightarrow> waiting s r c'"
  shows "item_inv X' s'"
  unfolding item_inv_def s'
proof (intro conjI allI ballI impI)
  note i = item_invD [OF inv]
  fix q d
  assume "((get_item (fs_items s))(r \<mapsto> c')) q = Some d"
  then have cases: "q = r \<and> d = c' \<or> q \<noteq> r \<and> get_item (fs_items s) q = Some d" by (auto split: if_splits)
  then show "item_small d" using c'(1) i(1) by auto
  show "logged s' d" if "q \<notin> X'" "CLOUDLOG_JOURNAL \<in> location_flags d \<union> pending_write d"
    using cases c'(2) i(2) [of q d] l X'(1) that by auto
  show "waiting s' q d" if "q \<notin> X'"
    using cases c'(5) i(6) [of q d] X'(1) s' that by (auto simp: waiting_def)
  assume "q \<in> set (journal_queue (fs_items s))"
  then show "queued_ok d" using cases c'(4) i(4) [of q d] by auto
next
  fix q assume q: "q \<in> set (committed s)"
  then show "q \<notin> X'" using X'(2) by auto
  from item_invD(3) [OF inv q] obtain d where d: "get_item (fs_items s) q = Some d" "CLOUDLOG_JOURNAL \<in> pending_write d"
    "log_fd s = Some (journal_key (log_seq d))" by auto
  then show "\<exists>d. ((get_item (fs_items s))(r \<mapsto> c')) q = Some d \<and> CLOUDLOG_JOURNAL \<in> pending_write d \<and>
      log_fd s = Some (journal_key (log_seq d))"
    using c'(3) q g by (cases "q = r") auto
qed (use item_invD(5) [OF inv] in simp)

lemma item_inv_committed:
  assumes inv: "item_inv {r} s" and g: "get_item (fs_items s) r = Some c" and c: "CLOUDLOG_JOURNAL \<in> pending_write c"
    "logged s c" "log_fd s = Some (journal_key (log_seq c))"
  shows "item_inv {} (s\<lparr>committed := r # committed s\<rparr>)"
proof -
  note i = item_invD [OF inv]
  have l: "logged (s\<lparr>committed := x\<rparr>) d = logged s d" for x d by (simp add: logged_def)
  have w: "waiting (s\<lparr>committed := r # committed s\<rparr>) q d" if "get_item (fs_items s) q = Some d" for q d
    using i(6) [OF that] by (cases "q = r") (auto simp: waiting_def)
  have lg: "logged s d" if "get_item (fs_items s) q = Some d" "CLOUDLOG_JOURNAL \<in> location_flags d \<union> pending_write d" for q d
    using i(2) [OF that(1) _ that(2)] g c(2) that(1) by (cases "q = r") auto
  show ?thesis unfolding item_inv_def using i(1,4,5) w lg
    by (simp add: l) (use i(3) g c in auto)
qed


section \<open>Fetching an item from the journal\<close>

lemma stats_cancel [simp]: "bluesky_cloudlog_stats_update c 1 (bluesky_cloudlog_stats_update c (-1) fs) = fs"
  by (simp add: bluesky_cloudlog_stats_update_def)

lemma map_raw_ok:
  assumes "mmap_cache s k = Some cf" "map_of (disk s) k = Some buf" "cf_mapped cf = None \<or> cf_mapped cf = Some (length buf)"
    "off + len \<le> length buf"
  obtains cf' where "cf_mapped cf' = Some (length buf)"
    "bluesky_cachefile_map_raw now k off len s = Some (Some (slice off len buf), s\<lparr>mmap_cache := (mmap_cache s)(k \<mapsto> cf')\<rparr>)"
proof (cases "cf_mapped cf")
  case None
  then show ?thesis using assms
    by (intro that [of "cf\<lparr>cf_atime := now, cf_mapped := Some (length buf), cf_refcount := cf_refcount cf + 1,
          cf_mapcount := cf_mapcount cf + 1\<rparr>"])
      (simp_all add: bluesky_cachefile_map_raw_def upd_cachefile_def)
next
  case (Some l)
  then show ?thesis using assms
    by (intro that [of "cf\<lparr>cf_atime := now, cf_mapcount := cf_mapcount cf + 1\<rparr>"])
      (simp_all add: bluesky_cachefile_map_raw_def upd_cachefile_def)
qed

lemma fetch_logged:
  assumes inv: "file_inv s" and g: "get_item (fs_items s) r = Some c" and l: "logged s c"
    and c: "CLOUDLOG_JOURNAL \<in> location_flags c \<union> pending_write c" "cl_data c = None" "cl_type c \<noteq> LOGTYPE_UNKNOWN"
  obtains mc where
    "bluesky_cloudlog_fetch env now results r s
       = Some (s\<lparr>mmap_cache := mc, fs_items := set_item r (c\<lparr>cl_data := Some (journal_data s c)\<rparr>) (fs_items s)\<rparr>)"
    "mapped (s\<lparr>mmap_cache := mc\<rparr>) = (mapped s)(journal_key (log_seq c) \<mapsto> Some (length (journal_file s c)))"
proof (rule logged_cases [OF l])
  fix buf e
  assume b: "map_of (disk s) (journal_key (log_seq c)) = Some buf"
    "nat (log_offset c) + sizeof_log_header + nat (data_size c) \<le> length buf" "journal_file s c = buf"
  let ?k = "journal_key (log_seq c)"
  from l obtain cf where cf: "mmap_cache s ?k = Some cf" by (auto simp: logged_def mapped_def)
  have m: "\<And>l. cf_mapped cf = Some l \<Longrightarrow> l = length buf"
    using file_invD(1) [OF inv, of ?k "cf_mapped cf"] cf b(1) by (simp add: mapped_def)
  then have m': "cf_mapped cf = None \<or> cf_mapped cf = Some (length buf)" by (cases "cf_mapped cf") auto
  let ?s1 = "s\<lparr>fs_items := bluesky_cloudlog_stats_update c (-1) (fs_items s), mmap_cache := (mmap_cache s)(?k \<mapsto> cf\<lparr>cf_refcount := cf_refcount cf + 1\<rparr>)\<rparr>"
  obtain cf1 where cf1: "cf_mapped cf1 = Some (length buf)"
    "bluesky_cachefile_map_raw now ?k (nat (log_offset c) + sizeof_log_header) (nat (data_size c)) ?s1
       = Some (Some (slice (nat (log_offset c) + sizeof_log_header) (nat (data_size c)) buf), ?s1\<lparr>mmap_cache := (mmap_cache ?s1)(?k \<mapsto> cf1)\<rparr>)"
    by (rule map_raw_ok [of ?s1 ?k "cf\<lparr>cf_refcount := cf_refcount cf + 1\<rparr>" buf "nat (log_offset c) + sizeof_log_header" "nat (data_size c)" now])
      (use b m' in simp_all)
  let ?mc = "(mmap_cache s)(?k \<mapsto> cf1\<lparr>cf_refcount := cf_refcount cf1 - 1\<rparr>)"
  have "bluesky_cachefile_lookup (-1) (log_seq c) True (s\<lparr>fs_items := bluesky_cloudlog_stats_update c (-1) (fs_items s)\<rparr>) = (Some ?k, ?s1)"
    using cf by (simp add: bluesky_cachefile_lookup_def upd_cachefile_def Let_def)
  then have "bluesky_log_map_object env now results r True s = Some (Some (journal_data s c), s\<lparr>mmap_cache := ?mc\<rparr>)"
    using g c(1) b(3) cf1(2)
    by (simp add: bluesky_log_map_object_def map_found_def upd_cachefile_def recount_def bluesky_cachefile_unref_def journal_data_def Let_def)
  then have "bluesky_cloudlog_fetch env now results r s
       = Some (s\<lparr>mmap_cache := ?mc, fs_items := set_item r (c\<lparr>cl_data := Some (journal_data s c)\<rparr>) (fs_items s)\<rparr>)"
    using g c(2,3) by (simp add: bluesky_cloudlog_fetch_def set_data_def)
  moreover have "mapped (s\<lparr>mmap_cache := ?mc\<rparr>) = (mapped s)(?k \<mapsto> Some (length (journal_file s c)))"
    using b(3) cf1(1) by (auto simp: mapped_def fun_eq_iff)
  ultimately show ?thesis by (rule that)
qed

end
