(* ===== verification/BlueSky_Thread.thy ===== *)
theory BlueSky_Thread
  imports BlueSky_Journal
begin

text \<open>
  The log thread (\<^verbatim>\<open>log_thread\<close> of \<^verbatim>\<open>bluesky/log.c\<close>) keeps the invariant of the log, never
  fails, and brings every item that was submitted to the journal; items, their
  contents and the records already written stay as they are.
\<close>


section \<open>What a step keeps\<close>

definition known :: "cloudlog \<Rightarrow> bool" where
  "known c \<longleftrightarrow> cl_data c \<noteq> None \<or> CLOUDLOG_JOURNAL \<in> location_flags c \<union> pending_write c"

definition item_bytes :: "lfs \<Rightarrow> cloudlog \<Rightarrow> bytes" where
  "item_bytes s c = (case cl_data c of None \<Rightarrow> journal_data s c | Some d \<Rightarrow> d)"

definition same_item :: "lfs \<Rightarrow> cloudlog \<Rightarrow> lfs \<Rightarrow> cloudlog \<Rightarrow> bool" where
  "same_item s c s' c' \<longleftrightarrow>
     cl_id c' = cl_id c \<and> cl_inum c' = cl_inum c \<and> cl_type c' = cl_type c \<and> cl_links c' = cl_links c \<and>
     location_flags c' - {CLOUDLOG_JOURNAL, CLOUDLOG_UNCOMMITTED} = location_flags c - {CLOUDLOG_JOURNAL, CLOUDLOG_UNCOMMITTED} \<and>
     (CLOUDLOG_JOURNAL \<in> location_flags c \<longrightarrow> CLOUDLOG_JOURNAL \<in> location_flags c') \<and>
     ({CLOUDLOG_JOURNAL, CLOUDLOG_UNCOMMITTED} \<inter> location_flags c \<noteq> {} \<longrightarrow> {CLOUDLOG_JOURNAL, CLOUDLOG_UNCOMMITTED} \<inter> location_flags c' \<noteq> {}) \<and>
     (known c \<longrightarrow> known c' \<and> item_bytes s' c' = item_bytes s c)"

definition keeps :: "lfs \<Rightarrow> lfs \<Rightarrow> bool" where
  "keeps s s' \<longleftrightarrow>
     (\<forall>r c'. get_item (fs_items s') r = Some c' \<longrightarrow> (\<exists>c. get_item (fs_items s) r = Some c \<and> same_item s c s' c'))"

lemma same_item_refl [simp]: "same_item s c s c"
  by (simp add: same_item_def)

lemma same_item_trans: "same_item s c s' c' \<Longrightarrow> same_item s' c' s'' c'' \<Longrightarrow> same_item s c s'' c''"
  by (auto simp: same_item_def)

lemma keepsD: "keeps s s' \<Longrightarrow> get_item (fs_items s') r = Some c' \<Longrightarrow> \<exists>c. get_item (fs_items s) r = Some c \<and> same_item s c s' c'"
  by (simp add: keeps_def)

lemma keeps_refl [simp]: "keeps s s"
  by (simp add: keeps_def)

lemma keeps_trans:
  assumes "keeps s s'" "keeps s' s''"
  shows "keeps s s''"
  unfolding keeps_def
proof (intro allI impI)
  fix r c'' assume "get_item (fs_items s'') r = Some c''"
  from keepsD [OF assms(2) this] obtain c' where c': "get_item (fs_items s') r = Some c'" "same_item s' c' s'' c''" by blast
  from keepsD [OF assms(1) c'(1)] obtain c where "get_item (fs_items s) r = Some c" "same_item s c s' c'" by blast
  with c'(2) same_item_trans show "\<exists>c. get_item (fs_items s) r = Some c \<and> same_item s c s'' c''" by blast
qed

lemma keeps_marked:
  assumes m: "marked R (fs_items s) (fs_items s')" and log: "same_log s s'" and inv: "item_inv X s"
    and X: "\<And>r c. r \<in> X \<Longrightarrow> get_item (fs_items s) r = Some c \<Longrightarrow> cl_data c \<noteq> None"
  shows "keeps s s'"
  unfolding keeps_def
proof (intro allI impI)
  fix r c' assume "get_item (fs_items s') r = Some c'"
  from markedD [OF m this] obtain c n where c: "get_item (fs_items s) r = Some c"
    "c' = (if r \<in> R then mark_committed c else c)\<lparr>cl_refcount := n\<rparr>" by blast
  have "item_bytes s' c' = item_bytes s c \<and> known c'" if k: "known c"
  proof (cases "cl_data c")
    case None
    with k have j: "CLOUDLOG_JOURNAL \<in> location_flags c \<union> pending_write c" by (simp add: known_def)
    have "r \<notin> X" using X [of r c] c(1) None by auto
    from same_logD(2) [OF log item_invD(2) [OF inv c(1) this j]] None j c(2) show ?thesis
      by (auto simp: item_bytes_def known_def journal_data_def journal_file_def mark_committed_def)
  qed (use c(2) in \<open>auto simp: item_bytes_def known_def mark_committed_def\<close>)
  moreover have "CLOUDLOG_JOURNAL \<in> location_flags c \<longrightarrow> CLOUDLOG_JOURNAL \<in> location_flags c'"
    using c(2) by (auto simp: mark_committed_def)
  moreover have "location_flags c' - {CLOUDLOG_JOURNAL, CLOUDLOG_UNCOMMITTED} = location_flags c - {CLOUDLOG_JOURNAL, CLOUDLOG_UNCOMMITTED}"
    using c(2) by (auto simp: mark_committed_def)
  ultimately have "same_item s c s' c'" using c(2) by (auto simp: same_item_def mark_committed_def)
  with c(1) show "\<exists>c. get_item (fs_items s) r = Some c \<and> same_item s c s' c'" by blast
qed

lemma keeps_set:
  assumes inv: "item_inv X s" and X: "X \<subseteq> {r}" and g: "get_item (fs_items s) r = Some c"
    and g': "get_item (fs_items s') = (get_item (fs_items s))(r \<mapsto> c')" and log: "same_log s s'" and c': "same_item s c s' c'"
  shows "keeps s s'"
  unfolding keeps_def
proof (intro allI impI)
  fix q x assume x: "get_item (fs_items s') q = Some x"
  show "\<exists>y. get_item (fs_items s) q = Some y \<and> same_item s y s' x"
  proof (cases "q = r")
    case True
    with x g g' c' show ?thesis by auto
  next
    case False
    with x g' X have x': "get_item (fs_items s) q = Some x" "q \<notin> X" by auto
    have "item_bytes s' x = item_bytes s x" if k: "known x"
    proof (cases "cl_data x")
      case None
      with k have "CLOUDLOG_JOURNAL \<in> location_flags x \<union> pending_write x" by (simp add: known_def)
      from same_logD(2) [OF log item_invD(2) [OF inv x' this]] None show ?thesis by (simp add: item_bytes_def)
    qed (simp add: item_bytes_def)
    with x'(1) show ?thesis by (simp add: same_item_def)
  qed
qed


section \<open>Serializing an item\<close>

lemma count_list_pos: "x \<in> set xs \<Longrightarrow> 0 < count_list xs x"
  by (rule ccontr) (simp add: count_list_0_iff)

lemma serialize_links_total:
  assumes "\<And>r. Some r \<in> set ls \<Longrightarrow> \<exists>c. get_item fs r = Some c \<and> length (cl_id c) = 16"
  shows "\<exists>a w. serialize_links ls fs = Some (a, w) \<and> length a = 16 * length ls \<and> length w \<le> 16 * length ls"
  using assms
proof (induction ls)
  case (Cons l ls)
  then obtain a w where i: "serialize_links ls fs = Some (a, w)" "length a = 16 * length ls" "length w \<le> 16 * length ls" by auto
  show ?case
  proof (cases l)
    case None
    with i show ?thesis by (simp add: null_id_def)
  next
    case (Some r)
    with Cons.prems obtain c where "get_item fs r = Some c" "length (cl_id c) = 16" by auto
    with i Some show ?thesis by (simp add: cloudptr_bytes_def)
  qed
qed simp

lemma serialize_total:
  assumes inv: "log_inv X own s" and g: "get_item (fs_items s) r = Some c" and d: "cl_data c = Some d"
  obtains a w where "bluesky_serialize_cloudlog c (fs_items s) = Some (d, a, w)" "entry_ok (c, d, a, w)"
proof -
  have "\<exists>c. get_item (fs_items s) q = Some c \<and> length (cl_id c) = 16" if "Some q \<in> set (cl_links c)" for q
  proof -
    have "0 < count_list (cl_links c) (Some q)" using that by (rule count_list_pos)
    then have "0 < link_count (fs_items s) q" using link_count_ge [OF g, of q] by linarith
    then have "get_item (fs_items s) q \<noteq> None" using rc_okD(3) [OF log_invD(1) [OF inv], of q] by fastforce
    then obtain x where x: "get_item (fs_items s) q = Some x" by blast
    from item_invD(1) [OF log_invD(5) [OF inv] this] x show ?thesis by (simp add: item_small_def)
  qed
  from serialize_links_total [of "cl_links c" "fs_items s", OF this] obtain a w
    where w: "serialize_links (cl_links c) (fs_items s) = Some (a, w)" "length a = 16 * length (cl_links c)"
      "length w \<le> 16 * length (cl_links c)" by blast
  have "length (cl_id c) = 16" "length d + 32 * length (cl_links c) < 2 ^ 32"
    using item_invD(1) [OF log_invD(5) [OF inv] g] d by (auto simp: item_small_def)
  with w d show ?thesis by (intro that [of a w]) (simp_all add: bluesky_serialize_cloudlog_def entry_ok_def)
qed


section \<open>Logging one item\<close>

lemma log_inv_set:
  assumes inv: "log_inv X own s" and g: "get_item (fs_items s) r = Some c"
    and s': "cl_items (fs_items s') = cl_items (set_item r c' (fs_items s))" "locations (fs_items s') = locations (fs_items s)"
      "journal_queue (fs_items s') = journal_queue (fs_items s)" "committed s' = committed s" "file_inv s'" "stats_ok (fs_items s')"
      "item_inv X' s'"
    and c': "cl_refcount c' = cl_refcount c" "cl_links c' = cl_links c" "cl_id c' = cl_id c"
  shows "log_inv X' own s'"
proof -
  have g': "get_item (fs_items s') = get_item (set_item r c' (fs_items s))" by (rule get_item_cong [OF s'(1)])
  have "0 < cl_refcount c" using rc_okD(1,2) [OF log_invD(1) [OF inv] g] by linarith
  then have "rc_ok (\<lambda>r. own r + journal_refs s r) (set_item r c' (fs_items s))"
    by (intro rc_ok_set [OF log_invD(1) [OF inv] g]) (use c' in \<open>simp_all add: item_links_def\<close>)
  then have "rc_ok (\<lambda>r. own r + journal_refs s' r) (fs_items s')"
    using rc_ok_cong [OF s'(1)] s'(3,4) by (simp add: journal_refs_def)
  moreover have "loc_ok (fs_items s')"
    using loc_ok_set [OF log_invD(2) [OF inv] g c'(3)] s'(2) g' by (simp add: loc_ok_def set_item_def)
  ultimately show ?thesis using s' by (simp add: log_inv_def)
qed

definition pending_journal :: "cloudlog \<Rightarrow> cloudlog" where
  "pending_journal c = c\<lparr>pending_write := insert CLOUDLOG_JOURNAL (pending_write c)\<rparr>"

lemma start_logging:
  assumes inv: "log_inv {r} own s" and g: "get_item (fs_items s) r = Some c" and c: "queued_ok c"
    and q: "r \<notin> set (journal_queue (fs_items s))" "r \<notin> set (committed s)"
  defines "s1 \<equiv> s\<lparr>fs_items := bluesky_cloudlog_stats_update (pending_journal c) 1
      (set_item r (pending_journal c) (bluesky_cloudlog_stats_update c (-1) (fs_items s)))\<rparr>"
  shows "log_inv {r} own s1" "same_log s s1" "get_item (fs_items s1) = (get_item (fs_items s))(r \<mapsto> pending_journal c)"
proof -
  let ?fs = "fs_items s"
  have ci: "cl_items (fs_items s1) = cl_items (set_item r (pending_journal c) ?fs)" by (simp add: s1_def set_item_def)
  from get_item_cong [OF this] g show g1: "get_item (fs_items s1) = (get_item ?fs)(r \<mapsto> pending_journal c)"
    by (simp add: fun_eq_iff)
  have l: "logged s1 x = logged s x" for x by (simp add: s1_def logged_def)
  then show "same_log s s1" by (simp add: same_log_def s1_def journal_data_def journal_file_def)
  have "file_inv s1" by (rule file_inv_cong [OF log_invD(4) [OF inv]]) (simp_all add: s1_def)
  moreover have "stats_ok (fs_items s1)" unfolding s1_def using stats_ok_bracket [OF log_invD(3) [OF inv] g] by simp
  moreover have "item_inv {r} s1"
  proof (rule item_inv_set [OF log_invD(5) [OF inv] g g1])
    show "item_small (pending_journal c)" using item_invD(1) [OF log_invD(5) [OF inv] g] by (simp add: item_small_def pending_journal_def)
  qed (use q l in \<open>auto simp: s1_def set_item_def\<close>)
  ultimately show "log_inv {r} own s1"
    by (intro log_inv_set [OF inv g ci]) (simp_all add: s1_def pending_journal_def set_item_def)
qed

lemma log_space_ok:
  assumes inv: "log_inv X own s" and fd: "log_fd s \<noteq> None"
    and X: "\<And>r c. r \<in> X \<Longrightarrow> get_item (fs_items s) r = Some c \<Longrightarrow> cl_data c \<noteq> None"
  obtains s' where "log_space env n s = Some s'" "log_inv X own s'" "log_fd s' = Some (journal_key (seq_num s'))" "fits s' n"
    "marked (set (committed s)) (fs_items s) (fs_items s') \<or> fs_items s' = fs_items s" "keeps s s'"
proof (cases "log_pos s + n \<ge> LOG_SEGMENT_SIZE \<and> log_pos s > 0")
  case True
  from log_open_ok [OF inv, of env] obtain s' where o: "log_open env s = Some s'" "log_inv X own s'"
    "log_fd s' = Some (journal_key (seq_num s'))" "log_pos s' = 0"
    "marked (set (committed s)) (fs_items s) (fs_items s')" "same_log s s'" by blast
  with True keeps_marked [OF o(5,6) log_invD(5) [OF inv] X] that [of s'] show ?thesis by (simp add: log_space_def fits_def)
next
  case False
  from fd obtain k where k: "log_fd s = Some k" by blast
  from file_journal_cases [OF log_invD(4) [OF inv] k] have "k = journal_key (seq_num s)" by blast
  with False k inv that [of s] show ?thesis by (auto simp: log_space_def fits_def)
qed

text \<open>Mapping the file of an item keeps the invariants.\<close>

lemma mapped_more:
  assumes inv: "file_inv s" and l: "logged s c"
    and s': "mapped s' = (mapped s)(journal_key (log_seq c) \<mapsto> Some (length (journal_file s c)))" "disk s' = disk s" "stable s' = stable s"
      "log_fd s' = log_fd s" "log_pos s' = log_pos s" "seq_num s' = seq_num s" "current_log s' = current_log s" "committed s' = committed s"
  shows "file_inv s'" "same_log s s'"
proof -
  let ?k = "journal_key (log_seq c)"
  obtain buf e where b: "map_of (disk s) ?k = Some buf" "entry_at buf (nat (log_offset c)) e" "record_of c e" "journal_file s c = buf"
    by (rule logged_cases [OF l])
  have pos: "0 < log_pos s" if "log_fd s = Some ?k"
    using l b(3) that by (auto simp: logged_def record_of_def split: prod.splits)
  show "file_inv s'"
    unfolding file_inv_def
  proof (intro conjI allI impI)
    fix k m assume "mapped s' k = Some m"
    with s'(1,2) b file_invD(1) [OF inv, of k m]
    show "\<exists>buf. map_of (disk s') k = Some buf \<and> (\<forall>l. m = Some l \<longrightarrow> l = length buf)" by (cases "k = ?k") auto
  next
    show "case log_fd s' of None \<Rightarrow> current_log s' = None \<and> committed s' = []
      | Some k \<Rightarrow> k = journal_key (seq_num s') \<and> current_log s' = Some k \<and>
          (\<exists>m buf. mapped s' k = Some m \<and> map_of (disk s') k = Some buf \<and> log_pos s' \<le> length buf \<and>
             LOG_SEGMENT_SIZE \<le> length buf \<and> (log_pos s' = 0 \<longrightarrow> m = None))"
    proof (cases "log_fd s")
      case None
      with file_invD(2) [OF inv] s' show ?thesis by simp
    next
      case (Some k)
      from file_journal_cases [OF inv Some] obtain m buf where "k = journal_key (seq_num s)" "current_log s = Some k" "mapped s k = Some m"
        "map_of (disk s) k = Some buf" "log_pos s \<le> length buf" "LOG_SEGMENT_SIZE \<le> length buf" "log_pos s = 0 \<longrightarrow> m = None" .
      with Some s' pos show ?thesis by (cases "k = ?k") auto
    qed
  qed
  show "same_log s s'"
    unfolding same_log_def using s' by (auto intro!: logged_frame simp: logged_def journal_data_def journal_file_def)
qed


lemma same_logI: "(\<And>c. logged s c \<Longrightarrow> logged s' c \<and> journal_data s' c = journal_data s c) \<Longrightarrow> same_log s s'"
  by (simp add: same_log_def)

lemma record_item:
  assumes inv: "file_inv s" and fd: "log_fd s = Some (journal_key (seq_num s))" and g: "get_item (fs_items s) r = Some c"
    and c: "cl_data c = Some d" "cl_type c \<noteq> LOGTYPE_UNKNOWN" "CLOUDLOG_JOURNAL \<in> pending_write c" "CLOUDLOG_JOURNAL \<notin> location_flags c"
    and e: "entry_ok e" "e = (c0, d, a, w)" "cl_id c0 = cl_id c" "cl_inum c0 = cl_inum c"
      "length d + 32 * length (cl_links c) < 2 ^ 32" and fit: "fits s (53 + entry_size e)"
  obtains s3 s4 s5 c5 where "log_write (journal_record (log_pos s) e) s = Some s3" "set_logged r (log_pos s) (53 + entry_size e) s3 = Some s4"
    "bluesky_cloudlog_fetch env now [] r s4 = Some s5" "fs_items s5 = set_item r c5 (fs_items s)"
    "c5 = c\<lparr>log_seq := seq_num s, log_offset := int (log_pos s), log_size := int (53 + entry_size e), data_size := int (length d)\<rparr>"
    "file_inv s5" "same_log s s5" "logged s5 c5" "committed s5 = committed s" "log_fd s5 = log_fd s"
proof -
  let ?k = "journal_key (seq_num s)" and ?rec = "journal_record (log_pos s) e"
  have len: "length ?rec = 53 + entry_size e" by (rule length_journal_record [OF e(1)])
  then have ne: "?rec \<noteq> []" by (metis list.size(3) add_is_0 zero_neq_numeral)
  obtain buf where b: "map_of (disk s) ?k = Some buf" "log_pos s \<le> length buf" "log_write ?rec s = Some (written ?rec ?k buf s)"
    "file_inv (written ?rec ?k buf s)"
    by (rule log_write_ok [OF inv fd _ ne]) (use fit len in simp)
  let ?s3 = "written ?rec ?k buf s"
  let ?c4 = "c\<lparr>log_seq := seq_num s, log_offset := int (log_pos s), log_size := int (53 + entry_size e), data_size := int (length d), cl_data := None\<rparr>"
  let ?s4 = "?s3\<lparr>fs_items := set_item r ?c4 (fs_items s)\<rparr>"
  have g3: "get_item (fs_items ?s3) r = Some c" using g by (simp add: written_def)
  have s4: "set_logged r (log_pos s) (53 + entry_size e) ?s3 = Some ?s4"
    using g3 c(1) by (simp add: set_logged_def) (simp add: written_def)
  have g4: "get_item (fs_items ?s4) r = Some ?c4" using g by simp
  have f4: "file_inv ?s4" by (rule file_inv_cong [OF b(4)]) simp_all
  have log4: "same_log s ?s4"
    using logged_written [OF _ fd b(1,2), of _ ?rec] by (intro same_logI) (simp add: logged_def journal_data_def journal_file_def)
  obtain m where m: "mapped s ?k = Some m" using file_journal_cases [OF inv fd] by blast
  have pos: "log_pos s < 2 ^ 32" using fit by (auto simp: fits_def LOG_SEGMENT_SIZE_def)
  have ea: "entry_at (file_write (log_pos s) ?rec buf) (log_pos s) e" by (rule entry_at_written [OF e(1) pos])
  have l4: "logged ?s4 ?c4"
  proof (rule loggedI [of _ _ e])
    show "in_file (disk ?s4) ?c4 e" using ea by (simp add: in_file_def written_def)
    show "record_of ?c4 e" using e(2-5) by (simp add: record_of_def)
  qed (use m c(4) in \<open>simp_all add: written_def len\<close>)
  have jd: "journal_data ?s4 ?c4 = d"
    using entry_at_data(1) [of _ "log_pos s" c0 d a w] ea e(2) by (simp add: journal_data_def journal_file_def written_def)
  obtain mc where mc: "bluesky_cloudlog_fetch env now [] r ?s4
      = Some (?s4\<lparr>mmap_cache := mc, fs_items := set_item r (?c4\<lparr>cl_data := Some (journal_data ?s4 ?c4)\<rparr>) (fs_items ?s4)\<rparr>)"
    "mapped (?s4\<lparr>mmap_cache := mc\<rparr>) = (mapped ?s4)(journal_key (log_seq ?c4) \<mapsto> Some (length (journal_file ?s4 ?c4)))"
    by (rule fetch_logged [OF f4 g4 l4]) (use c in simp_all)
  let ?c5 = "c\<lparr>log_seq := seq_num s, log_offset := int (log_pos s), log_size := int (53 + entry_size e), data_size := int (length d)\<rparr>"
  have c5: "?c4\<lparr>cl_data := Some d\<rparr> = ?c5" using c(1) by simp
  let ?s5 = "?s4\<lparr>mmap_cache := mc, fs_items := set_item r ?c5 (fs_items s)\<rparr>"
  have run: "bluesky_cloudlog_fetch env now [] r ?s4 = Some ?s5" using mc(1) [unfolded jd c5] by (simp add: set_item_twice)
  have m5: "mapped ?s5 = (mapped ?s4)(journal_key (log_seq ?c4) \<mapsto> Some (length (journal_file ?s4 ?c4)))"
    using mc(2) by (simp add: mapped_def fun_eq_iff)
  have f5: "file_inv ?s5" "same_log ?s4 ?s5" by (rule mapped_more [OF f4 l4 m5]; simp)+
  have "logged ?s5 (?c4\<lparr>cl_data := Some d\<rparr>)"
    by (rule logged_loaded [OF same_logD(1) [OF f5(2) l4]]) (use same_logD(2) [OF f5(2) l4, unfolded jd] in simp)
  then have "logged ?s5 ?c5" by (simp only: c5)
  with that [OF b(3) s4 run _ refl f5(1) same_log_trans [OF log4 f5(2)]] show ?thesis by (simp add: written_def)
qed


text \<open>The written item joins those that wait for the commit, which take over the reference of the queue.\<close>

lemma join_committed:
  assumes inv: "log_inv {r} (own(r := own r + 1)) s" and g: "get_item (fs_items s) r = Some c"
    and s': "fs_items s' = set_item r c' (fs_items s)" "committed s' = committed s" "log_fd s' = log_fd s" "file_inv s'" "same_log s s'"
    and c': "cl_refcount c' = cl_refcount c" "cl_links c' = cl_links c" "cl_id c' = cl_id c" "cl_data c' = cl_data c"
      "location_flags c' = location_flags c" "pending_write c' = pending_write c"
    and j: "CLOUDLOG_JOURNAL \<in> pending_write c'" "logged s' c'" "log_fd s' = Some (journal_key (log_seq c'))"
    and q: "r \<notin> set (journal_queue (fs_items s))" "r \<notin> set (committed s)"
  shows "log_inv {} own (s'\<lparr>committed := r # committed s'\<rparr>)"
proof -
  have g': "get_item (fs_items s') = (get_item (fs_items s))(r \<mapsto> c')" using g s'(1) by (simp add: fun_eq_iff)
  have small: "item_small c'" using item_invD(1) [OF log_invD(5) [OF inv] g] c' by (simp add: item_small_def)
  have i: "item_inv {r} s'"
    by (rule item_inv_set [OF log_invD(5) [OF inv] g g']) (use s' small q same_logD(1) [OF s'(5)] in \<open>auto simp: set_item_def\<close>)
  have st: "stats_ok (fs_items s')"
    unfolding s'(1) by (rule stats_ok_set_same [OF log_invD(3) [OF inv] g])
      (use c' j(1) in \<open>auto simp: counts_in_cloud_def counts_in_journal_def counts_dirty_def\<close>)
  have base: "log_inv {r} (own(r := own r + 1)) s'"
    by (rule log_inv_set [where c' = c', OF inv g _ _ _ s'(2,4) st i]) (use s'(1) c' in \<open>simp_all add: set_item_def\<close>)
  let ?s = "s'\<lparr>committed := r # committed s'\<rparr>"
  have "(\<lambda>q. own q + journal_refs ?s q) = (\<lambda>q. (own(r := own r + 1)) q + journal_refs s' q)"
    by (auto simp: journal_refs_def fun_eq_iff)
  moreover have "item_inv {} ?s" by (rule item_inv_committed [OF i _ j]) (simp add: g')
  moreover have "file_inv ?s" using s'(4) j(3) by (auto simp: file_inv_def)
  ultimately show ?thesis using log_invD(1,2,3) [OF base] by (simp add: log_inv_def)
qed

lemma log_item_ok:
  assumes inv: "log_inv {r} (own(r := own r + 1)) s" and g: "get_item (fs_items s) r = Some c" and c: "queued_ok c"
    and q: "r \<notin> set (journal_queue (fs_items s))" and fd: "log_fd s \<noteq> None"
  shows "\<exists>s'. log_item env now r s = Some s' \<and> log_inv {} own s' \<and> keeps s s' \<and> log_fd s' \<noteq> None \<and>
           journal_queue (fs_items s') = journal_queue (fs_items s) \<and> (journal_queue (fs_items s) = [] \<longrightarrow> committed s' = [])"
proof -
  obtain d where d: "cl_data c = Some d" using c by (auto simp: queued_ok_def)
  have qc: "r \<notin> set (committed s)" using item_invD(3) [OF log_invD(5) [OF inv], of r] g c by (auto simp: queued_ok_def)
  let ?c1 = "pending_journal c"
  let ?s1 = "s\<lparr>fs_items := bluesky_cloudlog_stats_update ?c1 1 (set_item r ?c1 (bluesky_cloudlog_stats_update c (-1) (fs_items s)))\<rparr>"
  note s1 = start_logging [OF inv g c q qc]
  have g1: "get_item (fs_items ?s1) r = Some ?c1" by (simp only: s1(3) fun_upd_same)
  obtain a w where ser: "bluesky_serialize_cloudlog ?c1 (fs_items ?s1) = Some (d, a, w)" and e: "entry_ok (?c1, d, a, w)"
    by (rule serialize_total [OF s1(1) g1, of d]) (use d in \<open>simp_all add: pending_journal_def\<close>)
  let ?e = "(?c1, d, a, w)"
  have "cl_data x \<noteq> None" if "q \<in> {r}" "get_item (fs_items ?s1) q = Some x" for q x
    using that g1 d by (auto simp: pending_journal_def)
  note live = this
  obtain s2
    where s2: "log_space env (53 + entry_size ?e) ?s1 = Some s2" "log_inv {r} (own(r := own r + 1)) s2"
      "log_fd s2 = Some (journal_key (seq_num s2))" "fits s2 (53 + entry_size ?e)"
      "marked (set (committed ?s1)) (fs_items ?s1) (fs_items s2) \<or> fs_items s2 = fs_items ?s1" "keeps ?s1 s2"
    by (rule log_space_ok [OF s1(1) _ live, where env = env and n = "53 + entry_size ?e"]) (use fd in simp)
  from rc_ok_live [OF log_invD(1) [OF s2(2)], of r] obtain c2 where g2: "get_item (fs_items s2) r = Some c2" by auto
  then obtain n where c2: "c2 = ?c1\<lparr>cl_refcount := n\<rparr>"
    using s2(5) markedD [of "set (committed ?s1)" "fs_items ?s1" "fs_items s2" r c2] g1 qc by (auto intro: that [of "cl_refcount c2"])
  have q2: "journal_queue (fs_items s2) = journal_queue (fs_items s)" using s2(5) by (auto simp: marked_def set_item_def)
  have qc2: "r \<notin> set (committed s2)" using item_invD(3) [OF log_invD(5) [OF s2(2)], of r] by auto
  have p2: "cl_data c2 = Some d" "cl_type c2 \<noteq> LOGTYPE_UNKNOWN" "CLOUDLOG_JOURNAL \<in> pending_write c2" "CLOUDLOG_JOURNAL \<notin> location_flags c2"
    "cl_id ?c1 = cl_id c2" "cl_inum ?c1 = cl_inum c2" "length d + 32 * length (cl_links c2) < 2 ^ 32"
    using c c2 d item_invD(1) [OF log_invD(5) [OF inv] g] by (simp_all add: queued_ok_def pending_journal_def item_small_def)
  obtain s3 s4 s5 c5 where w: "log_write (journal_record (log_pos s2) ?e) s2 = Some s3"
    "set_logged r (log_pos s2) (53 + entry_size ?e) s3 = Some s4" "bluesky_cloudlog_fetch env now [] r s4 = Some s5"
    "fs_items s5 = set_item r c5 (fs_items s2)"
    "c5 = c2\<lparr>log_seq := seq_num s2, log_offset := int (log_pos s2), log_size := int (53 + entry_size ?e), data_size := int (length d)\<rparr>"
    "file_inv s5" "same_log s2 s5" "logged s5 c5" "committed s5 = committed s2" "log_fd s5 = log_fd s2"
    by (rule record_item [OF log_invD(4) [OF s2(2)] s2(3) g2 p2(1-4) e refl p2(5-7) s2(4)])
  let ?c6 = "c5\<lparr>data_lock_count := data_lock_count c5 - 1\<rparr>"
  let ?s5 = "s5\<lparr>fs_items := set_item r ?c6 (fs_items s5)\<rparr>"
  let ?s6 = "s5\<lparr>fs_items := set_item r ?c6 (fs_items s5), committed := r # committed s5\<rparr>"
  have g5: "get_item (fs_items s5) r = Some c5" using w(4) g2 by simp
  have l6: "logged ?s5 ?c6" using w(8) by (auto simp: logged_def in_file_def record_of_def)
  have "log_inv {} own (?s5\<lparr>committed := r # committed ?s5\<rparr>)"
  proof (rule join_committed [OF s2(2) g2, of _ ?c6])
    show "file_inv ?s5" by (rule file_inv_cong [OF w(6)]) simp_all
    show "same_log s2 ?s5" using w(7) by (simp add: same_log_def logged_def journal_data_def journal_file_def)
  qed (use w l6 c2 s2(3) q2 q qc2 in \<open>simp_all add: set_item_twice pending_journal_def\<close>)
  then have i6: "log_inv {} own ?s6" by simp
  have run: "log_item env now r s = (if journal_queue (fs_items ?s6) = [] then log_commit env ?s6 else Some ?s6)"
    using g ser s2(1) w(1,2,3) g5 unfolding log_item_def pending_journal_def [symmetric]
    by (simp add: entry_size_def sizeof_defs Let_def add.assoc)
  have q6: "journal_queue (fs_items ?s6) = journal_queue (fs_items s)" using w(4) q2 by (simp add: set_item_def)
  have k1: "keeps s ?s1"
    by (rule keeps_set [OF log_invD(5) [OF inv] _ g s1(3,2)]) (use d in \<open>simp_all add: same_item_def known_def item_bytes_def pending_journal_def\<close>)
  have "same_log s2 ?s6" using w(7) by (simp add: same_log_def logged_def journal_data_def journal_file_def)
  moreover have "get_item (fs_items ?s6) = (get_item (fs_items s2))(r \<mapsto> ?c6)" using w(4) g2 by (simp add: fun_eq_iff)
  moreover have "same_item s2 c2 ?s6 ?c6"
    using w(5) c2 d by (simp add: same_item_def known_def item_bytes_def pending_journal_def)
  ultimately have "keeps s2 ?s6" by (intro keeps_set [OF log_invD(5) [OF s2(2)] subset_refl g2])
  with k1 s2(6) keeps_trans have k6: "keeps s ?s6" by blast
  show ?thesis
  proof (cases "journal_queue (fs_items s) = []")
    case False
    with run i6 k6 q6 w(10) s2(3) show ?thesis by simp
  next
    case True
    from log_commit_ok [OF i6, of env] obtain s7 where s7: "log_commit env ?s6 = Some s7" "log_inv {} own s7" "committed s7 = []"
      "log_fd s7 = log_fd ?s6" "marked (set (committed ?s6)) (fs_items ?s6) (fs_items s7)" "same_log ?s6 s7" by blast
    have "keeps ?s6 s7" by (rule keeps_marked [OF s7(5,6) log_invD(5) [OF i6]]) simp
    moreover have "journal_queue (fs_items s7) = journal_queue (fs_items s)" using s7(5) q6 by (simp add: marked_def)
    ultimately show ?thesis using run s7 True q6 w(10) s2(3) keeps_trans [OF k6] by simp
  qed
qed


section \<open>A round of the log thread\<close>

lemma keeps_same_items:
  "get_item (fs_items s') = get_item (fs_items s) \<Longrightarrow> disk s' = disk s \<Longrightarrow> keeps s s'"
  by (simp add: keeps_def same_item_def item_bytes_def journal_data_def journal_file_def split: option.split)

text \<open>Taking the first item off the queue leaves its reference with the caller.\<close>

lemma pop_queue:
  assumes inv: "log_inv {} own s" and q: "journal_queue (fs_items s) = r # rs"
  defines "s1 \<equiv> s\<lparr>fs_items := (fs_items s)\<lparr>journal_queue := rs\<rparr>\<rparr>"
  obtains c where "get_item (fs_items s1) r = Some c" "queued_ok c" "r \<notin> set rs" "keeps s s1"
    "log_inv {r} (own(r := own r + 1)) s1"
proof -
  have g: "get_item (fs_items s1) = get_item (fs_items s)" by (rule get_item_cong) (simp add: s1_def)
  have "0 < own r + journal_refs s r" using q by (simp add: journal_refs_def)
  from rc_ok_live [OF log_invD(1) [OF inv] this] obtain c where c: "get_item (fs_items s) r = Some c" by blast
  note i = item_invD [OF log_invD(5) [OF inv]]
  have r: "r \<notin> set rs" using i(5) q by simp
  have ok: "queued_ok c" using i(4) [OF c] q by simp
  have l: "logged s1 x = logged s x" for x by (simp add: s1_def logged_def)
  have w: "waiting s1 x y" if "waiting s x y" "x \<noteq> r" for x y using that q by (auto simp: waiting_def s1_def)
  have "item_inv {r} s1"
    unfolding item_inv_def g l
  proof (intro conjI allI ballI impI)
    fix x y assume y: "get_item (fs_items s) x = Some y"
    show "item_small y" by (rule i(1) [OF y])
    show "waiting s1 x y" if "x \<notin> {r}" using w [OF i(6) [OF y]] that by simp
    show "logged s y" if "CLOUDLOG_JOURNAL \<in> location_flags y \<union> pending_write y" by (rule i(2) [OF y _ that]) simp
    show "queued_ok y" if "x \<in> set (journal_queue (fs_items s1))" using i(4) [OF y] that q by (simp add: s1_def)
  next
    fix x assume x: "x \<in> set (committed s1)"
    then have "x \<in> set (committed s)" by (simp add: s1_def)
    from i(3) [OF this] c ok show "x \<notin> {r}"
      "\<exists>y. get_item (fs_items s) x = Some y \<and> CLOUDLOG_JOURNAL \<in> pending_write y \<and> log_fd s1 = Some (journal_key (log_seq y))"
      by (auto simp: queued_ok_def s1_def)
  next
    show "distinct (journal_queue (fs_items s1))" using i(5) q by (simp add: s1_def)
  qed
  moreover have "(\<lambda>q. (own(r := own r + 1)) q + journal_refs s1 q) = (\<lambda>q. own q + journal_refs s q)"
    using q by (auto simp: journal_refs_def s1_def fun_eq_iff)
  then have "rc_ok (\<lambda>q. (own(r := own r + 1)) q + journal_refs s1 q) (fs_items s1)"
    using log_invD(1) [OF inv] rc_ok_cong [of "fs_items s1" "fs_items s"] by (simp add: s1_def)
  moreover have "loc_ok (fs_items s1)" using log_invD(2) [OF inv] loc_ok_cong [of "fs_items s1" "fs_items s"] by (simp add: s1_def)
  moreover have "stats_ok (fs_items s1)" using log_invD(3) [OF inv] by (simp add: s1_def stats_ok_def tally_def)
  moreover have "file_inv s1" by (rule file_inv_cong [OF log_invD(4) [OF inv]]) (simp_all add: s1_def)
  ultimately show ?thesis using that [of c] c ok r g keeps_same_items [OF g] by (simp add: log_inv_def) (simp add: s1_def)
qed

lemma log_thread_step_ok:
  assumes inv: "log_inv {} own s"
  shows "\<exists>s'. log_thread_step env now s = Some s' \<and> log_inv {} own s' \<and> keeps s s' \<and> log_fd s' \<noteq> None \<and>
           journal_queue (fs_items s') = tl (journal_queue (fs_items s)) \<and>
           (tl (journal_queue (fs_items s)) = [] \<longrightarrow> journal_queue (fs_items s) \<noteq> [] \<or> committed s = [] \<longrightarrow> committed s' = [])"
proof -
  obtain s1 where s1: "(if log_fd s = None then log_open env s else Some s) = Some s1" "log_inv {} own s1" "keeps s s1" "log_fd s1 \<noteq> None"
    "journal_queue (fs_items s1) = journal_queue (fs_items s)" "committed s = [] \<longrightarrow> committed s1 = []"
  proof (cases "log_fd s = None")
    case True
    from log_open_ok [OF inv, of env] obtain s1 where o: "log_open env s = Some s1" "log_inv {} own s1" "committed s1 = []"
      "log_fd s1 = Some (journal_key (seq_num s1))" "marked (set (committed s)) (fs_items s) (fs_items s1)" "same_log s s1" by blast
    have "keeps s s1" by (rule keeps_marked [OF o(5,6) log_invD(5) [OF inv]]) simp
    with True o that [of s1] show ?thesis by (simp add: marked_def)
  qed (use inv that [of s] in simp)
  show ?thesis
  proof (cases "journal_queue (fs_items s)")
    case Nil
    with s1 show ?thesis by (simp add: log_thread_step_def)
  next
    case (Cons r rs)
    with s1(5) have q1: "journal_queue (fs_items s1) = r # rs" by simp
    let ?s2 = "s1\<lparr>fs_items := (fs_items s1)\<lparr>journal_queue := rs\<rparr>\<rparr>"
    obtain c where c: "get_item (fs_items ?s2) r = Some c" "queued_ok c" "r \<notin> set rs" "keeps s1 ?s2"
      "log_inv {r} (own(r := own r + 1)) ?s2" by (rule pop_queue [OF s1(2) q1])
    from log_item_ok [OF c(5,1,2), of env now] c(3) s1(4) obtain s3
      where s3: "log_item env now r ?s2 = Some s3" "log_inv {} own s3" "keeps ?s2 s3" "log_fd s3 \<noteq> None"
        "journal_queue (fs_items s3) = rs" "rs = [] \<longrightarrow> committed s3 = []" by auto
    have "log_thread_step env now s = Some s3"
      using s1(1) q1 c(1,2) s3(1) by (simp add: log_thread_step_def queued_ok_def Let_def)
    with s3 Cons keeps_trans [OF keeps_trans [OF s1(3) c(4)] s3(3)] show ?thesis by simp
  qed
qed



section \<open>Submitting and releasing items\<close>

lemma submit_ok:
  assumes inv: "log_inv {} own s" and g: "get_item (fs_items s) r = Some c"
    and c: "cl_data c \<noteq> None" "cl_type c \<noteq> LOGTYPE_UNKNOWN" "0 \<le> data_lock_count c"
      "CLOUDLOG_JOURNAL \<notin> location_flags c \<union> pending_write c" "CLOUDLOG_UNCOMMITTED \<notin> location_flags c"
  shows "\<exists>fs'. bluesky_log_item_submit r (fs_items s) = Some fs' \<and> log_inv {} own (s\<lparr>fs_items := fs'\<rparr>) \<and>
           keeps s (s\<lparr>fs_items := fs'\<rparr>) \<and> journal_queue fs' = journal_queue (fs_items s) @ [r] \<and> length (cl_items fs') = length (cl_items (fs_items s))"
proof -
  let ?c = "c\<lparr>cl_refcount := cl_refcount c + 1, location_flags := insert CLOUDLOG_UNCOMMITTED (location_flags c),
    data_lock_count := data_lock_count c + 1\<rparr>"
  let ?fs1 = "set_item r ?c (fs_items s)"
  let ?fs' = "?fs1\<lparr>journal_queue := journal_queue (fs_items s) @ [r]\<rparr>"
  let ?s' = "s\<lparr>fs_items := ?fs'\<rparr>"
  note i = item_invD [OF log_invD(5) [OF inv]]
  have run: "bluesky_log_item_submit r (fs_items s) = Some ?fs'"
    using g c(4) by (simp add: bluesky_log_item_submit_def set_item_def)
  have nq: "r \<notin> set (journal_queue (fs_items s))" using i(4) [OF g] c(5) by (auto simp: queued_ok_def)
  have nc: "r \<notin> set (committed s)" using i(3) [of r] g c(4) by auto
  have g': "get_item ?fs' = (get_item (fs_items s))(r \<mapsto> ?c)"
    using g get_item_cong [of ?fs' ?fs1] by (simp add: fun_eq_iff)
  have rc: "rc_ok ((\<lambda>q. own q + journal_refs s q)(r := own r + journal_refs s r + 1)) ?fs1"
    using rc_okD(1,2) [OF log_invD(1) [OF inv] g] by (intro rc_ok_set [OF log_invD(1) [OF inv] g]) (auto simp: item_links_def)
  moreover have "(\<lambda>q. own q + journal_refs ?s' q) = (\<lambda>q. own q + journal_refs s q)(r := own r + journal_refs s r + 1)"
    by (auto simp: journal_refs_def fun_eq_iff)
  ultimately have "rc_ok (\<lambda>q. own q + journal_refs ?s' q) ?fs'" using rc_ok_cong [of ?fs' ?fs1] by simp
  moreover have "loc_ok ?fs'" using loc_ok_set [OF log_invD(2) [OF inv] g, of ?c] loc_ok_cong [of ?fs' ?fs1] by simp
  moreover have "stats_ok ?fs1"
    by (rule stats_ok_set_same [OF log_invD(3) [OF inv] g]) (simp_all add: counts_in_cloud_def counts_in_journal_def counts_dirty_def)
  then have "stats_ok ?fs'" by (simp add: stats_ok_def tally_def)
  moreover have "file_inv ?s'" by (rule file_inv_cong [OF log_invD(4) [OF inv]]) simp_all
  moreover have "item_inv {} ?s'"
    unfolding item_inv_def
  proof (intro conjI allI ballI impI)
    fix x y assume "get_item (fs_items ?s') x = Some y"
    then have cases: "x = r \<and> y = ?c \<or> x \<noteq> r \<and> get_item (fs_items s) x = Some y" using g' by (auto split: if_splits)
    then show "item_small y" using i(1) [OF g] i(1) [of x y] by (auto simp: item_small_def)
    show "waiting ?s' x y" using cases i(6) [of x y] c(4) by (auto simp: waiting_def)
    show "logged ?s' y" if "CLOUDLOG_JOURNAL \<in> location_flags y \<union> pending_write y"
      using cases i(2) [of x y] c(4) that by (auto simp: logged_def)
    show "queued_ok y" if "x \<in> set (journal_queue (fs_items ?s'))"
      using cases i(4) [of x y] c that by (auto simp: queued_ok_def)
  next
    fix x assume x: "x \<in> set (committed ?s')"
    then show "\<exists>y. get_item (fs_items ?s') x = Some y \<and> CLOUDLOG_JOURNAL \<in> pending_write y \<and> log_fd ?s' = Some (journal_key (log_seq y))"
      using i(3) [of x] nc g' by (cases "x = r") auto
  qed (use i(5) nq in simp_all)
  ultimately have "log_inv {} own ?s'" by (simp add: log_inv_def)
  moreover have "keeps s ?s'"
    by (rule keeps_set [OF log_invD(5) [OF inv] _ g, of _ ?c])
      (use g' c(1) in \<open>auto simp: same_log_def logged_def journal_data_def journal_file_def same_item_def known_def item_bytes_def\<close>)
  ultimately show ?thesis using run by (simp add: set_item_def)
qed


lemma new_item_ok:
  assumes inv: "log_inv {} own s" and c: "c = (new_cloudlog oid)\<lparr>cl_type := t, cl_inum := i, cl_data := Some d\<rparr>"
    and small: "length oid = 16" "length d < 2 ^ 32"
  defines "r \<equiv> length (cl_items (fs_items s))"
  defines "fs' \<equiv> bluesky_cloudlog_stats_update c 1 (set_item r c (snd (bluesky_cloudlog_new oid (fs_items s))))"
  shows "log_inv {} (own(r := 1)) (s\<lparr>fs_items := fs'\<rparr>)" "own r = 0" "get_item fs' = (get_item (fs_items s))(r \<mapsto> c)"
proof -
  let ?fs = "fs_items s" and ?s' = "s\<lparr>fs_items := fs'\<rparr>"
  let ?n = "snd (bluesky_cloudlog_new oid ?fs)"
  note i = item_invD [OF log_invD(5) [OF inv]]
  have gn: "get_item ?n q = (if q = r then Some (new_cloudlog oid) else get_item ?fs q)" for q
    by (simp add: get_item_new r_def)
  have ci: "cl_items fs' = cl_items (set_item r c ?n)" by (simp add: fs'_def)
  show g': "get_item fs' = (get_item ?fs)(r \<mapsto> c)"
    using get_item_cong [OF ci] gn by (auto simp: fun_eq_iff)
  have none: "get_item ?fs r = None" by (simp add: get_item_def r_def)
  have z: "own r = 0" "journal_refs s r = 0" using rc_okD(3) [OF log_invD(1) [OF inv] none] by auto
  then show "own r = 0" by simp
  have "rc_ok ((\<lambda>q. own q + journal_refs s q)(r := 1)) (set_item r c ?n)"
    by (rule rc_ok_set [OF rc_ok_new(1) [OF log_invD(1) [OF inv], of oid, folded r_def]])
      (use gn c in \<open>auto simp: item_links_def\<close>)
  moreover have "(\<lambda>q. (own(r := 1)) q + journal_refs ?s' q) = (\<lambda>q. own q + journal_refs s q)(r := 1)"
    using z by (auto simp: journal_refs_def fun_eq_iff fs'_def set_item_def bluesky_cloudlog_new_def)
  ultimately have "rc_ok (\<lambda>q. (own(r := 1)) q + journal_refs ?s' q) fs'" using rc_ok_cong [OF ci] by simp
  moreover have "locations fs' = locations ?fs" by (simp add: fs'_def set_item_def bluesky_cloudlog_new_def)
  have "loc_ok fs'"
    unfolding loc_ok_def g' \<open>locations fs' = locations ?fs\<close>
  proof (intro allI impI)
    fix j q assume "locations ?fs j = Some q"
    then obtain x where "get_item ?fs q = Some x" "cl_id x = j" using log_invD(2) [OF inv] by (auto simp: loc_ok_def)
    then show "\<exists>x. ((get_item ?fs)(r \<mapsto> c)) q = Some x \<and> cl_id x = j" using none by (cases "q = r") auto
  qed
  moreover have "tally P fs' = tally P ?fs + of_bool (P c)" for P
    using ci by (simp add: tally_def set_item_def bluesky_cloudlog_new_def r_def)
  then have "stats_ok fs'"
    using log_invD(3) [OF inv] by (simp add: stats_ok_def fs'_def stats_update_counters) (simp add: set_item_def bluesky_cloudlog_new_def)
  moreover have "file_inv ?s'" by (rule file_inv_cong [OF log_invD(4) [OF inv]]) simp_all
  moreover have q: "journal_queue fs' = journal_queue ?fs" by (simp add: fs'_def set_item_def bluesky_cloudlog_new_def)
  have live: "get_item ?fs q \<noteq> None" if "q \<in> set (journal_queue ?fs) \<union> set (committed s)" for q
  proof -
    have "0 < own q + journal_refs s q" using that by (auto simp: journal_refs_def dest: count_list_pos)
    from rc_ok_live [OF log_invD(1) [OF inv] this] show ?thesis by auto
  qed
  have "item_inv {} ?s'"
    unfolding item_inv_def
  proof (intro conjI allI ballI impI)
    fix x y assume "get_item (fs_items ?s') x = Some y"
    then have cases: "x = r \<and> y = c \<or> x \<noteq> r \<and> get_item ?fs x = Some y" using g' by (auto split: if_splits)
    then show "item_small y" using i(1) [of x y] c small by (auto simp: item_small_def)
    show "waiting ?s' x y" using cases i(6) [of x y] c q by (auto simp: waiting_def)
    show "logged ?s' y" if "CLOUDLOG_JOURNAL \<in> location_flags y \<union> pending_write y"
      using cases i(2) [of x y] c that by (auto simp: logged_def)
    show "queued_ok y" if "x \<in> set (journal_queue (fs_items ?s'))"
      using cases i(4) [of x y] q live [of r] none that by auto
  next
    fix x assume x: "x \<in> set (committed ?s')"
    then show "\<exists>y. get_item (fs_items ?s') x = Some y \<and> CLOUDLOG_JOURNAL \<in> pending_write y \<and> log_fd ?s' = Some (journal_key (log_seq y))"
      using i(3) [of x] g' none by (cases "x = r") auto
  qed (use i(5) q in simp_all)
  ultimately show "log_inv {} (own(r := 1)) ?s'" by (simp add: log_inv_def)
qed


lemma log_unref_ok:
  assumes inv: "log_inv {} own s" and r: "0 < own r"
  shows "\<exists>fs'. bluesky_cloudlog_unref (Some r) (fs_items s) = Some fs' \<and> log_inv {} (own(r := own r - 1)) (s\<lparr>fs_items := fs'\<rparr>) \<and>
           keeps s (s\<lparr>fs_items := fs'\<rparr>) \<and> journal_queue fs' = journal_queue (fs_items s)"
proof -
  let ?own = "\<lambda>q. own q + journal_refs s q"
  have "0 < ?own r" using r by simp
  from unref_ok [OF log_invD(1,2,3) [OF inv] this] obtain fs'
    where u: "bluesky_cloudlog_unref (Some r) (fs_items s) = Some fs'" "rc_ok (?own(r := ?own r - 1)) fs'" "loc_ok fs'" "stats_ok fs'"
      "survives (fs_items s) fs'" by blast
  let ?s' = "s\<lparr>fs_items := fs'\<rparr>"
  note m = survives_marked [OF u(5)] and i = item_invD [OF log_invD(5) [OF inv]]
  have q: "journal_queue fs' = journal_queue (fs_items s)" using m by (simp add: marked_def)
  have own: "?own(r := ?own r - 1) = (\<lambda>q. (own(r := own r - 1)) q + journal_refs ?s' q)"
    using q r by (auto simp: fun_eq_iff journal_refs_def)
  have l: "logged ?s' (c\<lparr>cl_refcount := n\<rparr>) = logged s c" for c n by (simp add: logged_def in_file_def record_of_def)
  have "item_inv {} ?s'"
    unfolding item_inv_def
  proof (intro conjI allI ballI impI)
    fix x y assume "get_item (fs_items ?s') x = Some y"
    with markedD [OF m, of x y] obtain c n where c: "get_item (fs_items s) x = Some c" "y = c\<lparr>cl_refcount := n\<rparr>" by auto
    show "item_small y" using i(1) [OF c(1)] c(2) by (simp add: item_small_def)
    show "waiting ?s' x y" using i(6) [OF c(1)] c(2) q by (simp add: waiting_def)
    show "logged ?s' y" if "CLOUDLOG_JOURNAL \<in> location_flags y \<union> pending_write y"
      using i(2) [OF c(1)] c(2) that l by simp
    show "queued_ok y" if "x \<in> set (journal_queue (fs_items ?s'))" using i(4) [OF c(1)] c(2) q that by (simp add: queued_ok_def)
  next
    fix x assume x: "x \<in> set (committed ?s')"
    then have "0 < (own(r := own r - 1)) x + journal_refs ?s' x" by (auto simp: journal_refs_def dest: count_list_pos)
    from rc_ok_live [OF u(2) [unfolded own] this] obtain y where y: "get_item fs' x = Some y" by blast
    with markedD [OF m, of x y] obtain c n where c: "get_item (fs_items s) x = Some c" "y = c\<lparr>cl_refcount := n\<rparr>" by auto
    with i(3) [of x] x y show "\<exists>y. get_item (fs_items ?s') x = Some y \<and> CLOUDLOG_JOURNAL \<in> pending_write y \<and> log_fd ?s' = Some (journal_key (log_seq y))"
      by auto
  qed (use i(5) q in simp_all)
  moreover have "file_inv ?s'" by (rule file_inv_cong [OF log_invD(4) [OF inv]]) simp_all
  ultimately have "log_inv {} (own(r := own r - 1)) ?s'" using u(2,3,4) own by (simp add: log_inv_def)
  moreover have "keeps s ?s'"
    by (rule keeps_marked [OF _ _ log_invD(5) [OF inv]])
      (use m in \<open>simp_all add: same_log_def logged_def journal_data_def journal_file_def\<close>)
  ultimately show ?thesis using u(1) q by blast
qed

lemma log_fetch_ok:
  assumes inv: "log_inv {} own s" and g: "get_item (fs_items s) r = Some c" and c: "known c" "cl_type c \<noteq> LOGTYPE_UNKNOWN"
  shows "\<exists>s'. bluesky_cloudlog_fetch env now results r s = Some s' \<and> log_inv {} own s' \<and> keeps s s' \<and>
           get_item (fs_items s') = (get_item (fs_items s))(r \<mapsto> c\<lparr>cl_data := Some (item_bytes s c)\<rparr>) \<and>
           journal_queue (fs_items s') = journal_queue (fs_items s) \<and> unref_queue (fs_items s') = unref_queue (fs_items s) \<and> committed s' = committed s"
proof (cases "cl_data c")
  case (Some d)
  then have "c\<lparr>cl_data := Some (item_bytes s c)\<rparr> = c" by (simp add: item_bytes_def)
  with Some g inv show ?thesis by (intro exI [of _ s]) (auto simp: bluesky_cloudlog_fetch_def fun_eq_iff)
next
  case None
  with c(1) have j: "CLOUDLOG_JOURNAL \<in> location_flags c \<union> pending_write c" by (simp add: known_def)
  note i = item_invD [OF log_invD(5) [OF inv]]
  have l: "logged s c" using i(2) [OF g _ j] by simp
  let ?c = "c\<lparr>cl_data := Some (journal_data s c)\<rparr>"
  obtain mc where mc: "bluesky_cloudlog_fetch env now results r s = Some (s\<lparr>mmap_cache := mc, fs_items := set_item r ?c (fs_items s)\<rparr>)"
    "mapped (s\<lparr>mmap_cache := mc\<rparr>) = (mapped s)(journal_key (log_seq c) \<mapsto> Some (length (journal_file s c)))"
    by (rule fetch_logged [OF log_invD(4) [OF inv] g l j None c(2)])
  let ?s' = "s\<lparr>mmap_cache := mc, fs_items := set_item r ?c (fs_items s)\<rparr>"
  have m': "mapped ?s' = (mapped s)(journal_key (log_seq c) \<mapsto> Some (length (journal_file s c)))"
    using mc(2) by (simp add: mapped_def fun_eq_iff)
  have f: "file_inv ?s'" "same_log s ?s'" by (rule mapped_more [OF log_invD(4) [OF inv] l m']; simp)+
  have lc: "logged ?s' ?c"
    using logged_loaded [OF same_logD(1) [OF f(2) l], of "Some (journal_data s c)"] same_logD(2) [OF f(2) l] by simp
  have g': "get_item (fs_items ?s') = (get_item (fs_items s))(r \<mapsto> ?c)" using g by (simp add: fun_eq_iff)
  have small: "item_small ?c"
  proof -
    obtain buf e where "record_of c e" "fst (snd e) = journal_data s c" by (rule logged_cases [OF l])
    with i(1) [OF g] show ?thesis by (auto simp: item_small_def record_of_def split: prod.splits)
  qed
  have "item_inv {} ?s'"
    by (rule item_inv_set [OF log_invD(5) [OF inv] g g'])
      (use f(2) small lc i(3) [of r] i(4) [OF g] i(6) [OF g] g None in \<open>auto simp: same_log_def set_item_def queued_ok_def waiting_def\<close>)
  moreover have "stats_ok (fs_items ?s')"
    using stats_ok_set_same [OF log_invD(3) [OF inv] g, of ?c] j
    by (auto simp: counts_in_cloud_def counts_in_journal_def counts_dirty_def)
  ultimately have "log_inv {} own ?s'"
    by (intro log_inv_set [where c' = ?c, OF inv g]) (use f(1) in \<open>simp_all add: set_item_def\<close>)
  moreover have "keeps s ?s'"
    by (rule keeps_set [OF log_invD(5) [OF inv] _ g g' f(2)]) (use None in \<open>auto simp: same_item_def known_def item_bytes_def\<close>)
  moreover have "item_bytes s c = journal_data s c" using None by (simp add: item_bytes_def)
  ultimately show ?thesis using mc(1) g' by (intro exI [of _ ?s']) (simp add: set_item_def)
qed



section \<open>Durability\<close>

text \<open>
  What a crash leaves of an item: the forced contents of its journal file hold a
  record that validates, with the bytes of the item.
\<close>

definition durable :: "lfs \<Rightarrow> cloudlog \<Rightarrow> bool" where
  "durable s c \<longleftrightarrow>
     (\<exists>buf. map_of (stable s) (journal_key (log_seq c)) = Some buf \<and> validate_journal_item buf (log_offset c) = Some True \<and>
        slice (nat (log_offset c) + sizeof_log_header) (nat (data_size c)) buf = item_bytes s c)"

lemma entry_at_validates:
  assumes "entry_at buf off e"
  shows "validate_journal_item buf (int off) = Some True"
proof -
  let ?r = "journal_record off e"
  have e: "entry_ok e" "off < 2 ^ 32" "off + length ?r \<le> length buf" "slice off (length ?r) buf = ?r"
    using assms by (auto simp: entry_at_def)
  have "buf = take off buf @ drop off buf" by simp
  also have "drop off buf = ?r @ drop (off + length ?r) buf"
    using e(4) append_take_drop_id [of "length ?r" "drop off buf"] by (simp add: slice_def add.commute)
  finally have b: "buf = take off buf @ (?r @ drop (off + length ?r) buf)" .
  have l: "length (take off buf) = off" using e(3) by simp
  have "validate_journal_item (take off buf @ (?r @ drop (off + length ?r) buf)) (int (length (take off buf))) = Some True"
    using record_valid_here [OF e(1,2)] e(2) l by (subst validate_at) simp_all
  with b l show ?thesis by simp
qed

lemma logged_durable:
  assumes l: "logged s c" and j: "CLOUDLOG_JOURNAL \<in> location_flags c"
  shows "durable s c"
proof (rule logged_cases [OF l])
  fix buf e
  assume e: "0 \<le> log_offset c" "record_of c e" "CLOUDLOG_JOURNAL \<in> location_flags c \<longrightarrow> in_file (stable s) c e"
    "fst (snd e) = journal_data s c"
  from e(3) j obtain b where b: "map_of (stable s) (journal_key (log_seq c)) = Some b" "entry_at b (nat (log_offset c)) e"
    by (auto simp: in_file_def)
  obtain c0 d1 d2 d3 where d: "e = (c0, d1, d2, d3)" by (cases e)
  have "item_bytes s c = journal_data s c" using logged_data [OF l] by (auto simp: item_bytes_def)
  then have "slice (nat (log_offset c) + sizeof_log_header) (nat (data_size c)) b = item_bytes s c"
    using entry_at_data(1) [of b "nat (log_offset c)" c0 d1 d2 d3] b(2) e(2,4) d by (simp add: record_of_def)
  with b(1) entry_at_validates [OF b(2)] e(1) show ?thesis by (auto simp: durable_def)
qed

text \<open>The loop of \<^verbatim>\<open>log_thread\<close>, one round for each reading of the clock.\<close>

fun log_thread_run :: "env \<Rightarrow> i64 list \<Rightarrow> lfs \<Rightarrow> lfs option" where
  "log_thread_run env [] s = Some s"
| "log_thread_run env (now # ticks) s = Option.bind (log_thread_step env now s) (log_thread_run env ticks)"

lemma log_thread_run_ok:
  assumes "log_inv {} own s" "length ticks = length (journal_queue (fs_items s))"
    "journal_queue (fs_items s) = [] \<longrightarrow> committed s = []"
  shows "\<exists>s'. log_thread_run env ticks s = Some s' \<and> log_inv {} own s' \<and> keeps s s' \<and> journal_queue (fs_items s') = [] \<and> committed s' = []"
  using assms
proof (induction ticks arbitrary: s)
  case Nil
  then show ?case by simp
next
  case (Cons now ticks)
  from log_thread_step_ok [OF Cons.prems(1), of env now] obtain s1
    where s1: "log_thread_step env now s = Some s1" "log_inv {} own s1" "keeps s s1"
      "journal_queue (fs_items s1) = tl (journal_queue (fs_items s))"
      "tl (journal_queue (fs_items s)) = [] \<longrightarrow> journal_queue (fs_items s) \<noteq> [] \<or> committed s = [] \<longrightarrow> committed s1 = []" by blast
  have "journal_queue (fs_items s) \<noteq> []" using Cons.prems(2) by auto
  with s1(5) have "journal_queue (fs_items s1) = [] \<longrightarrow> committed s1 = []" using s1(4) by simp
  moreover have "length ticks = length (journal_queue (fs_items s1))" using Cons.prems(2) s1(4) by simp
  ultimately obtain s' where "log_thread_run env ticks s1 = Some s'" "log_inv {} own s'" "keeps s1 s'"
    "journal_queue (fs_items s') = []" "committed s' = []" using Cons.IH [OF s1(2)] by blast
  with s1(1) keeps_trans [OF s1(3)] show ?case by auto
qed

text \<open>
  The state \<^verbatim>\<open>bluesky_log_new\<close> starts with, on a log directory with the given files: the
  sequence number is above that of every journal file.
\<close>

definition bluesky_log_new :: "(logkey \<times> bytes) list \<Rightarrow> lfs" where
  "bluesky_log_new files = \<lparr>fs_items = \<lparr>cl_items = [], locations = Map.empty, cache_log_dirty = 0, cache_log_journal = 0,
       cache_log_cloud = 0, unref_queue = [], journal_queue = []\<rparr>,
     disk = files, stable = files, log_fd = None, log_pos = 0,
     seq_num = fold (\<lambda>((dir, seq), _) m. if dir < 0 then max m (seq + 1) else m) files 0,
     committed = [], current_log = None,
     mmap_cache = Map.empty, log_disk_used = 0, fetch_requests = [], seg_data = [], seg_location = zero_ptr,
     writeback_list = [], pending_segments = [], uploads_pending = 0, latest_cleaner_seq_seen = 0, inode_map = [], next_inum = 0\<rparr>"

lemma log_new_ok: "log_inv {} (\<lambda>r. 0) (bluesky_log_new files)"
  by (simp add: log_inv_def bluesky_log_new_def rc_ok_def get_item_def link_count_def journal_refs_def loc_ok_def stats_ok_def
      tally_def file_inv_def item_inv_def mapped_def)


section \<open>Reachable states\<close>

text \<open>
  The journal at work: items are created and submitted, the log thread runs,
  owners read and release items.  The first component counts their references.
\<close>

inductive journal_reach :: "env \<Rightarrow> (ref \<Rightarrow> nat) \<Rightarrow> lfs \<Rightarrow> bool" for env where
  start: "journal_reach env (\<lambda>r. 0) (bluesky_log_new files)"
| submit: "journal_reach env own s \<Longrightarrow> type \<noteq> LOGTYPE_UNKNOWN \<Longrightarrow> length oid = 16 \<Longrightarrow> length data < 2 ^ 32 \<Longrightarrow>
     journal_marker type data oid (fs_items s) = Some (r, fs') \<Longrightarrow> journal_reach env (own(r := 1)) (s\<lparr>fs_items := fs'\<rparr>)"
| thread: "journal_reach env own s \<Longrightarrow> log_thread_step env now s = Some s' \<Longrightarrow> journal_reach env own s'"
| fetch: "journal_reach env own s \<Longrightarrow> 0 < own r \<Longrightarrow> bluesky_cloudlog_fetch env now results r s = Some s' \<Longrightarrow> journal_reach env own s'"
| release: "journal_reach env own s \<Longrightarrow> 0 < own r \<Longrightarrow> bluesky_cloudlog_unref (Some r) (fs_items s) = Some fs' \<Longrightarrow>
     journal_reach env (own(r := own r - 1)) (s\<lparr>fs_items := fs'\<rparr>)"

definition typed_items :: "lfs \<Rightarrow> bool" where
  "typed_items s \<longleftrightarrow> (\<forall>r c. get_item (fs_items s) r = Some c \<longrightarrow> known c \<and> cl_type c \<noteq> LOGTYPE_UNKNOWN)"

lemma typed_items_keeps: "typed_items s \<Longrightarrow> keeps s s' \<Longrightarrow> typed_items s'"
  unfolding typed_items_def keeps_def same_item_def by metis

lemma journal_marker_ok:
  assumes inv: "log_inv {} own s" and t: "type \<noteq> LOGTYPE_UNKNOWN" and small: "length oid = 16" "length data < 2 ^ 32"
  defines "c \<equiv> (new_cloudlog oid)\<lparr>cl_type := type, cl_data := Some data\<rparr>" and "r \<equiv> length (cl_items (fs_items s))"
  shows "\<exists>fs'. journal_marker type data oid (fs_items s) = Some (r, fs') \<and> log_inv {} (own(r := 1)) (s\<lparr>fs_items := fs'\<rparr>) \<and> own r = 0 \<and>
           journal_queue fs' = journal_queue (fs_items s) @ [r] \<and>
           (\<exists>fs1. get_item fs1 = (get_item (fs_items s))(r \<mapsto> c) \<and> keeps (s\<lparr>fs_items := fs1\<rparr>) (s\<lparr>fs_items := fs'\<rparr>))"
proof -
  let ?fs1 = "bluesky_cloudlog_stats_update c 1 (set_item r c (snd (bluesky_cloudlog_new oid (fs_items s))))"
  have "c = (new_cloudlog oid)\<lparr>cl_type := type, cl_inum := 0, cl_data := Some data\<rparr>" by (simp add: c_def new_cloudlog_def)
  note n = new_item_ok [OF inv this small, folded r_def]
  let ?s1 = "s\<lparr>fs_items := ?fs1\<rparr>"
  have g: "get_item (fs_items ?s1) r = Some c" using n(3) by simp
  from submit_ok [OF n(1) g] t obtain fs' where f: "bluesky_log_item_submit r ?fs1 = Some fs'" "log_inv {} (own(r := 1)) (?s1\<lparr>fs_items := fs'\<rparr>)"
    "keeps ?s1 (?s1\<lparr>fs_items := fs'\<rparr>)" "journal_queue fs' = journal_queue ?fs1 @ [r]" by (auto simp: c_def new_cloudlog_def)
  have "journal_marker type data oid (fs_items s) = Some (r, fs')"
    using f(1) unfolding journal_marker_def c_def [symmetric] by (simp add: bluesky_cloudlog_new_def r_def Let_def)
  moreover have "journal_queue ?fs1 = journal_queue (fs_items s)" by (simp add: set_item_def bluesky_cloudlog_new_def)
  ultimately show ?thesis using f n(2,3) by (intro exI [of _ fs']) (auto intro!: exI [of _ ?fs1])
qed

lemma journal_reach_inv:
  assumes "journal_reach env own s"
  shows "log_inv {} own s \<and> typed_items s"
  using assms
proof induction
  case (start files)
  have "typed_items (bluesky_log_new files)" by (simp add: typed_items_def bluesky_log_new_def get_item_def)
  with log_new_ok show ?case by simp
next
  case (submit own s type oid data r fs')
  from journal_marker_ok [of own s type oid data] submit obtain fs1
    where f: "log_inv {} (own(r := 1)) (s\<lparr>fs_items := fs'\<rparr>)"
      "get_item fs1 = (get_item (fs_items s))(r \<mapsto> (new_cloudlog oid)\<lparr>cl_type := type, cl_data := Some data\<rparr>)"
      "keeps (s\<lparr>fs_items := fs1\<rparr>) (s\<lparr>fs_items := fs'\<rparr>)" by auto
  have "typed_items (s\<lparr>fs_items := fs1\<rparr>)" using submit.IH submit.hyps(2) f(2) by (auto simp: typed_items_def known_def split: if_splits)
  from typed_items_keeps [OF this f(3)] f(1) show ?case by (simp add: fun_upd_def)
next
  case (thread own s now s')
  with log_thread_step_ok [of own s env now] typed_items_keeps [of s s'] show ?case by auto
next
  case (fetch own s r now results s')
  then obtain c where c: "get_item (fs_items s) r = Some c" using rc_ok_live [OF log_invD(1), of _ own s r] by auto
  then have "known c" "cl_type c \<noteq> LOGTYPE_UNKNOWN" using fetch.IH by (auto simp: typed_items_def)
  with fetch log_fetch_ok [of own s r c env now results] c typed_items_keeps [of s s'] show ?case by auto
next
  case (release own s r fs')
  with log_unref_ok [of own s r] typed_items_keeps [of s "s\<lparr>fs_items := fs'\<rparr>"] show ?case by (auto simp: fun_upd_def)
qed


text \<open>Every item has been submitted, and with an empty queue nothing waits for a commit.\<close>

definition submitted :: "lfs \<Rightarrow> bool" where
  "submitted s \<longleftrightarrow>
     (\<forall>r c. get_item (fs_items s) r = Some c \<longrightarrow> {CLOUDLOG_JOURNAL, CLOUDLOG_UNCOMMITTED} \<inter> location_flags c \<noteq> {}) \<and>
     (journal_queue (fs_items s) = [] \<longrightarrow> committed s = [])"

lemma submitted_keeps:
  assumes "submitted s" "keeps s s'" "journal_queue (fs_items s') = [] \<longrightarrow> committed s' = []"
  shows "submitted s'"
  using assms unfolding submitted_def keeps_def same_item_def by metis

lemma journal_reach_submitted:
  assumes "journal_reach env own s"
  shows "submitted s"
  using assms
proof induction
  case (start files)
  show ?case by (simp add: submitted_def bluesky_log_new_def get_item_def)
next
  case (submit own s type oid data r fs')
  from journal_marker_ok [of own s type oid data] journal_reach_inv [OF submit.hyps(1)] submit.hyps obtain fs1
    where f: "log_inv {} (own(r := 1)) (s\<lparr>fs_items := fs'\<rparr>)" "journal_queue fs' = journal_queue (fs_items s) @ [r]"
      "get_item fs1 = (get_item (fs_items s))(r \<mapsto> (new_cloudlog oid)\<lparr>cl_type := type, cl_data := Some data\<rparr>)"
      "keeps (s\<lparr>fs_items := fs1\<rparr>) (s\<lparr>fs_items := fs'\<rparr>)" by auto
  have "{CLOUDLOG_JOURNAL, CLOUDLOG_UNCOMMITTED} \<inter> location_flags c \<noteq> {}" if c: "get_item fs' q = Some c" for q c
  proof (cases "q = r")
    case True
    then have "queued_ok c" using item_invD(4) [OF log_invD(5) [OF f(1)], of q c] c f(2) by simp
    then show ?thesis by (auto simp: queued_ok_def)
  next
    case False
    from keepsD [OF f(4), of q c] c obtain x where "get_item fs1 q = Some x" "same_item (s\<lparr>fs_items := fs1\<rparr>) x (s\<lparr>fs_items := fs'\<rparr>) c" by auto
    with False f(3) submit.IH show ?thesis by (auto simp: submitted_def same_item_def)
  qed
  with f(2) show ?case by (simp add: submitted_def)
next
  case (thread own s now s')
  from log_thread_step_ok [of own s env now] journal_reach_inv [OF thread.hyps(1)] thread.hyps(2)
  have k: "keeps s s'" "journal_queue (fs_items s') = tl (journal_queue (fs_items s))"
    "tl (journal_queue (fs_items s)) = [] \<longrightarrow> journal_queue (fs_items s) \<noteq> [] \<or> committed s = [] \<longrightarrow> committed s' = []" by auto
  show ?case by (rule submitted_keeps [OF thread.IH k(1)]) (use k(2,3) thread.IH in \<open>auto simp: submitted_def\<close>)
next
  case (fetch own s r now results s')
  then obtain c where c: "get_item (fs_items s) r = Some c"
    using rc_ok_live [OF log_invD(1), of _ own s r] journal_reach_inv [OF fetch.hyps(1)] by auto
  then have "known c" "cl_type c \<noteq> LOGTYPE_UNKNOWN" using journal_reach_inv [OF fetch.hyps(1)] by (auto simp: typed_items_def)
  with log_fetch_ok [of own s r c env now results] c fetch.hyps journal_reach_inv [OF fetch.hyps(1)]
  have k: "keeps s s'" "journal_queue (fs_items s') = journal_queue (fs_items s)" "committed s' = committed s" by auto
  show ?case by (rule submitted_keeps [OF fetch.IH k(1)]) (use k(2,3) fetch.IH in \<open>auto simp: submitted_def\<close>)
next
  case (release own s r fs')
  let ?s' = "s\<lparr>fs_items := fs'\<rparr>"
  have "keeps s ?s'" using log_unref_ok [of own s r] journal_reach_inv [OF release.hyps(1)] release.hyps(2,3) by auto
  moreover have "journal_queue fs' = journal_queue (fs_items s)"
    using unref_all_keeps [of "[Some r]" "fs_items s" fs'] release.hyps(3) journal_reach_inv [OF release.hyps(1)]
    by (auto simp: bluesky_cloudlog_unref_def survives_def log_inv_def)
  ultimately show ?case using submitted_keeps [OF release.IH, of ?s'] release.IH by (auto simp: submitted_def)
qed


section \<open>Properties\<close>

text \<open>An environment for the witnesses.\<close>

definition sample_env :: env where
  "sample_env = \<lparr>seq_search = linear_search, env_crypt = sample_gcrypt, fs_keys = \<lparr>encryption_key = [], authentication_key = []\<rparr>, disable_crypto = True,
     full_segment_fetches = False, disable_aggregation = False, disable_read_aggregation = False, st_blocks = (\<lambda>buf. int (length buf) div 512)\<rparr>"

lemma sample_submitted:
  obtains fs where "journal_reach env ((\<lambda>r. 0)(0 := 1)) ((bluesky_log_new [])\<lparr>fs_items := fs\<rparr>)" "journal_queue fs = [0]"
proof -
  let ?s = "bluesky_log_new []"
  from journal_marker_ok [OF log_new_ok, of LOGTYPE_JOURNAL_MARKER "replicate 16 1" "[]" "[]"] obtain fs
    where "journal_marker LOGTYPE_JOURNAL_MARKER [] (replicate 16 1) (fs_items ?s) = Some (0, fs)" "journal_queue fs = [0]"
    by (auto simp: bluesky_log_new_def logtype_defs)
  with journal_reach.submit [OF journal_reach.start [of env "[]"], of LOGTYPE_JOURNAL_MARKER "replicate 16 1" "[]" 0 fs] that [of fs]
  show ?thesis by (simp add: logtype_defs)
qed







end
