(* ===== verification/BlueSky_Xdr.thy ===== *)
theory BlueSky_Xdr
  imports BlueSky_Prelude
begin

text \<open>
  XDR filters.  A filter of the C library's XDR package (\<^verbatim>\<open>xdr_u_int\<close>, \<^verbatim>\<open>xdr_bytes\<close>,
  \<^verbatim>\<open>xdr_pointer\<close>, ...) runs in either direction; here it is a pair of an encoder and a
  decoder, and the filters of a struct are put together field by field the way
  the generated code calls them.  \<^verbatim>\<open>FALSE\<close> is \<open>None\<close>.  The encoder appends to a
  growable string (\<^verbatim>\<open>nfs3/common.c\<close>); the decoder takes bytes from the front of a
  buffer and returns the rest, and fails where the buffer is too short.  What
  every filter promises is the locale \<open>xdr_codec\<close>; the rules of the collection
  \<open>xdr_rules\<close> prove it for the filters of structs and unions from their parts.
\<close>

record 'a xdr =
  xenc :: "'a \<Rightarrow> bytes option"
  xdec :: "bytes \<Rightarrow> ('a \<times> bytes) option"

named_theorems xdr_rules \<open>filters that keep their promise\<close>


section \<open>Integers\<close>

text \<open>\<^verbatim>\<open>htonl\<close> and \<^verbatim>\<open>ntohl\<close>: \<^verbatim>\<open>xdr_string_putlong\<close> and \<^verbatim>\<open>xdr_string_putint32\<close> append these bytes.\<close>

definition be_bytes :: "nat \<Rightarrow> 'a::len word \<Rightarrow> bytes" where
  "be_bytes n w = rev (le_bytes n w)"

definition be_word :: "bytes \<Rightarrow> 'a::len word" where
  "be_word bs = le_word (rev bs)"

abbreviation be32 :: "u32 \<Rightarrow> bytes" where
  "be32 \<equiv> be_bytes 4"

abbreviation be64 :: "u64 \<Rightarrow> bytes" where
  "be64 \<equiv> be_bytes 8"

lemma length_be_bytes [simp]: "length (be_bytes n w) = n"
  by (simp add: be_bytes_def)

lemma be32_roundtrip [simp]: "be_word (be32 w) = w"
  by (simp add: be_word_def be_bytes_def)

lemma be64_roundtrip [simp]: "be_word (be64 w) = w"
  by (simp add: be_word_def be_bytes_def)

definition xdr_word :: "nat \<Rightarrow> 'a::len word xdr" where
  "xdr_word n = \<lparr>xenc = (\<lambda>w. Some (be_bytes n w)),
     xdec = (\<lambda>bs. if n \<le> length bs then Some (be_word (take n bs), drop n bs) else None)\<rparr>"

definition xdr_u_int :: "u32 xdr" where "xdr_u_int = xdr_word 4"
definition xdr_int :: "u32 xdr" where "xdr_int = xdr_word 4"
definition xdr_enum :: "u32 xdr" where "xdr_enum = xdr_word 4"
definition xdr_u_quad_t :: "u64 xdr" where "xdr_u_quad_t = xdr_word 8"
definition xdr_quad_t :: "u64 xdr" where "xdr_quad_t = xdr_word 8"

text \<open>Any value but 0 is read as true.\<close>

definition xdr_bool :: "bool xdr" where
  "xdr_bool = \<lparr>xenc = (\<lambda>b. xenc xdr_enum (if b then 1 else 0)),
     xdec = (\<lambda>bs. map_option (\<lambda>(w, rest). (w \<noteq> 0, rest)) (xdec xdr_enum bs))\<rparr>"

definition xdr_void :: "unit xdr" where
  "xdr_void = \<lparr>xenc = (\<lambda>_. Some []), xdec = (\<lambda>bs. Some ((), bs))\<rparr>"


section \<open>Byte strings\<close>

text \<open>Strings are filled up to a multiple of four bytes; the fill bytes are not looked at.\<close>

definition xdr_fill :: "nat \<Rightarrow> nat" where
  "xdr_fill n = (4 - n mod 4) mod 4"

definition xdr_opaque :: "nat \<Rightarrow> bytes xdr" where
  "xdr_opaque n = \<lparr>xenc = (\<lambda>x. if length x = n then Some (x @ replicate (xdr_fill n) 0) else None),
     xdec = (\<lambda>bs. if n + xdr_fill n \<le> length bs then Some (take n bs, drop (n + xdr_fill n) bs) else None)\<rparr>"

definition xdr_bytes :: "nat \<Rightarrow> bytes xdr" where
  "xdr_bytes maxsize = \<lparr>xenc = (\<lambda>x. if maxsize < length x \<or> 2 ^ 32 \<le> length x then None
        else map_option (\<lambda>b. be32 (of_nat (length x)) @ b) (xenc (xdr_opaque (length x)) x)),
     xdec = (\<lambda>bs. case xdec xdr_u_int bs of None \<Rightarrow> None
        | Some (n, bs) \<Rightarrow> if maxsize < unat n then None else xdec (xdr_opaque (unat n)) bs)\<rparr>"

text \<open>
  A C string: a decoded string ends at its first zero byte.  The longest
  length would overflow the size of the allocation and is refused.
\<close>

definition xdr_string :: "nat \<Rightarrow> bytes xdr" where
  "xdr_string maxsize = \<lparr>xenc = (\<lambda>x. if 0 \<in> set x \<or> maxsize < length x \<or> 2 ^ 32 - 1 \<le> length x then None
        else map_option (\<lambda>b. be32 (of_nat (length x)) @ b) (xenc (xdr_opaque (length x)) x)),
     xdec = (\<lambda>bs. case xdec xdr_u_int bs of None \<Rightarrow> None
        | Some (n, bs) \<Rightarrow>
            if maxsize < unat n \<or> unat n = 2 ^ 32 - 1 then None
            else map_option (\<lambda>(x, rest). (takeWhile (\<lambda>b. b \<noteq> 0) x, rest)) (xdec (xdr_opaque (unat n)) bs))\<rparr>"


section \<open>Structs, unions and lists\<close>

text \<open>Two fields one after the other, and the fields of a struct as a tuple.\<close>

definition xdr_then :: "'a xdr \<Rightarrow> 'b xdr \<Rightarrow> ('a \<times> 'b) xdr" where
  "xdr_then p q = \<lparr>xenc = (\<lambda>(x, y). case xenc p x of None \<Rightarrow> None | Some b \<Rightarrow> map_option (\<lambda>b'. b @ b') (xenc q y)),
     xdec = (\<lambda>bs. case xdec p bs of None \<Rightarrow> None
        | Some (x, bs) \<Rightarrow> map_option (\<lambda>(y, rest). ((x, y), rest)) (xdec q bs))\<rparr>"

definition xdr_struct :: "('b \<Rightarrow> 'a) \<Rightarrow> ('a \<Rightarrow> 'b) \<Rightarrow> 'a xdr \<Rightarrow> 'b xdr" where
  "xdr_struct get mk p = \<lparr>xenc = (\<lambda>x. xenc p (get x)),
     xdec = (\<lambda>bs. map_option (\<lambda>(y, rest). (mk y, rest)) (xdec p bs))\<rparr>"

text \<open>One arm of a union: the values it is for, through the projection.\<close>

definition xdr_arm :: "('b \<Rightarrow> 'a option) \<Rightarrow> ('a \<Rightarrow> 'b) \<Rightarrow> 'a xdr \<Rightarrow> 'b xdr" where
  "xdr_arm prj mk p = \<lparr>xenc = (\<lambda>x. Option.bind (prj x) (xenc p)),
     xdec = (\<lambda>bs. map_option (\<lambda>(y, rest). (mk y, rest)) (xdec p bs))\<rparr>"

text \<open>A \<^verbatim>\<open>switch\<close> on the discriminant; no arm is the case that returns \<^verbatim>\<open>FALSE\<close>.\<close>

definition xdr_union :: "'d xdr \<Rightarrow> ('a \<Rightarrow> 'd) \<Rightarrow> ('d \<Rightarrow> 'a xdr option) \<Rightarrow> 'a xdr" where
  "xdr_union disc tag arm = \<lparr>xenc = (\<lambda>x. case xenc disc (tag x) of None \<Rightarrow> None
        | Some b \<Rightarrow> (case arm (tag x) of None \<Rightarrow> None | Some p \<Rightarrow> map_option (\<lambda>b'. b @ b') (xenc p x))),
     xdec = (\<lambda>bs. case xdec disc bs of None \<Rightarrow> None
        | Some (t, bs) \<Rightarrow> (case arm t of None \<Rightarrow> None | Some p \<Rightarrow> xdec p bs))\<rparr>"

definition xdr_optional :: "'a xdr \<Rightarrow> 'a option xdr" where
  "xdr_optional p = xdr_union xdr_bool (\<lambda>x. x \<noteq> None)
     (\<lambda>t. Some (if t then xdr_arm (\<lambda>x. x) Some p
                else xdr_arm (\<lambda>x. if x = None then Some () else None) (\<lambda>_. None) xdr_void))"

text \<open>
  A list linked through its last field with \<^verbatim>\<open>xdr_pointer\<close>.  Every element takes
  at least the four bytes of its flag, so the length of the buffer bounds the
  number of rounds.
\<close>

fun enc_list :: "'a xdr \<Rightarrow> 'a list \<Rightarrow> bytes option" where
  "enc_list p [] = xenc xdr_bool False"
| "enc_list p (x # xs) =
     (case xenc xdr_bool True of None \<Rightarrow> None
      | Some b \<Rightarrow> (case xenc p x of None \<Rightarrow> None | Some b' \<Rightarrow> map_option (\<lambda>b''. b @ b' @ b'') (enc_list p xs)))"

fun dec_list :: "nat \<Rightarrow> 'a xdr \<Rightarrow> bytes \<Rightarrow> ('a list \<times> bytes) option" where
  "dec_list 0 p bs = None"
| "dec_list (Suc fuel) p bs =
     (case xdec xdr_bool bs of None \<Rightarrow> None
      | Some (False, bs) \<Rightarrow> Some ([], bs)
      | Some (True, bs) \<Rightarrow>
          (case xdec p bs of None \<Rightarrow> None
           | Some (x, bs) \<Rightarrow> map_option (\<lambda>(xs, rest). (x # xs, rest)) (dec_list fuel p bs)))"

definition xdr_pointer_list :: "'a xdr \<Rightarrow> 'a list xdr" where
  "xdr_pointer_list p = \<lparr>xenc = enc_list p, xdec = (\<lambda>bs. dec_list (length bs) p bs)\<rparr>"

text \<open>\<^verbatim>\<open>xdr_array\<close>: the number of elements, which may not make the array larger than the
  address space of a 32-bit count of bytes, and the elements.\<close>

fun enc_items :: "'a xdr \<Rightarrow> 'a list \<Rightarrow> bytes option" where
  "enc_items p [] = Some []"
| "enc_items p (x # xs) = (case xenc p x of None \<Rightarrow> None | Some b \<Rightarrow> map_option (\<lambda>b'. b @ b') (enc_items p xs))"

fun dec_items :: "nat \<Rightarrow> 'a xdr \<Rightarrow> bytes \<Rightarrow> ('a list \<times> bytes) option" where
  "dec_items 0 p bs = Some ([], bs)"
| "dec_items (Suc n) p bs =
     (case xdec p bs of None \<Rightarrow> None
      | Some (x, bs) \<Rightarrow> map_option (\<lambda>(xs, rest). (x # xs, rest)) (dec_items n p bs))"

definition xdr_array :: "nat \<Rightarrow> nat \<Rightarrow> 'a xdr \<Rightarrow> 'a list xdr" where
  "xdr_array maxsize elsize p =
     \<lparr>xenc = (\<lambda>xs. if length xs > maxsize \<or> (2 ^ 32 - 1) div elsize < length xs then None
                else map_option (\<lambda>b. be32 (of_nat (length xs)) @ b) (enc_items p xs)),
      xdec = (\<lambda>bs. case xdec xdr_u_int bs of None \<Rightarrow> None
                | Some (n, bs) \<Rightarrow> if unat n > maxsize \<or> (2 ^ 32 - 1) div elsize < unat n then None else dec_items (unat n) p bs)\<rparr>"


section \<open>What a filter promises\<close>

text \<open>
  Well-formed values are encoded in whole words and decoded to themselves; a
  decoder yields well-formed values and consumes whole words from the front of
  the buffer, never more than there are.
\<close>

locale xdr_codec =
  fixes p :: "'a xdr" and ok :: "'a \<Rightarrow> bool"
  assumes enc_total: "ok x \<Longrightarrow> \<exists>b. xenc p x = Some b"
    and roundtrip: "ok x \<Longrightarrow> xenc p x = Some b \<Longrightarrow> 4 dvd length b \<and> xdec p (b @ rest) = Some (x, rest)"
    and decoded: "xdec p bs = Some (x, rest) \<Longrightarrow> ok x \<and> (\<exists>used. bs = used @ rest \<and> 4 dvd length used)"
begin

lemma enc_dec:
  assumes "ok x"
  obtains b where "xenc p x = Some b" "4 dvd length b" "\<forall>rest. xdec p (b @ rest) = Some (x, rest)"
  using enc_total [OF assms] roundtrip [OF assms] by blast

lemma dec_shorter: "xdec p bs = Some (x, rest) \<Longrightarrow> length rest \<le> length bs"
  using decoded by fastforce

text \<open>What was decoded can be sent again and is understood as the same value.\<close>

lemma dec_enc_dec:
  assumes "xdec p bs = Some (x, rest)"
  obtains b where "xenc p x = Some b" "\<forall>rest'. xdec p (b @ rest') = Some (x, rest')"
proof -
  have "ok x" using decoded [OF assms] by blast
  then show ?thesis by (rule enc_dec) (rule that)
qed

end

lemma xdr_codecI:
  assumes "\<And>x. ok x \<Longrightarrow> \<exists>b. xenc p x = Some b \<and> 4 dvd length b \<and> (\<forall>rest. xdec p (b @ rest) = Some (x, rest))"
    and "\<And>bs x rest. xdec p bs = Some (x, rest) \<Longrightarrow> ok x \<and> (\<exists>used. bs = used @ rest \<and> 4 dvd length used)"
  shows "xdr_codec p ok"
proof
  fix x b rest
  assume x: "ok x" "xenc p x = Some b"
  with assms(1) [OF x(1)] show "4 dvd length b \<and> xdec p (b @ rest) = Some (x, rest)" by auto
qed (use assms in blast)+

lemma xdr_word_codec:
  assumes "8 * n = LENGTH('a)" "4 dvd n"
  shows "xdr_codec (xdr_word n :: 'a::len word xdr) (\<lambda>_. True)"
proof (rule xdr_codecI)
  fix w :: "'a word"
  have "be_word (be_bytes n w) = w"
    using assms(1) by (simp add: be_word_def be_bytes_def le_word_le_bytes take_bit_word_eq_self)
  then show "\<exists>b. xenc (xdr_word n) w = Some b \<and> 4 dvd length b \<and> (\<forall>rest. xdec (xdr_word n) (b @ rest) = Some (w, rest))"
    using assms(2) by (simp add: xdr_word_def)
next
  fix bs and w :: "'a word" and rest
  assume "xdec (xdr_word n) bs = Some (w, rest)"
  then have "n \<le> length bs" "rest = drop n bs" by (auto simp: xdr_word_def split: if_splits)
  then show "True \<and> (\<exists>used. bs = used @ rest \<and> 4 dvd length used)"
    using assms(2) by (auto intro!: exI [of _ "take n bs"])
qed

lemma xdr_word_codecs [xdr_rules]:
  "xdr_codec xdr_u_int (\<lambda>_. True)" "xdr_codec xdr_int (\<lambda>_. True)" "xdr_codec xdr_enum (\<lambda>_. True)"
  "xdr_codec xdr_u_quad_t (\<lambda>_. True)" "xdr_codec xdr_quad_t (\<lambda>_. True)"
  by (simp_all add: xdr_u_int_def xdr_int_def xdr_enum_def xdr_u_quad_t_def xdr_quad_t_def xdr_word_codec)

lemma xdr_void_codec [xdr_rules]: "xdr_codec xdr_void (\<lambda>_. True)"
  by (rule xdr_codecI) (auto simp: xdr_void_def intro: exI [of _ "[]"])

lemma xdr_bool_codec [xdr_rules]: "xdr_codec xdr_bool (\<lambda>_. True)"
proof (rule xdr_codecI)
  fix x :: bool
  show "\<exists>b. xenc xdr_bool x = Some b \<and> 4 dvd length b \<and> (\<forall>rest. xdec xdr_bool (b @ rest) = Some (x, rest))"
    by (simp add: xdr_bool_def xdr_enum_def xdr_word_def)
next
  fix bs x rest
  assume "xdec xdr_bool bs = Some (x, rest)"
  then obtain w where "xdec xdr_enum bs = Some (w, rest)" by (auto simp: xdr_bool_def)
  with xdr_codec.decoded [OF xdr_word_codecs(3)] show "True \<and> (\<exists>used. bs = used @ rest \<and> 4 dvd length used)" by blast
qed

lemma fill_dvd: "4 dvd n + xdr_fill n"
proof -
  define q r where "q = n div 4" and "r = n mod 4"
  have n: "n = 4 * q + r" "r < 4" by (simp_all add: q_def r_def)
  show ?thesis
  proof (cases "r = 0")
    case False
    with n(2) have "xdr_fill n = 4 - r" by (simp add: xdr_fill_def r_def [symmetric])
    then have "n + xdr_fill n = 4 * (q + 1)" using n by simp
    then show ?thesis by (simp only: dvd_triv_left)
  qed (use n(1) in \<open>simp add: xdr_fill_def\<close>)
qed

lemma xdr_opaque_codec [xdr_rules]: "xdr_codec (xdr_opaque n) (\<lambda>x. length x = n)"
proof (rule xdr_codecI)
  fix x :: bytes
  assume "length x = n"
  then show "\<exists>b. xenc (xdr_opaque n) x = Some b \<and> 4 dvd length b \<and> (\<forall>rest. xdec (xdr_opaque n) (b @ rest) = Some (x, rest))"
    using fill_dvd [of n] by (simp add: xdr_opaque_def)
next
  fix bs x rest
  assume "xdec (xdr_opaque n) bs = Some (x, rest)"
  then have "n + xdr_fill n \<le> length bs" "x = take n bs" "rest = drop (n + xdr_fill n) bs"
    by (auto simp: xdr_opaque_def split: if_splits)
  then show "length x = n \<and> (\<exists>used. bs = used @ rest \<and> 4 dvd length used)"
    using fill_dvd [of n] by (auto intro!: exI [of _ "take (n + xdr_fill n) bs"])
qed


text \<open>A word, followed by a part whose filter depends on it.\<close>

lemma dec_u_int: "xdec xdr_u_int (be32 n @ rest) = Some (n, rest)"
  by (simp add: xdr_u_int_def xdr_word_def)

lemma u_int_used: "xdec xdr_u_int bs = Some (n, rest) \<Longrightarrow> \<exists>used. bs = used @ rest \<and> 4 dvd length used"
  using xdr_codec.decoded [OF xdr_word_codecs(1)] by blast

lemma xdr_bytes_codec [xdr_rules]: "xdr_codec (xdr_bytes m) (\<lambda>x. length x \<le> m \<and> length x < 2 ^ 32)"
proof (rule xdr_codecI)
  fix x :: bytes
  assume ok: "length x \<le> m \<and> length x < 2 ^ 32"
  then have n: "unat (of_nat (length x) :: u32) = length x" by (intro unat_of_nat_small) simp
  obtain b where b: "xenc (xdr_opaque (length x)) x = Some b" "4 dvd length b"
    "\<forall>rest. xdec (xdr_opaque (length x)) (b @ rest) = Some (x, rest)"
    by (rule xdr_codec.enc_dec [OF xdr_opaque_codec, of x "length x"]) auto
  then have "xenc (xdr_bytes m) x = Some (be32 (of_nat (length x)) @ b)" using ok by (simp add: xdr_bytes_def)
  moreover have "xdec (xdr_bytes m) ((be32 (of_nat (length x)) @ b) @ rest) = Some (x, rest)" for rest
    using ok b(3) n dec_u_int [of "of_nat (length x)" "b @ rest"] by (simp add: xdr_bytes_def)
  ultimately show "\<exists>b. xenc (xdr_bytes m) x = Some b \<and> 4 dvd length b \<and> (\<forall>rest. xdec (xdr_bytes m) (b @ rest) = Some (x, rest))"
    using b(2) by (intro exI [of _ "be32 (of_nat (length x)) @ b"]) simp
next
  fix bs x rest
  assume "xdec (xdr_bytes m) bs = Some (x, rest)"
  then obtain n bs' where n: "xdec xdr_u_int bs = Some (n, bs')" "unat n \<le> m" "xdec (xdr_opaque (unat n)) bs' = Some (x, rest)"
    by (auto simp: xdr_bytes_def split: option.splits if_splits)
  from xdr_codec.decoded [OF xdr_opaque_codec n(3)] u_int_used [OF n(1)] obtain u v
    where "bs = u @ v @ rest" "4 dvd length u" "4 dvd length v" "length x = unat n" by auto
  moreover have "unat n < 2 ^ 32" using unsigned_less [of n] by simp
  ultimately show "(length x \<le> m \<and> length x < 2 ^ 32) \<and> (\<exists>used. bs = used @ rest \<and> 4 dvd length used)"
    using n(2) by (auto intro!: exI [of _ "u @ v"])
qed

lemma takeWhile_no_zero: "0 \<notin> set x \<Longrightarrow> takeWhile (\<lambda>b. b \<noteq> 0) x = x"
  by (auto simp: takeWhile_eq_all_conv)

lemma xdr_string_codec [xdr_rules]: "xdr_codec (xdr_string m) (\<lambda>x. 0 \<notin> set x \<and> length x \<le> m \<and> length x < 2 ^ 32 - 1)"
proof (rule xdr_codecI)
  fix x :: bytes
  assume ok: "0 \<notin> set x \<and> length x \<le> m \<and> length x < 2 ^ 32 - 1"
  then have n: "unat (of_nat (length x) :: u32) = length x" by (intro unat_of_nat_small) simp
  obtain b where b: "xenc (xdr_opaque (length x)) x = Some b" "4 dvd length b"
    "\<forall>rest. xdec (xdr_opaque (length x)) (b @ rest) = Some (x, rest)"
    by (rule xdr_codec.enc_dec [OF xdr_opaque_codec, of x "length x"]) auto
  then have "xenc (xdr_string m) x = Some (be32 (of_nat (length x)) @ b)" using ok by (simp add: xdr_string_def)
  moreover have "xdec (xdr_string m) ((be32 (of_nat (length x)) @ b) @ rest) = Some (x, rest)" for rest
    using ok b(3) n dec_u_int [of "of_nat (length x)" "b @ rest"] by (simp add: xdr_string_def takeWhile_no_zero)
  ultimately show "\<exists>b. xenc (xdr_string m) x = Some b \<and> 4 dvd length b \<and> (\<forall>rest. xdec (xdr_string m) (b @ rest) = Some (x, rest))"
    using b(2) by (intro exI [of _ "be32 (of_nat (length x)) @ b"]) simp
next
  fix bs x rest
  assume "xdec (xdr_string m) bs = Some (x, rest)"
  then obtain n bs' y where n: "xdec xdr_u_int bs = Some (n, bs')" "unat n \<le> m" "unat n \<noteq> 2 ^ 32 - 1"
    "xdec (xdr_opaque (unat n)) bs' = Some (y, rest)" "x = takeWhile (\<lambda>b. b \<noteq> 0) y"
    by (auto simp: xdr_string_def split: option.splits if_splits)
  from xdr_codec.decoded [OF xdr_opaque_codec n(4)] u_int_used [OF n(1)] obtain u v
    where u: "bs = u @ v @ rest" "4 dvd length u" "4 dvd length v" "length y = unat n" by auto
  have l: "length x \<le> unat n" using n(5) u(4) length_takeWhile_le [of _ y] by metis
  have "unat n < 2 ^ 32" using unsigned_less [of n] by simp
  then have "length x < 2 ^ 32 - 1" using n(3) l by linarith
  moreover have "0 \<notin> set x" using n(5) by (auto dest: set_takeWhileD)
  moreover have "\<exists>used. bs = used @ rest \<and> 4 dvd length used" using u(1,2,3) by (intro exI [of _ "u @ v"]) simp
  ultimately show "(0 \<notin> set x \<and> length x \<le> m \<and> length x < 2 ^ 32 - 1) \<and> (\<exists>used. bs = used @ rest \<and> 4 dvd length used)"
    using n(2) l by simp
qed

lemma xdr_then_codec [xdr_rules]:
  assumes p: "xdr_codec p P" and q: "xdr_codec q Q"
  shows "xdr_codec (xdr_then p q) (\<lambda>(x, y). P x \<and> Q y)"
proof (rule xdr_codecI)
  fix z assume "case z of (x, y) \<Rightarrow> P x \<and> Q y"
  then obtain x y where z: "z = (x, y)" "P x" "Q y" by auto
  obtain a where a: "xenc p x = Some a" "4 dvd length a" "\<forall>rest. xdec p (a @ rest) = Some (x, rest)"
    by (rule xdr_codec.enc_dec [OF p z(2)])
  obtain b where b: "xenc q y = Some b" "4 dvd length b" "\<forall>rest. xdec q (b @ rest) = Some (y, rest)"
    by (rule xdr_codec.enc_dec [OF q z(3)])
  show "\<exists>b. xenc (xdr_then p q) z = Some b \<and> 4 dvd length b \<and> (\<forall>rest. xdec (xdr_then p q) (b @ rest) = Some (z, rest))"
    using a b z(1) by (intro exI [of _ "a @ b"]) (simp add: xdr_then_def)
next
  fix bs z rest
  assume "xdec (xdr_then p q) bs = Some (z, rest)"
  then obtain x bs' y where d: "xdec p bs = Some (x, bs')" "xdec q bs' = Some (y, rest)" "z = (x, y)"
    by (auto simp: xdr_then_def split: option.splits)
  from xdr_codec.decoded [OF p d(1)] xdr_codec.decoded [OF q d(2)] obtain u v
    where "P x" "Q y" "bs = u @ v @ rest" "4 dvd length u" "4 dvd length v" by auto
  then show "(case z of (x, y) \<Rightarrow> P x \<and> Q y) \<and> (\<exists>used. bs = used @ rest \<and> 4 dvd length used)"
    using d(3) by (auto intro!: exI [of _ "u @ v"])
qed

lemma xdr_struct_codec:
  assumes p: "xdr_codec p P" and inv: "\<And>x. mk (get x) = x" "\<And>y. get (mk y) = y"
    and ok: "\<And>x. ok x \<longleftrightarrow> P (get x)"
  shows "xdr_codec (xdr_struct get mk p) ok"
proof (rule xdr_codecI)
  fix x assume "ok x"
  then have "P (get x)" by (simp add: ok)
  then obtain b where "xenc p (get x) = Some b" "4 dvd length b" "\<forall>rest. xdec p (b @ rest) = Some (get x, rest)"
    by (rule xdr_codec.enc_dec [OF p])
  then show "\<exists>b. xenc (xdr_struct get mk p) x = Some b \<and> 4 dvd length b \<and> (\<forall>rest. xdec (xdr_struct get mk p) (b @ rest) = Some (x, rest))"
    by (simp add: xdr_struct_def inv(1))
next
  fix bs x rest
  assume "xdec (xdr_struct get mk p) bs = Some (x, rest)"
  then obtain y where y: "xdec p bs = Some (y, rest)" "x = mk y" by (auto simp: xdr_struct_def)
  from xdr_codec.decoded [OF p y(1)] show "ok x \<and> (\<exists>used. bs = used @ rest \<and> 4 dvd length used)" by (simp add: ok y(2) inv(2))
qed

text \<open>A union keeps its promise if its arms do, each for the values of its tag.\<close>

lemma xdr_union_codec:
  assumes d: "xdr_codec disc (\<lambda>_. True)"
    and arms: "\<And>t p. arm t = Some p \<Longrightarrow> xdr_codec p (\<lambda>x. ok x \<and> tag x = t)"
    and total: "\<And>x. ok x \<Longrightarrow> arm (tag x) \<noteq> None"
  shows "xdr_codec (xdr_union disc tag arm) ok"
proof (rule xdr_codecI)
  fix x assume x: "ok x"
  then obtain p where p: "arm (tag x) = Some p" using total by blast
  obtain a where a: "xenc disc (tag x) = Some a" "4 dvd length a" "\<forall>rest. xdec disc (a @ rest) = Some (tag x, rest)"
    by (rule xdr_codec.enc_dec [OF d TrueI])
  obtain b where b: "xenc p x = Some b" "4 dvd length b" "\<forall>rest. xdec p (b @ rest) = Some (x, rest)"
    by (rule xdr_codec.enc_dec [OF arms [OF p], of x]) (use x in auto)
  show "\<exists>b. xenc (xdr_union disc tag arm) x = Some b \<and> 4 dvd length b \<and>
      (\<forall>rest. xdec (xdr_union disc tag arm) (b @ rest) = Some (x, rest))"
    using a b p by (intro exI [of _ "a @ b"]) (simp add: xdr_union_def)
next
  fix bs x rest
  assume "xdec (xdr_union disc tag arm) bs = Some (x, rest)"
  then obtain t bs' p where t: "xdec disc bs = Some (t, bs')" "arm t = Some p" "xdec p bs' = Some (x, rest)"
    by (auto simp: xdr_union_def split: option.splits)
  from xdr_codec.decoded [OF d t(1)] xdr_codec.decoded [OF arms [OF t(2)] t(3)] obtain u v
    where "ok x" "bs = u @ v @ rest" "4 dvd length u" "4 dvd length v" by auto
  then show "ok x \<and> (\<exists>used. bs = used @ rest \<and> 4 dvd length used)" by (auto intro!: exI [of _ "u @ v"])
qed

lemma xdr_arm_codec:
  assumes p: "xdr_codec p P" and mk: "\<And>y. prj (mk y) = Some y" "\<And>x y. prj x = Some y \<Longrightarrow> x = mk y"
    and ok: "\<And>x. ok x \<longleftrightarrow> (\<exists>y. x = mk y \<and> P y)"
  shows "xdr_codec (xdr_arm prj mk p) ok"
proof (rule xdr_codecI)
  fix x assume "ok x"
  then obtain y where y: "x = mk y" "P y" by (auto simp: ok)
  obtain b where "xenc p y = Some b" "4 dvd length b" "\<forall>rest. xdec p (b @ rest) = Some (y, rest)"
    by (rule xdr_codec.enc_dec [OF p y(2)])
  then show "\<exists>b. xenc (xdr_arm prj mk p) x = Some b \<and> 4 dvd length b \<and> (\<forall>rest. xdec (xdr_arm prj mk p) (b @ rest) = Some (x, rest))"
    by (simp add: xdr_arm_def y(1) mk(1))
next
  fix bs x rest
  assume "xdec (xdr_arm prj mk p) bs = Some (x, rest)"
  then obtain y where y: "xdec p bs = Some (y, rest)" "x = mk y" by (auto simp: xdr_arm_def)
  from xdr_codec.decoded [OF p y(1)] y(2) show "ok x \<and> (\<exists>used. bs = used @ rest \<and> 4 dvd length used)"
    unfolding ok by blast
qed

lemma xdr_optional_codec [xdr_rules]:
  assumes p: "xdr_codec p P"
  shows "xdr_codec (xdr_optional p) (\<lambda>x. case x of None \<Rightarrow> True | Some y \<Rightarrow> P y)"
  unfolding xdr_optional_def
proof (rule xdr_union_codec [OF xdr_bool_codec])
  fix t q
  assume "Some (if t then xdr_arm (\<lambda>x. x) Some p
      else xdr_arm (\<lambda>x. if x = None then Some () else None) (\<lambda>_. None) xdr_void) = Some q"
  moreover have "xdr_codec (xdr_arm (\<lambda>x. x) Some p) (\<lambda>x. (case x of None \<Rightarrow> True | Some y \<Rightarrow> P y) \<and> (x \<noteq> None) = True)"
    by (rule xdr_arm_codec [OF p]) (auto split: option.splits)
  moreover have "xdr_codec (xdr_arm (\<lambda>x. if x = None then Some () else None) (\<lambda>_. None) xdr_void)
      (\<lambda>x. (case x of None \<Rightarrow> True | Some y \<Rightarrow> P y) \<and> (x \<noteq> None) = False)"
    by (rule xdr_arm_codec [OF xdr_void_codec]) (auto split: option.splits if_splits)
  ultimately show "xdr_codec q (\<lambda>x. (case x of None \<Rightarrow> True | Some y \<Rightarrow> P y) \<and> (x \<noteq> None) = t)" by (cases t) auto
qed simp


lemma bool_bytes: "xenc xdr_bool b = Some (be32 (if b then 1 else 0))" "xdec xdr_bool (be32 (if b then 1 else 0) @ rest) = Some (b, rest)"
  by (simp_all add: xdr_bool_def xdr_enum_def xdr_word_def)

lemma bool_used: "xdec xdr_bool bs = Some (b, rest) \<Longrightarrow> \<exists>used. bs = used @ rest \<and> length used = 4"
  by (auto simp: xdr_bool_def xdr_enum_def xdr_word_def split: if_splits intro!: exI [of _ "take 4 bs"])

lemma list_roundtrip:
  assumes p: "xdr_codec p P" and "\<forall>x \<in> set xs. P x"
  shows "\<exists>b. enc_list p xs = Some b \<and> 4 dvd length b \<and> b \<noteq> [] \<and>
           (\<forall>rest fuel. length b \<le> fuel \<longrightarrow> dec_list fuel p (b @ rest) = Some (xs, rest))"
  using assms(2)
proof (induction xs)
  case Nil
  have "dec_list fuel p (be32 0 @ rest) = Some ([], rest)" if "4 \<le> fuel" for fuel rest
    using that bool_bytes(2) [of False rest] by (cases fuel) simp_all
  moreover have "be32 0 \<noteq> []" by (metis length_be_bytes list.size(3) zero_neq_numeral)
  ultimately show ?case using bool_bytes(1) [of False] by simp
next
  case (Cons x xs)
  then obtain b where b: "enc_list p xs = Some b" "4 dvd length b"
    "\<forall>rest fuel. length b \<le> fuel \<longrightarrow> dec_list fuel p (b @ rest) = Some (xs, rest)" by auto
  have "P x" using Cons.prems by simp
  then obtain a where a: "xenc p x = Some a" "4 dvd length a" "\<forall>rest. xdec p (a @ rest) = Some (x, rest)"
    by (rule xdr_codec.enc_dec [OF p])
  let ?b = "be32 1 @ a @ b"
  have "dec_list fuel p (?b @ rest) = Some (x # xs, rest)" if "length ?b \<le> fuel" for fuel rest
  proof -
    from that obtain n where n: "fuel = Suc n" "length b \<le> n" by (cases fuel) auto
    show ?thesis using n a(3) b(3) bool_bytes(2) [of True "a @ b @ rest"] by simp
  qed
  moreover have "enc_list p (x # xs) = Some ?b" using a(1) b(1) bool_bytes(1) [of True] by simp
  moreover have "be32 1 \<noteq> []" by (metis length_be_bytes list.size(3) zero_neq_numeral)
  ultimately show ?case using a(2) b(2) by simp
qed

lemma list_decoded:
  assumes p: "xdr_codec p P" and "dec_list fuel p bs = Some (xs, rest)"
  shows "(\<forall>x \<in> set xs. P x) \<and> (\<exists>used. bs = used @ rest \<and> 4 dvd length used)"
  using assms(2)
proof (induction fuel arbitrary: bs xs)
  case 0
  then show ?case by simp
next
  case (Suc fuel)
  then obtain m bs' where m: "xdec xdr_bool bs = Some (m, bs')" by (auto split: option.splits)
  from bool_used [OF m] obtain u where u: "bs = u @ bs'" "length u = 4" by blast
  show ?case
  proof (cases m)
    case False
    with Suc.prems m u show ?thesis by auto
  next
    case True
    with Suc.prems m obtain x bs'' ys where x: "xdec p bs' = Some (x, bs'')" "dec_list fuel p bs'' = Some (ys, rest)" "xs = x # ys"
      by (auto split: option.splits)
    from xdr_codec.decoded [OF p x(1)] Suc.IH [OF x(2)] obtain v w
      where "P x" "bs' = v @ bs''" "4 dvd length v" "\<forall>x \<in> set ys. P x" "bs'' = w @ rest" "4 dvd length w" by auto
    then show ?thesis using x(3) u by (auto intro!: exI [of _ "u @ v @ w"])
  qed
qed

text \<open>The bound on the number of rounds is no restriction.\<close>

lemma list_fuel:
  assumes p: "xdr_codec p P" and "length bs \<le> n" "length bs \<le> m"
  shows "dec_list n p bs = dec_list m p bs"
  using assms(2,3)
proof (induction n arbitrary: m bs)
  case 0
  then show ?case by (cases m) (simp_all add: xdr_bool_def xdr_enum_def xdr_word_def)
next
  case (Suc n)
  show ?case
  proof (cases m)
    case 0
    with Suc.prems show ?thesis by (simp add: xdr_bool_def xdr_enum_def xdr_word_def)
  next
    case (Suc m')
    have "dec_list n p bs'' = dec_list m' p bs''" if "xdec xdr_bool bs = Some (True, bs')" "xdec p bs' = Some (x, bs'')" for bs' x bs''
      using bool_used [OF that(1)] xdr_codec.dec_shorter [OF p that(2)] Suc.prems Suc by (intro Suc.IH) auto
    then show ?thesis using Suc by (auto split: option.splits bool.splits)
  qed
qed

lemma xdr_pointer_list_codec [xdr_rules]:
  assumes p: "xdr_codec p P"
  shows "xdr_codec (xdr_pointer_list p) (\<lambda>xs. \<forall>x \<in> set xs. P x)"
proof (rule xdr_codecI)
  fix xs assume "\<forall>x \<in> set xs. P x"
  from list_roundtrip [OF p this] show "\<exists>b. xenc (xdr_pointer_list p) xs = Some b \<and> 4 dvd length b \<and>
      (\<forall>rest. xdec (xdr_pointer_list p) (b @ rest) = Some (xs, rest))"
    by (auto simp: xdr_pointer_list_def)
next
  fix bs xs rest
  assume "xdec (xdr_pointer_list p) bs = Some (xs, rest)"
  with list_decoded [OF p] show "(\<forall>x \<in> set xs. P x) \<and> (\<exists>used. bs = used @ rest \<and> 4 dvd length used)"
    by (simp add: xdr_pointer_list_def)
qed

lemma items_codec:
  assumes p: "xdr_codec p ok"
  shows "(\<forall>x \<in> set xs. ok x) \<Longrightarrow>
      \<exists>b. enc_items p xs = Some b \<and> 4 dvd length b \<and> (\<forall>rest. dec_items (length xs) p (b @ rest) = Some (xs, rest))"
    and "dec_items n p bs = Some (ys, rest) \<Longrightarrow> length ys = n \<and> (\<forall>y \<in> set ys. ok y) \<and> (\<exists>used. bs = used @ rest \<and> 4 dvd length used)"
proof -
  show "\<exists>b. enc_items p xs = Some b \<and> 4 dvd length b \<and> (\<forall>rest. dec_items (length xs) p (b @ rest) = Some (xs, rest))"
    if "\<forall>x \<in> set xs. ok x"
    using that
  proof (induction xs)
    case (Cons x xs)
    then obtain b' where b': "enc_items p xs = Some b'" "4 dvd length b'" "\<forall>rest. dec_items (length xs) p (b' @ rest) = Some (xs, rest)"
      by auto
    obtain b where "xenc p x = Some b" "4 dvd length b" "\<forall>rest. xdec p (b @ rest) = Some (x, rest)"
      by (rule xdr_codec.enc_dec [OF p, of x]) (use Cons.prems in auto)
    with b' show ?case by simp
  qed simp
  show "length ys = n \<and> (\<forall>y \<in> set ys. ok y) \<and> (\<exists>used. bs = used @ rest \<and> 4 dvd length used)"
    if "dec_items n p bs = Some (ys, rest)"
    using that
  proof (induction n arbitrary: bs ys)
    case (Suc n)
    then obtain x bs' zs where x: "xdec p bs = Some (x, bs')" "dec_items n p bs' = Some (zs, rest)" "ys = x # zs"
      by (auto split: option.splits)
    from xdr_codec.decoded [OF p x(1)] Suc.IH [OF x(2)] obtain u v
      where "bs = u @ v @ rest" "4 dvd length u" "4 dvd length v" by auto
    with xdr_codec.decoded [OF p x(1)] Suc.IH [OF x(2)] x(3) show ?case
      by (auto intro!: exI [of _ "u @ v"])
  qed simp
qed

lemma xdr_array_codec:
  assumes p: "xdr_codec p ok"
  shows "xdr_codec (xdr_array m k p) (\<lambda>xs. length xs \<le> m \<and> length xs \<le> (2 ^ 32 - 1) div k \<and> (\<forall>x \<in> set xs. ok x))"
proof (rule xdr_codecI)
  fix xs
  assume ok: "length xs \<le> m \<and> length xs \<le> (2 ^ 32 - 1) div k \<and> (\<forall>x \<in> set xs. ok x)"
  have "length xs \<le> 2 ^ 32 - 1" using ok order_trans [OF _ div_le_dividend] by blast
  then have "length xs < 2 ^ LENGTH(32)" by simp
  then have n: "unat (of_nat (length xs) :: u32) = length xs" by (rule unat_of_nat_small)
  from items_codec(1) [OF p] ok obtain b where b: "enc_items p xs = Some b" "4 dvd length b"
    "\<forall>rest. dec_items (length xs) p (b @ rest) = Some (xs, rest)" by blast
  then have "xenc (xdr_array m k p) xs = Some (be32 (of_nat (length xs)) @ b)" using ok by (simp add: xdr_array_def)
  moreover have "xdec (xdr_array m k p) ((be32 (of_nat (length xs)) @ b) @ rest) = Some (xs, rest)" for rest
    using ok b(3) n dec_u_int [of "of_nat (length xs)" "b @ rest"] by (simp add: xdr_array_def)
  ultimately show "\<exists>b. xenc (xdr_array m k p) xs = Some b \<and> 4 dvd length b \<and> (\<forall>rest. xdec (xdr_array m k p) (b @ rest) = Some (xs, rest))"
    using b(2) by (intro exI [of _ "be32 (of_nat (length xs)) @ b"]) simp
next
  fix bs xs rest
  assume "xdec (xdr_array m k p) bs = Some (xs, rest)"
  then obtain n bs' where n: "xdec xdr_u_int bs = Some (n, bs')" "unat n \<le> m" "unat n \<le> (2 ^ 32 - 1) div k"
    "dec_items (unat n) p bs' = Some (xs, rest)"
    by (auto simp: xdr_array_def split: option.splits if_splits)
  from items_codec(2) [OF p n(4)] u_int_used [OF n(1)] obtain u v
    where "bs = u @ v @ rest" "4 dvd length u" "4 dvd length v" by auto
  with items_codec(2) [OF p n(4)] n(2,3)
  show "(length xs \<le> m \<and> length xs \<le> (2 ^ 32 - 1) div k \<and> (\<forall>x \<in> set xs. ok x)) \<and> (\<exists>used. bs = used @ rest \<and> 4 dvd length used)"
    by (auto intro!: exI [of _ "u @ v"])
qed

end
