(* ===== verification/BlueSky_Nfs3_Prot.thy ===== *)
theory BlueSky_Nfs3_Prot
  imports BlueSky_Xdr
begin

text \<open>
  The messages of NFS version 3: the types of \<^verbatim>\<open>nfs3/nfs3_prot.h\<close> and their filters of
  \<^verbatim>\<open>nfs3/nfs3_prot_xdr.c\<close>, one definition for each function.  A struct is a record; a
  union with a flag is an option, and a result is \<open>Resok\<close> with its contents or
  \<open>Resfail\<close> with a status and the contents of the failure case.  Enumerations are
  the 32-bit words \<^verbatim>\<open>xdr_enum\<close> passes.  For every type there is a predicate that says
  which values the C representation can hold and the filter can send, and a lemma
  that the filter keeps its promise for them.
\<close>


section \<open>Basic types\<close>

lemma true_option: "(\<lambda>x. case x of None \<Rightarrow> True | Some y \<Rightarrow> True) = (\<lambda>_. True)"
  by (auto split: option.split)

text \<open>\<^verbatim>\<open>~0\<close>, the bound of strings without one.\<close>

definition xdr_no_limit :: nat where "xdr_no_limit = 2 ^ 32 - 1"

definition string_ok :: "bytes \<Rightarrow> bool" where
  "string_ok x \<longleftrightarrow> 0 \<notin> set x \<and> length x < 2 ^ 32 - 1"

definition data_ok :: "bytes \<Rightarrow> bool" where
  "data_ok x \<longleftrightarrow> length x < 2 ^ 32"

lemma string_ok_codec: "xdr_codec (xdr_string xdr_no_limit) string_ok"
proof -
  have "string_ok = (\<lambda>x. 0 \<notin> set x \<and> length x \<le> xdr_no_limit \<and> length x < 2 ^ 32 - 1)"
    by (auto simp: string_ok_def xdr_no_limit_def fun_eq_iff)
  with xdr_string_codec [of xdr_no_limit] show ?thesis by simp
qed

lemma data_ok_codec: "xdr_codec (xdr_bytes xdr_no_limit) data_ok"
proof -
  have "data_ok = (\<lambda>x. length x \<le> xdr_no_limit \<and> length x < 2 ^ 32)"
    by (auto simp: data_ok_def xdr_no_limit_def fun_eq_iff)
  with xdr_bytes_codec [of xdr_no_limit] show ?thesis by simp
qed

definition NFS3_FHSIZE :: nat where "NFS3_FHSIZE = 64"
definition NFS3_COOKIEVERFSIZE :: nat where "NFS3_COOKIEVERFSIZE = 8"
definition NFS3_CREATEVERFSIZE :: nat where "NFS3_CREATEVERFSIZE = 8"
definition NFS3_WRITEVERFSIZE :: nat where "NFS3_WRITEVERFSIZE = 8"

definition xdr_uint64 :: "u64 xdr" where "xdr_uint64 = xdr_u_quad_t"

lemma xdr_uint64_codec [xdr_rules]: "xdr_codec xdr_uint64 (\<lambda>_. True)"
  by (simp add: xdr_uint64_def xdr_word_codecs)

definition xdr_int64 :: "u64 xdr" where "xdr_int64 = xdr_quad_t"

lemma xdr_int64_codec [xdr_rules]: "xdr_codec xdr_int64 (\<lambda>_. True)"
  by (simp add: xdr_int64_def xdr_word_codecs)

definition xdr_uint32 :: "u32 xdr" where "xdr_uint32 = xdr_u_int"

lemma xdr_uint32_codec [xdr_rules]: "xdr_codec xdr_uint32 (\<lambda>_. True)"
  by (simp add: xdr_uint32_def xdr_word_codecs)

definition xdr_int32 :: "u32 xdr" where "xdr_int32 = xdr_int"

lemma xdr_int32_codec [xdr_rules]: "xdr_codec xdr_int32 (\<lambda>_. True)"
  by (simp add: xdr_int32_def xdr_word_codecs)

definition xdr_filename3 :: "bytes xdr" where "xdr_filename3 = xdr_string xdr_no_limit"

lemma xdr_filename3_codec [xdr_rules]: "xdr_codec xdr_filename3 (string_ok)"
  unfolding xdr_filename3_def by (rule string_ok_codec)

definition xdr_nfspath3 :: "bytes xdr" where "xdr_nfspath3 = xdr_string xdr_no_limit"

lemma xdr_nfspath3_codec [xdr_rules]: "xdr_codec xdr_nfspath3 (string_ok)"
  unfolding xdr_nfspath3_def by (rule string_ok_codec)

definition verf_ok :: "bytes \<Rightarrow> bool" where
  "verf_ok x \<longleftrightarrow> length x = 8"

lemma verf_ok_codec: "xdr_codec (xdr_opaque 8) verf_ok"
  unfolding verf_ok_def by (rule xdr_opaque_codec)

definition xdr_cookieverf3 :: "bytes xdr" where "xdr_cookieverf3 = xdr_opaque NFS3_COOKIEVERFSIZE"

lemma xdr_cookieverf3_codec [xdr_rules]: "xdr_codec xdr_cookieverf3 (verf_ok)"
  unfolding xdr_cookieverf3_def NFS3_COOKIEVERFSIZE_def by (rule verf_ok_codec)

definition xdr_createverf3 :: "bytes xdr" where "xdr_createverf3 = xdr_opaque NFS3_CREATEVERFSIZE"

lemma xdr_createverf3_codec [xdr_rules]: "xdr_codec xdr_createverf3 (verf_ok)"
  unfolding xdr_createverf3_def NFS3_CREATEVERFSIZE_def by (rule verf_ok_codec)

definition xdr_writeverf3 :: "bytes xdr" where "xdr_writeverf3 = xdr_opaque NFS3_WRITEVERFSIZE"

lemma xdr_writeverf3_codec [xdr_rules]: "xdr_codec xdr_writeverf3 (verf_ok)"
  unfolding xdr_writeverf3_def NFS3_WRITEVERFSIZE_def by (rule verf_ok_codec)

text \<open>The status codes and file types the server sends, with their numbers.\<close>

datatype nfsstat3 =
  NFS3_OK | NFS3ERR_PERM | NFS3ERR_NOENT | NFS3ERR_IO | NFS3ERR_NXIO | NFS3ERR_ACCES | NFS3ERR_EXIST | NFS3ERR_XDEV
  | NFS3ERR_NODEV | NFS3ERR_NOTDIR | NFS3ERR_ISDIR | NFS3ERR_INVAL | NFS3ERR_FBIG | NFS3ERR_NOSPC | NFS3ERR_ROFS
  | NFS3ERR_MLINK | NFS3ERR_NAMETOOLONG | NFS3ERR_NOTEMPTY | NFS3ERR_DQUOT | NFS3ERR_STALE | NFS3ERR_REMOTE
  | NFS3ERR_BADHANDLE | NFS3ERR_NOT_SYNC | NFS3ERR_BAD_COOKIE | NFS3ERR_NOTSUPP | NFS3ERR_TOOSMALL
  | NFS3ERR_SERVERFAULT | NFS3ERR_BADTYPE | NFS3ERR_JUKEBOX | NFS3ERR_FPRINTNOTFOUND | NFS3ERR_ABORTED

fun nfsstat3_code :: "nfsstat3 \<Rightarrow> u32" where
  "nfsstat3_code NFS3_OK = 0"
| "nfsstat3_code NFS3ERR_PERM = 1"
| "nfsstat3_code NFS3ERR_NOENT = 2"
| "nfsstat3_code NFS3ERR_IO = 5"
| "nfsstat3_code NFS3ERR_NXIO = 6"
| "nfsstat3_code NFS3ERR_ACCES = 13"
| "nfsstat3_code NFS3ERR_EXIST = 17"
| "nfsstat3_code NFS3ERR_XDEV = 18"
| "nfsstat3_code NFS3ERR_NODEV = 19"
| "nfsstat3_code NFS3ERR_NOTDIR = 20"
| "nfsstat3_code NFS3ERR_ISDIR = 21"
| "nfsstat3_code NFS3ERR_INVAL = 22"
| "nfsstat3_code NFS3ERR_FBIG = 27"
| "nfsstat3_code NFS3ERR_NOSPC = 28"
| "nfsstat3_code NFS3ERR_ROFS = 30"
| "nfsstat3_code NFS3ERR_MLINK = 31"
| "nfsstat3_code NFS3ERR_NAMETOOLONG = 63"
| "nfsstat3_code NFS3ERR_NOTEMPTY = 66"
| "nfsstat3_code NFS3ERR_DQUOT = 69"
| "nfsstat3_code NFS3ERR_STALE = 70"
| "nfsstat3_code NFS3ERR_REMOTE = 71"
| "nfsstat3_code NFS3ERR_BADHANDLE = 10001"
| "nfsstat3_code NFS3ERR_NOT_SYNC = 10002"
| "nfsstat3_code NFS3ERR_BAD_COOKIE = 10003"
| "nfsstat3_code NFS3ERR_NOTSUPP = 10004"
| "nfsstat3_code NFS3ERR_TOOSMALL = 10005"
| "nfsstat3_code NFS3ERR_SERVERFAULT = 10006"
| "nfsstat3_code NFS3ERR_BADTYPE = 10007"
| "nfsstat3_code NFS3ERR_JUKEBOX = 10008"
| "nfsstat3_code NFS3ERR_FPRINTNOTFOUND = 10009"
| "nfsstat3_code NFS3ERR_ABORTED = 10010"

datatype ftype3 =
  NF3REG | NF3DIR | NF3BLK | NF3CHR | NF3LNK | NF3SOCK | NF3FIFO

fun ftype3_code :: "ftype3 \<Rightarrow> u32" where
  "ftype3_code NF3REG = 1"
| "ftype3_code NF3DIR = 2"
| "ftype3_code NF3BLK = 3"
| "ftype3_code NF3CHR = 4"
| "ftype3_code NF3LNK = 5"
| "ftype3_code NF3SOCK = 6"
| "ftype3_code NF3FIFO = 7"

definition xdr_nfsstat3 :: "u32 xdr" where "xdr_nfsstat3 = xdr_enum"

lemma xdr_nfsstat3_codec [xdr_rules]: "xdr_codec xdr_nfsstat3 (\<lambda>_. True)"
  by (simp add: xdr_nfsstat3_def xdr_word_codecs)

definition xdr_ftype3 :: "u32 xdr" where "xdr_ftype3 = xdr_enum"

lemma xdr_ftype3_codec [xdr_rules]: "xdr_codec xdr_ftype3 (\<lambda>_. True)"
  by (simp add: xdr_ftype3_def xdr_word_codecs)

record specdata3 =
  sd_major :: u32
  sd_minor :: u32

definition xdr_specdata3 :: "specdata3 xdr" where
  "xdr_specdata3 = xdr_struct
     (\<lambda>x. (sd_major x, sd_minor x))
     (\<lambda>(x1, x2). \<lparr>sd_major = x1, sd_minor = x2\<rparr>)
     (xdr_then xdr_uint32 xdr_uint32)"

lemma xdr_specdata3_codec [xdr_rules]: "xdr_codec xdr_specdata3 (\<lambda>_. True)"
  unfolding xdr_specdata3_def
  by (rule xdr_struct_codec [OF xdr_then_codec [OF xdr_uint32_codec xdr_uint32_codec]])
    (auto)

record nfs_fh3 =
  fh_data :: bytes

definition xdr_nfs_fh3 :: "nfs_fh3 xdr" where
  "xdr_nfs_fh3 = xdr_struct fh_data (\<lambda>d. \<lparr>fh_data = d\<rparr>) (xdr_bytes NFS3_FHSIZE)"

definition nfs_fh3_ok :: "nfs_fh3 \<Rightarrow> bool" where
  "nfs_fh3_ok x \<longleftrightarrow> length (fh_data x) \<le> 64"

lemma xdr_nfs_fh3_codec [xdr_rules]: "xdr_codec xdr_nfs_fh3 nfs_fh3_ok"
  unfolding xdr_nfs_fh3_def by (rule xdr_struct_codec [OF xdr_bytes_codec]) (auto simp: nfs_fh3_ok_def NFS3_FHSIZE_def)

interpretation file_handle: xdr_codec xdr_nfs_fh3 nfs_fh3_ok
  by (rule xdr_nfs_fh3_codec)

record nfstime3 =
  nt_seconds :: u32
  nt_nseconds :: u32

definition xdr_nfstime3 :: "nfstime3 xdr" where
  "xdr_nfstime3 = xdr_struct
     (\<lambda>x. (nt_seconds x, nt_nseconds x))
     (\<lambda>(x1, x2). \<lparr>nt_seconds = x1, nt_nseconds = x2\<rparr>)
     (xdr_then xdr_uint32 xdr_uint32)"

lemma xdr_nfstime3_codec [xdr_rules]: "xdr_codec xdr_nfstime3 (\<lambda>_. True)"
  unfolding xdr_nfstime3_def
  by (rule xdr_struct_codec [OF xdr_then_codec [OF xdr_uint32_codec xdr_uint32_codec]])
    (auto)

record fattr3 =
  fa_type :: u32
  fa_mode :: u32
  fa_nlink :: u32
  fa_uid :: u32
  fa_gid :: u32
  fa_size :: u64
  fa_used :: u64
  fa_rdev :: specdata3
  fa_fsid :: u64
  fa_fileid :: u64
  fa_atime :: nfstime3
  fa_mtime :: nfstime3
  fa_ctime :: nfstime3

definition xdr_fattr3 :: "fattr3 xdr" where
  "xdr_fattr3 = xdr_struct
     (\<lambda>x. (fa_type x, fa_mode x, fa_nlink x, fa_uid x, fa_gid x, fa_size x, fa_used x, fa_rdev x, fa_fsid x, fa_fileid x, fa_atime x, fa_mtime x, fa_ctime x))
     (\<lambda>(x1, x2, x3, x4, x5, x6, x7, x8, x9, x10, x11, x12, x13). \<lparr>fa_type = x1, fa_mode = x2, fa_nlink = x3, fa_uid = x4, fa_gid = x5, fa_size = x6, fa_used = x7, fa_rdev = x8, fa_fsid = x9, fa_fileid = x10, fa_atime = x11, fa_mtime = x12, fa_ctime = x13\<rparr>)
     (xdr_then xdr_ftype3 (xdr_then xdr_uint32 (xdr_then xdr_uint32 (xdr_then xdr_uint32 (xdr_then xdr_uint32 (xdr_then xdr_uint64 (xdr_then xdr_uint64 (xdr_then xdr_specdata3 (xdr_then xdr_uint64 (xdr_then xdr_uint64 (xdr_then xdr_nfstime3 (xdr_then xdr_nfstime3 xdr_nfstime3))))))))))))"

lemma xdr_fattr3_codec [xdr_rules]: "xdr_codec xdr_fattr3 (\<lambda>_. True)"
  unfolding xdr_fattr3_def
  by (rule xdr_struct_codec [OF xdr_then_codec [OF xdr_ftype3_codec xdr_then_codec [OF xdr_uint32_codec xdr_then_codec [OF xdr_uint32_codec xdr_then_codec [OF xdr_uint32_codec xdr_then_codec [OF xdr_uint32_codec xdr_then_codec [OF xdr_uint64_codec xdr_then_codec [OF xdr_uint64_codec xdr_then_codec [OF xdr_specdata3_codec xdr_then_codec [OF xdr_uint64_codec xdr_then_codec [OF xdr_uint64_codec xdr_then_codec [OF xdr_nfstime3_codec xdr_then_codec [OF xdr_nfstime3_codec xdr_nfstime3_codec]]]]]]]]]]]]])
    (auto)


section \<open>Attributes before and after an operation\<close>

type_synonym post_op_attr = "fattr3 option"

definition xdr_post_op_attr :: "post_op_attr xdr" where "xdr_post_op_attr = xdr_optional xdr_fattr3"

lemma xdr_post_op_attr_codec [xdr_rules]: "xdr_codec xdr_post_op_attr (\<lambda>_. True)"
  using xdr_optional_codec [OF xdr_fattr3_codec] by (simp add: xdr_post_op_attr_def true_option)

record wcc_attr =
  wa_size :: u64
  wa_mtime :: nfstime3
  wa_ctime :: nfstime3

definition xdr_wcc_attr :: "wcc_attr xdr" where
  "xdr_wcc_attr = xdr_struct
     (\<lambda>x. (wa_size x, wa_mtime x, wa_ctime x))
     (\<lambda>(x1, x2, x3). \<lparr>wa_size = x1, wa_mtime = x2, wa_ctime = x3\<rparr>)
     (xdr_then xdr_uint64 (xdr_then xdr_nfstime3 xdr_nfstime3))"

lemma xdr_wcc_attr_codec [xdr_rules]: "xdr_codec xdr_wcc_attr (\<lambda>_. True)"
  unfolding xdr_wcc_attr_def
  by (rule xdr_struct_codec [OF xdr_then_codec [OF xdr_uint64_codec xdr_then_codec [OF xdr_nfstime3_codec xdr_nfstime3_codec]]])
    (auto)

type_synonym pre_op_attr = "wcc_attr option"

definition xdr_pre_op_attr :: "pre_op_attr xdr" where "xdr_pre_op_attr = xdr_optional xdr_wcc_attr"

lemma xdr_pre_op_attr_codec [xdr_rules]: "xdr_codec xdr_pre_op_attr (\<lambda>_. True)"
  using xdr_optional_codec [OF xdr_wcc_attr_codec] by (simp add: xdr_pre_op_attr_def true_option)

record wcc_data =
  wcc_before :: pre_op_attr
  wcc_after :: post_op_attr

definition xdr_wcc_data :: "wcc_data xdr" where
  "xdr_wcc_data = xdr_struct
     (\<lambda>x. (wcc_before x, wcc_after x))
     (\<lambda>(x1, x2). \<lparr>wcc_before = x1, wcc_after = x2\<rparr>)
     (xdr_then xdr_pre_op_attr xdr_post_op_attr)"

lemma xdr_wcc_data_codec [xdr_rules]: "xdr_codec xdr_wcc_data (\<lambda>_. True)"
  unfolding xdr_wcc_data_def
  by (rule xdr_struct_codec [OF xdr_then_codec [OF xdr_pre_op_attr_codec xdr_post_op_attr_codec]])
    (auto)

type_synonym post_op_fh3 = "nfs_fh3 option"

definition xdr_post_op_fh3 :: "post_op_fh3 xdr" where "xdr_post_op_fh3 = xdr_optional xdr_nfs_fh3"

definition post_op_fh3_ok :: "post_op_fh3 \<Rightarrow> bool" where
  "post_op_fh3_ok x \<longleftrightarrow> (case x of None \<Rightarrow> True | Some y \<Rightarrow> nfs_fh3_ok y)"

lemma xdr_post_op_fh3_codec [xdr_rules]: "xdr_codec xdr_post_op_fh3 post_op_fh3_ok"
  unfolding xdr_post_op_fh3_def post_op_fh3_ok_def by (rule xdr_optional_codec [OF xdr_nfs_fh3_codec])


section \<open>Attributes to set\<close>

type_synonym set_uint32 = "u32 option"

definition xdr_set_uint32 :: "set_uint32 xdr" where "xdr_set_uint32 = xdr_optional xdr_uint32"

lemma xdr_set_uint32_codec [xdr_rules]: "xdr_codec xdr_set_uint32 (\<lambda>_. True)"
  using xdr_optional_codec [OF xdr_uint32_codec] by (simp add: xdr_set_uint32_def true_option)

type_synonym set_uint64 = "u64 option"

definition xdr_set_uint64 :: "set_uint64 xdr" where "xdr_set_uint64 = xdr_optional xdr_uint64"

lemma xdr_set_uint64_codec [xdr_rules]: "xdr_codec xdr_set_uint64 (\<lambda>_. True)"
  using xdr_optional_codec [OF xdr_uint64_codec] by (simp add: xdr_set_uint64_def true_option)

definition xdr_time_how :: "u32 xdr" where "xdr_time_how = xdr_enum"

lemma xdr_time_how_codec [xdr_rules]: "xdr_codec xdr_time_how (\<lambda>_. True)"
  by (simp add: xdr_time_how_def xdr_word_codecs)

definition SET_TO_SERVER_TIME :: u32 where "SET_TO_SERVER_TIME = 1"
definition SET_TO_CLIENT_TIME :: u32 where "SET_TO_CLIENT_TIME = 2"

text \<open>The time is there only with \<open>SET_TO_CLIENT_TIME\<close>.\<close>

record set_time =
  st_set :: u32
  st_time :: "nfstime3 option"

definition xdr_set_time :: "set_time xdr" where
  "xdr_set_time = xdr_union xdr_time_how st_set
     (\<lambda>t. Some (if t = SET_TO_CLIENT_TIME
        then xdr_arm (\<lambda>x. if st_set x = t then st_time x else None) (\<lambda>v. \<lparr>st_set = t, st_time = Some v\<rparr>) xdr_nfstime3
        else xdr_arm (\<lambda>x. if x = \<lparr>st_set = t, st_time = None\<rparr> then Some () else None) (\<lambda>_. \<lparr>st_set = t, st_time = None\<rparr>) xdr_void))"

definition set_time_ok :: "set_time \<Rightarrow> bool" where
  "set_time_ok x \<longleftrightarrow> (st_set x = SET_TO_CLIENT_TIME) = (st_time x \<noteq> None)"

lemma set_time_eq: "x = \<lparr>st_set = t, st_time = v\<rparr> \<longleftrightarrow> st_set x = t \<and> st_time x = v"
  by (cases x) auto

lemma xdr_set_time_codec [xdr_rules]: "xdr_codec xdr_set_time set_time_ok"
  unfolding xdr_set_time_def
proof (rule xdr_union_codec [OF xdr_time_how_codec])
  fix t q
  assume q: "Some (if t = SET_TO_CLIENT_TIME
      then xdr_arm (\<lambda>x. if st_set x = t then st_time x else None) (\<lambda>v. \<lparr>st_set = t, st_time = Some v\<rparr>) xdr_nfstime3
      else xdr_arm (\<lambda>x. if x = \<lparr>st_set = t, st_time = None\<rparr> then Some () else None) (\<lambda>_. \<lparr>st_set = t, st_time = None\<rparr>) xdr_void) = Some q"
  show "xdr_codec q (\<lambda>x. set_time_ok x \<and> st_set x = t)"
  proof (cases "t = SET_TO_CLIENT_TIME")
    case True
    with q have "q = xdr_arm (\<lambda>x. if st_set x = t then st_time x else None) (\<lambda>v. \<lparr>st_set = t, st_time = Some v\<rparr>) xdr_nfstime3" by simp
    with True show ?thesis
      by (simp only:) (rule xdr_arm_codec [OF xdr_nfstime3_codec], auto simp: set_time_ok_def set_time_eq split: if_splits)
  next
    case False
    with q have "q = xdr_arm (\<lambda>x. if x = \<lparr>st_set = t, st_time = None\<rparr> then Some () else None) (\<lambda>_. \<lparr>st_set = t, st_time = None\<rparr>) xdr_void"
      by simp
    with False show ?thesis
      by (simp only:) (rule xdr_arm_codec [OF xdr_void_codec], auto simp: set_time_ok_def set_time_eq split: if_splits)
  qed
qed simp

record sattr3 =
  sa_mode :: set_uint32
  sa_uid :: set_uint32
  sa_gid :: set_uint32
  sa_size :: set_uint64
  sa_atime :: set_time
  sa_mtime :: set_time

definition xdr_sattr3 :: "sattr3 xdr" where
  "xdr_sattr3 = xdr_struct
     (\<lambda>x. (sa_mode x, sa_uid x, sa_gid x, sa_size x, sa_atime x, sa_mtime x))
     (\<lambda>(x1, x2, x3, x4, x5, x6). \<lparr>sa_mode = x1, sa_uid = x2, sa_gid = x3, sa_size = x4, sa_atime = x5, sa_mtime = x6\<rparr>)
     (xdr_then xdr_set_uint32 (xdr_then xdr_set_uint32 (xdr_then xdr_set_uint32 (xdr_then xdr_set_uint64 (xdr_then xdr_set_time xdr_set_time)))))"

definition sattr3_ok :: "sattr3 \<Rightarrow> bool" where
  "sattr3_ok x \<longleftrightarrow> set_time_ok (sa_atime x) \<and> set_time_ok (sa_mtime x)"

lemma xdr_sattr3_codec [xdr_rules]: "xdr_codec xdr_sattr3 sattr3_ok"
  unfolding xdr_sattr3_def
  by (rule xdr_struct_codec [OF xdr_then_codec [OF xdr_set_uint32_codec xdr_then_codec [OF xdr_set_uint32_codec xdr_then_codec [OF xdr_set_uint32_codec xdr_then_codec [OF xdr_set_uint64_codec xdr_then_codec [OF xdr_set_time_codec xdr_set_time_codec]]]]]])
    (auto simp: sattr3_ok_def)

record diropargs3 =
  da_dir :: nfs_fh3
  da_name :: bytes

definition xdr_diropargs3 :: "diropargs3 xdr" where
  "xdr_diropargs3 = xdr_struct
     (\<lambda>x. (da_dir x, da_name x))
     (\<lambda>(x1, x2). \<lparr>da_dir = x1, da_name = x2\<rparr>)
     (xdr_then xdr_nfs_fh3 xdr_filename3)"

definition diropargs3_ok :: "diropargs3 \<Rightarrow> bool" where
  "diropargs3_ok x \<longleftrightarrow> nfs_fh3_ok (da_dir x) \<and> string_ok (da_name x)"

lemma xdr_diropargs3_codec [xdr_rules]: "xdr_codec xdr_diropargs3 diropargs3_ok"
  unfolding xdr_diropargs3_def
  by (rule xdr_struct_codec [OF xdr_then_codec [OF xdr_nfs_fh3_codec xdr_filename3_codec]])
    (auto simp: diropargs3_ok_def)

record diropres3ok =
  dr_obj :: post_op_fh3
  dr_obj_attributes :: post_op_attr
  dr_dir_wcc :: wcc_data

definition xdr_diropres3ok :: "diropres3ok xdr" where
  "xdr_diropres3ok = xdr_struct
     (\<lambda>x. (dr_obj x, dr_obj_attributes x, dr_dir_wcc x))
     (\<lambda>(x1, x2, x3). \<lparr>dr_obj = x1, dr_obj_attributes = x2, dr_dir_wcc = x3\<rparr>)
     (xdr_then xdr_post_op_fh3 (xdr_then xdr_post_op_attr xdr_wcc_data))"

definition diropres3ok_ok :: "diropres3ok \<Rightarrow> bool" where
  "diropres3ok_ok x \<longleftrightarrow> post_op_fh3_ok (dr_obj x)"

lemma xdr_diropres3ok_codec [xdr_rules]: "xdr_codec xdr_diropres3ok diropres3ok_ok"
  unfolding xdr_diropres3ok_def
  by (rule xdr_struct_codec [OF xdr_then_codec [OF xdr_post_op_fh3_codec xdr_then_codec [OF xdr_post_op_attr_codec xdr_wcc_data_codec]]])
    (auto simp: diropres3ok_ok_def)


section \<open>Results\<close>

datatype ('a, 'b) res3 = Resok 'a | Resfail u32 'b

fun res3_status :: "('a, 'b) res3 \<Rightarrow> u32" where
  "res3_status (Resok a) = nfsstat3_code NFS3_OK"
| "res3_status (Resfail s b) = s"

definition xdr_result :: "'a xdr \<Rightarrow> 'b xdr \<Rightarrow> ('a, 'b) res3 xdr" where
  "xdr_result p q = xdr_union xdr_nfsstat3 res3_status
     (\<lambda>t. Some (if t = nfsstat3_code NFS3_OK
        then xdr_arm (\<lambda>x. case x of Resok a \<Rightarrow> Some a | Resfail s b \<Rightarrow> None) Resok p
        else xdr_arm (\<lambda>x. case x of Resok a \<Rightarrow> None | Resfail s b \<Rightarrow> if s = t then Some b else None) (Resfail t) q))"

definition res3_ok :: "('a \<Rightarrow> bool) \<Rightarrow> ('b \<Rightarrow> bool) \<Rightarrow> ('a, 'b) res3 \<Rightarrow> bool" where
  "res3_ok P Q x \<longleftrightarrow> (case x of Resok a \<Rightarrow> P a | Resfail s b \<Rightarrow> s \<noteq> nfsstat3_code NFS3_OK \<and> Q b)"

lemma xdr_result_codec:
  assumes p: "xdr_codec p P" and q: "xdr_codec q Q"
  shows "xdr_codec (xdr_result p q) (res3_ok P Q)"
  unfolding xdr_result_def
proof (rule xdr_union_codec [OF xdr_nfsstat3_codec])
  fix t r
  let ?ok = "xdr_arm (\<lambda>x. case x of Resok a \<Rightarrow> Some a | Resfail s b \<Rightarrow> None) Resok p"
  let ?fail = "xdr_arm (\<lambda>x. case x of Resok a \<Rightarrow> None | Resfail s b \<Rightarrow> if s = t then Some b else None) (Resfail t) q"
  assume r: "Some (if t = nfsstat3_code NFS3_OK then ?ok else ?fail) = Some r"
  show "xdr_codec r (\<lambda>x. res3_ok P Q x \<and> res3_status x = t)"
  proof (cases "t = nfsstat3_code NFS3_OK")
    case True
    have "xdr_codec ?ok (\<lambda>x. res3_ok P Q x \<and> res3_status x = nfsstat3_code NFS3_OK)"
      by (rule xdr_arm_codec [OF p]) (auto simp: res3_ok_def split: res3.splits)
    with True r show ?thesis by (simp del: nfsstat3_code.simps)
  next
    case False
    then have "xdr_codec ?fail (\<lambda>x. res3_ok P Q x \<and> res3_status x = t)"
      by (intro xdr_arm_codec [OF q]) (auto simp: res3_ok_def simp del: nfsstat3_code.simps split: res3.splits if_splits)
    with False r show ?thesis by (simp del: nfsstat3_code.simps)
  qed
qed simp

text \<open>Results whose contents are there for every status but -1.\<close>

datatype 'a stat3 = Stat u32 'a | Nostat

fun stat3_status :: "'a stat3 \<Rightarrow> u32" where
  "stat3_status (Stat s a) = s"
| "stat3_status Nostat = -1"

definition xdr_stat :: "'a xdr \<Rightarrow> 'a stat3 xdr" where
  "xdr_stat p = xdr_union xdr_nfsstat3 stat3_status
     (\<lambda>t. Some (if t = -1
        then xdr_arm (\<lambda>x. case x of Stat s a \<Rightarrow> None | Nostat \<Rightarrow> Some ()) (\<lambda>_. Nostat) xdr_void
        else xdr_arm (\<lambda>x. case x of Stat s a \<Rightarrow> if s = t then Some a else None | Nostat \<Rightarrow> None) (Stat t) p))"

definition stat3_ok :: "('a \<Rightarrow> bool) \<Rightarrow> 'a stat3 \<Rightarrow> bool" where
  "stat3_ok P x \<longleftrightarrow> (case x of Stat s a \<Rightarrow> s \<noteq> -1 \<and> P a | Nostat \<Rightarrow> True)"

lemma xdr_stat_codec:
  assumes p: "xdr_codec p P"
  shows "xdr_codec (xdr_stat p) (stat3_ok P)"
  unfolding xdr_stat_def
proof (rule xdr_union_codec [OF xdr_nfsstat3_codec])
  fix t r
  let ?none = "xdr_arm (\<lambda>x :: 'a stat3. case x of Stat s a \<Rightarrow> None | Nostat \<Rightarrow> Some ()) (\<lambda>_. Nostat) xdr_void"
  let ?some = "xdr_arm (\<lambda>x. case x of Stat s a \<Rightarrow> if s = t then Some a else None | Nostat \<Rightarrow> None) (Stat t) p"
  assume r: "Some (if t = -1 then ?none else ?some) = Some r"
  show "xdr_codec r (\<lambda>x. stat3_ok P x \<and> stat3_status x = t)"
  proof (cases "t = -1")
    case True
    have "xdr_codec ?none (\<lambda>x. stat3_ok P x \<and> stat3_status x = -1)"
      by (rule xdr_arm_codec [OF xdr_void_codec]) (auto simp: stat3_ok_def split: stat3.splits)
    with True r show ?thesis by simp
  next
    case False
    then have "xdr_codec ?some (\<lambda>x. stat3_ok P x \<and> stat3_status x = t)"
      by (intro xdr_arm_codec [OF p]) (auto simp: stat3_ok_def split: stat3.splits if_splits)
    with False r show ?thesis by simp
  qed
qed simp

type_synonym diropres3 = "(diropres3ok, wcc_data) res3"

definition xdr_diropres3 :: "diropres3 xdr" where "xdr_diropres3 = xdr_result xdr_diropres3ok xdr_wcc_data"

lemma xdr_diropres3_codec [xdr_rules]: "xdr_codec xdr_diropres3 (res3_ok diropres3ok_ok (\<lambda>_. True))"
  unfolding xdr_diropres3_def by (rule xdr_result_codec [OF xdr_diropres3ok_codec xdr_wcc_data_codec])

type_synonym wccstat3 = "wcc_data stat3"

definition xdr_wccstat3 :: "wccstat3 xdr" where "xdr_wccstat3 = xdr_stat xdr_wcc_data"

lemma xdr_wccstat3_codec [xdr_rules]: "xdr_codec xdr_wccstat3 (stat3_ok (\<lambda>_. True))"
  unfolding xdr_wccstat3_def by (rule xdr_stat_codec [OF xdr_wcc_data_codec])

type_synonym getattr3res = "(fattr3, unit) res3"

definition xdr_getattr3res :: "getattr3res xdr" where "xdr_getattr3res = xdr_result xdr_fattr3 xdr_void"

lemma xdr_getattr3res_codec [xdr_rules]: "xdr_codec xdr_getattr3res (res3_ok (\<lambda>_. True) (\<lambda>_. True))"
  unfolding xdr_getattr3res_def by (rule xdr_result_codec [OF xdr_fattr3_codec xdr_void_codec])

type_synonym sattrguard3 = "nfstime3 option"

definition xdr_sattrguard3 :: "sattrguard3 xdr" where "xdr_sattrguard3 = xdr_optional xdr_nfstime3"

lemma xdr_sattrguard3_codec [xdr_rules]: "xdr_codec xdr_sattrguard3 (\<lambda>_. True)"
  using xdr_optional_codec [OF xdr_nfstime3_codec] by (simp add: xdr_sattrguard3_def true_option)

record setattr3args =
  sra_object :: nfs_fh3
  sra_new_attributes :: sattr3
  sra_guard :: sattrguard3

definition xdr_setattr3args :: "setattr3args xdr" where
  "xdr_setattr3args = xdr_struct
     (\<lambda>x. (sra_object x, sra_new_attributes x, sra_guard x))
     (\<lambda>(x1, x2, x3). \<lparr>sra_object = x1, sra_new_attributes = x2, sra_guard = x3\<rparr>)
     (xdr_then xdr_nfs_fh3 (xdr_then xdr_sattr3 xdr_sattrguard3))"

definition setattr3args_ok :: "setattr3args \<Rightarrow> bool" where
  "setattr3args_ok x \<longleftrightarrow> nfs_fh3_ok (sra_object x) \<and> sattr3_ok (sra_new_attributes x)"

lemma xdr_setattr3args_codec [xdr_rules]: "xdr_codec xdr_setattr3args setattr3args_ok"
  unfolding xdr_setattr3args_def
  by (rule xdr_struct_codec [OF xdr_then_codec [OF xdr_nfs_fh3_codec xdr_then_codec [OF xdr_sattr3_codec xdr_sattrguard3_codec]]])
    (auto simp: setattr3args_ok_def)

record lookup3resok =
  lr_object :: nfs_fh3
  lr_obj_attributes :: post_op_attr
  lr_dir_attributes :: post_op_attr

definition xdr_lookup3resok :: "lookup3resok xdr" where
  "xdr_lookup3resok = xdr_struct
     (\<lambda>x. (lr_object x, lr_obj_attributes x, lr_dir_attributes x))
     (\<lambda>(x1, x2, x3). \<lparr>lr_object = x1, lr_obj_attributes = x2, lr_dir_attributes = x3\<rparr>)
     (xdr_then xdr_nfs_fh3 (xdr_then xdr_post_op_attr xdr_post_op_attr))"

definition lookup3resok_ok :: "lookup3resok \<Rightarrow> bool" where
  "lookup3resok_ok x \<longleftrightarrow> nfs_fh3_ok (lr_object x)"

lemma xdr_lookup3resok_codec [xdr_rules]: "xdr_codec xdr_lookup3resok lookup3resok_ok"
  unfolding xdr_lookup3resok_def
  by (rule xdr_struct_codec [OF xdr_then_codec [OF xdr_nfs_fh3_codec xdr_then_codec [OF xdr_post_op_attr_codec xdr_post_op_attr_codec]]])
    (auto simp: lookup3resok_ok_def)

type_synonym lookup3res = "(lookup3resok, post_op_attr) res3"

definition xdr_lookup3res :: "lookup3res xdr" where "xdr_lookup3res = xdr_result xdr_lookup3resok xdr_post_op_attr"

lemma xdr_lookup3res_codec [xdr_rules]: "xdr_codec xdr_lookup3res (res3_ok lookup3resok_ok (\<lambda>_. True))"
  unfolding xdr_lookup3res_def by (rule xdr_result_codec [OF xdr_lookup3resok_codec xdr_post_op_attr_codec])

record access3args =
  aa_object :: nfs_fh3
  aa_access :: u32

definition xdr_access3args :: "access3args xdr" where
  "xdr_access3args = xdr_struct
     (\<lambda>x. (aa_object x, aa_access x))
     (\<lambda>(x1, x2). \<lparr>aa_object = x1, aa_access = x2\<rparr>)
     (xdr_then xdr_nfs_fh3 xdr_uint32)"

definition access3args_ok :: "access3args \<Rightarrow> bool" where
  "access3args_ok x \<longleftrightarrow> nfs_fh3_ok (aa_object x)"

lemma xdr_access3args_codec [xdr_rules]: "xdr_codec xdr_access3args access3args_ok"
  unfolding xdr_access3args_def
  by (rule xdr_struct_codec [OF xdr_then_codec [OF xdr_nfs_fh3_codec xdr_uint32_codec]])
    (auto simp: access3args_ok_def)

record access3resok =
  ar_obj_attributes :: post_op_attr
  ar_access :: u32

definition xdr_access3resok :: "access3resok xdr" where
  "xdr_access3resok = xdr_struct
     (\<lambda>x. (ar_obj_attributes x, ar_access x))
     (\<lambda>(x1, x2). \<lparr>ar_obj_attributes = x1, ar_access = x2\<rparr>)
     (xdr_then xdr_post_op_attr xdr_uint32)"

lemma xdr_access3resok_codec [xdr_rules]: "xdr_codec xdr_access3resok (\<lambda>_. True)"
  unfolding xdr_access3resok_def
  by (rule xdr_struct_codec [OF xdr_then_codec [OF xdr_post_op_attr_codec xdr_uint32_codec]])
    (auto)

type_synonym access3res = "(access3resok, post_op_attr) res3"

definition xdr_access3res :: "access3res xdr" where "xdr_access3res = xdr_result xdr_access3resok xdr_post_op_attr"

lemma xdr_access3res_codec [xdr_rules]: "xdr_codec xdr_access3res (res3_ok (\<lambda>_. True) (\<lambda>_. True))"
  unfolding xdr_access3res_def by (rule xdr_result_codec [OF xdr_access3resok_codec xdr_post_op_attr_codec])

record readlink3resok =
  rl_symlink_attributes :: post_op_attr
  rl_data :: bytes

definition xdr_readlink3resok :: "readlink3resok xdr" where
  "xdr_readlink3resok = xdr_struct
     (\<lambda>x. (rl_symlink_attributes x, rl_data x))
     (\<lambda>(x1, x2). \<lparr>rl_symlink_attributes = x1, rl_data = x2\<rparr>)
     (xdr_then xdr_post_op_attr xdr_nfspath3)"

definition readlink3resok_ok :: "readlink3resok \<Rightarrow> bool" where
  "readlink3resok_ok x \<longleftrightarrow> string_ok (rl_data x)"

lemma xdr_readlink3resok_codec [xdr_rules]: "xdr_codec xdr_readlink3resok readlink3resok_ok"
  unfolding xdr_readlink3resok_def
  by (rule xdr_struct_codec [OF xdr_then_codec [OF xdr_post_op_attr_codec xdr_nfspath3_codec]])
    (auto simp: readlink3resok_ok_def)

type_synonym readlink3res = "(readlink3resok, post_op_attr) res3"

definition xdr_readlink3res :: "readlink3res xdr" where "xdr_readlink3res = xdr_result xdr_readlink3resok xdr_post_op_attr"

lemma xdr_readlink3res_codec [xdr_rules]: "xdr_codec xdr_readlink3res (res3_ok readlink3resok_ok (\<lambda>_. True))"
  unfolding xdr_readlink3res_def by (rule xdr_result_codec [OF xdr_readlink3resok_codec xdr_post_op_attr_codec])


section \<open>Reading and writing\<close>

record read3args =
  ra_file :: nfs_fh3
  ra_offset :: u64
  ra_count :: u32

definition xdr_read3args :: "read3args xdr" where
  "xdr_read3args = xdr_struct
     (\<lambda>x. (ra_file x, ra_offset x, ra_count x))
     (\<lambda>(x1, x2, x3). \<lparr>ra_file = x1, ra_offset = x2, ra_count = x3\<rparr>)
     (xdr_then xdr_nfs_fh3 (xdr_then xdr_uint64 xdr_uint32))"

definition read3args_ok :: "read3args \<Rightarrow> bool" where
  "read3args_ok x \<longleftrightarrow> nfs_fh3_ok (ra_file x)"

lemma xdr_read3args_codec [xdr_rules]: "xdr_codec xdr_read3args read3args_ok"
  unfolding xdr_read3args_def
  by (rule xdr_struct_codec [OF xdr_then_codec [OF xdr_nfs_fh3_codec xdr_then_codec [OF xdr_uint64_codec xdr_uint32_codec]]])
    (auto simp: read3args_ok_def)

record read3resok =
  rr_file_attributes :: post_op_attr
  rr_count :: u32
  rr_eof :: bool
  rr_data :: bytes

definition xdr_read3resok :: "read3resok xdr" where
  "xdr_read3resok = xdr_struct
     (\<lambda>x. (rr_file_attributes x, rr_count x, rr_eof x, rr_data x))
     (\<lambda>(x1, x2, x3, x4). \<lparr>rr_file_attributes = x1, rr_count = x2, rr_eof = x3, rr_data = x4\<rparr>)
     (xdr_then xdr_post_op_attr (xdr_then xdr_uint32 (xdr_then xdr_bool (xdr_bytes xdr_no_limit))))"

definition read3resok_ok :: "read3resok \<Rightarrow> bool" where
  "read3resok_ok x \<longleftrightarrow> data_ok (rr_data x)"

lemma xdr_read3resok_codec [xdr_rules]: "xdr_codec xdr_read3resok read3resok_ok"
  unfolding xdr_read3resok_def
  by (rule xdr_struct_codec [OF xdr_then_codec [OF xdr_post_op_attr_codec xdr_then_codec [OF xdr_uint32_codec xdr_then_codec [OF xdr_bool_codec data_ok_codec]]]])
    (auto simp: read3resok_ok_def)

type_synonym read3res = "(read3resok, post_op_attr) res3"

definition xdr_read3res :: "read3res xdr" where "xdr_read3res = xdr_result xdr_read3resok xdr_post_op_attr"

lemma xdr_read3res_codec [xdr_rules]: "xdr_codec xdr_read3res (res3_ok read3resok_ok (\<lambda>_. True))"
  unfolding xdr_read3res_def by (rule xdr_result_codec [OF xdr_read3resok_codec xdr_post_op_attr_codec])

definition xdr_stable_how :: "u32 xdr" where "xdr_stable_how = xdr_enum"

lemma xdr_stable_how_codec [xdr_rules]: "xdr_codec xdr_stable_how (\<lambda>_. True)"
  by (simp add: xdr_stable_how_def xdr_word_codecs)

definition UNSTABLE :: u32 where "UNSTABLE = 0"
definition FILE_SYNC :: u32 where "FILE_SYNC = 2"

record write3args =
  wa3_file :: nfs_fh3
  wa3_offset :: u64
  wa3_count :: u32
  wa3_stable :: u32
  wa3_data :: bytes

definition xdr_write3args :: "write3args xdr" where
  "xdr_write3args = xdr_struct
     (\<lambda>x. (wa3_file x, wa3_offset x, wa3_count x, wa3_stable x, wa3_data x))
     (\<lambda>(x1, x2, x3, x4, x5). \<lparr>wa3_file = x1, wa3_offset = x2, wa3_count = x3, wa3_stable = x4, wa3_data = x5\<rparr>)
     (xdr_then xdr_nfs_fh3 (xdr_then xdr_uint64 (xdr_then xdr_uint32 (xdr_then xdr_stable_how (xdr_bytes xdr_no_limit)))))"

definition write3args_ok :: "write3args \<Rightarrow> bool" where
  "write3args_ok x \<longleftrightarrow> nfs_fh3_ok (wa3_file x) \<and> data_ok (wa3_data x)"

lemma xdr_write3args_codec [xdr_rules]: "xdr_codec xdr_write3args write3args_ok"
  unfolding xdr_write3args_def
  by (rule xdr_struct_codec [OF xdr_then_codec [OF xdr_nfs_fh3_codec xdr_then_codec [OF xdr_uint64_codec xdr_then_codec [OF xdr_uint32_codec xdr_then_codec [OF xdr_stable_how_codec data_ok_codec]]]]])
    (auto simp: write3args_ok_def)

record write3resok =
  wr_file_wcc :: wcc_data
  wr_count :: u32
  wr_committed :: u32
  wr_verf :: bytes

definition xdr_write3resok :: "write3resok xdr" where
  "xdr_write3resok = xdr_struct
     (\<lambda>x. (wr_file_wcc x, wr_count x, wr_committed x, wr_verf x))
     (\<lambda>(x1, x2, x3, x4). \<lparr>wr_file_wcc = x1, wr_count = x2, wr_committed = x3, wr_verf = x4\<rparr>)
     (xdr_then xdr_wcc_data (xdr_then xdr_uint32 (xdr_then xdr_stable_how xdr_writeverf3)))"

definition write3resok_ok :: "write3resok \<Rightarrow> bool" where
  "write3resok_ok x \<longleftrightarrow> verf_ok (wr_verf x)"

lemma xdr_write3resok_codec [xdr_rules]: "xdr_codec xdr_write3resok write3resok_ok"
  unfolding xdr_write3resok_def
  by (rule xdr_struct_codec [OF xdr_then_codec [OF xdr_wcc_data_codec xdr_then_codec [OF xdr_uint32_codec xdr_then_codec [OF xdr_stable_how_codec xdr_writeverf3_codec]]]])
    (auto simp: write3resok_ok_def)

type_synonym write3res = "(write3resok, wcc_data) res3"

definition xdr_write3res :: "write3res xdr" where "xdr_write3res = xdr_result xdr_write3resok xdr_wcc_data"

lemma xdr_write3res_codec [xdr_rules]: "xdr_codec xdr_write3res (res3_ok write3resok_ok (\<lambda>_. True))"
  unfolding xdr_write3res_def by (rule xdr_result_codec [OF xdr_write3resok_codec xdr_wcc_data_codec])


section \<open>Creating\<close>

definition xdr_createmode3 :: "u32 xdr" where "xdr_createmode3 = xdr_enum"

lemma xdr_createmode3_codec [xdr_rules]: "xdr_codec xdr_createmode3 (\<lambda>_. True)"
  by (simp add: xdr_createmode3_def xdr_word_codecs)

text \<open>The numbers of the three modes, and what comes with each.\<close>

definition UNCHECKED :: u32 where "UNCHECKED = 0"
definition GUARDED :: u32 where "GUARDED = 1"
definition EXCLUSIVE :: u32 where "EXCLUSIVE = 2"

lemmas createmode3_defs = UNCHECKED_def GUARDED_def EXCLUSIVE_def

datatype createhow3 = Unchecked sattr3 | Guarded sattr3 | Exclusive bytes

fun createhow3_mode :: "createhow3 \<Rightarrow> u32" where
  "createhow3_mode (Unchecked a) = UNCHECKED"
| "createhow3_mode (Guarded a) = GUARDED"
| "createhow3_mode (Exclusive v) = EXCLUSIVE"

definition xdr_createhow3 :: "createhow3 xdr" where
  "xdr_createhow3 = xdr_union xdr_createmode3 createhow3_mode
     (\<lambda>t. if t = UNCHECKED then Some (xdr_arm (\<lambda>x. case x of Unchecked a \<Rightarrow> Some a | _ \<Rightarrow> None) Unchecked xdr_sattr3)
          else if t = GUARDED then Some (xdr_arm (\<lambda>x. case x of Guarded a \<Rightarrow> Some a | _ \<Rightarrow> None) Guarded xdr_sattr3)
          else if t = EXCLUSIVE then Some (xdr_arm (\<lambda>x. case x of Exclusive v \<Rightarrow> Some v | _ \<Rightarrow> None) Exclusive xdr_createverf3)
          else None)"

definition createhow3_ok :: "createhow3 \<Rightarrow> bool" where
  "createhow3_ok x \<longleftrightarrow> (case x of Unchecked a \<Rightarrow> sattr3_ok a | Guarded a \<Rightarrow> sattr3_ok a | Exclusive v \<Rightarrow> verf_ok v)"

lemma createhow3_arms:
  "xdr_codec (xdr_arm (\<lambda>x. case x of Unchecked a \<Rightarrow> Some a | _ \<Rightarrow> None) Unchecked xdr_sattr3)
     (\<lambda>x. createhow3_ok x \<and> createhow3_mode x = UNCHECKED)"
  "xdr_codec (xdr_arm (\<lambda>x. case x of Guarded a \<Rightarrow> Some a | _ \<Rightarrow> None) Guarded xdr_sattr3)
     (\<lambda>x. createhow3_ok x \<and> createhow3_mode x = GUARDED)"
  "xdr_codec (xdr_arm (\<lambda>x. case x of Exclusive v \<Rightarrow> Some v | _ \<Rightarrow> None) Exclusive xdr_createverf3)
     (\<lambda>x. createhow3_ok x \<and> createhow3_mode x = EXCLUSIVE)"
  by (rule xdr_arm_codec [OF xdr_sattr3_codec] xdr_arm_codec [OF xdr_createverf3_codec];
      auto simp: createhow3_ok_def createmode3_defs split: createhow3.splits)+

lemma xdr_createhow3_codec [xdr_rules]: "xdr_codec xdr_createhow3 createhow3_ok"
  unfolding xdr_createhow3_def
proof (rule xdr_union_codec [OF xdr_createmode3_codec])
  fix x show "(if createhow3_mode x = UNCHECKED then Some (xdr_arm (\<lambda>x. case x of Unchecked a \<Rightarrow> Some a | _ \<Rightarrow> None) Unchecked xdr_sattr3)
      else if createhow3_mode x = GUARDED then Some (xdr_arm (\<lambda>x. case x of Guarded a \<Rightarrow> Some a | _ \<Rightarrow> None) Guarded xdr_sattr3)
      else if createhow3_mode x = EXCLUSIVE then Some (xdr_arm (\<lambda>x. case x of Exclusive v \<Rightarrow> Some v | _ \<Rightarrow> None) Exclusive xdr_createverf3)
      else None) \<noteq> None"
    by (cases x) simp_all
qed (use createhow3_arms in \<open>auto split: if_splits\<close>)

record create3args =
  ca_where :: diropargs3
  ca_how :: createhow3

definition xdr_create3args :: "create3args xdr" where
  "xdr_create3args = xdr_struct
     (\<lambda>x. (ca_where x, ca_how x))
     (\<lambda>(x1, x2). \<lparr>ca_where = x1, ca_how = x2\<rparr>)
     (xdr_then xdr_diropargs3 xdr_createhow3)"

definition create3args_ok :: "create3args \<Rightarrow> bool" where
  "create3args_ok x \<longleftrightarrow> diropargs3_ok (ca_where x) \<and> createhow3_ok (ca_how x)"

lemma xdr_create3args_codec [xdr_rules]: "xdr_codec xdr_create3args create3args_ok"
  unfolding xdr_create3args_def
  by (rule xdr_struct_codec [OF xdr_then_codec [OF xdr_diropargs3_codec xdr_createhow3_codec]])
    (auto simp: create3args_ok_def)

record mkdir3args =
  mka_where :: diropargs3
  mka_attributes :: sattr3

definition xdr_mkdir3args :: "mkdir3args xdr" where
  "xdr_mkdir3args = xdr_struct
     (\<lambda>x. (mka_where x, mka_attributes x))
     (\<lambda>(x1, x2). \<lparr>mka_where = x1, mka_attributes = x2\<rparr>)
     (xdr_then xdr_diropargs3 xdr_sattr3)"

definition mkdir3args_ok :: "mkdir3args \<Rightarrow> bool" where
  "mkdir3args_ok x \<longleftrightarrow> diropargs3_ok (mka_where x) \<and> sattr3_ok (mka_attributes x)"

lemma xdr_mkdir3args_codec [xdr_rules]: "xdr_codec xdr_mkdir3args mkdir3args_ok"
  unfolding xdr_mkdir3args_def
  by (rule xdr_struct_codec [OF xdr_then_codec [OF xdr_diropargs3_codec xdr_sattr3_codec]])
    (auto simp: mkdir3args_ok_def)

record symlinkdata3 =
  sl_symlink_attributes :: sattr3
  sl_symlink_data :: bytes

definition xdr_symlinkdata3 :: "symlinkdata3 xdr" where
  "xdr_symlinkdata3 = xdr_struct
     (\<lambda>x. (sl_symlink_attributes x, sl_symlink_data x))
     (\<lambda>(x1, x2). \<lparr>sl_symlink_attributes = x1, sl_symlink_data = x2\<rparr>)
     (xdr_then xdr_sattr3 xdr_nfspath3)"

definition symlinkdata3_ok :: "symlinkdata3 \<Rightarrow> bool" where
  "symlinkdata3_ok x \<longleftrightarrow> sattr3_ok (sl_symlink_attributes x) \<and> string_ok (sl_symlink_data x)"

lemma xdr_symlinkdata3_codec [xdr_rules]: "xdr_codec xdr_symlinkdata3 symlinkdata3_ok"
  unfolding xdr_symlinkdata3_def
  by (rule xdr_struct_codec [OF xdr_then_codec [OF xdr_sattr3_codec xdr_nfspath3_codec]])
    (auto simp: symlinkdata3_ok_def)

record symlink3args =
  sla_where :: diropargs3
  sla_symlink :: symlinkdata3

definition xdr_symlink3args :: "symlink3args xdr" where
  "xdr_symlink3args = xdr_struct
     (\<lambda>x. (sla_where x, sla_symlink x))
     (\<lambda>(x1, x2). \<lparr>sla_where = x1, sla_symlink = x2\<rparr>)
     (xdr_then xdr_diropargs3 xdr_symlinkdata3)"

definition symlink3args_ok :: "symlink3args \<Rightarrow> bool" where
  "symlink3args_ok x \<longleftrightarrow> diropargs3_ok (sla_where x) \<and> symlinkdata3_ok (sla_symlink x)"

lemma xdr_symlink3args_codec [xdr_rules]: "xdr_codec xdr_symlink3args symlink3args_ok"
  unfolding xdr_symlink3args_def
  by (rule xdr_struct_codec [OF xdr_then_codec [OF xdr_diropargs3_codec xdr_symlinkdata3_codec]])
    (auto simp: symlink3args_ok_def)

record devicedata3 =
  dd_dev_attributes :: sattr3
  dd_spec :: specdata3

definition xdr_devicedata3 :: "devicedata3 xdr" where
  "xdr_devicedata3 = xdr_struct
     (\<lambda>x. (dd_dev_attributes x, dd_spec x))
     (\<lambda>(x1, x2). \<lparr>dd_dev_attributes = x1, dd_spec = x2\<rparr>)
     (xdr_then xdr_sattr3 xdr_specdata3)"

definition devicedata3_ok :: "devicedata3 \<Rightarrow> bool" where
  "devicedata3_ok x \<longleftrightarrow> sattr3_ok (dd_dev_attributes x)"

lemma xdr_devicedata3_codec [xdr_rules]: "xdr_codec xdr_devicedata3 devicedata3_ok"
  unfolding xdr_devicedata3_def
  by (rule xdr_struct_codec [OF xdr_then_codec [OF xdr_sattr3_codec xdr_specdata3_codec]])
    (auto simp: devicedata3_ok_def)

text \<open>Devices have device numbers, sockets and fifos attributes, other types nothing.\<close>

datatype mknoddata3 = Mknod_device u32 devicedata3 | Mknod_pipe u32 sattr3 | Mknod_other u32

fun mknoddata3_type :: "mknoddata3 \<Rightarrow> u32" where
  "mknoddata3_type (Mknod_device t d) = t"
| "mknoddata3_type (Mknod_pipe t a) = t"
| "mknoddata3_type (Mknod_other t) = t"

definition mknod_is_device :: "u32 \<Rightarrow> bool" where
  "mknod_is_device t \<longleftrightarrow> t = ftype3_code NF3CHR \<or> t = ftype3_code NF3BLK"

definition mknod_is_pipe :: "u32 \<Rightarrow> bool" where
  "mknod_is_pipe t \<longleftrightarrow> t = ftype3_code NF3SOCK \<or> t = ftype3_code NF3FIFO"

definition xdr_mknoddata3 :: "mknoddata3 xdr" where
  "xdr_mknoddata3 = xdr_union xdr_ftype3 mknoddata3_type
     (\<lambda>t. Some (if mknod_is_device t
        then xdr_arm (\<lambda>x. case x of Mknod_device s d \<Rightarrow> if s = t then Some d else None | _ \<Rightarrow> None) (Mknod_device t) xdr_devicedata3
        else if mknod_is_pipe t
        then xdr_arm (\<lambda>x. case x of Mknod_pipe s a \<Rightarrow> if s = t then Some a else None | _ \<Rightarrow> None) (Mknod_pipe t) xdr_sattr3
        else xdr_arm (\<lambda>x. if x = Mknod_other t then Some () else None) (\<lambda>_. Mknod_other t) xdr_void))"

definition mknoddata3_ok :: "mknoddata3 \<Rightarrow> bool" where
  "mknoddata3_ok x \<longleftrightarrow> (case x of Mknod_device t d \<Rightarrow> mknod_is_device t \<and> devicedata3_ok d
     | Mknod_pipe t a \<Rightarrow> mknod_is_pipe t \<and> sattr3_ok a | Mknod_other t \<Rightarrow> \<not> mknod_is_device t \<and> \<not> mknod_is_pipe t)"

lemma mknod_types: "mknod_is_device t \<Longrightarrow> \<not> mknod_is_pipe t"
  by (auto simp: mknod_is_device_def mknod_is_pipe_def)

lemma mknoddata3_arms:
  "mknod_is_device t \<Longrightarrow> xdr_codec (xdr_arm (\<lambda>x. case x of Mknod_device s d \<Rightarrow> if s = t then Some d else None | _ \<Rightarrow> None) (Mknod_device t) xdr_devicedata3)
     (\<lambda>x. mknoddata3_ok x \<and> mknoddata3_type x = t)"
  "mknod_is_pipe t \<Longrightarrow> xdr_codec (xdr_arm (\<lambda>x. case x of Mknod_pipe s a \<Rightarrow> if s = t then Some a else None | _ \<Rightarrow> None) (Mknod_pipe t) xdr_sattr3)
     (\<lambda>x. mknoddata3_ok x \<and> mknoddata3_type x = t)"
  "\<not> mknod_is_device t \<Longrightarrow> \<not> mknod_is_pipe t \<Longrightarrow> xdr_codec (xdr_arm (\<lambda>x. if x = Mknod_other t then Some () else None) (\<lambda>_. Mknod_other t) xdr_void)
     (\<lambda>x. mknoddata3_ok x \<and> mknoddata3_type x = t)"
  by (rule xdr_arm_codec [OF xdr_devicedata3_codec] xdr_arm_codec [OF xdr_sattr3_codec] xdr_arm_codec [OF xdr_void_codec];
      auto simp: mknoddata3_ok_def dest: mknod_types split: mknoddata3.splits if_splits)+

lemma xdr_mknoddata3_codec [xdr_rules]: "xdr_codec xdr_mknoddata3 mknoddata3_ok"
  unfolding xdr_mknoddata3_def
  by (rule xdr_union_codec [OF xdr_ftype3_codec]) (use mknoddata3_arms in \<open>auto split: if_splits\<close>)

record mknod3args =
  mna_where :: diropargs3
  mna_what :: mknoddata3

definition xdr_mknod3args :: "mknod3args xdr" where
  "xdr_mknod3args = xdr_struct
     (\<lambda>x. (mna_where x, mna_what x))
     (\<lambda>(x1, x2). \<lparr>mna_where = x1, mna_what = x2\<rparr>)
     (xdr_then xdr_diropargs3 xdr_mknoddata3)"

definition mknod3args_ok :: "mknod3args \<Rightarrow> bool" where
  "mknod3args_ok x \<longleftrightarrow> diropargs3_ok (mna_where x) \<and> mknoddata3_ok (mna_what x)"

lemma xdr_mknod3args_codec [xdr_rules]: "xdr_codec xdr_mknod3args mknod3args_ok"
  unfolding xdr_mknod3args_def
  by (rule xdr_struct_codec [OF xdr_then_codec [OF xdr_diropargs3_codec xdr_mknoddata3_codec]])
    (auto simp: mknod3args_ok_def)


section \<open>Renaming and linking\<close>

record rename3args =
  rna_from :: diropargs3
  rna_to :: diropargs3

definition xdr_rename3args :: "rename3args xdr" where
  "xdr_rename3args = xdr_struct
     (\<lambda>x. (rna_from x, rna_to x))
     (\<lambda>(x1, x2). \<lparr>rna_from = x1, rna_to = x2\<rparr>)
     (xdr_then xdr_diropargs3 xdr_diropargs3)"

definition rename3args_ok :: "rename3args \<Rightarrow> bool" where
  "rename3args_ok x \<longleftrightarrow> diropargs3_ok (rna_from x) \<and> diropargs3_ok (rna_to x)"

lemma xdr_rename3args_codec [xdr_rules]: "xdr_codec xdr_rename3args rename3args_ok"
  unfolding xdr_rename3args_def
  by (rule xdr_struct_codec [OF xdr_then_codec [OF xdr_diropargs3_codec xdr_diropargs3_codec]])
    (auto simp: rename3args_ok_def)

record rename3wcc =
  rnw_fromdir_wcc :: wcc_data
  rnw_todir_wcc :: wcc_data

definition xdr_rename3wcc :: "rename3wcc xdr" where
  "xdr_rename3wcc = xdr_struct
     (\<lambda>x. (rnw_fromdir_wcc x, rnw_todir_wcc x))
     (\<lambda>(x1, x2). \<lparr>rnw_fromdir_wcc = x1, rnw_todir_wcc = x2\<rparr>)
     (xdr_then xdr_wcc_data xdr_wcc_data)"

lemma xdr_rename3wcc_codec [xdr_rules]: "xdr_codec xdr_rename3wcc (\<lambda>_. True)"
  unfolding xdr_rename3wcc_def
  by (rule xdr_struct_codec [OF xdr_then_codec [OF xdr_wcc_data_codec xdr_wcc_data_codec]])
    (auto)

type_synonym rename3res = "rename3wcc stat3"

definition xdr_rename3res :: "rename3res xdr" where "xdr_rename3res = xdr_stat xdr_rename3wcc"

lemma xdr_rename3res_codec [xdr_rules]: "xdr_codec xdr_rename3res (stat3_ok (\<lambda>_. True))"
  unfolding xdr_rename3res_def by (rule xdr_stat_codec [OF xdr_rename3wcc_codec])

record link3args =
  lka_file :: nfs_fh3
  lka_link :: diropargs3

definition xdr_link3args :: "link3args xdr" where
  "xdr_link3args = xdr_struct
     (\<lambda>x. (lka_file x, lka_link x))
     (\<lambda>(x1, x2). \<lparr>lka_file = x1, lka_link = x2\<rparr>)
     (xdr_then xdr_nfs_fh3 xdr_diropargs3)"

definition link3args_ok :: "link3args \<Rightarrow> bool" where
  "link3args_ok x \<longleftrightarrow> nfs_fh3_ok (lka_file x) \<and> diropargs3_ok (lka_link x)"

lemma xdr_link3args_codec [xdr_rules]: "xdr_codec xdr_link3args link3args_ok"
  unfolding xdr_link3args_def
  by (rule xdr_struct_codec [OF xdr_then_codec [OF xdr_nfs_fh3_codec xdr_diropargs3_codec]])
    (auto simp: link3args_ok_def)

record link3wcc =
  lkw_file_attributes :: post_op_attr
  lkw_linkdir_wcc :: wcc_data

definition xdr_link3wcc :: "link3wcc xdr" where
  "xdr_link3wcc = xdr_struct
     (\<lambda>x. (lkw_file_attributes x, lkw_linkdir_wcc x))
     (\<lambda>(x1, x2). \<lparr>lkw_file_attributes = x1, lkw_linkdir_wcc = x2\<rparr>)
     (xdr_then xdr_post_op_attr xdr_wcc_data)"

lemma xdr_link3wcc_codec [xdr_rules]: "xdr_codec xdr_link3wcc (\<lambda>_. True)"
  unfolding xdr_link3wcc_def
  by (rule xdr_struct_codec [OF xdr_then_codec [OF xdr_post_op_attr_codec xdr_wcc_data_codec]])
    (auto)

type_synonym link3res = "link3wcc stat3"

definition xdr_link3res :: "link3res xdr" where "xdr_link3res = xdr_stat xdr_link3wcc"

lemma xdr_link3res_codec [xdr_rules]: "xdr_codec xdr_link3res (stat3_ok (\<lambda>_. True))"
  unfolding xdr_link3res_def by (rule xdr_stat_codec [OF xdr_link3wcc_codec])


section \<open>Reading directories\<close>

record readdir3args =
  rda_dir :: nfs_fh3
  rda_cookie :: u64
  rda_cookieverf :: bytes
  rda_count :: u32

definition xdr_readdir3args :: "readdir3args xdr" where
  "xdr_readdir3args = xdr_struct
     (\<lambda>x. (rda_dir x, rda_cookie x, rda_cookieverf x, rda_count x))
     (\<lambda>(x1, x2, x3, x4). \<lparr>rda_dir = x1, rda_cookie = x2, rda_cookieverf = x3, rda_count = x4\<rparr>)
     (xdr_then xdr_nfs_fh3 (xdr_then xdr_uint64 (xdr_then xdr_cookieverf3 xdr_uint32)))"

definition readdir3args_ok :: "readdir3args \<Rightarrow> bool" where
  "readdir3args_ok x \<longleftrightarrow> nfs_fh3_ok (rda_dir x) \<and> verf_ok (rda_cookieverf x)"

lemma xdr_readdir3args_codec [xdr_rules]: "xdr_codec xdr_readdir3args readdir3args_ok"
  unfolding xdr_readdir3args_def
  by (rule xdr_struct_codec [OF xdr_then_codec [OF xdr_nfs_fh3_codec xdr_then_codec [OF xdr_uint64_codec xdr_then_codec [OF xdr_cookieverf3_codec xdr_uint32_codec]]]])
    (auto simp: readdir3args_ok_def)

text \<open>The pointer to the next entry is the tail of the list.\<close>

record entry3 =
  en_fileid :: u64
  en_name :: bytes
  en_cookie :: u64

definition xdr_entry3 :: "entry3 xdr" where
  "xdr_entry3 = xdr_struct
     (\<lambda>x. (en_fileid x, en_name x, en_cookie x))
     (\<lambda>(x1, x2, x3). \<lparr>en_fileid = x1, en_name = x2, en_cookie = x3\<rparr>)
     (xdr_then xdr_uint64 (xdr_then xdr_filename3 xdr_uint64))"

definition entry3_ok :: "entry3 \<Rightarrow> bool" where
  "entry3_ok x \<longleftrightarrow> string_ok (en_name x)"

lemma xdr_entry3_codec [xdr_rules]: "xdr_codec xdr_entry3 entry3_ok"
  unfolding xdr_entry3_def
  by (rule xdr_struct_codec [OF xdr_then_codec [OF xdr_uint64_codec xdr_then_codec [OF xdr_filename3_codec xdr_uint64_codec]]])
    (auto simp: entry3_ok_def)

definition entry3_entries_ok :: "entry3 list \<Rightarrow> bool" where
  "entry3_entries_ok xs \<longleftrightarrow> (\<forall>x \<in> set xs. entry3_ok x)"

lemma entry3_entries_codec: "xdr_codec (xdr_pointer_list xdr_entry3) entry3_entries_ok"
  unfolding entry3_entries_ok_def by (rule xdr_pointer_list_codec [OF xdr_entry3_codec])

record dirlist3 =
  dl_entries :: "entry3 list"
  dl_eof :: bool

definition xdr_dirlist3 :: "dirlist3 xdr" where
  "xdr_dirlist3 = xdr_struct
     (\<lambda>x. (dl_entries x, dl_eof x))
     (\<lambda>(x1, x2). \<lparr>dl_entries = x1, dl_eof = x2\<rparr>)
     (xdr_then (xdr_pointer_list xdr_entry3) xdr_bool)"

definition dirlist3_ok :: "dirlist3 \<Rightarrow> bool" where
  "dirlist3_ok x \<longleftrightarrow> entry3_entries_ok (dl_entries x)"

lemma xdr_dirlist3_codec [xdr_rules]: "xdr_codec xdr_dirlist3 dirlist3_ok"
  unfolding xdr_dirlist3_def
  by (rule xdr_struct_codec [OF xdr_then_codec [OF entry3_entries_codec xdr_bool_codec]])
    (auto simp: dirlist3_ok_def)

record readdir3resok =
  rdr_dir_attributes :: post_op_attr
  rdr_cookieverf :: bytes
  rdr_reply :: dirlist3

definition xdr_readdir3resok :: "readdir3resok xdr" where
  "xdr_readdir3resok = xdr_struct
     (\<lambda>x. (rdr_dir_attributes x, rdr_cookieverf x, rdr_reply x))
     (\<lambda>(x1, x2, x3). \<lparr>rdr_dir_attributes = x1, rdr_cookieverf = x2, rdr_reply = x3\<rparr>)
     (xdr_then xdr_post_op_attr (xdr_then xdr_cookieverf3 xdr_dirlist3))"

definition readdir3resok_ok :: "readdir3resok \<Rightarrow> bool" where
  "readdir3resok_ok x \<longleftrightarrow> verf_ok (rdr_cookieverf x) \<and> dirlist3_ok (rdr_reply x)"

lemma xdr_readdir3resok_codec [xdr_rules]: "xdr_codec xdr_readdir3resok readdir3resok_ok"
  unfolding xdr_readdir3resok_def
  by (rule xdr_struct_codec [OF xdr_then_codec [OF xdr_post_op_attr_codec xdr_then_codec [OF xdr_cookieverf3_codec xdr_dirlist3_codec]]])
    (auto simp: readdir3resok_ok_def)

type_synonym readdir3res = "(readdir3resok, post_op_attr) res3"

definition xdr_readdir3res :: "readdir3res xdr" where "xdr_readdir3res = xdr_result xdr_readdir3resok xdr_post_op_attr"

lemma xdr_readdir3res_codec [xdr_rules]: "xdr_codec xdr_readdir3res (res3_ok readdir3resok_ok (\<lambda>_. True))"
  unfolding xdr_readdir3res_def by (rule xdr_result_codec [OF xdr_readdir3resok_codec xdr_post_op_attr_codec])

record readdirplus3args =
  rpa_dir :: nfs_fh3
  rpa_cookie :: u64
  rpa_cookieverf :: bytes
  rpa_dircount :: u32
  rpa_maxcount :: u32

definition xdr_readdirplus3args :: "readdirplus3args xdr" where
  "xdr_readdirplus3args = xdr_struct
     (\<lambda>x. (rpa_dir x, rpa_cookie x, rpa_cookieverf x, rpa_dircount x, rpa_maxcount x))
     (\<lambda>(x1, x2, x3, x4, x5). \<lparr>rpa_dir = x1, rpa_cookie = x2, rpa_cookieverf = x3, rpa_dircount = x4, rpa_maxcount = x5\<rparr>)
     (xdr_then xdr_nfs_fh3 (xdr_then xdr_uint64 (xdr_then xdr_cookieverf3 (xdr_then xdr_uint32 xdr_uint32))))"

definition readdirplus3args_ok :: "readdirplus3args \<Rightarrow> bool" where
  "readdirplus3args_ok x \<longleftrightarrow> nfs_fh3_ok (rpa_dir x) \<and> verf_ok (rpa_cookieverf x)"

lemma xdr_readdirplus3args_codec [xdr_rules]: "xdr_codec xdr_readdirplus3args readdirplus3args_ok"
  unfolding xdr_readdirplus3args_def
  by (rule xdr_struct_codec [OF xdr_then_codec [OF xdr_nfs_fh3_codec xdr_then_codec [OF xdr_uint64_codec xdr_then_codec [OF xdr_cookieverf3_codec xdr_then_codec [OF xdr_uint32_codec xdr_uint32_codec]]]]])
    (auto simp: readdirplus3args_ok_def)

record entryplus3 =
  ep_fileid :: u64
  ep_name :: bytes
  ep_cookie :: u64
  ep_name_attributes :: post_op_attr
  ep_name_handle :: post_op_fh3

definition xdr_entryplus3 :: "entryplus3 xdr" where
  "xdr_entryplus3 = xdr_struct
     (\<lambda>x. (ep_fileid x, ep_name x, ep_cookie x, ep_name_attributes x, ep_name_handle x))
     (\<lambda>(x1, x2, x3, x4, x5). \<lparr>ep_fileid = x1, ep_name = x2, ep_cookie = x3, ep_name_attributes = x4, ep_name_handle = x5\<rparr>)
     (xdr_then xdr_uint64 (xdr_then xdr_filename3 (xdr_then xdr_uint64 (xdr_then xdr_post_op_attr xdr_post_op_fh3))))"

definition entryplus3_ok :: "entryplus3 \<Rightarrow> bool" where
  "entryplus3_ok x \<longleftrightarrow> string_ok (ep_name x) \<and> post_op_fh3_ok (ep_name_handle x)"

lemma xdr_entryplus3_codec [xdr_rules]: "xdr_codec xdr_entryplus3 entryplus3_ok"
  unfolding xdr_entryplus3_def
  by (rule xdr_struct_codec [OF xdr_then_codec [OF xdr_uint64_codec xdr_then_codec [OF xdr_filename3_codec xdr_then_codec [OF xdr_uint64_codec xdr_then_codec [OF xdr_post_op_attr_codec xdr_post_op_fh3_codec]]]]])
    (auto simp: entryplus3_ok_def)

definition entryplus3_entries_ok :: "entryplus3 list \<Rightarrow> bool" where
  "entryplus3_entries_ok xs \<longleftrightarrow> (\<forall>x \<in> set xs. entryplus3_ok x)"

lemma entryplus3_entries_codec: "xdr_codec (xdr_pointer_list xdr_entryplus3) entryplus3_entries_ok"
  unfolding entryplus3_entries_ok_def by (rule xdr_pointer_list_codec [OF xdr_entryplus3_codec])

record dirlistplus3 =
  dlp_entries :: "entryplus3 list"
  dlp_eof :: bool

definition xdr_dirlistplus3 :: "dirlistplus3 xdr" where
  "xdr_dirlistplus3 = xdr_struct
     (\<lambda>x. (dlp_entries x, dlp_eof x))
     (\<lambda>(x1, x2). \<lparr>dlp_entries = x1, dlp_eof = x2\<rparr>)
     (xdr_then (xdr_pointer_list xdr_entryplus3) xdr_bool)"

definition dirlistplus3_ok :: "dirlistplus3 \<Rightarrow> bool" where
  "dirlistplus3_ok x \<longleftrightarrow> entryplus3_entries_ok (dlp_entries x)"

lemma xdr_dirlistplus3_codec [xdr_rules]: "xdr_codec xdr_dirlistplus3 dirlistplus3_ok"
  unfolding xdr_dirlistplus3_def
  by (rule xdr_struct_codec [OF xdr_then_codec [OF entryplus3_entries_codec xdr_bool_codec]])
    (auto simp: dirlistplus3_ok_def)

record readdirplus3resok =
  rpr_dir_attributes :: post_op_attr
  rpr_cookieverf :: bytes
  rpr_reply :: dirlistplus3

definition xdr_readdirplus3resok :: "readdirplus3resok xdr" where
  "xdr_readdirplus3resok = xdr_struct
     (\<lambda>x. (rpr_dir_attributes x, rpr_cookieverf x, rpr_reply x))
     (\<lambda>(x1, x2, x3). \<lparr>rpr_dir_attributes = x1, rpr_cookieverf = x2, rpr_reply = x3\<rparr>)
     (xdr_then xdr_post_op_attr (xdr_then xdr_cookieverf3 xdr_dirlistplus3))"

definition readdirplus3resok_ok :: "readdirplus3resok \<Rightarrow> bool" where
  "readdirplus3resok_ok x \<longleftrightarrow> verf_ok (rpr_cookieverf x) \<and> dirlistplus3_ok (rpr_reply x)"

lemma xdr_readdirplus3resok_codec [xdr_rules]: "xdr_codec xdr_readdirplus3resok readdirplus3resok_ok"
  unfolding xdr_readdirplus3resok_def
  by (rule xdr_struct_codec [OF xdr_then_codec [OF xdr_post_op_attr_codec xdr_then_codec [OF xdr_cookieverf3_codec xdr_dirlistplus3_codec]]])
    (auto simp: readdirplus3resok_ok_def)

type_synonym readdirplus3res = "(readdirplus3resok, post_op_attr) res3"

definition xdr_readdirplus3res :: "readdirplus3res xdr" where "xdr_readdirplus3res = xdr_result xdr_readdirplus3resok xdr_post_op_attr"

lemma xdr_readdirplus3res_codec [xdr_rules]: "xdr_codec xdr_readdirplus3res (res3_ok readdirplus3resok_ok (\<lambda>_. True))"
  unfolding xdr_readdirplus3res_def by (rule xdr_result_codec [OF xdr_readdirplus3resok_codec xdr_post_op_attr_codec])


section \<open>File system information\<close>

record fsstat3resok =
  fs_obj_attributes :: post_op_attr
  fs_tbytes :: u64
  fs_fbytes :: u64
  fs_abytes :: u64
  fs_tfiles :: u64
  fs_ffiles :: u64
  fs_afiles :: u64
  fs_invarsec :: u32

definition xdr_fsstat3resok :: "fsstat3resok xdr" where
  "xdr_fsstat3resok = xdr_struct
     (\<lambda>x. (fs_obj_attributes x, fs_tbytes x, fs_fbytes x, fs_abytes x, fs_tfiles x, fs_ffiles x, fs_afiles x, fs_invarsec x))
     (\<lambda>(x1, x2, x3, x4, x5, x6, x7, x8). \<lparr>fs_obj_attributes = x1, fs_tbytes = x2, fs_fbytes = x3, fs_abytes = x4, fs_tfiles = x5, fs_ffiles = x6, fs_afiles = x7, fs_invarsec = x8\<rparr>)
     (xdr_then xdr_post_op_attr (xdr_then xdr_uint64 (xdr_then xdr_uint64 (xdr_then xdr_uint64 (xdr_then xdr_uint64 (xdr_then xdr_uint64 (xdr_then xdr_uint64 xdr_uint32)))))))"

lemma xdr_fsstat3resok_codec [xdr_rules]: "xdr_codec xdr_fsstat3resok (\<lambda>_. True)"
  unfolding xdr_fsstat3resok_def
  by (rule xdr_struct_codec [OF xdr_then_codec [OF xdr_post_op_attr_codec xdr_then_codec [OF xdr_uint64_codec xdr_then_codec [OF xdr_uint64_codec xdr_then_codec [OF xdr_uint64_codec xdr_then_codec [OF xdr_uint64_codec xdr_then_codec [OF xdr_uint64_codec xdr_then_codec [OF xdr_uint64_codec xdr_uint32_codec]]]]]]]])
    (auto)

type_synonym fsstat3res = "(fsstat3resok, post_op_attr) res3"

definition xdr_fsstat3res :: "fsstat3res xdr" where "xdr_fsstat3res = xdr_result xdr_fsstat3resok xdr_post_op_attr"

lemma xdr_fsstat3res_codec [xdr_rules]: "xdr_codec xdr_fsstat3res (res3_ok (\<lambda>_. True) (\<lambda>_. True))"
  unfolding xdr_fsstat3res_def by (rule xdr_result_codec [OF xdr_fsstat3resok_codec xdr_post_op_attr_codec])

record fsinfo3resok =
  fi_obj_attributes :: post_op_attr
  fi_rtmax :: u32
  fi_rtpref :: u32
  fi_rtmult :: u32
  fi_wtmax :: u32
  fi_wtpref :: u32
  fi_wtmult :: u32
  fi_dtpref :: u32
  fi_maxfilesize :: u64
  fi_time_delta :: nfstime3
  fi_properties :: u32

definition xdr_fsinfo3resok :: "fsinfo3resok xdr" where
  "xdr_fsinfo3resok = xdr_struct
     (\<lambda>x. (fi_obj_attributes x, fi_rtmax x, fi_rtpref x, fi_rtmult x, fi_wtmax x, fi_wtpref x, fi_wtmult x, fi_dtpref x, fi_maxfilesize x, fi_time_delta x, fi_properties x))
     (\<lambda>(x1, x2, x3, x4, x5, x6, x7, x8, x9, x10, x11). \<lparr>fi_obj_attributes = x1, fi_rtmax = x2, fi_rtpref = x3, fi_rtmult = x4, fi_wtmax = x5, fi_wtpref = x6, fi_wtmult = x7, fi_dtpref = x8, fi_maxfilesize = x9, fi_time_delta = x10, fi_properties = x11\<rparr>)
     (xdr_then xdr_post_op_attr (xdr_then xdr_uint32 (xdr_then xdr_uint32 (xdr_then xdr_uint32 (xdr_then xdr_uint32 (xdr_then xdr_uint32 (xdr_then xdr_uint32 (xdr_then xdr_uint32 (xdr_then xdr_uint64 (xdr_then xdr_nfstime3 xdr_uint32))))))))))"

lemma xdr_fsinfo3resok_codec [xdr_rules]: "xdr_codec xdr_fsinfo3resok (\<lambda>_. True)"
  unfolding xdr_fsinfo3resok_def
  by (rule xdr_struct_codec [OF xdr_then_codec [OF xdr_post_op_attr_codec xdr_then_codec [OF xdr_uint32_codec xdr_then_codec [OF xdr_uint32_codec xdr_then_codec [OF xdr_uint32_codec xdr_then_codec [OF xdr_uint32_codec xdr_then_codec [OF xdr_uint32_codec xdr_then_codec [OF xdr_uint32_codec xdr_then_codec [OF xdr_uint32_codec xdr_then_codec [OF xdr_uint64_codec xdr_then_codec [OF xdr_nfstime3_codec xdr_uint32_codec]]]]]]]]]]])
    (auto)

type_synonym fsinfo3res = "(fsinfo3resok, post_op_attr) res3"

definition xdr_fsinfo3res :: "fsinfo3res xdr" where "xdr_fsinfo3res = xdr_result xdr_fsinfo3resok xdr_post_op_attr"

lemma xdr_fsinfo3res_codec [xdr_rules]: "xdr_codec xdr_fsinfo3res (res3_ok (\<lambda>_. True) (\<lambda>_. True))"
  unfolding xdr_fsinfo3res_def by (rule xdr_result_codec [OF xdr_fsinfo3resok_codec xdr_post_op_attr_codec])

record pathconf3resok =
  pc_obj_attributes :: post_op_attr
  pc_linkmax :: u32
  pc_name_max :: u32
  pc_no_trunc :: bool
  pc_chown_restricted :: bool
  pc_case_insensitive :: bool
  pc_case_preserving :: bool

definition xdr_pathconf3resok :: "pathconf3resok xdr" where
  "xdr_pathconf3resok = xdr_struct
     (\<lambda>x. (pc_obj_attributes x, pc_linkmax x, pc_name_max x, pc_no_trunc x, pc_chown_restricted x, pc_case_insensitive x, pc_case_preserving x))
     (\<lambda>(x1, x2, x3, x4, x5, x6, x7). \<lparr>pc_obj_attributes = x1, pc_linkmax = x2, pc_name_max = x3, pc_no_trunc = x4, pc_chown_restricted = x5, pc_case_insensitive = x6, pc_case_preserving = x7\<rparr>)
     (xdr_then xdr_post_op_attr (xdr_then xdr_uint32 (xdr_then xdr_uint32 (xdr_then xdr_bool (xdr_then xdr_bool (xdr_then xdr_bool xdr_bool))))))"

lemma xdr_pathconf3resok_codec [xdr_rules]: "xdr_codec xdr_pathconf3resok (\<lambda>_. True)"
  unfolding xdr_pathconf3resok_def
  by (rule xdr_struct_codec [OF xdr_then_codec [OF xdr_post_op_attr_codec xdr_then_codec [OF xdr_uint32_codec xdr_then_codec [OF xdr_uint32_codec xdr_then_codec [OF xdr_bool_codec xdr_then_codec [OF xdr_bool_codec xdr_then_codec [OF xdr_bool_codec xdr_bool_codec]]]]]]])
    (auto)

type_synonym pathconf3res = "(pathconf3resok, post_op_attr) res3"

definition xdr_pathconf3res :: "pathconf3res xdr" where "xdr_pathconf3res = xdr_result xdr_pathconf3resok xdr_post_op_attr"

lemma xdr_pathconf3res_codec [xdr_rules]: "xdr_codec xdr_pathconf3res (res3_ok (\<lambda>_. True) (\<lambda>_. True))"
  unfolding xdr_pathconf3res_def by (rule xdr_result_codec [OF xdr_pathconf3resok_codec xdr_post_op_attr_codec])

record commit3args =
  cma_file :: nfs_fh3
  cma_offset :: u64
  cma_count :: u32

definition xdr_commit3args :: "commit3args xdr" where
  "xdr_commit3args = xdr_struct
     (\<lambda>x. (cma_file x, cma_offset x, cma_count x))
     (\<lambda>(x1, x2, x3). \<lparr>cma_file = x1, cma_offset = x2, cma_count = x3\<rparr>)
     (xdr_then xdr_nfs_fh3 (xdr_then xdr_uint64 xdr_uint32))"

definition commit3args_ok :: "commit3args \<Rightarrow> bool" where
  "commit3args_ok x \<longleftrightarrow> nfs_fh3_ok (cma_file x)"

lemma xdr_commit3args_codec [xdr_rules]: "xdr_codec xdr_commit3args commit3args_ok"
  unfolding xdr_commit3args_def
  by (rule xdr_struct_codec [OF xdr_then_codec [OF xdr_nfs_fh3_codec xdr_then_codec [OF xdr_uint64_codec xdr_uint32_codec]]])
    (auto simp: commit3args_ok_def)

record commit3resok =
  cmr_file_wcc :: wcc_data
  cmr_verf :: bytes

definition xdr_commit3resok :: "commit3resok xdr" where
  "xdr_commit3resok = xdr_struct
     (\<lambda>x. (cmr_file_wcc x, cmr_verf x))
     (\<lambda>(x1, x2). \<lparr>cmr_file_wcc = x1, cmr_verf = x2\<rparr>)
     (xdr_then xdr_wcc_data xdr_writeverf3)"

definition commit3resok_ok :: "commit3resok \<Rightarrow> bool" where
  "commit3resok_ok x \<longleftrightarrow> verf_ok (cmr_verf x)"

lemma xdr_commit3resok_codec [xdr_rules]: "xdr_codec xdr_commit3resok commit3resok_ok"
  unfolding xdr_commit3resok_def
  by (rule xdr_struct_codec [OF xdr_then_codec [OF xdr_wcc_data_codec xdr_writeverf3_codec]])
    (auto simp: commit3resok_ok_def)

type_synonym commit3res = "(commit3resok, wcc_data) res3"

definition xdr_commit3res :: "commit3res xdr" where "xdr_commit3res = xdr_result xdr_commit3resok xdr_wcc_data"

lemma xdr_commit3res_codec [xdr_rules]: "xdr_codec xdr_commit3res (res3_ok commit3resok_ok (\<lambda>_. True))"
  unfolding xdr_commit3res_def by (rule xdr_result_codec [OF xdr_commit3resok_codec xdr_wcc_data_codec])

end
