(* ===== verification/BlueSky_Mount.thy ===== *)
theory BlueSky_Mount
  imports BlueSky_Nfs3_Prot
begin

text \<open>
  The MOUNT protocol: the types and filters of \<^verbatim>\<open>nfs3/mount_prot.h\<close> and
  \<^verbatim>\<open>nfs3/mount_prot_xdr.c\<close>, the procedures of \<^verbatim>\<open>nfs3/mount.c\<close> and their dispatcher
  \<^verbatim>\<open>mount_program_3\<close> of \<^verbatim>\<open>nfs3/rpc.c\<close>, which runs in the RPC server of the C library.
\<close>


section \<open>Messages\<close>

definition MNTPATHLEN :: nat where "MNTPATHLEN = 1024"
definition MNTNAMLEN :: nat where "MNTNAMLEN = 255"
definition FHSIZE3 :: nat where "FHSIZE3 = 64"

definition path_ok :: "nat \<Rightarrow> bytes \<Rightarrow> bool" where
  "path_ok n x \<longleftrightarrow> 0 \<notin> set x \<and> length x \<le> n"

lemma path_ok_codec: "n < 2 ^ 32 - 1 \<Longrightarrow> xdr_codec (xdr_string n) (path_ok n)"
proof -
  assume "n < 2 ^ 32 - 1"
  then have "path_ok n = (\<lambda>x. 0 \<notin> set x \<and> length x \<le> n \<and> length x < 2 ^ 32 - 1)"
    by (auto simp: path_ok_def fun_eq_iff)
  with xdr_string_codec [of n] show ?thesis by simp
qed

type_synonym fhandle3 = bytes

definition xdr_fhandle3 :: "fhandle3 xdr" where "xdr_fhandle3 = xdr_bytes FHSIZE3"

definition fhandle3_ok :: "fhandle3 \<Rightarrow> bool" where
  "fhandle3_ok x \<longleftrightarrow> length x \<le> FHSIZE3"

lemma xdr_fhandle3_codec [xdr_rules]: "xdr_codec xdr_fhandle3 fhandle3_ok"
proof -
  have "fhandle3_ok = (\<lambda>x. length x \<le> FHSIZE3 \<and> length x < 2 ^ 32)"
    by (auto simp: fhandle3_ok_def FHSIZE3_def fun_eq_iff)
  with xdr_bytes_codec [of FHSIZE3] show ?thesis by (simp add: xdr_fhandle3_def)
qed

definition xdr_dirpath :: "bytes xdr" where "xdr_dirpath = xdr_string MNTPATHLEN"

lemma xdr_dirpath_codec [xdr_rules]: "xdr_codec xdr_dirpath (path_ok MNTPATHLEN)"
  unfolding xdr_dirpath_def by (rule path_ok_codec) (simp add: MNTPATHLEN_def)

definition xdr_name :: "bytes xdr" where "xdr_name = xdr_string MNTNAMLEN"

lemma xdr_name_codec [xdr_rules]: "xdr_codec xdr_name (path_ok MNTNAMLEN)"
  unfolding xdr_name_def by (rule path_ok_codec) (simp add: MNTNAMLEN_def)

datatype mountstat3 =
  MNT3_OK | MNT3ERR_PERM | MNT3ERR_NOENT | MNT3ERR_IO | MNT3ERR_ACCES | MNT3ERR_NOTDIR | MNT3ERR_INVAL
  | MNT3ERR_NAMETOOLONG | MNT3ERR_NOTSUPP | MNT3ERR_SERVERFAULT

fun mountstat3_code :: "mountstat3 \<Rightarrow> u32" where
  "mountstat3_code MNT3_OK = 0"
| "mountstat3_code MNT3ERR_PERM = 1"
| "mountstat3_code MNT3ERR_NOENT = 2"
| "mountstat3_code MNT3ERR_IO = 5"
| "mountstat3_code MNT3ERR_ACCES = 13"
| "mountstat3_code MNT3ERR_NOTDIR = 20"
| "mountstat3_code MNT3ERR_INVAL = 22"
| "mountstat3_code MNT3ERR_NAMETOOLONG = 63"
| "mountstat3_code MNT3ERR_NOTSUPP = 10004"
| "mountstat3_code MNT3ERR_SERVERFAULT = 10006"

definition xdr_mountstat3 :: "u32 xdr" where "xdr_mountstat3 = xdr_enum"

lemma xdr_mountstat3_codec [xdr_rules]: "xdr_codec xdr_mountstat3 (\<lambda>_. True)"
  by (simp add: xdr_mountstat3_def xdr_word_codecs)

definition flavors_ok :: "u32 list \<Rightarrow> bool" where
  "flavors_ok x \<longleftrightarrow> length x \<le> (2 ^ 32 - 1) div 4"

lemma flavors_codec: "xdr_codec (xdr_array xdr_no_limit 4 xdr_int) flavors_ok"
proof -
  have "flavors_ok = (\<lambda>x. length x \<le> xdr_no_limit \<and> length x \<le> (2 ^ 32 - 1) div 4 \<and> (\<forall>y \<in> set x. True))"
    by (auto simp: flavors_ok_def xdr_no_limit_def fun_eq_iff)
  with xdr_array_codec [OF xdr_word_codecs(2), of xdr_no_limit 4] show ?thesis by simp
qed

record mountres3_ok =
  mr_fhandle :: fhandle3
  mr_auth_flavors :: "u32 list"

definition xdr_mountres3_ok :: "mountres3_ok xdr" where
  "xdr_mountres3_ok = xdr_struct
     (\<lambda>x. (mr_fhandle x, mr_auth_flavors x))
     (\<lambda>(x1, x2). \<lparr>mr_fhandle = x1, mr_auth_flavors = x2\<rparr>)
     (xdr_then xdr_fhandle3 (xdr_array xdr_no_limit 4 xdr_int))"

definition mountres3_ok_ok :: "mountres3_ok \<Rightarrow> bool" where
  "mountres3_ok_ok x \<longleftrightarrow> fhandle3_ok (mr_fhandle x) \<and> flavors_ok (mr_auth_flavors x)"

lemma xdr_mountres3_ok_codec [xdr_rules]: "xdr_codec xdr_mountres3_ok mountres3_ok_ok"
  unfolding xdr_mountres3_ok_def
  by (rule xdr_struct_codec [OF xdr_then_codec [OF xdr_fhandle3_codec flavors_codec]])
    (auto simp: mountres3_ok_ok_def)

text \<open>A failure carries nothing but its status.\<close>

type_synonym mountres3 = "(mountres3_ok, unit) res3"

definition xdr_mountres3 :: "mountres3 xdr" where
  "xdr_mountres3 = xdr_union xdr_mountstat3 res3_status
     (\<lambda>t. Some (if t = mountstat3_code MNT3_OK
        then xdr_arm (\<lambda>x. case x of Resok a \<Rightarrow> Some a | Resfail s b \<Rightarrow> None) Resok xdr_mountres3_ok
        else xdr_arm (\<lambda>x. case x of Resok a \<Rightarrow> None | Resfail s b \<Rightarrow> if s = t then Some b else None) (Resfail t) xdr_void))"

lemma xdr_mountres3_codec [xdr_rules]: "xdr_codec xdr_mountres3 (res3_ok mountres3_ok_ok (\<lambda>_. True))"
proof -
  have "xdr_mountres3 = xdr_result xdr_mountres3_ok xdr_void"
    by (simp add: xdr_mountres3_def xdr_result_def xdr_mountstat3_def xdr_nfsstat3_def)
  then show ?thesis using xdr_result_codec [OF xdr_mountres3_ok_codec xdr_void_codec] by simp
qed

text \<open>The three linked lists; the pointer to the next element is the tail of the list.\<close>

record mountbody =
  ml_hostname :: bytes
  ml_directory :: bytes

definition xdr_mountbody :: "mountbody xdr" where
  "xdr_mountbody = xdr_struct
     (\<lambda>x. (ml_hostname x, ml_directory x))
     (\<lambda>(x1, x2). \<lparr>ml_hostname = x1, ml_directory = x2\<rparr>)
     (xdr_then xdr_name xdr_dirpath)"

definition mountbody_ok :: "mountbody \<Rightarrow> bool" where
  "mountbody_ok x \<longleftrightarrow> path_ok MNTNAMLEN (ml_hostname x) \<and> path_ok MNTPATHLEN (ml_directory x)"

lemma xdr_mountbody_codec [xdr_rules]: "xdr_codec xdr_mountbody mountbody_ok"
  unfolding xdr_mountbody_def
  by (rule xdr_struct_codec [OF xdr_then_codec [OF xdr_name_codec xdr_dirpath_codec]])
    (auto simp: mountbody_ok_def)

definition xdr_mountlist :: "mountbody list xdr" where "xdr_mountlist = xdr_pointer_list xdr_mountbody"

definition mountlist_ok :: "mountbody list \<Rightarrow> bool" where
  "mountlist_ok xs \<longleftrightarrow> (\<forall>x \<in> set xs. mountbody_ok x)"

lemma xdr_mountlist_codec [xdr_rules]: "xdr_codec xdr_mountlist mountlist_ok"
  unfolding xdr_mountlist_def mountlist_ok_def by (rule xdr_pointer_list_codec [OF xdr_mountbody_codec])

record groupnode =
  gr_name :: bytes

definition xdr_groupnode :: "groupnode xdr" where
  "xdr_groupnode = xdr_struct
     (\<lambda>x. (gr_name x))
     (\<lambda>(x1). \<lparr>gr_name = x1\<rparr>)
     (xdr_name)"

definition groupnode_ok :: "groupnode \<Rightarrow> bool" where
  "groupnode_ok x \<longleftrightarrow> path_ok MNTNAMLEN (gr_name x)"

lemma xdr_groupnode_codec [xdr_rules]: "xdr_codec xdr_groupnode groupnode_ok"
  unfolding xdr_groupnode_def
  by (rule xdr_struct_codec [OF xdr_name_codec])
    (auto simp: groupnode_ok_def)

definition xdr_groups :: "groupnode list xdr" where "xdr_groups = xdr_pointer_list xdr_groupnode"

definition groups_ok :: "groupnode list \<Rightarrow> bool" where
  "groups_ok xs \<longleftrightarrow> (\<forall>x \<in> set xs. groupnode_ok x)"

lemma xdr_groups_codec [xdr_rules]: "xdr_codec xdr_groups groups_ok"
  unfolding xdr_groups_def groups_ok_def by (rule xdr_pointer_list_codec [OF xdr_groupnode_codec])

record exportnode =
  ex_dir :: bytes
  ex_groups :: "groupnode list"

definition xdr_exportnode :: "exportnode xdr" where
  "xdr_exportnode = xdr_struct
     (\<lambda>x. (ex_dir x, ex_groups x))
     (\<lambda>(x1, x2). \<lparr>ex_dir = x1, ex_groups = x2\<rparr>)
     (xdr_then xdr_dirpath xdr_groups)"

definition exportnode_ok :: "exportnode \<Rightarrow> bool" where
  "exportnode_ok x \<longleftrightarrow> path_ok MNTPATHLEN (ex_dir x) \<and> groups_ok (ex_groups x)"

lemma xdr_exportnode_codec [xdr_rules]: "xdr_codec xdr_exportnode exportnode_ok"
  unfolding xdr_exportnode_def
  by (rule xdr_struct_codec [OF xdr_then_codec [OF xdr_dirpath_codec xdr_groups_codec]])
    (auto simp: exportnode_ok_def)

definition xdr_exports :: "exportnode list xdr" where "xdr_exports = xdr_pointer_list xdr_exportnode"

definition exports_ok :: "exportnode list \<Rightarrow> bool" where
  "exports_ok xs \<longleftrightarrow> (\<forall>x \<in> set xs. exportnode_ok x)"

lemma xdr_exports_codec [xdr_rules]: "xdr_codec xdr_exports exports_ok"
  unfolding xdr_exports_def exports_ok_def by (rule xdr_pointer_list_codec [OF xdr_exportnode_codec])


section \<open>The procedures\<close>

definition AUTH_UNIX :: u32 where "AUTH_UNIX = 1"

text \<open>Every directory is mounted as the root directory, which is inode 1.\<close>

definition mountproc3_mnt_3_svc :: "bytes \<Rightarrow> mountres3" where
  "mountproc3_mnt_3_svc path = Resok \<lparr>mr_fhandle = [0, 0, 0, 0, 0, 0, 0, 1], mr_auth_flavors = [AUTH_UNIX]\<rparr>"

text \<open>
  \<^verbatim>\<open>null_result\<close> points to an \<^verbatim>\<open>int\<close> that is 0, and the procedures for the lists return it as a
  pointer to a list head.  A list head is twice as wide: \<open>behind\<close> is the word that
  follows \<^verbatim>\<open>null_int\<close> in memory.  The head is the null pointer if that word is 0 too, and
  is followed into memory that belongs to no list (\<open>None\<close>) otherwise.
\<close>

definition null_list :: "u32 \<Rightarrow> 'a list option" where
  "null_list behind = (if behind = 0 then Some [] else None)"

definition mountproc3_dump_3_svc :: "u32 \<Rightarrow> mountbody list option" where
  "mountproc3_dump_3_svc behind = null_list behind"

definition mountproc3_export_3_svc :: "u32 \<Rightarrow> exportnode list option" where
  "mountproc3_export_3_svc behind = null_list behind"

definition mountproc3_null_3_svc :: unit where "mountproc3_null_3_svc = ()"
definition mountproc3_umnt_3_svc :: "bytes \<Rightarrow> unit" where "mountproc3_umnt_3_svc path = ()"
definition mountproc3_umntall_3_svc :: unit where "mountproc3_umntall_3_svc = ()"

text \<open>The calls back into the RPC library that end a request.\<close>

datatype svc_reply = svcerr_noproc | svcerr_decode | svcerr_systemerr | svc_sendreply bytes

definition svc_run :: "'a xdr \<Rightarrow> 'b xdr \<Rightarrow> ('a \<Rightarrow> 'b option) \<Rightarrow> bytes \<Rightarrow> svc_reply option" where
  "svc_run xdr_arg xdr_res local args =
     (case xdec xdr_arg args of None \<Rightarrow> Some svcerr_decode
      | Some (argument, rest) \<Rightarrow>
          (case local argument of None \<Rightarrow> None
           | Some result \<Rightarrow>
               (case xenc xdr_res result of None \<Rightarrow> Some svcerr_systemerr | Some b \<Rightarrow> Some (svc_sendreply b))))"

definition mount_program_3 :: "u32 \<Rightarrow> u32 \<Rightarrow> bytes \<Rightarrow> svc_reply option" where
  "mount_program_3 behind rq_proc args =
     (if rq_proc = 0 then svc_run xdr_void xdr_void (\<lambda>_. Some mountproc3_null_3_svc) args
      else if rq_proc = 1 then svc_run xdr_dirpath xdr_mountres3 (\<lambda>p. Some (mountproc3_mnt_3_svc p)) args
      else if rq_proc = 2 then svc_run xdr_void xdr_mountlist (\<lambda>_. mountproc3_dump_3_svc behind) args
      else if rq_proc = 3 then svc_run xdr_dirpath xdr_void (\<lambda>p. Some (mountproc3_umnt_3_svc p)) args
      else if rq_proc = 4 then svc_run xdr_void xdr_void (\<lambda>_. Some mountproc3_umntall_3_svc) args
      else if rq_proc = 5 then svc_run xdr_void xdr_exports (\<lambda>_. mountproc3_export_3_svc behind) args
      else Some svcerr_noproc)"

lemma svc_run_encodes:
  assumes "xdr_codec p P" "xdr_codec q Q" "\<And>x. P x \<Longrightarrow> f x \<noteq> None" "\<And>x y. f x = Some y \<Longrightarrow> Q y"
  shows "\<exists>r. svc_run p q f args = Some r \<and> r \<noteq> svcerr_systemerr \<and> r \<noteq> svcerr_noproc"
proof (cases "xdec p args")
  case (Some z)
  obtain x rest where z: "z = (x, rest)" by (cases z)
  then have "P x" using xdr_codec.decoded [OF assms(1)] Some by blast
  with assms(3) obtain y where y: "f x = Some y" by blast
  with assms(4) xdr_codec.enc_total [OF assms(2), of y] Some z show ?thesis by (auto simp: svc_run_def)
qed (simp add: svc_run_def)

text \<open>
  A request for a procedure of the protocol never runs into an encoding failure
  and, if the word behind \<^verbatim>\<open>null_int\<close> is 0, always gets a reply.
\<close>

lemma mount_program_total:
  assumes "behind = 0"
  shows "\<exists>r. mount_program_3 behind rq_proc args = Some r \<and> r \<noteq> svcerr_systemerr"
proof -
  have mnt: "res3_ok mountres3_ok_ok (\<lambda>_. True) (mountproc3_mnt_3_svc p)" for p
    by (simp add: mountproc3_mnt_3_svc_def res3_ok_def mountres3_ok_ok_def fhandle3_ok_def FHSIZE3_def flavors_ok_def)
  note lists = mountproc3_dump_3_svc_def mountproc3_export_3_svc_def null_list_def assms mountlist_ok_def exports_ok_def
  show ?thesis
    unfolding mount_program_3_def
    using svc_run_encodes [OF xdr_void_codec xdr_void_codec, of "\<lambda>_. Some ()" args]
      svc_run_encodes [OF xdr_dirpath_codec xdr_mountres3_codec, of "\<lambda>p. Some (mountproc3_mnt_3_svc p)" args]
      svc_run_encodes [OF xdr_void_codec xdr_mountlist_codec, of "\<lambda>_. mountproc3_dump_3_svc behind" args]
      svc_run_encodes [OF xdr_dirpath_codec xdr_void_codec, of "\<lambda>_. Some ()" args]
      svc_run_encodes [OF xdr_void_codec xdr_exports_codec, of "\<lambda>_. mountproc3_export_3_svc behind" args]
    by (auto simp: lists mnt mountproc3_umnt_3_svc_def)
qed

text \<open>The filters of a mount request and of its reply are codecs.\<close>

interpretation mount_path: xdr_codec xdr_dirpath "path_ok MNTPATHLEN"
  by (rule xdr_dirpath_codec)

interpretation mount_reply: xdr_codec xdr_mountres3 "res3_ok mountres3_ok_ok (\<lambda>_. True)"
  by (rule xdr_mountres3_codec)

text \<open>C37: Mounting any path that can be sent yields a reply from which the client reads the file
  handle of the root directory, inode 1 in big-endian order.\<close>

theorem mount_gives_root:
  assumes "path_ok MNTPATHLEN path"
  shows "\<exists>args b. xenc xdr_dirpath path = Some args \<and> mount_program_3 behind 1 args = Some (svc_sendreply b) \<and>
           xdec xdr_mountres3 b = Some (Resok \<lparr>mr_fhandle = be64 1, mr_auth_flavors = [AUTH_UNIX]\<rparr>, [])"
proof -
  let ?r = "mountproc3_mnt_3_svc path"
  have be: "be64 1 = [0, 0, 0, 0, 0, 0, 0, 1]" by code_simp
  have "res3_ok mountres3_ok_ok (\<lambda>_. True) ?r"
    by (simp add: mountproc3_mnt_3_svc_def res3_ok_def mountres3_ok_ok_def fhandle3_ok_def FHSIZE3_def flavors_ok_def)
  from mount_reply.enc_dec [OF this]
  obtain b where b: "xenc xdr_mountres3 ?r = Some b" "xdec xdr_mountres3 (b @ []) = Some (?r, [])" by blast
  from mount_path.enc_dec [OF assms]
  obtain args where "xenc xdr_dirpath path = Some args" "xdec xdr_dirpath (args @ []) = Some (path, [])" by blast
  with b show ?thesis by (auto simp: mount_program_3_def svc_run_def mountproc3_mnt_3_svc_def be)
qed

theorem mount_gives_root_witness:
  "\<exists>args b. xenc xdr_dirpath [47] = Some args \<and> mount_program_3 7 1 args = Some (svc_sendreply b) \<and>
     xdec xdr_mountres3 b = Some (Resok \<lparr>mr_fhandle = be64 1, mr_auth_flavors = [AUTH_UNIX]\<rparr>, [])"
  by (rule mount_gives_root) (simp add: path_ok_def MNTPATHLEN_def)

end
