(* ===== verification/BlueSky_Rpc.thy ===== *)
theory BlueSky_Rpc
  imports BlueSky_Nfs3_Prot
begin

text \<open>
  The RPC layer of the NFS server (\<^verbatim>\<open>nfs3/rpc.c\<close>): reassembly of messages from the
  fragments of a TCP stream, the header of a call, the table of procedures with
  their filters, and replies.  Reads of a message past its end are \<open>None\<close>.
\<close>


section \<open>Procedures\<close>

datatype nfs_args =
  A_null | A_getattr nfs_fh3 | A_setattr setattr3args | A_lookup diropargs3 | A_access access3args
  | A_readlink nfs_fh3 | A_read read3args | A_write write3args | A_create create3args | A_mkdir mkdir3args
  | A_symlink symlink3args | A_mknod mknod3args | A_remove diropargs3 | A_rmdir diropargs3 | A_rename rename3args
  | A_link link3args | A_readdir readdir3args | A_readdirplus readdirplus3args | A_fsstat nfs_fh3 | A_fsinfo nfs_fh3
  | A_pathconf nfs_fh3 | A_commit commit3args

datatype nfs_res =
  R_null | R_getattr getattr3res | R_setattr wccstat3 | R_lookup lookup3res | R_access access3res
  | R_readlink readlink3res | R_read read3res | R_write write3res | R_create diropres3 | R_mkdir diropres3
  | R_symlink diropres3 | R_mknod diropres3 | R_remove wccstat3 | R_rmdir wccstat3 | R_rename rename3res
  | R_link link3res | R_readdir readdir3res | R_readdirplus readdirplus3res | R_fsstat fsstat3res
  | R_fsinfo fsinfo3res | R_pathconf pathconf3res | R_commit commit3res

text \<open>The number of the procedure the arguments are for.\<close>

fun nfs_proc :: "nfs_args \<Rightarrow> u32" where
  "nfs_proc A_null = 0"
| "nfs_proc (A_getattr x) = 1"
| "nfs_proc (A_setattr x) = 2"
| "nfs_proc (A_lookup x) = 3"
| "nfs_proc (A_access x) = 4"
| "nfs_proc (A_readlink x) = 5"
| "nfs_proc (A_read x) = 6"
| "nfs_proc (A_write x) = 7"
| "nfs_proc (A_create x) = 8"
| "nfs_proc (A_mkdir x) = 9"
| "nfs_proc (A_symlink x) = 10"
| "nfs_proc (A_mknod x) = 11"
| "nfs_proc (A_remove x) = 12"
| "nfs_proc (A_rmdir x) = 13"
| "nfs_proc (A_rename x) = 14"
| "nfs_proc (A_link x) = 15"
| "nfs_proc (A_readdir x) = 16"
| "nfs_proc (A_readdirplus x) = 17"
| "nfs_proc (A_fsstat x) = 18"
| "nfs_proc (A_fsinfo x) = 19"
| "nfs_proc (A_pathconf x) = 20"
| "nfs_proc (A_commit x) = 21"

fun nfs_res_proc :: "nfs_res \<Rightarrow> u32" where
  "nfs_res_proc R_null = 0"
| "nfs_res_proc (R_getattr x) = 1"
| "nfs_res_proc (R_setattr x) = 2"
| "nfs_res_proc (R_lookup x) = 3"
| "nfs_res_proc (R_access x) = 4"
| "nfs_res_proc (R_readlink x) = 5"
| "nfs_res_proc (R_read x) = 6"
| "nfs_res_proc (R_write x) = 7"
| "nfs_res_proc (R_create x) = 8"
| "nfs_res_proc (R_mkdir x) = 9"
| "nfs_res_proc (R_symlink x) = 10"
| "nfs_res_proc (R_mknod x) = 11"
| "nfs_res_proc (R_remove x) = 12"
| "nfs_res_proc (R_rmdir x) = 13"
| "nfs_res_proc (R_rename x) = 14"
| "nfs_res_proc (R_link x) = 15"
| "nfs_res_proc (R_readdir x) = 16"
| "nfs_res_proc (R_readdirplus x) = 17"
| "nfs_res_proc (R_fsstat x) = 18"
| "nfs_res_proc (R_fsinfo x) = 19"
| "nfs_res_proc (R_pathconf x) = 20"
| "nfs_res_proc (R_commit x) = 21"

text \<open>The filter for the arguments and the one for the result of a procedure.\<close>

definition nfs_arg_filter :: "u32 \<Rightarrow> nfs_args xdr option" where
  "nfs_arg_filter proc =
     (if proc = 0 then Some (xdr_arm (\<lambda>x. case x of A_null \<Rightarrow> Some () | _ \<Rightarrow> None) (\<lambda>_. A_null) xdr_void)
      else if proc = 1 then Some (xdr_arm (\<lambda>x. case x of A_getattr y \<Rightarrow> Some y | _ \<Rightarrow> None) A_getattr xdr_nfs_fh3)
      else if proc = 2 then Some (xdr_arm (\<lambda>x. case x of A_setattr y \<Rightarrow> Some y | _ \<Rightarrow> None) A_setattr xdr_setattr3args)
      else if proc = 3 then Some (xdr_arm (\<lambda>x. case x of A_lookup y \<Rightarrow> Some y | _ \<Rightarrow> None) A_lookup xdr_diropargs3)
      else if proc = 4 then Some (xdr_arm (\<lambda>x. case x of A_access y \<Rightarrow> Some y | _ \<Rightarrow> None) A_access xdr_access3args)
      else if proc = 5 then Some (xdr_arm (\<lambda>x. case x of A_readlink y \<Rightarrow> Some y | _ \<Rightarrow> None) A_readlink xdr_nfs_fh3)
      else if proc = 6 then Some (xdr_arm (\<lambda>x. case x of A_read y \<Rightarrow> Some y | _ \<Rightarrow> None) A_read xdr_read3args)
      else if proc = 7 then Some (xdr_arm (\<lambda>x. case x of A_write y \<Rightarrow> Some y | _ \<Rightarrow> None) A_write xdr_write3args)
      else if proc = 8 then Some (xdr_arm (\<lambda>x. case x of A_create y \<Rightarrow> Some y | _ \<Rightarrow> None) A_create xdr_create3args)
      else if proc = 9 then Some (xdr_arm (\<lambda>x. case x of A_mkdir y \<Rightarrow> Some y | _ \<Rightarrow> None) A_mkdir xdr_mkdir3args)
      else if proc = 10 then Some (xdr_arm (\<lambda>x. case x of A_symlink y \<Rightarrow> Some y | _ \<Rightarrow> None) A_symlink xdr_symlink3args)
      else if proc = 11 then Some (xdr_arm (\<lambda>x. case x of A_mknod y \<Rightarrow> Some y | _ \<Rightarrow> None) A_mknod xdr_mknod3args)
      else if proc = 12 then Some (xdr_arm (\<lambda>x. case x of A_remove y \<Rightarrow> Some y | _ \<Rightarrow> None) A_remove xdr_diropargs3)
      else if proc = 13 then Some (xdr_arm (\<lambda>x. case x of A_rmdir y \<Rightarrow> Some y | _ \<Rightarrow> None) A_rmdir xdr_diropargs3)
      else if proc = 14 then Some (xdr_arm (\<lambda>x. case x of A_rename y \<Rightarrow> Some y | _ \<Rightarrow> None) A_rename xdr_rename3args)
      else if proc = 15 then Some (xdr_arm (\<lambda>x. case x of A_link y \<Rightarrow> Some y | _ \<Rightarrow> None) A_link xdr_link3args)
      else if proc = 16 then Some (xdr_arm (\<lambda>x. case x of A_readdir y \<Rightarrow> Some y | _ \<Rightarrow> None) A_readdir xdr_readdir3args)
      else if proc = 17 then Some (xdr_arm (\<lambda>x. case x of A_readdirplus y \<Rightarrow> Some y | _ \<Rightarrow> None) A_readdirplus xdr_readdirplus3args)
      else if proc = 18 then Some (xdr_arm (\<lambda>x. case x of A_fsstat y \<Rightarrow> Some y | _ \<Rightarrow> None) A_fsstat xdr_nfs_fh3)
      else if proc = 19 then Some (xdr_arm (\<lambda>x. case x of A_fsinfo y \<Rightarrow> Some y | _ \<Rightarrow> None) A_fsinfo xdr_nfs_fh3)
      else if proc = 20 then Some (xdr_arm (\<lambda>x. case x of A_pathconf y \<Rightarrow> Some y | _ \<Rightarrow> None) A_pathconf xdr_nfs_fh3)
      else if proc = 21 then Some (xdr_arm (\<lambda>x. case x of A_commit y \<Rightarrow> Some y | _ \<Rightarrow> None) A_commit xdr_commit3args)
      else None)"

definition nfs_res_filter :: "u32 \<Rightarrow> nfs_res xdr option" where
  "nfs_res_filter proc =
     (if proc = 0 then Some (xdr_arm (\<lambda>x. case x of R_null \<Rightarrow> Some () | _ \<Rightarrow> None) (\<lambda>_. R_null) xdr_void)
      else if proc = 1 then Some (xdr_arm (\<lambda>x. case x of R_getattr y \<Rightarrow> Some y | _ \<Rightarrow> None) R_getattr xdr_getattr3res)
      else if proc = 2 then Some (xdr_arm (\<lambda>x. case x of R_setattr y \<Rightarrow> Some y | _ \<Rightarrow> None) R_setattr xdr_wccstat3)
      else if proc = 3 then Some (xdr_arm (\<lambda>x. case x of R_lookup y \<Rightarrow> Some y | _ \<Rightarrow> None) R_lookup xdr_lookup3res)
      else if proc = 4 then Some (xdr_arm (\<lambda>x. case x of R_access y \<Rightarrow> Some y | _ \<Rightarrow> None) R_access xdr_access3res)
      else if proc = 5 then Some (xdr_arm (\<lambda>x. case x of R_readlink y \<Rightarrow> Some y | _ \<Rightarrow> None) R_readlink xdr_readlink3res)
      else if proc = 6 then Some (xdr_arm (\<lambda>x. case x of R_read y \<Rightarrow> Some y | _ \<Rightarrow> None) R_read xdr_read3res)
      else if proc = 7 then Some (xdr_arm (\<lambda>x. case x of R_write y \<Rightarrow> Some y | _ \<Rightarrow> None) R_write xdr_write3res)
      else if proc = 8 then Some (xdr_arm (\<lambda>x. case x of R_create y \<Rightarrow> Some y | _ \<Rightarrow> None) R_create xdr_diropres3)
      else if proc = 9 then Some (xdr_arm (\<lambda>x. case x of R_mkdir y \<Rightarrow> Some y | _ \<Rightarrow> None) R_mkdir xdr_diropres3)
      else if proc = 10 then Some (xdr_arm (\<lambda>x. case x of R_symlink y \<Rightarrow> Some y | _ \<Rightarrow> None) R_symlink xdr_diropres3)
      else if proc = 11 then Some (xdr_arm (\<lambda>x. case x of R_mknod y \<Rightarrow> Some y | _ \<Rightarrow> None) R_mknod xdr_diropres3)
      else if proc = 12 then Some (xdr_arm (\<lambda>x. case x of R_remove y \<Rightarrow> Some y | _ \<Rightarrow> None) R_remove xdr_wccstat3)
      else if proc = 13 then Some (xdr_arm (\<lambda>x. case x of R_rmdir y \<Rightarrow> Some y | _ \<Rightarrow> None) R_rmdir xdr_wccstat3)
      else if proc = 14 then Some (xdr_arm (\<lambda>x. case x of R_rename y \<Rightarrow> Some y | _ \<Rightarrow> None) R_rename xdr_rename3res)
      else if proc = 15 then Some (xdr_arm (\<lambda>x. case x of R_link y \<Rightarrow> Some y | _ \<Rightarrow> None) R_link xdr_link3res)
      else if proc = 16 then Some (xdr_arm (\<lambda>x. case x of R_readdir y \<Rightarrow> Some y | _ \<Rightarrow> None) R_readdir xdr_readdir3res)
      else if proc = 17 then Some (xdr_arm (\<lambda>x. case x of R_readdirplus y \<Rightarrow> Some y | _ \<Rightarrow> None) R_readdirplus xdr_readdirplus3res)
      else if proc = 18 then Some (xdr_arm (\<lambda>x. case x of R_fsstat y \<Rightarrow> Some y | _ \<Rightarrow> None) R_fsstat xdr_fsstat3res)
      else if proc = 19 then Some (xdr_arm (\<lambda>x. case x of R_fsinfo y \<Rightarrow> Some y | _ \<Rightarrow> None) R_fsinfo xdr_fsinfo3res)
      else if proc = 20 then Some (xdr_arm (\<lambda>x. case x of R_pathconf y \<Rightarrow> Some y | _ \<Rightarrow> None) R_pathconf xdr_pathconf3res)
      else if proc = 21 then Some (xdr_arm (\<lambda>x. case x of R_commit y \<Rightarrow> Some y | _ \<Rightarrow> None) R_commit xdr_commit3res)
      else None)"

text \<open>The arguments and results that can be sent.\<close>

fun nfs_args_ok :: "nfs_args \<Rightarrow> bool" where
  "nfs_args_ok A_null \<longleftrightarrow> True"
| "nfs_args_ok (A_getattr x) \<longleftrightarrow> nfs_fh3_ok x"
| "nfs_args_ok (A_setattr x) \<longleftrightarrow> setattr3args_ok x"
| "nfs_args_ok (A_lookup x) \<longleftrightarrow> diropargs3_ok x"
| "nfs_args_ok (A_access x) \<longleftrightarrow> access3args_ok x"
| "nfs_args_ok (A_readlink x) \<longleftrightarrow> nfs_fh3_ok x"
| "nfs_args_ok (A_read x) \<longleftrightarrow> read3args_ok x"
| "nfs_args_ok (A_write x) \<longleftrightarrow> write3args_ok x"
| "nfs_args_ok (A_create x) \<longleftrightarrow> create3args_ok x"
| "nfs_args_ok (A_mkdir x) \<longleftrightarrow> mkdir3args_ok x"
| "nfs_args_ok (A_symlink x) \<longleftrightarrow> symlink3args_ok x"
| "nfs_args_ok (A_mknod x) \<longleftrightarrow> mknod3args_ok x"
| "nfs_args_ok (A_remove x) \<longleftrightarrow> diropargs3_ok x"
| "nfs_args_ok (A_rmdir x) \<longleftrightarrow> diropargs3_ok x"
| "nfs_args_ok (A_rename x) \<longleftrightarrow> rename3args_ok x"
| "nfs_args_ok (A_link x) \<longleftrightarrow> link3args_ok x"
| "nfs_args_ok (A_readdir x) \<longleftrightarrow> readdir3args_ok x"
| "nfs_args_ok (A_readdirplus x) \<longleftrightarrow> readdirplus3args_ok x"
| "nfs_args_ok (A_fsstat x) \<longleftrightarrow> nfs_fh3_ok x"
| "nfs_args_ok (A_fsinfo x) \<longleftrightarrow> nfs_fh3_ok x"
| "nfs_args_ok (A_pathconf x) \<longleftrightarrow> nfs_fh3_ok x"
| "nfs_args_ok (A_commit x) \<longleftrightarrow> commit3args_ok x"

fun nfs_res_ok :: "nfs_res \<Rightarrow> bool" where
  "nfs_res_ok R_null \<longleftrightarrow> True"
| "nfs_res_ok (R_getattr x) \<longleftrightarrow> (res3_ok (\<lambda>_. True) (\<lambda>_. True)) x"
| "nfs_res_ok (R_setattr x) \<longleftrightarrow> (stat3_ok (\<lambda>_. True)) x"
| "nfs_res_ok (R_lookup x) \<longleftrightarrow> (res3_ok lookup3resok_ok (\<lambda>_. True)) x"
| "nfs_res_ok (R_access x) \<longleftrightarrow> (res3_ok (\<lambda>_. True) (\<lambda>_. True)) x"
| "nfs_res_ok (R_readlink x) \<longleftrightarrow> (res3_ok readlink3resok_ok (\<lambda>_. True)) x"
| "nfs_res_ok (R_read x) \<longleftrightarrow> (res3_ok read3resok_ok (\<lambda>_. True)) x"
| "nfs_res_ok (R_write x) \<longleftrightarrow> (res3_ok write3resok_ok (\<lambda>_. True)) x"
| "nfs_res_ok (R_create x) \<longleftrightarrow> (res3_ok diropres3ok_ok (\<lambda>_. True)) x"
| "nfs_res_ok (R_mkdir x) \<longleftrightarrow> (res3_ok diropres3ok_ok (\<lambda>_. True)) x"
| "nfs_res_ok (R_symlink x) \<longleftrightarrow> (res3_ok diropres3ok_ok (\<lambda>_. True)) x"
| "nfs_res_ok (R_mknod x) \<longleftrightarrow> (res3_ok diropres3ok_ok (\<lambda>_. True)) x"
| "nfs_res_ok (R_remove x) \<longleftrightarrow> (stat3_ok (\<lambda>_. True)) x"
| "nfs_res_ok (R_rmdir x) \<longleftrightarrow> (stat3_ok (\<lambda>_. True)) x"
| "nfs_res_ok (R_rename x) \<longleftrightarrow> (stat3_ok (\<lambda>_. True)) x"
| "nfs_res_ok (R_link x) \<longleftrightarrow> (stat3_ok (\<lambda>_. True)) x"
| "nfs_res_ok (R_readdir x) \<longleftrightarrow> (res3_ok readdir3resok_ok (\<lambda>_. True)) x"
| "nfs_res_ok (R_readdirplus x) \<longleftrightarrow> (res3_ok readdirplus3resok_ok (\<lambda>_. True)) x"
| "nfs_res_ok (R_fsstat x) \<longleftrightarrow> (res3_ok (\<lambda>_. True) (\<lambda>_. True)) x"
| "nfs_res_ok (R_fsinfo x) \<longleftrightarrow> (res3_ok (\<lambda>_. True) (\<lambda>_. True)) x"
| "nfs_res_ok (R_pathconf x) \<longleftrightarrow> (res3_ok (\<lambda>_. True) (\<lambda>_. True)) x"
| "nfs_res_ok (R_commit x) \<longleftrightarrow> (res3_ok commit3resok_ok (\<lambda>_. True)) x"

lemma nfs_arg_filter_arms:
  "xdr_codec (xdr_arm (\<lambda>x. case x of A_null \<Rightarrow> Some () | _ \<Rightarrow> None) (\<lambda>_. A_null) xdr_void) (\<lambda>x. nfs_args_ok x \<and> nfs_proc x = 0)"
  "xdr_codec (xdr_arm (\<lambda>x. case x of A_getattr y \<Rightarrow> Some y | _ \<Rightarrow> None) A_getattr xdr_nfs_fh3) (\<lambda>x. nfs_args_ok x \<and> nfs_proc x = 1)"
  "xdr_codec (xdr_arm (\<lambda>x. case x of A_setattr y \<Rightarrow> Some y | _ \<Rightarrow> None) A_setattr xdr_setattr3args) (\<lambda>x. nfs_args_ok x \<and> nfs_proc x = 2)"
  "xdr_codec (xdr_arm (\<lambda>x. case x of A_lookup y \<Rightarrow> Some y | _ \<Rightarrow> None) A_lookup xdr_diropargs3) (\<lambda>x. nfs_args_ok x \<and> nfs_proc x = 3)"
  "xdr_codec (xdr_arm (\<lambda>x. case x of A_access y \<Rightarrow> Some y | _ \<Rightarrow> None) A_access xdr_access3args) (\<lambda>x. nfs_args_ok x \<and> nfs_proc x = 4)"
  "xdr_codec (xdr_arm (\<lambda>x. case x of A_readlink y \<Rightarrow> Some y | _ \<Rightarrow> None) A_readlink xdr_nfs_fh3) (\<lambda>x. nfs_args_ok x \<and> nfs_proc x = 5)"
  "xdr_codec (xdr_arm (\<lambda>x. case x of A_read y \<Rightarrow> Some y | _ \<Rightarrow> None) A_read xdr_read3args) (\<lambda>x. nfs_args_ok x \<and> nfs_proc x = 6)"
  "xdr_codec (xdr_arm (\<lambda>x. case x of A_write y \<Rightarrow> Some y | _ \<Rightarrow> None) A_write xdr_write3args) (\<lambda>x. nfs_args_ok x \<and> nfs_proc x = 7)"
  "xdr_codec (xdr_arm (\<lambda>x. case x of A_create y \<Rightarrow> Some y | _ \<Rightarrow> None) A_create xdr_create3args) (\<lambda>x. nfs_args_ok x \<and> nfs_proc x = 8)"
  "xdr_codec (xdr_arm (\<lambda>x. case x of A_mkdir y \<Rightarrow> Some y | _ \<Rightarrow> None) A_mkdir xdr_mkdir3args) (\<lambda>x. nfs_args_ok x \<and> nfs_proc x = 9)"
  "xdr_codec (xdr_arm (\<lambda>x. case x of A_symlink y \<Rightarrow> Some y | _ \<Rightarrow> None) A_symlink xdr_symlink3args) (\<lambda>x. nfs_args_ok x \<and> nfs_proc x = 10)"
  "xdr_codec (xdr_arm (\<lambda>x. case x of A_mknod y \<Rightarrow> Some y | _ \<Rightarrow> None) A_mknod xdr_mknod3args) (\<lambda>x. nfs_args_ok x \<and> nfs_proc x = 11)"
  "xdr_codec (xdr_arm (\<lambda>x. case x of A_remove y \<Rightarrow> Some y | _ \<Rightarrow> None) A_remove xdr_diropargs3) (\<lambda>x. nfs_args_ok x \<and> nfs_proc x = 12)"
  "xdr_codec (xdr_arm (\<lambda>x. case x of A_rmdir y \<Rightarrow> Some y | _ \<Rightarrow> None) A_rmdir xdr_diropargs3) (\<lambda>x. nfs_args_ok x \<and> nfs_proc x = 13)"
  "xdr_codec (xdr_arm (\<lambda>x. case x of A_rename y \<Rightarrow> Some y | _ \<Rightarrow> None) A_rename xdr_rename3args) (\<lambda>x. nfs_args_ok x \<and> nfs_proc x = 14)"
  "xdr_codec (xdr_arm (\<lambda>x. case x of A_link y \<Rightarrow> Some y | _ \<Rightarrow> None) A_link xdr_link3args) (\<lambda>x. nfs_args_ok x \<and> nfs_proc x = 15)"
  "xdr_codec (xdr_arm (\<lambda>x. case x of A_readdir y \<Rightarrow> Some y | _ \<Rightarrow> None) A_readdir xdr_readdir3args) (\<lambda>x. nfs_args_ok x \<and> nfs_proc x = 16)"
  "xdr_codec (xdr_arm (\<lambda>x. case x of A_readdirplus y \<Rightarrow> Some y | _ \<Rightarrow> None) A_readdirplus xdr_readdirplus3args) (\<lambda>x. nfs_args_ok x \<and> nfs_proc x = 17)"
  "xdr_codec (xdr_arm (\<lambda>x. case x of A_fsstat y \<Rightarrow> Some y | _ \<Rightarrow> None) A_fsstat xdr_nfs_fh3) (\<lambda>x. nfs_args_ok x \<and> nfs_proc x = 18)"
  "xdr_codec (xdr_arm (\<lambda>x. case x of A_fsinfo y \<Rightarrow> Some y | _ \<Rightarrow> None) A_fsinfo xdr_nfs_fh3) (\<lambda>x. nfs_args_ok x \<and> nfs_proc x = 19)"
  "xdr_codec (xdr_arm (\<lambda>x. case x of A_pathconf y \<Rightarrow> Some y | _ \<Rightarrow> None) A_pathconf xdr_nfs_fh3) (\<lambda>x. nfs_args_ok x \<and> nfs_proc x = 20)"
  "xdr_codec (xdr_arm (\<lambda>x. case x of A_commit y \<Rightarrow> Some y | _ \<Rightarrow> None) A_commit xdr_commit3args) (\<lambda>x. nfs_args_ok x \<and> nfs_proc x = 21)"
  subgoal by (rule xdr_arm_codec [OF xdr_void_codec]; auto split: nfs_args.splits elim: nfs_proc.elims)
  subgoal by (rule xdr_arm_codec [OF xdr_nfs_fh3_codec]; auto split: nfs_args.splits elim: nfs_proc.elims)
  subgoal by (rule xdr_arm_codec [OF xdr_setattr3args_codec]; auto split: nfs_args.splits elim: nfs_proc.elims)
  subgoal by (rule xdr_arm_codec [OF xdr_diropargs3_codec]; auto split: nfs_args.splits elim: nfs_proc.elims)
  subgoal by (rule xdr_arm_codec [OF xdr_access3args_codec]; auto split: nfs_args.splits elim: nfs_proc.elims)
  subgoal by (rule xdr_arm_codec [OF xdr_nfs_fh3_codec]; auto split: nfs_args.splits elim: nfs_proc.elims)
  subgoal by (rule xdr_arm_codec [OF xdr_read3args_codec]; auto split: nfs_args.splits elim: nfs_proc.elims)
  subgoal by (rule xdr_arm_codec [OF xdr_write3args_codec]; auto split: nfs_args.splits elim: nfs_proc.elims)
  subgoal by (rule xdr_arm_codec [OF xdr_create3args_codec]; auto split: nfs_args.splits elim: nfs_proc.elims)
  subgoal by (rule xdr_arm_codec [OF xdr_mkdir3args_codec]; auto split: nfs_args.splits elim: nfs_proc.elims)
  subgoal by (rule xdr_arm_codec [OF xdr_symlink3args_codec]; auto split: nfs_args.splits elim: nfs_proc.elims)
  subgoal by (rule xdr_arm_codec [OF xdr_mknod3args_codec]; auto split: nfs_args.splits elim: nfs_proc.elims)
  subgoal by (rule xdr_arm_codec [OF xdr_diropargs3_codec]; auto split: nfs_args.splits elim: nfs_proc.elims)
  subgoal by (rule xdr_arm_codec [OF xdr_diropargs3_codec]; auto split: nfs_args.splits elim: nfs_proc.elims)
  subgoal by (rule xdr_arm_codec [OF xdr_rename3args_codec]; auto split: nfs_args.splits elim: nfs_proc.elims)
  subgoal by (rule xdr_arm_codec [OF xdr_link3args_codec]; auto split: nfs_args.splits elim: nfs_proc.elims)
  subgoal by (rule xdr_arm_codec [OF xdr_readdir3args_codec]; auto split: nfs_args.splits elim: nfs_proc.elims)
  subgoal by (rule xdr_arm_codec [OF xdr_readdirplus3args_codec]; auto split: nfs_args.splits elim: nfs_proc.elims)
  subgoal by (rule xdr_arm_codec [OF xdr_nfs_fh3_codec]; auto split: nfs_args.splits elim: nfs_proc.elims)
  subgoal by (rule xdr_arm_codec [OF xdr_nfs_fh3_codec]; auto split: nfs_args.splits elim: nfs_proc.elims)
  subgoal by (rule xdr_arm_codec [OF xdr_nfs_fh3_codec]; auto split: nfs_args.splits elim: nfs_proc.elims)
  subgoal by (rule xdr_arm_codec [OF xdr_commit3args_codec]; auto split: nfs_args.splits elim: nfs_proc.elims)
  done

lemma nfs_res_filter_arms:
  "xdr_codec (xdr_arm (\<lambda>x. case x of R_null \<Rightarrow> Some () | _ \<Rightarrow> None) (\<lambda>_. R_null) xdr_void) (\<lambda>x. nfs_res_ok x \<and> nfs_res_proc x = 0)"
  "xdr_codec (xdr_arm (\<lambda>x. case x of R_getattr y \<Rightarrow> Some y | _ \<Rightarrow> None) R_getattr xdr_getattr3res) (\<lambda>x. nfs_res_ok x \<and> nfs_res_proc x = 1)"
  "xdr_codec (xdr_arm (\<lambda>x. case x of R_setattr y \<Rightarrow> Some y | _ \<Rightarrow> None) R_setattr xdr_wccstat3) (\<lambda>x. nfs_res_ok x \<and> nfs_res_proc x = 2)"
  "xdr_codec (xdr_arm (\<lambda>x. case x of R_lookup y \<Rightarrow> Some y | _ \<Rightarrow> None) R_lookup xdr_lookup3res) (\<lambda>x. nfs_res_ok x \<and> nfs_res_proc x = 3)"
  "xdr_codec (xdr_arm (\<lambda>x. case x of R_access y \<Rightarrow> Some y | _ \<Rightarrow> None) R_access xdr_access3res) (\<lambda>x. nfs_res_ok x \<and> nfs_res_proc x = 4)"
  "xdr_codec (xdr_arm (\<lambda>x. case x of R_readlink y \<Rightarrow> Some y | _ \<Rightarrow> None) R_readlink xdr_readlink3res) (\<lambda>x. nfs_res_ok x \<and> nfs_res_proc x = 5)"
  "xdr_codec (xdr_arm (\<lambda>x. case x of R_read y \<Rightarrow> Some y | _ \<Rightarrow> None) R_read xdr_read3res) (\<lambda>x. nfs_res_ok x \<and> nfs_res_proc x = 6)"
  "xdr_codec (xdr_arm (\<lambda>x. case x of R_write y \<Rightarrow> Some y | _ \<Rightarrow> None) R_write xdr_write3res) (\<lambda>x. nfs_res_ok x \<and> nfs_res_proc x = 7)"
  "xdr_codec (xdr_arm (\<lambda>x. case x of R_create y \<Rightarrow> Some y | _ \<Rightarrow> None) R_create xdr_diropres3) (\<lambda>x. nfs_res_ok x \<and> nfs_res_proc x = 8)"
  "xdr_codec (xdr_arm (\<lambda>x. case x of R_mkdir y \<Rightarrow> Some y | _ \<Rightarrow> None) R_mkdir xdr_diropres3) (\<lambda>x. nfs_res_ok x \<and> nfs_res_proc x = 9)"
  "xdr_codec (xdr_arm (\<lambda>x. case x of R_symlink y \<Rightarrow> Some y | _ \<Rightarrow> None) R_symlink xdr_diropres3) (\<lambda>x. nfs_res_ok x \<and> nfs_res_proc x = 10)"
  "xdr_codec (xdr_arm (\<lambda>x. case x of R_mknod y \<Rightarrow> Some y | _ \<Rightarrow> None) R_mknod xdr_diropres3) (\<lambda>x. nfs_res_ok x \<and> nfs_res_proc x = 11)"
  "xdr_codec (xdr_arm (\<lambda>x. case x of R_remove y \<Rightarrow> Some y | _ \<Rightarrow> None) R_remove xdr_wccstat3) (\<lambda>x. nfs_res_ok x \<and> nfs_res_proc x = 12)"
  "xdr_codec (xdr_arm (\<lambda>x. case x of R_rmdir y \<Rightarrow> Some y | _ \<Rightarrow> None) R_rmdir xdr_wccstat3) (\<lambda>x. nfs_res_ok x \<and> nfs_res_proc x = 13)"
  "xdr_codec (xdr_arm (\<lambda>x. case x of R_rename y \<Rightarrow> Some y | _ \<Rightarrow> None) R_rename xdr_rename3res) (\<lambda>x. nfs_res_ok x \<and> nfs_res_proc x = 14)"
  "xdr_codec (xdr_arm (\<lambda>x. case x of R_link y \<Rightarrow> Some y | _ \<Rightarrow> None) R_link xdr_link3res) (\<lambda>x. nfs_res_ok x \<and> nfs_res_proc x = 15)"
  "xdr_codec (xdr_arm (\<lambda>x. case x of R_readdir y \<Rightarrow> Some y | _ \<Rightarrow> None) R_readdir xdr_readdir3res) (\<lambda>x. nfs_res_ok x \<and> nfs_res_proc x = 16)"
  "xdr_codec (xdr_arm (\<lambda>x. case x of R_readdirplus y \<Rightarrow> Some y | _ \<Rightarrow> None) R_readdirplus xdr_readdirplus3res) (\<lambda>x. nfs_res_ok x \<and> nfs_res_proc x = 17)"
  "xdr_codec (xdr_arm (\<lambda>x. case x of R_fsstat y \<Rightarrow> Some y | _ \<Rightarrow> None) R_fsstat xdr_fsstat3res) (\<lambda>x. nfs_res_ok x \<and> nfs_res_proc x = 18)"
  "xdr_codec (xdr_arm (\<lambda>x. case x of R_fsinfo y \<Rightarrow> Some y | _ \<Rightarrow> None) R_fsinfo xdr_fsinfo3res) (\<lambda>x. nfs_res_ok x \<and> nfs_res_proc x = 19)"
  "xdr_codec (xdr_arm (\<lambda>x. case x of R_pathconf y \<Rightarrow> Some y | _ \<Rightarrow> None) R_pathconf xdr_pathconf3res) (\<lambda>x. nfs_res_ok x \<and> nfs_res_proc x = 20)"
  "xdr_codec (xdr_arm (\<lambda>x. case x of R_commit y \<Rightarrow> Some y | _ \<Rightarrow> None) R_commit xdr_commit3res) (\<lambda>x. nfs_res_ok x \<and> nfs_res_proc x = 21)"
  subgoal by (rule xdr_arm_codec [OF xdr_void_codec]; auto split: nfs_res.splits elim: nfs_res_proc.elims)
  subgoal by (rule xdr_arm_codec [OF xdr_getattr3res_codec]; auto split: nfs_res.splits elim: nfs_res_proc.elims)
  subgoal by (rule xdr_arm_codec [OF xdr_wccstat3_codec]; auto split: nfs_res.splits elim: nfs_res_proc.elims)
  subgoal by (rule xdr_arm_codec [OF xdr_lookup3res_codec]; auto split: nfs_res.splits elim: nfs_res_proc.elims)
  subgoal by (rule xdr_arm_codec [OF xdr_access3res_codec]; auto split: nfs_res.splits elim: nfs_res_proc.elims)
  subgoal by (rule xdr_arm_codec [OF xdr_readlink3res_codec]; auto split: nfs_res.splits elim: nfs_res_proc.elims)
  subgoal by (rule xdr_arm_codec [OF xdr_read3res_codec]; auto split: nfs_res.splits elim: nfs_res_proc.elims)
  subgoal by (rule xdr_arm_codec [OF xdr_write3res_codec]; auto split: nfs_res.splits elim: nfs_res_proc.elims)
  subgoal by (rule xdr_arm_codec [OF xdr_diropres3_codec]; auto split: nfs_res.splits elim: nfs_res_proc.elims)
  subgoal by (rule xdr_arm_codec [OF xdr_diropres3_codec]; auto split: nfs_res.splits elim: nfs_res_proc.elims)
  subgoal by (rule xdr_arm_codec [OF xdr_diropres3_codec]; auto split: nfs_res.splits elim: nfs_res_proc.elims)
  subgoal by (rule xdr_arm_codec [OF xdr_diropres3_codec]; auto split: nfs_res.splits elim: nfs_res_proc.elims)
  subgoal by (rule xdr_arm_codec [OF xdr_wccstat3_codec]; auto split: nfs_res.splits elim: nfs_res_proc.elims)
  subgoal by (rule xdr_arm_codec [OF xdr_wccstat3_codec]; auto split: nfs_res.splits elim: nfs_res_proc.elims)
  subgoal by (rule xdr_arm_codec [OF xdr_rename3res_codec]; auto split: nfs_res.splits elim: nfs_res_proc.elims)
  subgoal by (rule xdr_arm_codec [OF xdr_link3res_codec]; auto split: nfs_res.splits elim: nfs_res_proc.elims)
  subgoal by (rule xdr_arm_codec [OF xdr_readdir3res_codec]; auto split: nfs_res.splits elim: nfs_res_proc.elims)
  subgoal by (rule xdr_arm_codec [OF xdr_readdirplus3res_codec]; auto split: nfs_res.splits elim: nfs_res_proc.elims)
  subgoal by (rule xdr_arm_codec [OF xdr_fsstat3res_codec]; auto split: nfs_res.splits elim: nfs_res_proc.elims)
  subgoal by (rule xdr_arm_codec [OF xdr_fsinfo3res_codec]; auto split: nfs_res.splits elim: nfs_res_proc.elims)
  subgoal by (rule xdr_arm_codec [OF xdr_pathconf3res_codec]; auto split: nfs_res.splits elim: nfs_res_proc.elims)
  subgoal by (rule xdr_arm_codec [OF xdr_commit3res_codec]; auto split: nfs_res.splits elim: nfs_res_proc.elims)
  done

lemma nfs_arg_filter_codec:
  assumes "nfs_arg_filter proc = Some p"
  shows "xdr_codec p (\<lambda>x. nfs_args_ok x \<and> nfs_proc x = proc)"
  using assms unfolding nfs_arg_filter_def
  by (auto simp only: option.inject option.distinct split: if_split_asm intro!: nfs_arg_filter_arms)

lemma nfs_res_filter_codec:
  assumes "nfs_res_filter proc = Some p"
  shows "xdr_codec p (\<lambda>x. nfs_res_ok x \<and> nfs_res_proc x = proc)"
  using assms unfolding nfs_res_filter_def
  by (auto simp only: option.inject option.distinct split: if_split_asm intro!: nfs_res_filter_arms)

lemma nfs_arg_filter_defined: "nfs_arg_filter (nfs_proc a) \<noteq> None"
  by (cases a) (simp_all add: nfs_arg_filter_def)

lemma nfs_filters_defined: "nfs_res_filter proc = None \<longleftrightarrow> nfs_arg_filter proc = None"
  by (simp add: nfs_res_filter_def nfs_arg_filter_def)


section \<open>Connections and requests\<close>

text \<open>
  \<open>sent\<close> is what the channel of the connection has accepted so far, and \<open>writes\<close> what
  it answers to the next calls of \<^verbatim>\<open>g_io_channel_write_chars\<close>: the number of bytes it
  takes, or an error.
\<close>

datatype io_write = Wrote nat | Write_error

record rpc_connection =
  msgbuf :: bytes
  frag_len :: u32
  frag_hdr_bytes :: nat
  udp_transport :: bool
  sendbuf :: bytes
  sent :: bytes
  writes :: "io_write list"

record rpc_request =
  req_xid :: u32
  raw_args :: bytes
  raw_args_header_bytes :: nat
  req_proc :: u32

text \<open>The connection, the count of requests being processed, and the requests for the thread pool.\<close>

record rpc_server =
  connection :: rpc_connection
  outstanding_rpcs :: int
  rpc_thread_pool :: "rpc_request list"

datatype accept_stat = PROG_UNAVAIL | PROC_UNAVAIL | GARBAGE_ARGS | SYSTEM_ERR

fun accept_stat_code :: "accept_stat \<Rightarrow> u32" where
  "accept_stat_code PROG_UNAVAIL = 1"
| "accept_stat_code PROC_UNAVAIL = 3"
| "accept_stat_code GARBAGE_ARGS = 4"
| "accept_stat_code SYSTEM_ERR = 5"

definition MAX_RPC_MSGSIZE :: nat where "MAX_RPC_MSGSIZE = 8 * 2 ^ 20"

definition LAST_FRAGMENT :: u32 where "LAST_FRAGMENT = 0x80000000"


section \<open>Replies\<close>

text \<open>
  The loop of \<^verbatim>\<open>async_rpc_write\<close>; it has not returned when it needs more answers of
  the channel than there are.
\<close>

fun channel_write :: "bytes \<Rightarrow> bytes \<Rightarrow> io_write list \<Rightarrow> (bytes \<times> io_write list) option" where
  "channel_write [] acc ws = Some (acc, ws)"
| "channel_write buf acc [] = None"
| "channel_write buf acc (Write_error # ws) = Some (acc, ws)"
| "channel_write buf acc (Wrote n # ws) = channel_write (drop n buf) (acc @ take n buf) ws"

definition async_rpc_write :: "bytes \<Rightarrow> rpc_connection \<Rightarrow> rpc_connection option" where
  "async_rpc_write buf rpc =
     (if udp_transport rpc then Some (rpc\<lparr>sendbuf := sendbuf rpc @ buf\<rparr>)
      else map_option (\<lambda>(acc, ws). rpc\<lparr>sent := acc, writes := ws\<rparr>) (channel_write buf (sent rpc) (writes rpc)))"

text \<open>A UDP connection lasts for one message, which is sent as one datagram.\<close>

definition async_rpc_flush :: "rpc_connection \<Rightarrow> rpc_connection" where
  "async_rpc_flush rpc = (if udp_transport rpc then rpc\<lparr>sent := sent rpc @ sendbuf rpc\<rparr> else rpc)"

text \<open>\<^verbatim>\<open>struct rpc_reply\<close> and \<^verbatim>\<open>struct rpc_fail_reply\<close>: six words, with an empty verifier.\<close>

definition rpc_reply_header :: "u32 \<Rightarrow> u32 \<Rightarrow> bytes" where
  "rpc_reply_header xid accept_stat = be32 xid @ be32 1 @ be32 0 @ be32 0 @ be32 0 @ be32 accept_stat"

definition sizeof_rpc_reply :: nat where "sizeof_rpc_reply = 24"

definition send_parts :: "nat \<Rightarrow> bytes list \<Rightarrow> rpc_connection \<Rightarrow> rpc_connection option" where
  "send_parts msg_size parts rpc =
     (let fragment = be32 (of_nat msg_size OR LAST_FRAGMENT);
          parts = (if udp_transport rpc then parts else fragment # parts)
      in map_option async_rpc_flush
           (fold (\<lambda>part r. Option.bind r (async_rpc_write part)) parts (Some rpc)))"

definition async_rpc_send_failure :: "rpc_request \<Rightarrow> accept_stat \<Rightarrow> rpc_server \<Rightarrow> rpc_server option" where
  "async_rpc_send_failure req stat srv =
     (let srv = srv\<lparr>outstanding_rpcs := outstanding_rpcs srv - 1\<rparr> in
      map_option (\<lambda>rpc. srv\<lparr>connection := rpc\<rparr>)
        (send_parts sizeof_rpc_reply [rpc_reply_header (req_xid req) (accept_stat_code stat)] (connection srv)))"

definition async_rpc_send_reply :: "rpc_request \<Rightarrow> nfs_res xdr \<Rightarrow> nfs_res \<Rightarrow> rpc_server \<Rightarrow> rpc_server option" where
  "async_rpc_send_reply req xdr_res res srv =
     (case xenc xdr_res res of None \<Rightarrow> async_rpc_send_failure req SYSTEM_ERR srv
      | Some str \<Rightarrow>
          let srv = srv\<lparr>outstanding_rpcs := outstanding_rpcs srv - 1\<rparr> in
          map_option (\<lambda>rpc. srv\<lparr>connection := rpc\<rparr>)
            (send_parts (length str + sizeof_rpc_reply) [rpc_reply_header (req_xid req) 0, str] (connection srv)))"


section \<open>Calls\<close>

text \<open>
  \<^verbatim>\<open>nfs_program_3\<close>: decode the arguments and run the procedure.  \<open>svc\<close> stands for the
  procedures, on a state of their own; every one of them sends one reply.
\<close>

definition nfs_program_3 ::
    "(nfs_args \<Rightarrow> 's \<Rightarrow> (nfs_res \<times> 's) option) \<Rightarrow> rpc_request \<Rightarrow> rpc_server \<times> 's \<Rightarrow> (rpc_server \<times> 's) option" where
  "nfs_program_3 svc req st =
     (let (srv, s) = st in
      case (nfs_arg_filter (req_proc req), nfs_res_filter (req_proc req)) of
        (Some xdr_arg, Some xdr_res) \<Rightarrow>
          (case xdec xdr_arg (drop (raw_args_header_bytes req) (raw_args req)) of
             None \<Rightarrow> map_option (\<lambda>srv. (srv, s)) (async_rpc_send_failure req GARBAGE_ARGS srv)
           | Some (args, rest) \<Rightarrow>
               (case svc args s of None \<Rightarrow> None
                | Some (res, s) \<Rightarrow> map_option (\<lambda>srv. (srv, s)) (async_rpc_send_reply req xdr_res res srv)))
      | _ \<Rightarrow> map_option (\<lambda>srv. (srv, s)) (async_rpc_send_failure req PROC_UNAVAIL srv))"

text \<open>
  The header of a call (\<^verbatim>\<open>struct rpc_call_header\<close>, \<^verbatim>\<open>struct rpc_auth\<close>): a message is
  refused, answered with a failure, or a request.
\<close>

datatype rpc_call = Call_invalid | Call_failure u32 accept_stat | Call_request rpc_request

definition u32_at :: "bytes \<Rightarrow> nat \<Rightarrow> u32 option" where
  "u32_at msg off = map_option be_word (read_at off 4 msg)"

definition sizeof_rpc_call_header :: nat where "sizeof_rpc_call_header = 24"
definition sizeof_rpc_auth :: nat where "sizeof_rpc_auth = 8"

fun skip_auth :: "nat \<Rightarrow> bytes \<Rightarrow> nat \<Rightarrow> nat option option" where
  "skip_auth 0 msg off = Some (Some off)"
| "skip_auth (Suc n) msg off =
     (if off + sizeof_rpc_auth > length msg then Some None
      else case u32_at msg (off + 4) of None \<Rightarrow> None
      | Some len \<Rightarrow>
          if unat len + sizeof_rpc_auth > MAX_RPC_MSGSIZE then Some None
          else skip_auth n msg (off + unat len + sizeof_rpc_auth))"

definition NFS_PROGRAM :: u32 where "NFS_PROGRAM = 100003"
definition NFS_V3 :: u32 where "NFS_V3 = 3"

definition rpc_parse_call :: "bytes \<Rightarrow> rpc_call option" where
  "rpc_parse_call msg =
     (if length msg < sizeof_rpc_call_header then Some Call_invalid
      else case (u32_at msg 0, u32_at msg 4, u32_at msg 8, u32_at msg 12, u32_at msg 16, u32_at msg 20) of
        (Some xid, Some mtype, Some rpcvers, Some prog, Some vers, Some proc) \<Rightarrow>
          if mtype \<noteq> 0 then Some Call_invalid
          else if rpcvers \<noteq> 2 then Some Call_invalid
          else if prog \<noteq> NFS_PROGRAM then Some (Call_failure xid PROG_UNAVAIL)
          else if vers \<noteq> NFS_V3 then Some (Call_failure xid PROG_UNAVAIL)
          else (case skip_auth 2 msg sizeof_rpc_call_header of
                  None \<Rightarrow> None
                | Some None \<Rightarrow> Some Call_invalid
                | Some (Some off) \<Rightarrow>
                    if off > length msg then Some Call_invalid
                    else Some (Call_request \<lparr>req_xid = xid, raw_args = msg, raw_args_header_bytes = off, req_proc = proc\<rparr>))
      | _ \<Rightarrow> None)"

text \<open>
  \<^verbatim>\<open>async_rpc_dispatch\<close>, with the message in the buffer of the connection.  The result
  is false if the transport should be closed.  \<^verbatim>\<open>sync_frontends\<close> selects between
  running the request here and passing it to the thread pool.
\<close>

definition async_rpc_dispatch ::
    "(nfs_args \<Rightarrow> 's \<Rightarrow> (nfs_res \<times> 's) option) \<Rightarrow> bool \<Rightarrow> rpc_server \<times> 's \<Rightarrow> (bool \<times> rpc_server \<times> 's) option" where
  "async_rpc_dispatch svc sync_frontends st =
     (let (srv, s) = st in
      case rpc_parse_call (msgbuf (connection srv)) of
        None \<Rightarrow> None
      | Some Call_invalid \<Rightarrow> Some (False, srv, s)
      | Some (Call_failure xid stat) \<Rightarrow>
          map_option (\<lambda>srv. (True, srv, s))
            (async_rpc_send_failure \<lparr>req_xid = xid, raw_args = [], raw_args_header_bytes = 0, req_proc = 0\<rparr> stat
               (srv\<lparr>outstanding_rpcs := outstanding_rpcs srv + 1\<rparr>))
      | Some (Call_request req) \<Rightarrow>
          let srv = srv\<lparr>outstanding_rpcs := outstanding_rpcs srv + 1, connection := (connection srv)\<lparr>msgbuf := []\<rparr>\<rparr> in
          if sync_frontends then map_option (Pair True) (nfs_program_3 svc req (srv, s))
          else Some (True, srv\<lparr>rpc_thread_pool := rpc_thread_pool srv @ [req]\<rparr>, s))"

text \<open>One task of the thread pool.\<close>

definition async_rpc_task ::
    "(nfs_args \<Rightarrow> 's \<Rightarrow> (nfs_res \<times> 's) option) \<Rightarrow> rpc_server \<times> 's \<Rightarrow> (rpc_server \<times> 's) option" where
  "async_rpc_task svc st =
     (case rpc_thread_pool (fst st) of [] \<Rightarrow> Some st
      | req # reqs \<Rightarrow> nfs_program_3 svc req ((fst st)\<lparr>rpc_thread_pool := reqs\<rparr>, snd st))"


section \<open>Reading a stream\<close>

text \<open>
  What \<^verbatim>\<open>g_io_channel_read_chars\<close> returns.  \<open>junk\<close> is what \<^verbatim>\<open>g_string_set_size\<close> leaves in the
  added bytes of the message buffer.
\<close>

datatype io_read = Read_normal bytes | Read_again | Read_eof bytes | Read_error

datatype read_result = Read_stop | Read_more rpc_connection | Read_message rpc_connection

definition bytes_to_read :: "rpc_connection \<Rightarrow> nat" where
  "bytes_to_read rpc =
     (if frag_len rpc = 0 then 4 - frag_hdr_bytes rpc else unat (frag_len rpc AND 0x7fffffff))"

definition read_data :: "bytes \<Rightarrow> rpc_connection \<Rightarrow> read_result option" where
  "read_data d rpc =
     (if \<not> length d \<le> bytes_to_read rpc then None
      else
        let rpc = rpc\<lparr>msgbuf := msgbuf rpc @ d\<rparr> in
        if frag_len rpc = 0 then
          let rpc = rpc\<lparr>frag_hdr_bytes := frag_hdr_bytes rpc + length d\<rparr> in
          if frag_hdr_bytes rpc = 4 then
            map_option (\<lambda>len. Read_more (rpc\<lparr>frag_len := len, frag_hdr_bytes := 0,
                                             msgbuf := take (length (msgbuf rpc) - 4) (msgbuf rpc)\<rparr>))
              (u32_at (msgbuf rpc) (length (msgbuf rpc) - 4))
          else Some (Read_more rpc)
        else
          let rpc = rpc\<lparr>frag_len := frag_len rpc - of_nat (length d)\<rparr> in
          if frag_len rpc = LAST_FRAGMENT then Some (Read_message rpc) else Some (Read_more rpc))"

definition rpc_read :: "(nat \<Rightarrow> u8) \<Rightarrow> io_read \<Rightarrow> rpc_connection \<Rightarrow> read_result option" where
  "rpc_read junk ev rpc =
     (let n = bytes_to_read rpc in
      if n > MAX_RPC_MSGSIZE \<or> length (msgbuf rpc) + n > MAX_RPC_MSGSIZE then Some Read_stop
      else
        (case ev of
           Read_normal d \<Rightarrow> read_data d rpc
         | Read_again \<Rightarrow> Some (Read_more (rpc\<lparr>msgbuf := msgbuf rpc @ map junk [0..<n]\<rparr>))
         | Read_eof d \<Rightarrow> if length d = n then read_data d rpc else Some Read_stop
         | Read_error \<Rightarrow> Some Read_stop))"

text \<open>\<^verbatim>\<open>async_rpc_do_read\<close>; the result is false if the channel was shut down.\<close>

definition async_rpc_do_read ::
    "(nfs_args \<Rightarrow> 's \<Rightarrow> (nfs_res \<times> 's) option) \<Rightarrow> bool \<Rightarrow> (nat \<Rightarrow> u8) \<Rightarrow> io_read \<Rightarrow> rpc_server \<times> 's
     \<Rightarrow> (bool \<times> rpc_server \<times> 's) option" where
  "async_rpc_do_read svc sync_frontends junk ev st =
     (let (srv, s) = st in
      case rpc_read junk ev (connection srv) of
        None \<Rightarrow> None
      | Some Read_stop \<Rightarrow> Some (False, srv, s)
      | Some (Read_more rpc) \<Rightarrow> Some (True, srv\<lparr>connection := rpc\<rparr>, s)
      | Some (Read_message rpc) \<Rightarrow>
          (case async_rpc_dispatch svc sync_frontends (srv\<lparr>connection := rpc\<rparr>, s) of
             None \<Rightarrow> None
           | Some (False, srv, s) \<Rightarrow> Some (False, srv, s)
           | Some (True, srv, s) \<Rightarrow>
               Some (True, srv\<lparr>connection := (connection srv)\<lparr>frag_len := 0, msgbuf := []\<rparr>\<rparr>, s)))"

definition new_connection :: "bool \<Rightarrow> bytes \<Rightarrow> io_write list \<Rightarrow> rpc_connection" where
  "new_connection udp msg ws =
     \<lparr>msgbuf = msg, frag_len = 0, frag_hdr_bytes = 0, udp_transport = udp, sendbuf = [], sent = [], writes = ws\<rparr>"

text \<open>
  \<^verbatim>\<open>async_rpc_do_udp\<close>: every datagram is a message on a connection of its own, with the
  requests that came on it.
\<close>

definition async_rpc_do_udp ::
    "(nfs_args \<Rightarrow> 's \<Rightarrow> (nfs_res \<times> 's) option) \<Rightarrow> bool \<Rightarrow> bytes \<Rightarrow> int \<Rightarrow> 's \<Rightarrow> (rpc_server \<times> 's) option" where
  "async_rpc_do_udp svc sync_frontends datagram outstanding s =
     (if \<not> length datagram < 65536 then None
      else map_option snd (async_rpc_dispatch svc sync_frontends
             (\<lparr>connection = new_connection True datagram [], outstanding_rpcs = outstanding, rpc_thread_pool = []\<rparr>, s)))"


section \<open>Calls stay within their message\<close>

lemma u32_at_inside: "off + 4 \<le> length msg \<Longrightarrow> u32_at msg off = Some (be_word (slice off 4 msg))"
  by (simp add: u32_at_def read_at_def)

lemma u32_at_be32: "u32_at (pre @ be32 w @ post) (length pre) = Some w"
  by (simp add: u32_at_inside slice_def)

lemma skip_auth_total: "skip_auth n msg off \<noteq> None"
  by (induction n msg off rule: skip_auth.induct) (auto simp: u32_at_inside sizeof_rpc_auth_def)

lemma skip_auth_forward: "skip_auth n msg off = Some (Some off') \<Longrightarrow> off + n * sizeof_rpc_auth \<le> off'"
  by (induction n msg off rule: skip_auth.induct) (auto split: if_splits option.splits)

lemma header_words:
  assumes "\<not> length msg < sizeof_rpc_call_header"
  shows "u32_at msg 0 \<noteq> None" "u32_at msg 4 \<noteq> None" "u32_at msg 8 \<noteq> None"
    "u32_at msg 12 \<noteq> None" "u32_at msg 16 \<noteq> None" "u32_at msg 20 \<noteq> None"
  using assms by (simp_all add: u32_at_inside sizeof_rpc_call_header_def)

text \<open>C33: Parsing a call never reads past the end of the message, whatever was sent, and the
  arguments of a request that is accepted begin behind both authentication
  headers and not behind the end of the message.\<close>

theorem rpc_call_within_message:
  "case rpc_parse_call msg of
     None \<Rightarrow> False
   | Some (Call_request req) \<Rightarrow> raw_args req = msg \<and> raw_args_header_bytes req \<in> {40..length msg}
   | Some _ \<Rightarrow> True"
proof (cases "length msg < sizeof_rpc_call_header")
  case False
  from header_words [OF this] obtain a b c d e f
    where w: "u32_at msg 0 = Some a" "u32_at msg 4 = Some b" "u32_at msg 8 = Some c"
      "u32_at msg 12 = Some d" "u32_at msg 16 = Some e" "u32_at msg 20 = Some f" by auto
  obtain x where x: "skip_auth 2 msg sizeof_rpc_call_header = Some x"
    using skip_auth_total [of 2 msg sizeof_rpc_call_header] by auto
  show ?thesis
  proof (cases x)
    case None
    with False w x show ?thesis by (simp add: rpc_parse_call_def)
  next
    case (Some off)
    with skip_auth_forward [of 2 msg sizeof_rpc_call_header off] x have "40 \<le> off"
      by (simp add: sizeof_rpc_call_header_def sizeof_rpc_auth_def)
    with False w x Some show ?thesis by (simp add: rpc_parse_call_def)
  qed
qed (simp add: rpc_parse_call_def)


section \<open>Reassembly of messages\<close>

text \<open>
  The record marking standard: a message is sent as fragments, each behind a word
  with its length, and the highest bit of that word marks the last one.
\<close>

definition fragment_header :: "bytes \<Rightarrow> bool \<Rightarrow> bytes" where
  "fragment_header fr is_last = be32 (of_nat (length fr) OR (if is_last then LAST_FRAGMENT else 0))"

fun record_mark :: "bytes list \<Rightarrow> bytes" where
  "record_mark [] = []"
| "record_mark (fr # frs) = fragment_header fr (frs = []) @ fr @ record_mark frs"

text \<open>
  Fragments the server can reassemble: the last one is not empty, and the message
  and one more fragment header fit into the largest message.
\<close>

definition good_fragments :: "bytes list \<Rightarrow> bool" where
  "good_fragments frs \<longleftrightarrow> frs \<noteq> [] \<and> last frs \<noteq> [] \<and> length (concat frs) + 4 \<le> MAX_RPC_MSGSIZE"

lemma fragment_word:
  assumes "n < 2 ^ 31"
  shows "(of_nat n OR (if b then LAST_FRAGMENT else 0) :: u32) = of_nat n + (if b then LAST_FRAGMENT else 0)"
    "unat (of_nat n + (if b then LAST_FRAGMENT else 0) :: u32) = n + (if b then 2 ^ 31 else 0)"
proof -
  let ?w = "of_nat n :: u32"
  have u: "unat ?w = n" using assms by (intro unat_of_nat_small) simp
  have "unat (take_bit 31 ?w) = take_bit 31 (unat ?w)" by (rule unsigned_take_bit_eq)
  also have "\<dots> = unat ?w" using assms unfolding u by (simp only: take_bit_nat_eq_self)
  finally have t: "take_bit 31 ?w = ?w" by (simp only: word_unat_eq_iff)
  have l: "LAST_FRAGMENT = push_bit 31 1" by (simp add: LAST_FRAGMENT_def)
  have "\<not> bit ?w i \<or> \<not> bit LAST_FRAGMENT i" for i
  proof -
    have "i < 31" if "bit ?w i" using that t bit_take_bit_iff [of 31 ?w i] by simp
    moreover have "31 \<le> i" if "bit LAST_FRAGMENT i" using that unfolding l by (simp only: bit_push_bit_iff)
    ultimately show ?thesis by linarith
  qed
  then show "?w OR (if b then LAST_FRAGMENT else 0) = ?w + (if b then LAST_FRAGMENT else 0)"
    by (simp add: disjunctive_add)
  show "unat (?w + (if b then LAST_FRAGMENT else 0)) = n + (if b then 2 ^ 31 else 0)"
    using assms u by (simp add: LAST_FRAGMENT_def unat_word_ariths)
qed

lemma fragment_mask:
  assumes "n < 2 ^ 31"
  shows "unat ((of_nat n + (if b then LAST_FRAGMENT else 0) :: u32) AND 0x7fffffff) = n"
proof -
  let ?w = "of_nat n + (if b then LAST_FRAGMENT else 0) :: u32"
  have "?w AND 0x7fffffff = take_bit 31 ?w" unfolding take_bit_eq_mask by (simp add: mask_eq_exp_minus_1)
  then have "unat (?w AND 0x7fffffff) = take_bit 31 (unat ?w)" by (simp only: unsigned_take_bit_eq)
  also have "\<dots> = n" unfolding fragment_word(2) [OF assms] using assms by (simp add: take_bit_eq_mod)
  finally show ?thesis .
qed

text \<open>
  The reader waits for the rest \<open>S\<close> of the stream of a message \<open>m\<close>, in the middle of a
  fragment header or of a fragment.
\<close>

definition in_header :: "rpc_connection \<Rightarrow> bytes \<Rightarrow> bytes \<Rightarrow> bool" where
  "in_header rpc S m \<longleftrightarrow> (\<exists>acc fr frs. frag_hdr_bytes rpc < 4 \<and> frag_len rpc = 0 \<and>
     msgbuf rpc = acc @ take (frag_hdr_bytes rpc) (fragment_header fr (frs = [])) \<and>
     S = drop (frag_hdr_bytes rpc) (fragment_header fr (frs = [])) @ fr @ record_mark frs \<and>
     m = acc @ fr @ concat frs \<and> last (fr # frs) \<noteq> [])"

definition in_body :: "rpc_connection \<Rightarrow> bytes \<Rightarrow> bytes \<Rightarrow> bool" where
  "in_body rpc S m \<longleftrightarrow> (\<exists>fr frs. fr \<noteq> [] \<and> frag_hdr_bytes rpc = 0 \<and>
     frag_len rpc = of_nat (length fr) + (if frs = [] then LAST_FRAGMENT else 0) \<and>
     S = fr @ record_mark frs \<and> m = msgbuf rpc @ fr @ concat frs \<and> last (fr # frs) \<noteq> [])"

definition awaits :: "rpc_connection \<Rightarrow> bytes \<Rightarrow> bytes \<Rightarrow> bool" where
  "awaits rpc S m \<longleftrightarrow> length m + 4 \<le> MAX_RPC_MSGSIZE \<and> (in_header rpc S m \<or> in_body rpc S m)"

text \<open>The state of a connection that concerns sending.\<close>

definition same_sending :: "rpc_connection \<Rightarrow> rpc_connection \<Rightarrow> bool" where
  "same_sending rpc rpc' \<longleftrightarrow> udp_transport rpc' = udp_transport rpc \<and> sendbuf rpc' = sendbuf rpc \<and>
     sent rpc' = sent rpc \<and> writes rpc' = writes rpc"

lemma length_fragment_header [simp]: "length (fragment_header fr b) = 4"
  by (simp add: fragment_header_def)

lemma max_msgsize: "MAX_RPC_MSGSIZE < 2 ^ 31"
  by (simp add: MAX_RPC_MSGSIZE_def)

lemma await_start:
  assumes "good_fragments frs" "frag_len rpc = 0" "frag_hdr_bytes rpc = 0" "msgbuf rpc = []"
  shows "awaits rpc (record_mark frs) (concat frs)"
proof -
  obtain fr frs' where "frs = fr # frs'" using assms(1) by (cases frs) (auto simp: good_fragments_def)
  with assms show ?thesis
    by (auto simp: awaits_def in_header_def good_fragments_def intro!: exI [of _ "[]"] exI [of _ fr] exI [of _ frs'])
qed

text \<open>The end of a fragment header: the next fragment, if it is not empty, or another header.\<close>

lemma await_fragment:
  assumes "frag_len rpc = of_nat (length fr) + (if frs = [] then LAST_FRAGMENT else 0)" "frag_hdr_bytes rpc = 0"
    "last (fr # frs) \<noteq> []" "length (msgbuf rpc @ fr @ concat frs) + 4 \<le> MAX_RPC_MSGSIZE"
  shows "awaits rpc (fr @ record_mark frs) (msgbuf rpc @ fr @ concat frs)"
proof (cases "fr = []")
  case True
  then obtain fr' frs' where "frs = fr' # frs'" using assms(3) by (cases frs) auto
  with assms True have "in_header rpc (fr @ record_mark frs) (msgbuf rpc @ fr @ concat frs)"
    unfolding in_header_def by (intro exI [of _ "msgbuf rpc"] exI [of _ fr'] exI [of _ frs']) simp
  with assms(4) show ?thesis by (simp add: awaits_def)
next
  case False
  with assms have "in_body rpc (fr @ record_mark frs) (msgbuf rpc @ fr @ concat frs)"
    unfolding in_body_def by (intro exI [of _ fr] exI [of _ frs]) simp
  with assms(4) show ?thesis by (simp add: awaits_def)
qed

definition reads_on :: "rpc_connection \<Rightarrow> read_result option \<Rightarrow> bytes \<Rightarrow> bytes \<Rightarrow> bool" where
  "reads_on rpc r S m \<longleftrightarrow>
     (\<exists>rpc'. r = Some (Read_more rpc') \<and> awaits rpc' S m \<and> same_sending rpc rpc') \<or>
     (\<exists>rpc'. r = Some (Read_message rpc') \<and> S = [] \<and> msgbuf rpc' = m \<and> frag_hdr_bytes rpc' = 0 \<and> same_sending rpc rpc')"

lemma read_header:
  assumes hdr: "in_header rpc S m" and sz: "length m + 4 \<le> MAX_RPC_MSGSIZE"
    and n: "0 < n" "n \<le> bytes_to_read rpc"
  shows "n \<le> length S \<and> reads_on rpc (rpc_read junk (Read_normal (take n S)) rpc) (drop n S) m"
proof -
  from hdr obtain acc fr frs where h: "frag_hdr_bytes rpc < 4" "frag_len rpc = 0"
    and buf: "msgbuf rpc = acc @ take (frag_hdr_bytes rpc) (fragment_header fr (frs = []))"
    and S: "S = drop (frag_hdr_bytes rpc) (fragment_header fr (frs = [])) @ fr @ record_mark frs"
    and m: "m = acc @ fr @ concat frs" and l: "last (fr # frs) \<noteq> []"
    by (auto simp: in_header_def)
  let ?h = "frag_hdr_bytes rpc" and ?hd = "fragment_header fr (frs = [])"
  have n4: "?h + n \<le> 4" using n(2) h by (simp add: bytes_to_read_def)
  have d: "take n S = take n (drop ?h ?hd)" "drop n S = drop (?h + n) ?hd @ fr @ record_mark frs"
    using n4 by (simp_all add: S add.commute)
  have len: "length (take n S) = n" using n4 by (simp add: d(1))
  have small: "length acc + 4 \<le> MAX_RPC_MSGSIZE" using sz m by simp
  have "length (msgbuf rpc) + bytes_to_read rpc \<le> MAX_RPC_MSGSIZE"
    using h small by (simp add: buf bytes_to_read_def)
  then have read: "rpc_read junk (Read_normal (take n S)) rpc = read_data (take n S) rpc"
    by (simp add: rpc_read_def)
  have app: "msgbuf rpc @ take n S = acc @ take (?h + n) ?hd"
    by (simp add: buf d(1) take_add)
  have "reads_on rpc (read_data (take n S) rpc) (drop n S) m"
  proof (cases "?h + n = 4")
    case False
    let ?rpc = "rpc\<lparr>msgbuf := msgbuf rpc @ take n S, frag_hdr_bytes := ?h + n\<rparr>"
    have "in_header ?rpc (drop n S) m"
      unfolding in_header_def using False n4 h app d(2) m l by (intro exI [of _ acc] exI [of _ fr] exI [of _ frs]) simp
    then have "awaits ?rpc (drop n S) m" using sz by (simp add: awaits_def)
    moreover have "read_data (take n S) rpc = Some (Read_more ?rpc)"
      using False h n(2) len by (simp add: read_data_def)
    ultimately show ?thesis by (auto simp: reads_on_def same_sending_def)
  next
    case True
    let ?len = "of_nat (length fr) + (if frs = [] then LAST_FRAGMENT else 0) :: u32"
    let ?rpc = "rpc\<lparr>msgbuf := acc, frag_len := ?len, frag_hdr_bytes := 0\<rparr>"
    have fr: "length fr < 2 ^ 31" using sz m max_msgsize by simp
    have buf': "msgbuf rpc @ take n S = acc @ be32 ?len"
      using app True fragment_word(1) [OF fr, of "frs = []"] by (simp add: fragment_header_def)
    have "u32_at (acc @ be32 ?len) (length (acc @ be32 ?len) - 4) = Some ?len"
      using u32_at_be32 [of acc ?len "[]"] by simp
    then have "read_data (take n S) rpc = Some (Read_more ?rpc)"
      using True h n(2) len buf' by (simp add: read_data_def)
    moreover have "awaits ?rpc (drop n S) m"
      using await_fragment [of ?rpc fr frs] sz m l d(2) True by simp
    ultimately show ?thesis by (auto simp: reads_on_def same_sending_def)
  qed
  moreover have "n \<le> length S" using n4 by (simp add: S)
  ultimately show ?thesis using read by simp
qed

lemma read_body:
  assumes body: "in_body rpc S m" and sz: "length m + 4 \<le> MAX_RPC_MSGSIZE"
    and n: "0 < n" "n \<le> bytes_to_read rpc"
  shows "n \<le> length S \<and> reads_on rpc (rpc_read junk (Read_normal (take n S)) rpc) (drop n S) m"
proof -
  from body obtain fr frs where fr: "fr \<noteq> []" "frag_hdr_bytes rpc = 0"
    and len: "frag_len rpc = of_nat (length fr) + (if frs = [] then LAST_FRAGMENT else 0)"
    and S: "S = fr @ record_mark frs" and m: "m = msgbuf rpc @ fr @ concat frs" and l: "last (fr # frs) \<noteq> []"
    by (auto simp: in_body_def)
  have small: "length fr < 2 ^ 31" using sz m max_msgsize by simp
  have "unat (frag_len rpc) \<noteq> 0" using fragment_word(2) [OF small, of "frs = []"] fr(1) len by simp
  then have nz: "frag_len rpc \<noteq> 0" by auto
  have want: "bytes_to_read rpc = length fr" using nz fragment_mask [OF small, of "frs = []"] len by (simp add: bytes_to_read_def)
  have d: "take n S = take n fr" "drop n S = drop n fr @ record_mark frs" using n(2) want by (simp_all add: S)
  define w where "w = (of_nat (length fr - n) + (if frs = [] then LAST_FRAGMENT else 0) :: u32)"
  let ?rpc = "rpc\<lparr>msgbuf := msgbuf rpc @ take n fr, frag_len := w\<rparr>"
  have sub: "frag_len rpc - of_nat n = w" using n(2) want len by (simp add: of_nat_diff w_def)
  have small': "length fr - n < 2 ^ 31" using small by simp
  have last: "w = LAST_FRAGMENT \<longleftrightarrow> length fr = n \<and> frs = []"
  proof
    assume "w = LAST_FRAGMENT"
    then have "unat w = 2 ^ 31" by (simp add: LAST_FRAGMENT_def)
    then have "length fr - n + (if frs = [] then 2 ^ 31 else 0) = 2 ^ 31" unfolding w_def fragment_word(2) [OF small'] .
    with small' show "length fr = n \<and> frs = []" using n(2) want by (auto split: if_splits)
  qed (simp add: w_def)
  have "rpc_read junk (Read_normal (take n S)) rpc = read_data (take n fr) rpc"
    using want sz m by (simp add: rpc_read_def d(1))
  also have "\<dots> = Some (if length fr = n \<and> frs = [] then Read_message ?rpc else Read_more ?rpc)"
    using nz want n(2) last sub by (simp add: read_data_def Let_def)
  finally have read: "rpc_read junk (Read_normal (take n S)) rpc
      = Some (if length fr = n \<and> frs = [] then Read_message ?rpc else Read_more ?rpc)" .
  have "reads_on rpc (rpc_read junk (Read_normal (take n S)) rpc) (drop n S) m"
  proof (cases "length fr = n \<and> frs = []")
    case True
    with read d(2) m fr(2) show ?thesis by (auto simp: reads_on_def same_sending_def)
  next
    case False
    have "awaits ?rpc (drop n fr @ record_mark frs) (msgbuf ?rpc @ drop n fr @ concat frs)"
    proof (rule await_fragment)
      show "last (drop n fr # frs) \<noteq> []" using False l n(2) want by (cases frs) auto
    qed (use sz m fr(2) in \<open>simp_all add: w_def\<close>)
    moreover have "msgbuf ?rpc @ drop n fr @ concat frs = m" by (simp add: m)
    ultimately have "awaits ?rpc (drop n S) m" by (simp only: d(2))
    moreover have "rpc_read junk (Read_normal (take n S)) rpc = Some (Read_more ?rpc)" using read False by auto
    ultimately show ?thesis by (auto simp: reads_on_def same_sending_def)
  qed
  moreover have "n \<le> length S" using n(2) want by (simp add: S)
  ultimately show ?thesis by blast
qed

lemma read_awaited:
  assumes "awaits rpc S m" "0 < n" "n \<le> bytes_to_read rpc"
  shows "n \<le> length S \<and> reads_on rpc (rpc_read junk (Read_normal (take n S)) rpc) (drop n S) m"
  using assms read_header read_body by (auto simp: awaits_def)

lemma awaits_more:
  assumes "awaits rpc S m"
  shows "0 < bytes_to_read rpc"
proof (cases "in_header rpc S m")
  case True
  then show ?thesis by (auto simp: in_header_def bytes_to_read_def)
next
  case False
  with assms obtain fr frs where fr: "fr \<noteq> []" "m = msgbuf rpc @ fr @ concat frs"
    and len: "frag_len rpc = of_nat (length fr) + (if frs = [] then LAST_FRAGMENT else 0)"
    unfolding awaits_def in_body_def by blast
  have sz: "length fr < 2 ^ 31" using assms fr(2) max_msgsize by (simp add: awaits_def)
  then show ?thesis
    using fr(1) len fragment_word(2) [OF sz, of "frs = []"] fragment_mask [OF sz, of "frs = []"] by (auto simp: bytes_to_read_def)
qed

text \<open>
  The main loop on one connection: every poll finds some more bytes of the stream,
  at least one and at most as many as asked for.  \<open>None\<close> is a channel that was closed.
\<close>

fun serve_stream ::
    "(nfs_args \<Rightarrow> 's \<Rightarrow> (nfs_res \<times> 's) option) \<Rightarrow> (nat \<Rightarrow> u8) \<Rightarrow> nat list \<Rightarrow> bytes \<Rightarrow> rpc_server \<times> 's \<Rightarrow> (bytes \<times> rpc_server \<times> 's) option" where
  "serve_stream svc junk ks [] st = Some ([], st)"
| "serve_stream svc junk [] stream st = Some (stream, st)"
| "serve_stream svc junk (k # ks) stream st =
     (let d = take (min (Suc k) (bytes_to_read (connection (fst st)))) stream in
      case async_rpc_do_read svc False junk (Read_normal d) st of
        Some (True, st) \<Rightarrow> serve_stream svc junk ks (drop (length d) stream) st
      | _ \<Rightarrow> None)"

lemma serve_stream_step:
  "stream \<noteq> [] \<Longrightarrow> serve_stream svc junk (k # ks) stream st =
     (let d = take (min (Suc k) (bytes_to_read (connection (fst st)))) stream in
      case async_rpc_do_read svc False junk (Read_normal d) st of
        Some (True, st) \<Rightarrow> serve_stream svc junk ks (drop (length d) stream) st
      | _ \<Rightarrow> None)"
  by (cases stream) (simp, hypsubst, rule serve_stream.simps(3))

definition idle :: "rpc_connection \<Rightarrow> bool" where
  "idle rpc \<longleftrightarrow> msgbuf rpc = [] \<and> frag_len rpc = 0 \<and> frag_hdr_bytes rpc = 0"

lemma idle_same: "idle rpc \<Longrightarrow> idle rpc' \<Longrightarrow> same_sending rpc rpc' \<Longrightarrow> rpc' = rpc"
  by (simp add: idle_def same_sending_def)

lemma same_sending_trans: "same_sending a b \<Longrightarrow> same_sending b c \<Longrightarrow> same_sending a c"
  by (simp add: same_sending_def)

text \<open>One poll, while a message that is a request is being read.\<close>

lemma serve_poll:
  assumes w: "awaits (connection srv) S m" and req: "rpc_parse_call m = Some (Call_request req)"
  obtains n where "0 < n" "n \<le> length S"
    "\<exists>srv'. serve_stream svc junk (k # ks) (S @ T) (srv, s) = serve_stream svc junk ks (drop n S @ T) (srv', s) \<and>
       same_sending (connection srv) (connection srv') \<and>
       (awaits (connection srv') (drop n S) m \<and> rpc_thread_pool srv' = rpc_thread_pool srv \<and> outstanding_rpcs srv' = outstanding_rpcs srv \<or>
        drop n S = [] \<and> idle (connection srv') \<and> rpc_thread_pool srv' = rpc_thread_pool srv @ [req] \<and>
        outstanding_rpcs srv' = outstanding_rpcs srv + 1)"
proof -
  let ?n = "min (Suc k) (bytes_to_read (connection srv))"
  have n: "0 < ?n" "?n \<le> bytes_to_read (connection srv)" using awaits_more [OF w] by auto
  from read_awaited [OF w n] have le: "?n \<le> length S"
    and r: "reads_on (connection srv) (rpc_read junk (Read_normal (take ?n S)) (connection srv)) (drop ?n S) m" by auto
  have t: "take ?n (S @ T) = take ?n S" "drop (length (take ?n S)) (S @ T) = drop ?n S @ T" using le by simp_all
  have ne: "S @ T \<noteq> []" using n(1) le by auto
  have step: "serve_stream svc junk (k # ks) (S @ T) (srv, s) =
      (case async_rpc_do_read svc False junk (Read_normal (take ?n S)) (srv, s) of
         Some (True, st) \<Rightarrow> serve_stream svc junk ks (drop ?n S @ T) st | _ \<Rightarrow> None)"
    by (simp only: serve_stream_step [OF ne] Let_def fst_conv t)
  from r consider (more) rpc' where "rpc_read junk (Read_normal (take ?n S)) (connection srv) = Some (Read_more rpc')"
      "awaits rpc' (drop ?n S) m" "same_sending (connection srv) rpc'"
    | (msg) rpc' where "rpc_read junk (Read_normal (take ?n S)) (connection srv) = Some (Read_message rpc')"
      "drop ?n S = []" "msgbuf rpc' = m" "frag_hdr_bytes rpc' = 0" "same_sending (connection srv) rpc'"
    by (auto simp: reads_on_def)
  then show ?thesis
  proof cases
    case more
    then have "async_rpc_do_read svc False junk (Read_normal (take ?n S)) (srv, s) = Some (True, srv\<lparr>connection := rpc'\<rparr>, s)"
      by (simp add: async_rpc_do_read_def)
    with step more show ?thesis
      by (intro that [OF n(1) le] exI [of _ "srv\<lparr>connection := rpc'\<rparr>"]) simp
  next
    case msg
    let ?srv = "srv\<lparr>outstanding_rpcs := outstanding_rpcs srv + 1, rpc_thread_pool := rpc_thread_pool srv @ [req],
                    connection := rpc'\<lparr>msgbuf := [], frag_len := 0\<rparr>\<rparr>"
    from msg req have "async_rpc_do_read svc False junk (Read_normal (take ?n S)) (srv, s) = Some (True, ?srv, s)"
      by (simp add: async_rpc_do_read_def async_rpc_dispatch_def Let_def)
    with step msg show ?thesis
      by (intro that [OF n(1) le] exI [of _ ?srv]) (simp add: idle_def same_sending_def)
  qed
qed

lemma serve_messages:
  assumes "awaits (connection srv) S m" "rpc_parse_call m = Some (Call_request req)"
    "\<forall>frs \<in> set frss. good_fragments frs" "map (\<lambda>frs. rpc_parse_call (concat frs)) frss = map (\<lambda>r. Some (Call_request r)) reqs"
    "length (S @ concat (map record_mark frss)) \<le> length ks"
  shows "\<exists>srv'. serve_stream svc junk ks (S @ concat (map record_mark frss)) (srv, s) = Some ([], srv', s) \<and>
           rpc_thread_pool srv' = rpc_thread_pool srv @ req # reqs \<and>
           outstanding_rpcs srv' = outstanding_rpcs srv + int (Suc (length reqs)) \<and>
           idle (connection srv') \<and> same_sending (connection srv) (connection srv')"
  using assms
proof (induction ks arbitrary: srv S m req frss reqs)
  case Nil
  from awaits_more [OF Nil.prems(1)] read_awaited [OF Nil.prems(1), of 1] Nil.prems(5) show ?case by simp
next
  case (Cons k ks)
  let ?T = "concat (map record_mark frss)"
  obtain n srv' where n: "0 < n" "n \<le> length S"
    and step: "serve_stream svc junk (k # ks) (S @ ?T) (srv, s) = serve_stream svc junk ks (drop n S @ ?T) (srv', s)"
      "same_sending (connection srv) (connection srv')"
    and alt: "awaits (connection srv') (drop n S) m \<and> rpc_thread_pool srv' = rpc_thread_pool srv \<and> outstanding_rpcs srv' = outstanding_rpcs srv \<or>
      drop n S = [] \<and> idle (connection srv') \<and> rpc_thread_pool srv' = rpc_thread_pool srv @ [req] \<and> outstanding_rpcs srv' = outstanding_rpcs srv + 1"
    using serve_poll [OF Cons.prems(1,2), of svc junk k ks ?T s] by blast
  have len: "length (drop n S @ ?T) \<le> length ks" using Cons.prems(5) n by simp
  from alt show ?case
  proof
    assume a: "awaits (connection srv') (drop n S) m \<and> rpc_thread_pool srv' = rpc_thread_pool srv \<and> outstanding_rpcs srv' = outstanding_rpcs srv"
    from Cons.IH [OF conjunct1 [OF a] Cons.prems(2,3,4) len] a step same_sending_trans show ?thesis by fastforce
  next
    assume a: "drop n S = [] \<and> idle (connection srv') \<and> rpc_thread_pool srv' = rpc_thread_pool srv @ [req] \<and> outstanding_rpcs srv' = outstanding_rpcs srv + 1"
    show ?thesis
    proof (cases frss)
      case Nil
      with a step Cons.prems(4) show ?thesis by (cases ks) auto
    next
      case f: (Cons frs frss')
      with Cons.prems(4) obtain r reqs' where reqs: "reqs = r # reqs'" by (cases reqs) auto
      have "awaits (connection srv') (record_mark frs) (concat frs)"
        using await_start [of frs "connection srv'"] a f Cons.prems(3) by (simp add: idle_def)
      from Cons.IH [OF this, of r frss' reqs'] f reqs Cons.prems(3,4) len a step same_sending_trans
      show ?thesis by fastforce
    qed
  qed
qed



section \<open>A call and its reply\<close>

text \<open>The message of a call as the RPC standard has it, with two authentication headers.\<close>

definition rpc_auth_bytes :: "u32 \<times> bytes \<Rightarrow> bytes" where
  "rpc_auth_bytes auth = be32 (fst auth) @ be32 (of_nat (length (snd auth))) @ snd auth"

definition rpc_call_message :: "u32 \<Rightarrow> u32 \<Rightarrow> u32 \<times> bytes \<Rightarrow> u32 \<times> bytes \<Rightarrow> bytes \<Rightarrow> bytes" where
  "rpc_call_message xid proc cred verf args =
     be32 xid @ be32 0 @ be32 2 @ be32 NFS_PROGRAM @ be32 NFS_V3 @ be32 proc @
     rpc_auth_bytes cred @ rpc_auth_bytes verf @ args"

definition auth_ok :: "u32 \<times> bytes \<Rightarrow> bool" where
  "auth_ok auth \<longleftrightarrow> length (snd auth) + sizeof_rpc_auth \<le> MAX_RPC_MSGSIZE"

definition call_request :: "u32 \<Rightarrow> u32 \<Rightarrow> u32 \<times> bytes \<Rightarrow> u32 \<times> bytes \<Rightarrow> bytes \<Rightarrow> rpc_request" where
  "call_request xid proc cred verf args =
     \<lparr>req_xid = xid, raw_args = rpc_call_message xid proc cred verf args,
      raw_args_header_bytes = 40 + length (snd cred) + length (snd verf), req_proc = proc\<rparr>"

lemma skip_one_auth:
  assumes "auth_ok auth"
  shows "skip_auth (Suc n) (pre @ rpc_auth_bytes auth @ post) (length pre)
    = skip_auth n (pre @ rpc_auth_bytes auth @ post) (length (pre @ rpc_auth_bytes auth))"
proof -
  have "length (snd auth) < 2 ^ 32" using assms by (simp add: auth_ok_def MAX_RPC_MSGSIZE_def sizeof_rpc_auth_def)
  then have u: "unat (of_nat (length (snd auth)) :: u32) = length (snd auth)" by (intro unat_of_nat_small) simp
  have "u32_at (pre @ rpc_auth_bytes auth @ post) (length pre + 4) = Some (of_nat (length (snd auth)))"
    using u32_at_be32 [of "pre @ be32 (fst auth)" "of_nat (length (snd auth))" "snd auth @ post"]
    by (simp add: rpc_auth_bytes_def)
  then show ?thesis using assms u
    by (simp add: auth_ok_def rpc_auth_bytes_def sizeof_rpc_auth_def add.commute add.left_commute)
qed

lemma parse_call_message:
  assumes "auth_ok cred" "auth_ok verf"
  shows "rpc_parse_call (rpc_call_message xid proc cred verf args) = Some (Call_request (call_request xid proc cred verf args))"
proof -
  let ?h = "be32 xid @ be32 0 @ be32 2 @ be32 NFS_PROGRAM @ be32 NFS_V3 @ be32 proc"
  let ?m = "rpc_call_message xid proc cred verf args"
  have m: "?m = ?h @ rpc_auth_bytes cred @ rpc_auth_bytes verf @ args" by (simp add: rpc_call_message_def)
  have words: "u32_at ?m 0 = Some xid" "u32_at ?m 4 = Some 0" "u32_at ?m 8 = Some 2"
    "u32_at ?m 12 = Some NFS_PROGRAM" "u32_at ?m 16 = Some NFS_V3" "u32_at ?m 20 = Some proc"
    using u32_at_be32 [of "[]" xid] u32_at_be32 [of "be32 xid" 0] u32_at_be32 [of "be32 xid @ be32 0" 2]
      u32_at_be32 [of "be32 xid @ be32 0 @ be32 2" NFS_PROGRAM]
      u32_at_be32 [of "be32 xid @ be32 0 @ be32 2 @ be32 NFS_PROGRAM" NFS_V3]
      u32_at_be32 [of "be32 xid @ be32 0 @ be32 2 @ be32 NFS_PROGRAM @ be32 NFS_V3" proc]
    by (simp_all add: m)
  have l: "length (?h @ rpc_auth_bytes cred @ rpc_auth_bytes verf) = 40 + length (snd cred) + length (snd verf)"
    by (simp add: rpc_auth_bytes_def)
  have "skip_auth 2 ?m 24 = skip_auth (Suc 0) ?m (length (?h @ rpc_auth_bytes cred))"
    using skip_one_auth [OF assms(1), of 1 ?h "rpc_auth_bytes verf @ args"] by (simp add: m numeral_2_eq_2)
  also have "\<dots> = Some (Some (length (?h @ rpc_auth_bytes cred @ rpc_auth_bytes verf)))"
    using skip_one_auth [OF assms(2), of 0 "?h @ rpc_auth_bytes cred" args] by (simp add: m)
  finally have "skip_auth 2 ?m 24 = Some (Some (40 + length (snd cred) + length (snd verf)))" using l by simp
  moreover have "40 + length (snd cred) + length (snd verf) \<le> length ?m" using l by (simp add: m)
  ultimately show ?thesis using words
    by (simp add: rpc_parse_call_def sizeof_rpc_call_header_def call_request_def)
qed

lemma call_arguments: "drop (40 + length (snd cred) + length (snd verf)) (rpc_call_message xid proc cred verf args) = args"
  by (simp add: rpc_call_message_def rpc_auth_bytes_def)


text \<open>A channel that always takes some bytes takes all of them.\<close>

definition open_channel :: "nat \<Rightarrow> rpc_connection \<Rightarrow> bool" where
  "open_channel n rpc \<longleftrightarrow> \<not> udp_transport rpc \<and> n \<le> length (writes rpc) \<and> (\<forall>w \<in> set (writes rpc). \<exists>k. w = Wrote (Suc k))"

lemma channel_write_all:
  assumes "length buf \<le> length ws" "\<forall>w \<in> set ws. \<exists>k. w = Wrote (Suc k)"
  shows "\<exists>ws'. channel_write buf acc ws = Some (acc @ buf, ws') \<and> length ws - length buf \<le> length ws' \<and> set ws' \<subseteq> set ws"
  using assms
proof (induction buf acc ws rule: channel_write.induct)
  case (4 b buf acc n ws)
  from 4(3) obtain k where k: "n = Suc k" by auto
  with 4(2,3) have "length (drop n (b # buf)) \<le> length ws" "\<forall>w \<in> set ws. \<exists>k. w = Wrote (Suc k)" by auto
  from 4(1) [OF this] k 4(2) show ?case by fastforce
qed auto

lemma async_rpc_write_all:
  assumes "open_channel (length buf + n) rpc"
  shows "\<exists>rpc'. async_rpc_write buf rpc = Some rpc' \<and> sent rpc' = sent rpc @ buf \<and> open_channel n rpc' \<and>
    msgbuf rpc' = msgbuf rpc \<and> frag_len rpc' = frag_len rpc \<and> frag_hdr_bytes rpc' = frag_hdr_bytes rpc"
proof -
  have "length buf \<le> length (writes rpc)" "\<forall>w \<in> set (writes rpc). \<exists>k. w = Wrote (Suc k)" "\<not> udp_transport rpc"
    using assms by (auto simp: open_channel_def)
  with channel_write_all [OF this(1,2), of "sent rpc"] obtain ws'
    where ws: "channel_write buf (sent rpc) (writes rpc) = Some (sent rpc @ buf, ws')"
      "length (writes rpc) - length buf \<le> length ws'" "set ws' \<subseteq> set (writes rpc)" and tcp: "\<not> udp_transport rpc" by blast
  have "open_channel n (rpc\<lparr>sent := sent rpc @ buf, writes := ws'\<rparr>)"
    using assms ws(2,3) by (auto simp: open_channel_def)
  with ws(1) tcp show ?thesis by (simp add: async_rpc_write_def)
qed

lemma send_parts_sent:
  assumes ch: "open_channel (4 + length (concat parts)) rpc" and len: "msg_size = length (concat parts)" "msg_size < 2 ^ 31"
  shows "\<exists>rpc'. send_parts msg_size parts rpc = Some rpc' \<and> sent rpc' = sent rpc @ record_mark [concat parts] \<and>
    open_channel 0 rpc' \<and> msgbuf rpc' = msgbuf rpc \<and> frag_len rpc' = frag_len rpc \<and> frag_hdr_bytes rpc' = frag_hdr_bytes rpc"
proof -
  have all: "\<exists>rpc'. fold (\<lambda>part r. Option.bind r (async_rpc_write part)) ps (Some rpc) = Some rpc' \<and> sent rpc' = sent rpc @ concat ps \<and>
      open_channel 0 rpc' \<and> msgbuf rpc' = msgbuf rpc \<and> frag_len rpc' = frag_len rpc \<and> frag_hdr_bytes rpc' = frag_hdr_bytes rpc"
    if "open_channel (length (concat ps)) rpc" for ps rpc
    using that
  proof (induction ps arbitrary: rpc)
    case (Cons q ps)
    from async_rpc_write_all [of q "length (concat ps)" rpc] Cons.prems obtain rpc'
      where "async_rpc_write q rpc = Some rpc'" "sent rpc' = sent rpc @ q" "open_channel (length (concat ps)) rpc'"
        "msgbuf rpc' = msgbuf rpc" "frag_len rpc' = frag_len rpc" "frag_hdr_bytes rpc' = frag_hdr_bytes rpc" by auto
    with Cons.IH [of rpc'] show ?case by auto
  qed simp
  let ?f = "be32 (of_nat msg_size OR LAST_FRAGMENT)"
  have udp: "\<not> udp_transport rpc" using ch by (simp add: open_channel_def)
  from all [of "?f # parts" rpc] ch obtain rpc' where "fold (\<lambda>part r. Option.bind r (async_rpc_write part)) (?f # parts) (Some rpc) = Some rpc'"
    "sent rpc' = sent rpc @ ?f @ concat parts" "open_channel 0 rpc'" "msgbuf rpc' = msgbuf rpc" "frag_len rpc' = frag_len rpc"
    "frag_hdr_bytes rpc' = frag_hdr_bytes rpc" by auto
  with udp show ?thesis
    by (intro exI [of _ rpc'])
      (simp add: send_parts_def async_rpc_flush_def open_channel_def fragment_header_def len(1) Let_def)
qed

lemma length_reply_header [simp]: "length (rpc_reply_header xid st) = 24"
  by (simp add: rpc_reply_header_def)


text \<open>C36: A request for a procedure that does not exist, or with arguments that do not decode,
  changes nothing in the file system and is answered with the failure for it.\<close>

theorem nfs_program_failures:
  assumes ch: "open_channel 28 (connection srv)"
    and bad: "if nfs_arg_filter (req_proc req) = None then stat = PROC_UNAVAIL
              else stat = GARBAGE_ARGS \<and>
                Option.bind (nfs_arg_filter (req_proc req)) (\<lambda>p. xdec p (drop (raw_args_header_bytes req) (raw_args req))) = None"
  shows "\<exists>srv'. nfs_program_3 svc req (srv, s) = Some (srv', s) \<and> outstanding_rpcs srv' = outstanding_rpcs srv - 1 \<and>
           sent (connection srv') = sent (connection srv) @ record_mark [rpc_reply_header (req_xid req) (accept_stat_code stat)]"
proof -
  let ?h = "rpc_reply_header (req_xid req) (accept_stat_code stat)"
  from send_parts_sent [of "[?h]" "connection srv" sizeof_rpc_reply] ch
  obtain rpc' where rpc': "send_parts sizeof_rpc_reply [?h] (connection srv) = Some rpc'"
    "sent rpc' = sent (connection srv) @ record_mark [?h]"
    by (auto simp: sizeof_rpc_reply_def simp del: record_mark.simps)
  then have fail: "async_rpc_send_failure req stat srv = Some (srv\<lparr>outstanding_rpcs := outstanding_rpcs srv - 1, connection := rpc'\<rparr>)"
    by (simp add: async_rpc_send_failure_def)
  have "nfs_program_3 svc req (srv, s) = map_option (\<lambda>srv. (srv, s)) (async_rpc_send_failure req stat srv)"
    using bad nfs_filters_defined [of "req_proc req"]
    by (auto simp: nfs_program_3_def split: if_splits option.splits)
  with fail rpc'(2) show ?thesis by simp
qed

text \<open>A server with a fresh connection whose channel takes one byte at a time.\<close>

definition sample_server :: rpc_server where
  "sample_server = \<lparr>connection = new_connection False [] (replicate 28 (Wrote 1)), outstanding_rpcs = 1, rpc_thread_pool = []\<rparr>"

lemma sample_server_open: "open_channel 28 (connection sample_server)"
  by (simp add: sample_server_def open_channel_def new_connection_def)


theorem nfs_program_failures_witness:
  "\<exists>srv'. nfs_program_3 (\<lambda>a s. None) (call_request 5 99 (0, []) (0, []) []) (sample_server, ()) = Some (srv', ()) \<and>
     sent (connection srv') = record_mark [rpc_reply_header 5 3]"
  using nfs_program_failures [OF sample_server_open, of "call_request 5 99 (0, []) (0, []) []" PROC_UNAVAIL "\<lambda>a s. None" "()"]
  by (auto simp: nfs_arg_filter_def call_request_def sample_server_def new_connection_def simp del: record_mark.simps)

end
