(* ===== verification/BlueSky_Cloudlog.thy ===== *)
theory BlueSky_Cloudlog
  imports BlueSky_Thread BlueSky_File BlueSky_Util
begin

text \<open>
  The log items as the file layer sees them (\<^verbatim>\<open>bluesky/cloudlog.c\<close>): the operations of
  the interface \<open>backend\<close> on the log with its journal, with prefetching and the LRU
  lists that \<^verbatim>\<open>bluesky_inode_update_ctime\<close> moves an inode in, and the proof that they
  keep the laws of \<open>block_backend\<close>.  With it the correctness of files becomes that
  of files on the log.
\<close>


section \<open>State and operations\<close>

text \<open>
  The identifiers that \<^verbatim>\<open>bluesky_cloudlog_new\<close> draws, the items waiting for a thread of the
  fetch pool, and the lists with the links the inodes have in them.
\<close>

record log_store =
  ls_log :: lfs
  ls_ids :: "nat \<Rightarrow> bytes"
  ls_drawn :: nat
  fetch_pool :: "ref list"
  unlogged_list :: lru_list
  accessed_list :: lru_list
  unlogged_link :: "u64 \<Rightarrow> nat option"
  accessed_link :: "u64 \<Rightarrow> nat option"

definition store_items :: "(clfs \<Rightarrow> clfs option) \<Rightarrow> log_store \<Rightarrow> log_store option" where
  "store_items f b = map_option (\<lambda>s. b\<lparr>ls_log := s\<rparr>) (map_items f (ls_log b))"

definition bluesky_cloudlog_background_fetch :: "ref \<Rightarrow> log_store \<Rightarrow> log_store option" where
  "bluesky_cloudlog_background_fetch r b =
     map_option (\<lambda>b. b\<lparr>fetch_pool := fetch_pool b @ [r]\<rparr>) (store_items (bluesky_cloudlog_ref (Some r)) b)"

text \<open>A thread of the fetch pool takes the lock of the item, and does not fetch it.\<close>

definition background_fetch_task :: "log_store \<Rightarrow> log_store option" where
  "background_fetch_task b =
     (case fetch_pool b of [] \<Rightarrow> Some b
      | r # rs \<Rightarrow> store_items (bluesky_cloudlog_unref (Some r)) (b\<lparr>fetch_pool := rs\<rparr>))"

definition touch_cachefile :: "i64 \<Rightarrow> logkey \<Rightarrow> lfs \<Rightarrow> lfs" where
  "touch_cachefile now k s = bluesky_cachefile_unref k (upd_cachefile k (\<lambda>cf. cf\<lparr>cf_atime := now\<rparr>) s)"

definition queue_prefetch :: "env \<Rightarrow> logkey \<Rightarrow> cloudptr \<Rightarrow> lfs \<Rightarrow> lfs" where
  "queue_prefetch env k p s =
     upd_cachefile k
       (\<lambda>cf. if bluesky_rangeset_lookup (seq_search env) (cf_items cf) (of_nat (unat (cp_offset p))) = None
              then cf\<lparr>cf_prefetches := Some (fst (bluesky_rangeset_insert (seq_search env)
                        (case cf_prefetches cf of None \<Rightarrow> bluesky_rangeset_new | Some rs \<Rightarrow> rs)
                        (of_nat (unat (cp_offset p))) (of_nat (unat (cp_size p))) False))\<rparr>
              else cf) s"

definition bluesky_cloudlog_prefetch :: "env \<Rightarrow> i64 \<Rightarrow> ref \<Rightarrow> log_store \<Rightarrow> log_store option" where
  "bluesky_cloudlog_prefetch env now r b =
     (case get_item (fs_items (ls_log b)) r of None \<Rightarrow> None
      | Some item \<Rightarrow>
          if cl_data item \<noteq> None then Some b
          else if disable_aggregation env \<or> disable_read_aggregation env then bluesky_cloudlog_background_fetch r b
          else
            let (jk, s) = (if CLOUDLOG_JOURNAL \<in> location_flags item \<union> pending_write item
                           then bluesky_cachefile_lookup (-1) (log_seq item) True (ls_log b) else (None, ls_log b))
            in
            (case jk of
               Some k \<Rightarrow> Some (b\<lparr>ls_log := touch_cachefile now k s\<rparr>)
             | None \<Rightarrow>
                 let item = item\<lparr>location_flags := location_flags item - {CLOUDLOG_JOURNAL}\<rparr>;
                     s = s\<lparr>fs_items := set_item r item (fs_items s)\<rparr>
                 in
                 if CLOUDLOG_CLOUD \<notin> location_flags item then Some (b\<lparr>ls_log := s\<rparr>)
                 else
                   let p = cl_location item;
                       (ck, s) = bluesky_cachefile_lookup (sint (cp_directory p)) (sint (cp_sequence p)) False s
                   in
                   (case ck of None \<Rightarrow> Some (b\<lparr>ls_log := s\<rparr>)
                    | Some k \<Rightarrow> Some (b\<lparr>ls_log := bluesky_cachefile_unref k (queue_prefetch env k p s)\<rparr>))))"

text \<open>The part of \<^verbatim>\<open>bluesky_block_flush\<close> that makes a log item of the data.\<close>

definition log_new_data :: "u64 \<Rightarrow> bytes \<Rightarrow> log_store \<Rightarrow> (ref \<times> log_store) option" where
  "log_new_data inum d b =
     (let oid = ls_ids b (ls_drawn b);
          (r, fs) = bluesky_cloudlog_new oid (fs_items (ls_log b));
          c = (new_cloudlog oid)\<lparr>cl_type := LOGTYPE_DATA, cl_inum := inum, cl_data := Some d\<rparr>;
          fs = bluesky_cloudlog_stats_update c 1 (set_item r c fs)
      in map_option (\<lambda>fs. (r, b\<lparr>ls_log := (ls_log b)\<lparr>fs_items := fs\<rparr>, ls_drawn := Suc (ls_drawn b)\<rparr>))
           (Option.bind (bluesky_log_item_submit r fs) (\<lambda>fs.
            Option.bind (bluesky_cloudlog_ref (Some r) fs) (bluesky_cloudlog_insert r))))"

text \<open>The loop body of \<^verbatim>\<open>bluesky_file_drop_cached\<close>.\<close>

definition log_drop_data :: "ref \<Rightarrow> clfs \<Rightarrow> clfs option" where
  "log_drop_data r fs =
     (case get_item fs r of None \<Rightarrow> None
      | Some c \<Rightarrow>
          if cl_data c \<noteq> None \<and> data_lock_count c = 0 \<and> location_flags c \<noteq> {} then
            let fs = bluesky_cloudlog_stats_update c (-1) fs;
                c = c\<lparr>cl_data := None\<rparr>
            in Some (bluesky_cloudlog_stats_update c 1 (set_item r c fs))
          else Some fs)"

text \<open>The moves in the lists of \<^verbatim>\<open>bluesky_inode_update_ctime\<close>.\<close>

definition log_mark_modified :: "u64 \<Rightarrow> log_store \<Rightarrow> log_store" where
  "log_mark_modified inum b =
     (let (unlogged, l) = bluesky_list_prepend (bluesky_list_unlink (unlogged_list b) (unlogged_link b inum)) inum;
          (accessed, m) = bluesky_list_prepend (bluesky_list_unlink (accessed_list b) (accessed_link b inum)) inum
      in b\<lparr>unlogged_list := unlogged, unlogged_link := (unlogged_link b)(inum \<mapsto> l),
           accessed_list := accessed, accessed_link := (accessed_link b)(inum \<mapsto> m)\<rparr>)"

definition log_fetch :: "env \<Rightarrow> i64 \<Rightarrow> fetch_result list \<Rightarrow> ref \<Rightarrow> log_store \<Rightarrow> (bytes \<times> log_store) option" where
  "log_fetch env now results r b =
     Option.bind (bluesky_cloudlog_fetch env now results r (ls_log b)) (\<lambda>s.
     Option.bind (get_item (fs_items s) r) (\<lambda>c.
     map_option (\<lambda>d. (d, b\<lparr>ls_log := s\<rparr>)) (cl_data c)))"

text \<open>The state \<open>None\<close> is a file system that has aborted.\<close>

definition log_backend :: "env \<Rightarrow> i64 \<Rightarrow> fetch_result list \<Rightarrow> log_store option backend" where
  "log_backend env now results =
     \<lparr>be_fetch = (\<lambda>r c. map_option (\<lambda>(d, b). (d, Some b)) (Option.bind c (log_fetch env now results r))),
      be_prefetch = (\<lambda>r c. Option.bind c (bluesky_cloudlog_prefetch env now r)),
      be_unref = (\<lambda>r c. Option.bind c (store_items (bluesky_cloudlog_unref (Some r)))),
      be_new_data = (\<lambda>i d c. case Option.bind c (log_new_data i d) of None \<Rightarrow> (0, None) | Some (r, b) \<Rightarrow> (r, Some b)),
      be_drop_cached = (\<lambda>r c. Option.bind c (store_items (log_drop_data r))),
      be_mark_modified = (\<lambda>i c. map_option (log_mark_modified i) c)\<rparr>"


section \<open>The view of a client\<close>

text \<open>
  The references the clients of the log own are those that neither the links of
  items nor the queues of the journal and of the fetch pool account for.
\<close>

definition internal_refs :: "log_store \<Rightarrow> ref \<Rightarrow> nat" where
  "internal_refs b r = link_count (fs_items (ls_log b)) r + journal_refs (ls_log b) r + count_list (fetch_pool b) r"

definition store_held :: "log_store \<Rightarrow> ref \<Rightarrow> nat" where
  "store_held b r = (case get_item (fs_items (ls_log b)) r of None \<Rightarrow> 0 | Some c \<Rightarrow> nat (cl_refcount c) - internal_refs b r)"

definition store_data :: "log_store \<Rightarrow> ref \<Rightarrow> bytes" where
  "store_data b r = (case get_item (fs_items (ls_log b)) r of None \<Rightarrow> [] | Some c \<Rightarrow> item_bytes (ls_log b) c)"

text \<open>
  Every item is of a known type and in memory or in the journal; no item has been
  moved to the cloud yet.
\<close>

definition journal_only :: "lfs \<Rightarrow> bool" where
  "journal_only s \<longleftrightarrow>
     (\<forall>r c. get_item (fs_items s) r = Some c \<longrightarrow> known c \<and> cl_type c \<noteq> LOGTYPE_UNKNOWN \<and> location_flags c \<subseteq> {CLOUDLOG_JOURNAL, CLOUDLOG_UNCOMMITTED})"

text \<open>Between the rounds of the log thread items wait for a commit only behind queued ones.\<close>

definition settled :: "lfs \<Rightarrow> bool" where
  "settled s \<longleftrightarrow> (journal_queue (fs_items s) = [] \<longrightarrow> committed s = [])"

definition all_submitted :: "lfs \<Rightarrow> bool" where
  "all_submitted s \<longleftrightarrow> (\<forall>r c. get_item (fs_items s) r = Some c \<longrightarrow> {CLOUDLOG_JOURNAL, CLOUDLOG_UNCOMMITTED} \<inter> location_flags c \<noteq> {})"

definition store_inv :: "(ref \<Rightarrow> nat) \<Rightarrow> log_store \<Rightarrow> bool" where
  "store_inv own b \<longleftrightarrow>
     log_inv {} (\<lambda>r. own r + count_list (fetch_pool b) r) (ls_log b) \<and> journal_only (ls_log b) \<and>
     settled (ls_log b) \<and> all_submitted (ls_log b) \<and> (\<forall>n. length (ls_ids b n) = 16)"

definition log_ok :: "log_store option \<Rightarrow> bool" where
  "log_ok c \<longleftrightarrow> (\<exists>b. c = Some b \<and> store_inv (store_held b) b)"

definition log_held :: "log_store option \<Rightarrow> ref \<Rightarrow> nat" where
  "log_held c = (case c of None \<Rightarrow> (\<lambda>r. 0) | Some b \<Rightarrow> store_held b)"

definition log_data :: "log_store option \<Rightarrow> ref \<Rightarrow> bytes" where
  "log_data c = (case c of None \<Rightarrow> (\<lambda>r. []) | Some b \<Rightarrow> store_data b)"

lemma journal_onlyD:
  "journal_only s \<Longrightarrow> get_item (fs_items s) r = Some c \<Longrightarrow> known c \<and> cl_type c \<noteq> LOGTYPE_UNKNOWN \<and> location_flags c \<subseteq> {CLOUDLOG_JOURNAL, CLOUDLOG_UNCOMMITTED}"
  by (simp add: journal_only_def)

lemma journal_only_keeps:
  assumes "journal_only s" "keeps s s'"
  shows "journal_only s'"
  unfolding journal_only_def
proof (intro allI impI)
  fix r c' assume "get_item (fs_items s') r = Some c'"
  from keepsD [OF assms(2) this] obtain c where c: "get_item (fs_items s) r = Some c" "same_item s c s' c'" by blast
  from c(2) journal_onlyD [OF assms(1) c(1)]
  show "known c' \<and> cl_type c' \<noteq> LOGTYPE_UNKNOWN \<and> location_flags c' \<subseteq> {CLOUDLOG_JOURNAL, CLOUDLOG_UNCOMMITTED}"
    unfolding same_item_def by auto
qed

lemma same_item_submitted:
  "same_item s c s' c' \<Longrightarrow> {CLOUDLOG_JOURNAL, CLOUDLOG_UNCOMMITTED} \<inter> location_flags c \<noteq> {} \<Longrightarrow>
   {CLOUDLOG_JOURNAL, CLOUDLOG_UNCOMMITTED} \<inter> location_flags c' \<noteq> {}"
  by (simp only: same_item_def simp_thms)

lemma all_submittedD:
  "all_submitted s \<Longrightarrow> get_item (fs_items s) r = Some c \<Longrightarrow> {CLOUDLOG_JOURNAL, CLOUDLOG_UNCOMMITTED} \<inter> location_flags c \<noteq> {}"
  by (simp only: all_submitted_def simp_thms)

lemma all_submitted_keeps:
  assumes "all_submitted s" "keeps s s'"
  shows "all_submitted s'"
  unfolding all_submitted_def
proof (intro allI impI)
  fix r c' assume "get_item (fs_items s') r = Some c'"
  from keepsD [OF assms(2) this] obtain c where "get_item (fs_items s) r = Some c" "same_item s c s' c'" by blast
  from same_item_submitted [OF this(2) all_submittedD [OF assms(1) this(1)]]
  show "{CLOUDLOG_JOURNAL, CLOUDLOG_UNCOMMITTED} \<inter> location_flags c' \<noteq> {}" .
qed

text \<open>The references owned are those of the invariant.\<close>

lemma store_held_own:
  assumes "store_inv own b"
  shows "store_held b = own"
proof
  fix r
  have inv: "log_inv {} (\<lambda>r. own r + count_list (fetch_pool b) r) (ls_log b)" using assms by (simp add: store_inv_def)
  note rc = rc_okD [OF log_invD(1) [OF inv]]
  show "store_held b r = own r"
  proof (cases "get_item (fs_items (ls_log b)) r")
    case None
    with rc(3) [OF None] show ?thesis by (simp add: store_held_def)
  next
    case (Some c)
    with rc(1) [OF Some] show ?thesis by (simp add: store_held_def internal_refs_def)
  qed
qed

lemma log_okI:
  assumes "store_inv own b"
  shows "log_ok (Some b)" "log_held (Some b) = own"
  using assms store_held_own [OF assms] by (auto simp: log_ok_def log_held_def)

lemma log_okE:
  assumes "log_ok c"
  obtains b where "c = Some b" "store_inv (log_held c) b"
  using assms by (auto simp: log_ok_def log_held_def)

lemma store_live:
  assumes "store_inv own b" "0 < own r"
  obtains x where "get_item (fs_items (ls_log b)) r = Some x" "known x" "cl_type x \<noteq> LOGTYPE_UNKNOWN"
    "location_flags x \<subseteq> {CLOUDLOG_JOURNAL, CLOUDLOG_UNCOMMITTED}"
proof -
  have inv: "log_inv {} (\<lambda>r. own r + count_list (fetch_pool b) r) (ls_log b)" using assms(1) by (simp add: store_inv_def)
  have "0 < own r + count_list (fetch_pool b) r + journal_refs (ls_log b) r" using assms(2) by simp
  from rc_ok_live [OF log_invD(1) [OF inv] this] obtain x where x: "get_item (fs_items (ls_log b)) r = Some x" by blast
  moreover have "journal_only (ls_log b)" using assms(1) by (simp add: store_inv_def)
  ultimately show ?thesis using that journal_onlyD by blast
qed

text \<open>A step of the log that keeps the items keeps what clients see.\<close>

lemma store_data_keeps:
  assumes "journal_only (ls_log b)" "store_inv own' b'" "keeps (ls_log b) (ls_log b')" "0 < own' r"
  shows "store_data b' r = store_data b r"
proof -
  obtain x where x: "get_item (fs_items (ls_log b')) r = Some x" by (rule store_live [OF assms(2,4)])
  from keepsD [OF assms(3) x] obtain y where y: "get_item (fs_items (ls_log b)) r = Some y" "same_item (ls_log b) y (ls_log b') x" by blast
  moreover have "known y" using assms(1) y(1) journal_onlyD by blast
  ultimately show ?thesis using x by (simp add: store_data_def same_item_def)
qed

lemma store_step:
  assumes "store_inv own b" "log_inv {} (\<lambda>r. own' r + count_list pool r) s'" "keeps (ls_log b) s'"
    "journal_queue (fs_items s') = journal_queue (fs_items (ls_log b))" "committed s' = committed (ls_log b)"
  shows "store_inv own' (b\<lparr>ls_log := s', fetch_pool := pool\<rparr>)"
  using assms journal_only_keeps [of "ls_log b" s'] all_submitted_keeps [of "ls_log b" s'] by (auto simp: store_inv_def settled_def)


section \<open>Operations on the log\<close>

lemma journal_data_items [simp]:
  "journal_data (s\<lparr>fs_items := fs\<rparr>) c = journal_data s c"
  "journal_data s (c\<lparr>cl_refcount := n\<rparr>) = journal_data s c" "journal_data s (c\<lparr>cl_data := d\<rparr>) = journal_data s c"
  by (simp_all add: journal_data_def journal_file_def)

lemma log_ref_ok:
  assumes inv: "log_inv {} own s" and g: "get_item (fs_items s) r = Some c"
  shows "\<exists>fs'. bluesky_cloudlog_ref (Some r) (fs_items s) = Some fs' \<and> log_inv {} (own(r := own r + 1)) (s\<lparr>fs_items := fs'\<rparr>) \<and>
           keeps s (s\<lparr>fs_items := fs'\<rparr>) \<and> journal_queue fs' = journal_queue (fs_items s)"
proof -
  let ?c = "c\<lparr>cl_refcount := cl_refcount c + 1\<rparr>"
  let ?fs' = "set_item r ?c (fs_items s)"
  let ?s' = "s\<lparr>fs_items := ?fs'\<rparr>"
  note i = item_invD [OF log_invD(5) [OF inv]]
  have g': "get_item (fs_items ?s') = (get_item (fs_items s))(r \<mapsto> ?c)" using g by (simp add: fun_eq_iff)
  have q: "journal_queue ?fs' = journal_queue (fs_items s)" by (simp add: set_item_def)
  have l: "logged ?s' x" if "logged s x" for x using that by (rule logged_cong) simp_all
  have lc: "logged ?s' ?c" if "logged s c" using l [OF that] by (simp add: logged_def in_file_def record_of_def)
  have it: "item_inv {} ?s'"
    by (rule item_inv_set [OF log_invD(5) [OF inv] g g'])
      (use q l lc g i(1,2,4,6) [OF g] i(3) [of r] in \<open>auto simp: item_small_def queued_ok_def waiting_def\<close>)
  have "rc_ok ((\<lambda>q. own q + journal_refs s q)(r := own r + journal_refs s r + 1)) ?fs'"
    by (rule rc_ok_ref [OF log_invD(1) [OF inv] g])
  moreover have "(\<lambda>q. (own(r := own r + 1)) q + journal_refs ?s' q) = (\<lambda>q. own q + journal_refs s q)(r := own r + journal_refs s r + 1)"
    using q by (auto simp: journal_refs_def fun_eq_iff)
  ultimately have "rc_ok (\<lambda>q. (own(r := own r + 1)) q + journal_refs ?s' q) ?fs'" by simp
  moreover have "loc_ok ?fs'" using loc_ok_set [OF log_invD(2) [OF inv] g, of ?c] by simp
  moreover have "stats_ok ?fs'"
    by (rule stats_ok_set_same [OF log_invD(3) [OF inv] g]) (simp_all add: counts_in_cloud_def counts_in_journal_def counts_dirty_def)
  moreover have "file_inv ?s'" by (rule file_inv_cong [OF log_invD(4) [OF inv]]) simp_all
  ultimately have "log_inv {} (own(r := own r + 1)) ?s'" using it by (simp add: log_inv_def)
  moreover have "keeps s ?s'"
    by (rule keeps_set [OF log_invD(5) [OF inv] _ g g'])
      (auto simp: same_log_def logged_def same_item_def known_def item_bytes_def split: option.split)
  ultimately show ?thesis using g q by (simp add: bluesky_cloudlog_ref_def)
qed

lemma log_insert_ok:
  assumes inv: "log_inv {} own s" and g: "get_item (fs_items s) r = Some c"
  shows "\<exists>fs'. bluesky_cloudlog_insert r (fs_items s) = Some fs' \<and> log_inv {} own (s\<lparr>fs_items := fs'\<rparr>) \<and>
           keeps s (s\<lparr>fs_items := fs'\<rparr>) \<and> journal_queue fs' = journal_queue (fs_items s)"
proof -
  let ?fs' = "(fs_items s)\<lparr>locations := (locations (fs_items s))(cl_id c \<mapsto> r)\<rparr>"
  let ?s' = "s\<lparr>fs_items := ?fs'\<rparr>"
  have g': "get_item ?fs' = get_item (fs_items s)" by (rule get_item_cong) simp
  have "rc_ok (\<lambda>q. own q + journal_refs ?s' q) ?fs'"
    using log_invD(1) [OF inv] rc_ok_cong [of ?fs' "fs_items s"] by (simp add: journal_refs_def)
  moreover have "loc_ok ?fs'" using log_invD(2) [OF inv] g g' by (auto simp: loc_ok_def)
  moreover have "stats_ok ?fs'" using log_invD(3) [OF inv] by (simp add: stats_ok_def tally_def)
  moreover have "file_inv ?s'" by (rule file_inv_cong [OF log_invD(4) [OF inv]]) simp_all
  moreover have "item_inv {} ?s'" using log_invD(5) [OF inv] g' by (simp add: item_inv_def waiting_def logged_def)
  ultimately have "log_inv {} own ?s'" by (simp add: log_inv_def)
  moreover have "keeps s ?s'" by (rule keeps_same_items) (simp_all add: g')
  ultimately show ?thesis using g g' by (simp add: bluesky_cloudlog_insert_def)
qed

lemma log_drop_ok:
  assumes inv: "log_inv {} own s" and g: "get_item (fs_items s) r = Some c" and c: "location_flags c \<subseteq> {CLOUDLOG_JOURNAL, CLOUDLOG_UNCOMMITTED}"
  shows "\<exists>fs'. log_drop_data r (fs_items s) = Some fs' \<and> log_inv {} own (s\<lparr>fs_items := fs'\<rparr>) \<and> keeps s (s\<lparr>fs_items := fs'\<rparr>) \<and>
           journal_queue fs' = journal_queue (fs_items s)"
proof (cases "cl_data c \<noteq> None \<and> data_lock_count c = 0 \<and> location_flags c \<noteq> {}")
  case False
  with inv g show ?thesis by (auto simp: log_drop_data_def)
next
  case True
  note i = item_invD [OF log_invD(5) [OF inv]]
  have nq: "r \<notin> set (journal_queue (fs_items s))" using i(4) [OF g] True by (auto simp: queued_ok_def)
  have j: "CLOUDLOG_JOURNAL \<in> location_flags c \<union> pending_write c"
  proof (rule ccontr)
    assume n: "CLOUDLOG_JOURNAL \<notin> location_flags c \<union> pending_write c"
    with True c have "CLOUDLOG_UNCOMMITTED \<in> location_flags c" by blast
    with i(6) [OF g] nq have "r \<in> set (committed s)" by (auto simp: waiting_def)
    with i(3) [of r] g n show False by auto
  qed
  then have l: "logged s c" using i(2) [OF g] by simp
  let ?c = "c\<lparr>cl_data := None\<rparr>"
  let ?fs' = "bluesky_cloudlog_stats_update ?c 1 (set_item r ?c (bluesky_cloudlog_stats_update c (-1) (fs_items s)))"
  let ?s' = "s\<lparr>fs_items := ?fs'\<rparr>"
  have ci: "cl_items ?fs' = cl_items (set_item r ?c (fs_items s))" by (simp add: set_item_def)
  have g': "get_item (fs_items ?s') = (get_item (fs_items s))(r \<mapsto> ?c)"
    using get_item_cong [OF ci] g by (simp add: fun_eq_iff)
  have q: "journal_queue ?fs' = journal_queue (fs_items s)" "locations ?fs' = locations (fs_items s)" by (simp_all add: set_item_def)
  have lg: "logged ?s' x" if "logged s x" for x using that by (rule logged_cong) simp_all
  have lc: "logged ?s' ?c" using logged_loaded [OF lg [OF l], of None] by simp
  have d: "item_bytes s c = journal_data s c"
  proof -
    from True obtain x where "cl_data c = Some x" by blast
    with logged_data [OF l] show ?thesis by (simp add: item_bytes_def)
  qed
  have it: "item_inv {} ?s'"
    by (rule item_inv_set [OF log_invD(5) [OF inv] g g'])
      (use q lg lc g nq i(1,6) [OF g] i(3) [of r] in \<open>auto simp: item_small_def waiting_def\<close>)
  moreover have "stats_ok ?fs'"
    using stats_ok_bracket [OF log_invD(3) [OF inv] g, of ?c] by simp
  ultimately have "log_inv {} own ?s'"
    by (intro log_inv_set [where c' = ?c, OF inv g]) (use ci q file_inv_cong [OF log_invD(4) [OF inv], of ?s'] in simp_all)
  moreover have sl: "same_log s ?s'" using lg by (simp add: same_log_def)
  have "keeps s ?s'"
    by (rule keeps_set [OF log_invD(5) [OF inv] _ g g' sl])
      (use j d in \<open>auto simp: same_item_def known_def item_bytes_def\<close>)
  ultimately show ?thesis using True g q(1) by (simp add: log_drop_data_def Let_def)
qed

text \<open>The journal file of an item is found, and only its reference count and time change.\<close>

lemma log_touch_ok:
  assumes inv: "log_inv {} own s" and g: "get_item (fs_items s) r = Some c" and l: "logged s c"
  shows "\<exists>s1. bluesky_cachefile_lookup (-1) (log_seq c) True s = (Some (journal_key (log_seq c)), s1) \<and>
           log_inv {} own (touch_cachefile now (journal_key (log_seq c)) s1) \<and> keeps s (touch_cachefile now (journal_key (log_seq c)) s1) \<and>
           journal_queue (fs_items (touch_cachefile now (journal_key (log_seq c)) s1)) = journal_queue (fs_items s) \<and>
           committed (touch_cachefile now (journal_key (log_seq c)) s1) = committed s"
proof -
  let ?k = "journal_key (log_seq c)"
  from l obtain cf where cf: "mmap_cache s ?k = Some cf" by (auto simp: logged_def mapped_def)
  let ?s1 = "upd_cachefile ?k (\<lambda>cf. cf\<lparr>cf_refcount := cf_refcount cf + 1\<rparr>) s"
  have look: "bluesky_cachefile_lookup (-1) (log_seq c) True s = (Some ?k, ?s1)"
    using cf by (simp add: bluesky_cachefile_lookup_def Let_def)
  define s' where "s' = touch_cachefile now ?k ?s1"
  have m: "mapped s' = mapped s" by (simp add: s'_def touch_cachefile_def bluesky_cachefile_unref_def mapped_upd)
  have e: "fs_items s' = fs_items s" "disk s' = disk s" "stable s' = stable s" "log_fd s' = log_fd s" "log_pos s' = log_pos s"
    "seq_num s' = seq_num s" "current_log s' = current_log s" "committed s' = committed s"
    by (simp_all add: s'_def touch_cachefile_def bluesky_cachefile_unref_def upd_cachefile_def)
  have lg: "logged s' x = logged s x" for x using m e by (simp add: logged_def)
  have "file_inv s'" by (rule file_inv_cong [OF log_invD(4) [OF inv]]) (simp_all add: m e)
  moreover have "item_inv {} s'" using log_invD(5) [OF inv] by (simp add: item_inv_def waiting_def lg e)
  ultimately have "log_inv {} own s'" using inv e by (simp add: log_inv_def journal_refs_def)
  moreover have "keeps s s'" by (rule keeps_same_items) (simp_all add: e)
  ultimately show ?thesis using look e(1,8) by (auto simp: s'_def)
qed


section \<open>The laws of the interface\<close>

lemma store_inv_log: "store_inv own b \<Longrightarrow> log_inv {} (\<lambda>r. own r + count_list (fetch_pool b) r) (ls_log b)"
  by (simp add: store_inv_def)

lemma store_inv_only: "store_inv own b \<Longrightarrow> journal_only (ls_log b)"
  by (simp add: store_inv_def)

text \<open>A step that leaves the owned references alone, as a client sees it.\<close>

lemma same_items_step:
  assumes "store_inv own b" "store_inv own b'" "keeps (ls_log b) (ls_log b')"
  shows "log_ok (Some b') \<and> same_items log_held log_data (Some b) (Some b')"
  using log_okI [OF assms(1)] log_okI [OF assms(2)] store_data_keeps [OF store_inv_only [OF assms(1)] assms(2,3)]
  by (auto simp: same_items_def log_data_def)

lemma store_fetch:
  assumes inv: "store_inv own b" and r: "0 < own r"
  shows "\<exists>b'. log_fetch env now results r b = Some (store_data b r, b') \<and> store_inv own b' \<and> keeps (ls_log b) (ls_log b')"
proof -
  obtain x where x: "get_item (fs_items (ls_log b)) r = Some x" "known x" "cl_type x \<noteq> LOGTYPE_UNKNOWN" by (rule store_live [OF inv r])
  from log_fetch_ok [OF store_inv_log [OF inv] x] obtain s'
    where s': "bluesky_cloudlog_fetch env now results r (ls_log b) = Some s'" "log_inv {} (\<lambda>r. own r + count_list (fetch_pool b) r) s'"
      "keeps (ls_log b) s'" "get_item (fs_items s') = (get_item (fs_items (ls_log b)))(r \<mapsto> x\<lparr>cl_data := Some (item_bytes (ls_log b) x)\<rparr>)"
      "journal_queue (fs_items s') = journal_queue (fs_items (ls_log b))" "committed s' = committed (ls_log b)"
    by blast
  have "log_fetch env now results r b = Some (store_data b r, b\<lparr>ls_log := s'\<rparr>)"
    using s'(1,4) x(1) by (simp add: log_fetch_def store_data_def)
  moreover have "store_inv own (b\<lparr>ls_log := s'\<rparr>)" using store_step [OF inv s'(2,3,5,6)] by simp
  ultimately show ?thesis using s'(3) by auto
qed

lemma store_prefetch:
  assumes inv: "store_inv own b" and r: "0 < own r"
  shows "\<exists>b'. bluesky_cloudlog_prefetch env now r b = Some b' \<and> store_inv own b' \<and> keeps (ls_log b) (ls_log b')"
proof -
  let ?s = "ls_log b"
  note log = store_inv_log [OF inv]
  obtain x where x: "get_item (fs_items ?s) r = Some x" "known x" by (rule store_live [OF inv r])
  consider "cl_data x \<noteq> None" | "cl_data x = None" "disable_aggregation env \<or> disable_read_aggregation env"
    | "cl_data x = None" "\<not> (disable_aggregation env \<or> disable_read_aggregation env)" by blast
  then show ?thesis
  proof cases
    case 1
    with x inv show ?thesis by (auto simp: bluesky_cloudlog_prefetch_def)
  next
    case 2
    from log_ref_ok [OF log x(1)] obtain fs' where f: "bluesky_cloudlog_ref (Some r) (fs_items ?s) = Some fs'"
      "log_inv {} ((\<lambda>q. own q + count_list (fetch_pool b) q)(r := own r + count_list (fetch_pool b) r + 1)) (?s\<lparr>fs_items := fs'\<rparr>)"
      "keeps ?s (?s\<lparr>fs_items := fs'\<rparr>)" "journal_queue fs' = journal_queue (fs_items ?s)" by blast
    let ?b = "b\<lparr>ls_log := ?s\<lparr>fs_items := fs'\<rparr>, fetch_pool := fetch_pool b @ [r]\<rparr>"
    have "(\<lambda>q. own q + count_list (fetch_pool b) q)(r := own r + count_list (fetch_pool b) r + 1)
        = (\<lambda>q. own q + count_list (fetch_pool b @ [r]) q)" by (auto simp: fun_eq_iff)
    with f(2) have "log_inv {} (\<lambda>q. own q + count_list (fetch_pool b @ [r]) q) (?s\<lparr>fs_items := fs'\<rparr>)" by simp
    then have "store_inv own ?b" by (rule store_step [OF inv _ f(3)]) (simp_all add: f(4))
    moreover have "bluesky_cloudlog_prefetch env now r b = Some ?b"
      using 2 x(1) f(1) by (simp add: bluesky_cloudlog_prefetch_def bluesky_cloudlog_background_fetch_def store_items_def map_items_def)
    ultimately show ?thesis using f(3) by auto
  next
    case 3
    with x(2) have j: "CLOUDLOG_JOURNAL \<in> location_flags x \<union> pending_write x" by (simp add: known_def)
    then have l: "logged ?s x" using item_invD(2) [OF log_invD(5) [OF log] x(1)] by simp
    from log_touch_ok [OF log x(1) l] obtain s1 where
      s1: "bluesky_cachefile_lookup (-1) (log_seq x) True ?s = (Some (journal_key (log_seq x)), s1)"
      and t: "log_inv {} (\<lambda>r. own r + count_list (fetch_pool b) r) (touch_cachefile now (journal_key (log_seq x)) s1)"
        "keeps ?s (touch_cachefile now (journal_key (log_seq x)) s1)"
        "journal_queue (fs_items (touch_cachefile now (journal_key (log_seq x)) s1)) = journal_queue (fs_items ?s)"
        "committed (touch_cachefile now (journal_key (log_seq x)) s1) = committed ?s" by blast
    let ?b = "b\<lparr>ls_log := touch_cachefile now (journal_key (log_seq x)) s1\<rparr>"
    have "store_inv own ?b" using store_step [OF inv t] by simp
    moreover have "bluesky_cloudlog_prefetch env now r b = Some ?b"
      using 3 x(1) j s1 by (simp add: bluesky_cloudlog_prefetch_def)
    ultimately show ?thesis using t(2) by auto
  qed
qed

lemma store_drop:
  assumes inv: "store_inv own b" and r: "0 < own r"
  shows "\<exists>b'. store_items (log_drop_data r) b = Some b' \<and> store_inv own b' \<and> keeps (ls_log b) (ls_log b')"
proof -
  obtain x where x: "get_item (fs_items (ls_log b)) r = Some x" "location_flags x \<subseteq> {CLOUDLOG_JOURNAL, CLOUDLOG_UNCOMMITTED}"
    by (rule store_live [OF inv r])
  from log_drop_ok [OF store_inv_log [OF inv] x] obtain fs'
    where f: "log_drop_data r (fs_items (ls_log b)) = Some fs'" "log_inv {} (\<lambda>r. own r + count_list (fetch_pool b) r) ((ls_log b)\<lparr>fs_items := fs'\<rparr>)"
      "keeps (ls_log b) ((ls_log b)\<lparr>fs_items := fs'\<rparr>)" "journal_queue fs' = journal_queue (fs_items (ls_log b))" by blast
  have "store_inv own (b\<lparr>ls_log := (ls_log b)\<lparr>fs_items := fs'\<rparr>\<rparr>)" using store_step [OF inv f(2,3)] f(4) by simp
  with f(1,3) show ?thesis by (auto simp: store_items_def map_items_def)
qed

lemma store_unref:
  assumes inv: "store_inv own b" and r: "0 < own r"
  shows "\<exists>b'. store_items (bluesky_cloudlog_unref (Some r)) b = Some b' \<and> store_inv (own(r := own r - 1)) b' \<and> keeps (ls_log b) (ls_log b')"
proof -
  let ?own = "\<lambda>r. own r + count_list (fetch_pool b) r"
  have "0 < ?own r" using r by simp
  from log_unref_ok [OF store_inv_log [OF inv] this] obtain fs'
    where f: "bluesky_cloudlog_unref (Some r) (fs_items (ls_log b)) = Some fs'" "log_inv {} (?own(r := ?own r - 1)) ((ls_log b)\<lparr>fs_items := fs'\<rparr>)"
      "keeps (ls_log b) ((ls_log b)\<lparr>fs_items := fs'\<rparr>)" "journal_queue fs' = journal_queue (fs_items (ls_log b))" by blast
  define own' where "own' = own(r := own r - 1)"
  have "?own(r := ?own r - 1) = (\<lambda>q. own' q + count_list (fetch_pool b) q)" using r by (auto simp: fun_eq_iff own'_def)
  with f(2) have "log_inv {} (\<lambda>q. own' q + count_list (fetch_pool b) q) ((ls_log b)\<lparr>fs_items := fs'\<rparr>)" by simp
  from store_step [OF inv this f(3)] f(4) have "store_inv own' (b\<lparr>ls_log := (ls_log b)\<lparr>fs_items := fs'\<rparr>\<rparr>)" by simp
  with f(1,3) show ?thesis unfolding own'_def [symmetric] by (auto simp: store_items_def map_items_def)
qed

lemma store_new_data:
  assumes inv: "store_inv own b" and d: "length d < 2 ^ 32"
  shows "\<exists>r b'. log_new_data i d b = Some (r, b') \<and> own r = 0 \<and> store_inv (own(r := 2)) b' \<and> store_data b' r = d \<and>
           (\<forall>q. 0 < own q \<longrightarrow> store_data b' q = store_data b q)"
proof -
  let ?s = "ls_log b" and ?own = "\<lambda>r. own r + count_list (fetch_pool b) r"
  define oid r where "oid = ls_ids b (ls_drawn b)" and "r = length (cl_items (fs_items ?s))"
  define c where "c = (new_cloudlog oid)\<lparr>cl_type := LOGTYPE_DATA, cl_inum := i, cl_data := Some d\<rparr>"
  define fs1 where "fs1 = bluesky_cloudlog_stats_update c 1 (set_item r c (snd (bluesky_cloudlog_new oid (fs_items ?s))))"
  have oid: "length oid = 16" using inv by (simp add: store_inv_def oid_def)
  note n = new_item_ok [OF store_inv_log [OF inv] c_def oid d, folded r_def, folded fs1_def]
  let ?s1 = "?s\<lparr>fs_items := fs1\<rparr>"
  have g1: "get_item (fs_items ?s1) r = Some c" using n(3) by simp
  from submit_ok [OF n(1) g1] obtain fs2 where f2: "bluesky_log_item_submit r fs1 = Some fs2"
    "log_inv {} (?own(r := 1)) (?s1\<lparr>fs_items := fs2\<rparr>)" "keeps ?s1 (?s1\<lparr>fs_items := fs2\<rparr>)"
    "journal_queue fs2 = journal_queue fs1 @ [r]"
    by (auto simp: c_def new_cloudlog_def logtype_defs)
  from rc_ok_live [OF log_invD(1) [OF f2(2)], of r] obtain x2 where g2: "get_item (fs_items (?s1\<lparr>fs_items := fs2\<rparr>)) r = Some x2" by auto
  from log_ref_ok [OF f2(2) g2] obtain fs3 where f3: "bluesky_cloudlog_ref (Some r) fs2 = Some fs3"
    "log_inv {} (?own(r := 2)) (?s1\<lparr>fs_items := fs3\<rparr>)" "keeps (?s1\<lparr>fs_items := fs2\<rparr>) (?s1\<lparr>fs_items := fs3\<rparr>)"
    "journal_queue fs3 = journal_queue fs2" by (auto simp: numeral_2_eq_2)
  from rc_ok_live [OF log_invD(1) [OF f3(2)], of r] obtain x3 where g3: "get_item (fs_items (?s1\<lparr>fs_items := fs3\<rparr>)) r = Some x3" by auto
  from log_insert_ok [OF f3(2) g3] obtain fs4 where f4: "bluesky_cloudlog_insert r fs3 = Some fs4"
    "log_inv {} (?own(r := 2)) (?s1\<lparr>fs_items := fs4\<rparr>)" "keeps (?s1\<lparr>fs_items := fs3\<rparr>) (?s1\<lparr>fs_items := fs4\<rparr>)"
    "journal_queue fs4 = journal_queue fs3" by auto
  let ?s4 = "?s\<lparr>fs_items := fs4\<rparr>"
  have k: "keeps ?s1 ?s4" using keeps_trans [OF f2(3) keeps_trans [OF f3(3) f4(3)]] by simp
  have z: "own r = 0" "count_list (fetch_pool b) r = 0" using n(2) by auto
  have jo: "journal_only ?s1"
    unfolding journal_only_def
  proof (intro allI impI)
    fix q y assume "get_item (fs_items ?s1) q = Some y"
    then have "q = r \<and> y = c \<or> get_item (fs_items ?s) q = Some y" using n(3) by (auto split: if_splits)
    moreover have "journal_only ?s" using inv by (simp add: store_inv_def)
    ultimately show "known y \<and> cl_type y \<noteq> LOGTYPE_UNKNOWN \<and> location_flags y \<subseteq> {CLOUDLOG_JOURNAL, CLOUDLOG_UNCOMMITTED}"
      using journal_onlyD by (auto simp: c_def known_def logtype_defs)
  qed
  define own4 where "own4 = own(r := 2)"
  have o: "?own(r := 2) = (\<lambda>q. own4 q + count_list (fetch_pool b) q)"
    using z by (auto simp: fun_eq_iff own4_def)
  let ?b1 = "b\<lparr>ls_log := ?s1\<rparr>" and ?b4 = "b\<lparr>ls_log := ?s4, ls_drawn := Suc (ls_drawn b)\<rparr>"
  have sub: "all_submitted (?s1\<lparr>fs_items := fs2\<rparr>)"
    unfolding all_submitted_def
  proof (intro allI impI)
    fix q y assume y: "get_item (fs_items (?s1\<lparr>fs_items := fs2\<rparr>)) q = Some y"
    show "{CLOUDLOG_JOURNAL, CLOUDLOG_UNCOMMITTED} \<inter> location_flags y \<noteq> {}"
    proof (cases "q = r")
      case True
      with item_invD(4) [OF log_invD(5) [OF f2(2)] y] f2(4) show ?thesis by (auto simp: queued_ok_def)
    next
      case False
      from keepsD [OF f2(3) y] obtain x where x: "get_item (fs_items ?s1) q = Some x" "same_item ?s1 x (?s1\<lparr>fs_items := fs2\<rparr>) y" by blast
      have "get_item (fs_items ?s) q = Some x" using x(1) n(3) False by simp
      moreover have "all_submitted ?s" using inv by (simp add: store_inv_def)
      ultimately show ?thesis using same_item_submitted [OF x(2)] all_submittedD by blast
    qed
  qed
  have b4: "store_inv own4 ?b4"
    using f4(2) [unfolded o] f2(4) f3(4) f4(4) journal_only_keeps [OF jo k] all_submitted_keeps [OF sub keeps_trans [OF f3(3) f4(3)]] inv
    by (simp add: store_inv_def settled_def)
  have dat: "store_data ?b4 q = store_data ?b1 q" if "0 < own4 q" for q
    using store_data_keeps [of ?b1, OF _ b4 _ that] jo k by simp
  have "store_data ?b1 r = d" using n(3) by (simp add: store_data_def item_bytes_def c_def)
  moreover have "store_data ?b4 q = store_data b q" if "0 < own q" for q
  proof -
    have "q \<noteq> r" using that z(1) by auto
    then have "store_data ?b1 q = store_data b q"
      using n(3) by (simp add: store_data_def item_bytes_def split: option.split)
    with dat [of q] that \<open>q \<noteq> r\<close> show ?thesis by (simp add: own4_def)
  qed
  moreover have "log_new_data i d b = Some (r, ?b4)"
    using f2(1) f3(1) f4(1) unfolding log_new_data_def
    by (simp add: oid_def [symmetric] bluesky_cloudlog_new_def r_def [symmetric] c_def [symmetric] Let_def)
      (simp add: fs1_def bluesky_cloudlog_new_def)
  ultimately show ?thesis
    using z(1) b4 dat unfolding own4_def [symmetric]
    by (intro exI [of _ r] exI [of _ ?b4]) (simp add: own4_def)
qed

text \<open>The log provides what the file layer relies on.\<close>

lemma log_backend_laws: "block_backend (log_backend env now results) log_ok log_held log_data"
proof
  fix c r
  assume "log_ok c" "0 < log_held c r"
  then obtain b where b: "c = Some b" "store_inv (log_held c) b" and r: "0 < log_held c r" by (auto elim: log_okE)
  show "\<exists>c'. be_fetch (log_backend env now results) r c = Some (log_data c r, c') \<and> log_ok c' \<and> same_items log_held log_data c c'"
    using store_fetch [OF b(2) r, of env now results] same_items_step [OF b(2)] b(1)
    by (auto simp: log_backend_def log_data_def)
  show "log_ok (be_prefetch (log_backend env now results) r c) \<and> same_items log_held log_data c (be_prefetch (log_backend env now results) r c)"
    using store_prefetch [OF b(2) r, of env now] same_items_step [OF b(2)] b(1) by (auto simp: log_backend_def)
  show "log_ok (be_drop_cached (log_backend env now results) r c) \<and> same_items log_held log_data c (be_drop_cached (log_backend env now results) r c)"
    using store_drop [OF b(2) r] same_items_step [OF b(2)] b(1) by (auto simp: log_backend_def)
  obtain b' where b': "store_items (bluesky_cloudlog_unref (Some r)) b = Some b'"
    "store_inv ((log_held c)(r := log_held c r - 1)) b'" "keeps (ls_log b) (ls_log b')"
    using store_unref [OF b(2) r] by blast
  then have "be_unref (log_backend env now results) r c = Some b'" using b(1) by (simp add: log_backend_def)
  then show "log_ok (be_unref (log_backend env now results) r c) \<and>
      log_held (be_unref (log_backend env now results) r c) = (log_held c)(r := log_held c r - 1) \<and>
      (\<forall>r'. 0 < log_held (be_unref (log_backend env now results) r c) r' \<longrightarrow>
         log_data (be_unref (log_backend env now results) r c) r' = log_data c r')"
    using log_okI [OF b'(2)] store_data_keeps [OF store_inv_only [OF b(2)] b'(2,3)] b(1) by (simp add: log_data_def)
next
  fix c i
  assume "log_ok c"
  then obtain b where b: "c = Some b" "store_inv (log_held c) b" by (rule log_okE)
  have "store_inv (log_held c) (log_mark_modified i b)"
    using b(2) by (simp add: store_inv_def log_mark_modified_def split: prod.split)
  then have "log_ok (Some (log_mark_modified i b)) \<and> same_items log_held log_data (Some b) (Some (log_mark_modified i b))"
    by (rule same_items_step [OF b(2)]) (simp add: log_mark_modified_def split: prod.split)
  then show "log_ok (be_mark_modified (log_backend env now results) i c) \<and>
      same_items log_held log_data c (be_mark_modified (log_backend env now results) i c)"
    using b(1) by (simp add: log_backend_def)
next
  fix c d i r c'
  assume "log_ok c" and d: "length d \<le> BLUESKY_BLOCK_SIZE" and new: "be_new_data (log_backend env now results) i d c = (r, c')"
  then obtain b where b: "c = Some b" "store_inv (log_held c) b" by (auto elim: log_okE)
  have "length d < 2 ^ 32" using d by (simp add: BLUESKY_BLOCK_SIZE_def)
  from store_new_data [OF b(2) this, of i] obtain q b' where q: "log_new_data i d b = Some (q, b')" "log_held c q = 0"
    "store_inv ((log_held c)(q := 2)) b'" "store_data b' q = d" "\<forall>p. 0 < log_held c p \<longrightarrow> store_data b' p = store_data b p" by blast
  with new b(1) have "r = q" "c' = Some b'" by (auto simp: log_backend_def)
  with q(2,4,5) log_okI [OF q(3)] b(1) show "log_ok c' \<and> log_held c r = 0 \<and> log_held c' = (log_held c)(r := 2) \<and> log_data c' r = d \<and>
      (\<forall>r'. 0 < log_held c r' \<longrightarrow> log_data c' r' = log_data c r')"
    by (simp add: log_data_def)
qed

interpretation log_files: block_backend "log_backend env now results" log_ok log_held log_data for env now results
  by (rule log_backend_laws)


section \<open>Files on the log\<close>

text \<open>The rounds of the log thread.\<close>

definition store_run :: "env \<Rightarrow> i64 list \<Rightarrow> log_store \<Rightarrow> log_store option" where
  "store_run env ticks b = map_option (\<lambda>s. b\<lparr>ls_log := s\<rparr>) (log_thread_run env ticks (ls_log b))"

definition queue_length :: "log_store \<Rightarrow> nat" where
  "queue_length b = length (journal_queue (fs_items (ls_log b)))"

text \<open>Once the log thread has emptied its queue, all items are on stable storage.\<close>

lemma store_run_ok:
  assumes inv: "store_inv own b" and n: "length ticks = queue_length b"
  shows "\<exists>b'. store_run env ticks b = Some b' \<and> store_inv own b' \<and> keeps (ls_log b) (ls_log b') \<and> queue_length b' = 0 \<and>
           (\<forall>r c. get_item (fs_items (ls_log b')) r = Some c \<longrightarrow>
              CLOUDLOG_UNCOMMITTED \<notin> location_flags c \<and> CLOUDLOG_JOURNAL \<in> location_flags c \<and> durable (ls_log b') c)"
proof -
  from log_thread_run_ok [OF store_inv_log [OF inv], of ticks env] n inv obtain s'
    where s': "log_thread_run env ticks (ls_log b) = Some s'" "log_inv {} (\<lambda>r. own r + count_list (fetch_pool b) r) s'"
      "keeps (ls_log b) s'" "journal_queue (fs_items s') = []" "committed s' = []"
    by (auto simp: queue_length_def store_inv_def settled_def)
  have sub: "all_submitted s'" using all_submitted_keeps [OF _ s'(3)] inv by (simp add: store_inv_def)
  have "store_inv own (b\<lparr>ls_log := s'\<rparr>)"
    using inv s'(2,5) journal_only_keeps [OF _ s'(3)] sub by (simp add: store_inv_def settled_def)
  moreover have "CLOUDLOG_UNCOMMITTED \<notin> location_flags c \<and> CLOUDLOG_JOURNAL \<in> location_flags c \<and> durable s' c"
    if c: "get_item (fs_items s') r = Some c" for r c
  proof -
    have "waiting s' r c" using item_invD(6) [OF log_invD(5) [OF s'(2)] c] by simp
    then have u: "CLOUDLOG_UNCOMMITTED \<notin> location_flags c" using s'(4,5) by (simp add: waiting_def)
    then have j: "CLOUDLOG_JOURNAL \<in> location_flags c" using all_submittedD [OF sub c] by blast
    with logged_durable [OF item_invD(2) [OF log_invD(5) [OF s'(2)] c] j] u show ?thesis by simp
  qed
  ultimately show ?thesis using s'(1,3,4) by (auto simp: store_run_def queue_length_def)
qed

definition sample_store :: log_store where
  "sample_store = \<lparr>ls_log = bluesky_log_new [], ls_ids = (\<lambda>n. replicate 16 1), ls_drawn = 0, fetch_pool = [],
     unlogged_list = \<lparr>lru_links = [], lru_tail = None, lru_fresh = 0\<rparr>, accessed_list = \<lparr>lru_links = [], lru_tail = None, lru_fresh = 0\<rparr>,
     unlogged_link = Map.empty, accessed_link = Map.empty\<rparr>"

lemma sample_store_inv: "store_inv (\<lambda>r. 0) sample_store"
  using log_new_ok [of "[]"]
  by (simp add: store_inv_def sample_store_def journal_only_def settled_def all_submitted_def bluesky_log_new_def get_item_def)

text \<open>A file of four bytes in a dirty block.\<close>

definition sample_log_file :: "log_store option filestate" where
  "sample_log_file = ((bluesky_new_inode 5 BLUESKY_REGULAR)\<lparr>i_size := 4, i_blocks := [\<lparr>b_type = BLUESKY_BLOCK_DIRTY, b_ref = None, b_dirty = Some [1, 2, 3, 4]\<rparr>]\<rparr>,
     \<lparr>cache_dirty = 1, backing = Some sample_store\<rparr>)"

lemma sample_log_file_wf: "file_wf log_ok log_held log_data 0 sample_log_file"
proof -
  have "log_ok (Some sample_store)" by (rule log_okI(1) [OF sample_store_inv])
  then show ?thesis
    by (simp add: file_wf_def sample_log_file_def blocks_ok_def block_ok_def block_count_def blen_def BLUESKY_BLOCK_SIZE_def BLUESKY_MAX_FILE_SIZE_def
        dirty_count_def block_refs_def List.map_filter_def)
qed

lemma sample_log_file_type: "i_type (fst sample_log_file) = BLUESKY_REGULAR" "i_size (fst sample_log_file) = 4"
  by (simp_all add: sample_log_file_def bluesky_new_inode_def bluesky_init_inode_def file_type_defs)

text \<open>C12: Truncation makes the content of a file longer with zeroes or shorter, and keeps the
  structure of blocks, references and counters.\<close>

theorem file_truncate_resizes:
  assumes "file_wf log_ok log_held log_data k s" "unat sz \<le> BLUESKY_MAX_FILE_SIZE"
  shows "\<exists>s'. bluesky_file_truncate (log_backend env now results) now s sz = Some s' \<and>
           file_wf log_ok log_held log_data k s' \<and> i_size (fst s') = sz \<and>
           file_content log_data s' = resize_zero (unat sz) (file_content log_data s)"
  using log_files.truncate_ok [of k "fst s" "snd s" sz] assms by simp

theorem file_truncate_resizes_witness:
  "\<exists>s'. bluesky_file_truncate (log_backend sample_env 9 []) 9 sample_log_file 40000 = Some s' \<and>
     file_content log_data s' = resize_zero 40000 (file_content log_data sample_log_file)"
proof -
  have "unat (40000 :: u64) \<le> BLUESKY_MAX_FILE_SIZE" by (simp add: BLUESKY_MAX_FILE_SIZE_def BLUESKY_BLOCK_SIZE_def)
  from file_truncate_resizes [OF sample_log_file_wf this, of sample_env 9 "[]"] show ?thesis by auto
qed

text \<open>C11: What a write put into a file is what a read of that range returns, all other bytes of
  the file stay as they were, and no copy runs past the end of a block.\<close>

theorem file_write_then_read:
  assumes "file_wf log_ok log_held log_data k s" "i_type (fst s) = BLUESKY_REGULAR" "d \<noteq> []"
    "unat off + length d \<le> unat (i_size (fst s))"
  shows "\<exists>inode' fs' fs''. bluesky_file_write (log_backend env now results) now s off d = Some (inode', fs') \<and>
           bluesky_file_read (log_backend env now results) (inode', fs') off (length d) = Some (Some d, fs'') \<and>
           file_wf log_ok log_held log_data k (inode', fs'') \<and>
           file_content log_data (inode', fs'') = overwrite (unat off) d (file_content log_data s)"
proof -
  obtain inode fs where s: "s = (inode, fs)" by (cases s)
  have off: "unat off < unat (i_size inode)" using assms(3,4) s by (cases d) auto
  from log_files.write_ok [of k inode fs off d env now results now] assms off s obtain inode' fs'
    where w: "bluesky_file_write (log_backend env now results) now s off d = Some (inode', fs')"
      "file_wf log_ok log_held log_data k (inode', fs')" "i_size inode' = i_size inode"
      "file_content log_data (inode', fs') = overwrite (unat off) d (file_content log_data s)" by auto
  have t: "i_type inode' = BLUESKY_REGULAR" using write_inode(1) [OF w(1)] assms(2) by simp
  from log_files.read_ok [OF w(2) t, of off "length d" env now results] w(3) assms(4) off s obtain fs''
    where r: "bluesky_file_read (log_backend env now results) (inode', fs') off (length d)
        = Some (Some (slice (unat off) (length d) (file_content log_data (inode', fs'))), fs'')"
      "file_wf log_ok log_held log_data k (inode', fs'')" "file_content log_data (inode', fs'') = file_content log_data (inode', fs')" by auto
  have "length (file_content log_data s) = unat (i_size inode)" using s by (simp add: file_content_def)
  then have "slice (unat off) (length d) (overwrite (unat off) d (file_content log_data s)) = d"
    using assms(4) s by (intro slice_overwrite_same) simp
  with w r show ?thesis by auto
qed

theorem file_write_then_read_witness:
  "\<exists>inode' fs' fs''. bluesky_file_write (log_backend sample_env 9 []) 9 sample_log_file 1 [7, 8] = Some (inode', fs') \<and>
     bluesky_file_read (log_backend sample_env 9 []) (inode', fs') 1 2 = Some (Some [7, 8], fs'')"
proof -
  have "unat (1 :: u64) + length [7, 8 :: u8] \<le> unat (i_size (fst sample_log_file))" by (simp add: sample_log_file_type)
  from file_write_then_read [OF sample_log_file_wf sample_log_file_type(1) _ this, of sample_env 9 "[]" ] show ?thesis
    by (simp add: numeral_2_eq_2) blast
qed

text \<open>All data of the file is in committed items of the journal on stable storage.\<close>

definition blocks_on_disk :: "log_store \<Rightarrow> inode \<Rightarrow> bool" where
  "blocks_on_disk b inode \<longleftrightarrow>
     (\<forall>blk\<in>set (i_blocks inode). b_type blk \<noteq> BLUESKY_BLOCK_DIRTY \<and>
        (\<forall>r. b_type blk = BLUESKY_BLOCK_REF \<longrightarrow> b_ref blk = Some r \<longrightarrow>
           (\<exists>c. get_item (fs_items (ls_log b)) r = Some c \<and> CLOUDLOG_UNCOMMITTED \<notin> location_flags c \<and>
                CLOUDLOG_JOURNAL \<in> location_flags c \<and> durable (ls_log b) c)))"

lemma run_file:
  assumes wf: "file_wf log_ok log_held log_data k (inode, \<lparr>cache_dirty = m, backing = Some b\<rparr>)"
    and clean: "dirty_count (i_blocks inode) = 0" and n: "length ticks = queue_length b"
  shows "\<exists>b'. store_run env ticks b = Some b' \<and> blocks_on_disk b' inode \<and>
           file_wf log_ok log_held log_data k (inode, \<lparr>cache_dirty = m, backing = Some b'\<rparr>) \<and>
           file_content log_data (inode, \<lparr>cache_dirty = m, backing = Some b'\<rparr>)
             = file_content log_data (inode, \<lparr>cache_dirty = m, backing = Some b\<rparr>)"
proof -
  have "log_ok (Some b)" using file_wfD(1) [OF wf] by simp
  then have inv: "store_inv (log_held (Some b)) b" by (rule log_okE) simp
  from store_run_ok [OF inv n, of env] obtain b' where run: "store_run env ticks b = Some b'"
    "store_inv (log_held (Some b)) b'" "keeps (ls_log b) (ls_log b')"
    and all: "\<forall>r c. get_item (fs_items (ls_log b')) r = Some c \<longrightarrow>
        CLOUDLOG_UNCOMMITTED \<notin> location_flags c \<and> CLOUDLOG_JOURNAL \<in> location_flags c \<and> durable (ls_log b') c" by blast
  note same = same_items_step [OF inv run(2,3)]
  have kept: "file_wf log_ok log_held log_data k (inode, \<lparr>cache_dirty = m, backing = Some b'\<rparr>)"
    "file_content log_data (inode, \<lparr>cache_dirty = m, backing = Some b'\<rparr>)
       = file_content log_data (inode, \<lparr>cache_dirty = m, backing = Some b\<rparr>)"
    using log_files.file_same(1,2) [OF wf same [THEN conjunct1]] same by simp_all
  have "\<exists>c. get_item (fs_items (ls_log b')) r = Some c"
    if "blk \<in> set (i_blocks inode)" "b_type blk = BLUESKY_BLOCK_REF" "b_ref blk = Some r" for blk r
  proof -
    have "0 < log_held (Some b') r" using file_wf_held [OF kept(1) that(1,2)] that(3) by simp
    then show ?thesis using store_live [OF run(2)] log_okI(2) [OF run(2)] by metis
  qed
  then have "blocks_on_disk b' inode"
    using all clean by (fastforce simp: blocks_on_disk_def dirty_count_def filter_empty_conv)
  with run(1) kept show ?thesis by blast
qed

text \<open>C10: Flushing a file turns all its dirty blocks into log items.  Once the log thread has
  worked off its queue, all of them are committed records on stable storage, and reads give the
  same bytes as before, also after the cached copies have been dropped.\<close>

theorem flushed_file_durable:
  assumes "file_wf log_ok log_held log_data k s" "i_type (fst s) = BLUESKY_REGULAR"
    "unat off + len \<le> unat (i_size (fst s))" "0 < len"
  shows "\<exists>inode b items. bluesky_file_flush (log_backend env now results) s []
             = Some ((inode, \<lparr>cache_dirty = k, backing = Some b\<rparr>), items) \<and>
           length items = dirty_count (i_blocks (fst s)) \<and>
           (\<forall>ticks. length ticks = queue_length b \<longrightarrow>
              (\<exists>b' fs fs'. store_run env ticks b = Some b' \<and> blocks_on_disk b' inode \<and>
                 bluesky_file_drop_cached (log_backend env now results) (inode, \<lparr>cache_dirty = k, backing = Some b'\<rparr>) = Some (inode, fs) \<and>
                 bluesky_file_read (log_backend env now results) (inode, fs) off len
                   = Some (Some (slice (unat off) len (file_content log_data s)), fs')))"
proof -
  let ?be = "log_backend env now results"
  obtain ino fs0 where s: "s = (ino, fs0)" by (cases s)
  from log_files.flush_ok [of k ino fs0 env now results "[]"] assms(1,2) s obtain bs rs fs1
    where f: "bluesky_file_flush ?be s [] = Some ((ino\<lparr>i_blocks := bs\<rparr>, fs1), rs)" "length rs = dirty_count (i_blocks ino)"
      "dirty_count bs = 0" "cache_dirty fs1 = k" "file_wf log_ok log_held log_data k (ino\<lparr>i_blocks := bs\<rparr>, fs1)"
      "file_content log_data (ino\<lparr>i_blocks := bs\<rparr>, fs1) = file_content log_data s" by auto
  let ?ino = "ino\<lparr>i_blocks := bs\<rparr>"
  have "log_ok (backing fs1)" using file_wfD(1) [OF f(5)] by simp
  then obtain b where b: "backing fs1 = Some b" by (rule log_okE)
  have fs1: "fs1 = \<lparr>cache_dirty = k, backing = Some b\<rparr>" using f(4) b by simp
  have "\<exists>b' fs fs'. store_run env ticks b = Some b' \<and> blocks_on_disk b' ?ino \<and>
      bluesky_file_drop_cached ?be (?ino, \<lparr>cache_dirty = k, backing = Some b'\<rparr>) = Some (?ino, fs) \<and>
      bluesky_file_read ?be (?ino, fs) off len = Some (Some (slice (unat off) len (file_content log_data s)), fs')"
    if n: "length ticks = queue_length b" for ticks
  proof -
    from run_file [OF _ _ n, of k ?ino k env] f(3,5) fs1 obtain b' where r: "store_run env ticks b = Some b'" "blocks_on_disk b' ?ino"
      "file_wf log_ok log_held log_data k (?ino, \<lparr>cache_dirty = k, backing = Some b'\<rparr>)"
      "file_content log_data (?ino, \<lparr>cache_dirty = k, backing = Some b'\<rparr>) = file_content log_data s" using f(6) by auto
    from log_files.drop_cached_ok [OF r(3), of env now results] r(4) obtain fs
      where d: "bluesky_file_drop_cached ?be (?ino, \<lparr>cache_dirty = k, backing = Some b'\<rparr>) = Some (?ino, fs)"
        "file_wf log_ok log_held log_data k (?ino, fs)" "file_content log_data (?ino, fs) = file_content log_data s" by auto
    from log_files.read_ok [OF d(2), of off len env now results] assms(2,3,4) s d(3) obtain fs'
      where "bluesky_file_read ?be (?ino, fs) off len = Some (Some (slice (unat off) len (file_content log_data s)), fs')" by auto
    with r(1,2) d(1) show ?thesis by blast
  qed
  with f(1,2) fs1 s show ?thesis by auto
qed

theorem flushed_file_durable_witness:
  "\<exists>inode b r. bluesky_file_flush (log_backend sample_env 9 []) sample_log_file []
      = Some ((inode, \<lparr>cache_dirty = 0, backing = Some b\<rparr>), [r]) \<and>
     (\<exists>b' fs fs'. store_run sample_env (replicate (queue_length b) 9) b = Some b' \<and> blocks_on_disk b' inode \<and>
        bluesky_file_drop_cached (log_backend sample_env 9 []) (inode, \<lparr>cache_dirty = 0, backing = Some b'\<rparr>) = Some (inode, fs) \<and>
        bluesky_file_read (log_backend sample_env 9 []) (inode, fs) 1 2 = Some (Some [2, 3], fs'))"
proof -
  have "unat (1 :: u64) + 2 \<le> unat (i_size (fst sample_log_file))" by (simp add: sample_log_file_type)
  note r = flushed_file_durable [OF sample_log_file_wf sample_log_file_type(1) this, of sample_env 9 "[]", simplified]
  have "dirty_count (i_blocks (fst sample_log_file)) = 1" by (simp add: sample_log_file_def dirty_count_def)
  moreover have "slice 1 2 (file_content log_data sample_log_file) = [2, 3]"
    by (simp add: sample_log_file_def file_content_def content_def block_bytes_def BLUESKY_BLOCK_SIZE_def slice_def upt_conv_Cons)
  ultimately obtain inode b items where b: "bluesky_file_flush (log_backend sample_env 9 []) sample_log_file []
      = Some ((inode, \<lparr>cache_dirty = 0, backing = Some b\<rparr>), items)" "length items = 1"
    "\<forall>ticks. length ticks = queue_length b \<longrightarrow> (\<exists>b' fs fs'. store_run sample_env ticks b = Some b' \<and> blocks_on_disk b' inode \<and>
        bluesky_file_drop_cached (log_backend sample_env 9 []) (inode, \<lparr>cache_dirty = 0, backing = Some b'\<rparr>) = Some (inode, fs) \<and>
        bluesky_file_read (log_backend sample_env 9 []) (inode, fs) 1 2 = Some (Some [2, 3], fs'))"
    using r by auto
  obtain x where "items = [x]" using b(2) by (auto simp: length_Suc_conv)
  with b(1) b(3) [rule_format, of "replicate (queue_length b) 9"] show ?thesis by auto
qed

end
