(* ===== verification/BlueSky_Inode.thy ===== *)
theory BlueSky_Inode
  imports BlueSky_Cloudlog
begin

text \<open>
  The file system as a whole (\<^verbatim>\<open>bluesky/inode.c\<close>): the table of inodes in memory, their
  reference counts, fetching inodes through the inode map, and the writeback of an
  inode to the journal.  The directories, files and the log of the other theories
  come together here.
\<close>


section \<open>State\<close>

text \<open>
  The inodes in memory by number, the count of dirty blocks with the log, the list of
  inodes for the cloud with the links the inodes have in it, the inodes that wait for a
  thread of the fetch pool, the number of flush daemons started, and
  \<^verbatim>\<open>log->journal_watermark\<close>.
\<close>

record fsys =
  sys_inodes :: "u64 \<Rightarrow> inode option"
  sys_cache :: "log_store option fscache"
  sys_dirty :: lru_list
  sys_dirty_link :: "u64 \<Rightarrow> nat option"
  sys_fetching :: "u64 list"
  sys_flushd :: nat
  journal_watermark :: int

text \<open>
  What a request is given from outside: the environment of the log, the time, the
  results of store requests, the search and the case folding of GLib, and the random
  numbers for directory cookies.  The clock is read once.
\<close>

record fsenv =
  fe_log :: env
  fe_now :: i64
  fe_results :: "fetch_result list"
  fe_search :: "u32 gsearch"
  fe_lower :: "bytes \<Rightarrow> bytes"
  fe_draws :: "u32 list"

abbreviation fs_backend :: "fsenv \<Rightarrow> log_store option backend" where
  "fs_backend e \<equiv> log_backend (fe_log e) (fe_now e) (fe_results e)"

text \<open>An operation on the log, and one on an inode in memory.\<close>

definition on_store :: "(log_store \<Rightarrow> log_store option) \<Rightarrow> fsys \<Rightarrow> fsys option" where
  "on_store f s =
     (case backing (sys_cache s) of None \<Rightarrow> None
      | Some b \<Rightarrow> map_option (\<lambda>b. s\<lparr>sys_cache := (sys_cache s)\<lparr>backing := Some b\<rparr>\<rparr>) (f b))"

definition on_items :: "(clfs \<Rightarrow> clfs option) \<Rightarrow> fsys \<Rightarrow> fsys option" where
  "on_items f = on_store (store_items f)"

definition put_inode :: "u64 \<Rightarrow> inode \<Rightarrow> fsys \<Rightarrow> fsys" where
  "put_inode i inode s = s\<lparr>sys_inodes := (sys_inodes s)(i \<mapsto> inode)\<rparr>"

definition on_inode ::
    "u64 \<Rightarrow> (inode \<times> log_store option fscache \<Rightarrow> (inode \<times> log_store option fscache) option) \<Rightarrow> fsys \<Rightarrow> fsys option" where
  "on_inode i f s =
     (case sys_inodes s i of None \<Rightarrow> None
      | Some inode \<Rightarrow>
          (case f (inode, sys_cache s) of None \<Rightarrow> None
           | Some (inode, fc) \<Rightarrow> if backing fc = None then None else Some (put_inode i inode (s\<lparr>sys_cache := fc\<rparr>))))"

definition set_inode :: "u64 \<Rightarrow> (inode \<Rightarrow> inode) \<Rightarrow> fsys \<Rightarrow> fsys option" where
  "set_inode i f = on_inode i (\<lambda>(inode, fc). Some (f inode, fc))"

text \<open>\<^verbatim>\<open>bluesky_inode_update_ctime\<close> of an inode in the table.\<close>

definition touch_inode_ctime :: "fsenv \<Rightarrow> bool \<Rightarrow> u64 \<Rightarrow> fsys \<Rightarrow> fsys option" where
  "touch_inode_ctime e update_mtime i = on_inode i (\<lambda>x. Some (bluesky_inode_update_ctime (fs_backend e) (fe_now e) update_mtime x))"


section \<open>Reference counts and the table of inodes\<close>

definition bluesky_inode_ref :: "u64 \<Rightarrow> fsys \<Rightarrow> fsys option" where
  "bluesky_inode_ref i = set_inode i (\<lambda>inode. inode\<lparr>i_refcount := i_refcount inode + 1\<rparr>)"

text \<open>A dirty block in an inode that is freed is a fatal error.\<close>

fun free_blocks :: "block list \<Rightarrow> clfs \<Rightarrow> clfs option" where
  "free_blocks [] fs = Some fs"
| "free_blocks (b # bs) fs =
     (if b_type b = BLUESKY_BLOCK_DIRTY then None
      else Option.bind (bluesky_cloudlog_unref (b_ref b) fs) (free_blocks bs))"

definition bluesky_inode_free_resources :: "u64 \<Rightarrow> fsys \<Rightarrow> fsys option" where
  "bluesky_inode_free_resources i s =
     (case sys_inodes s i of None \<Rightarrow> None
      | Some inode \<Rightarrow>
          if i_type inode = BLUESKY_REGULAR then
            map_option (put_inode i (inode\<lparr>i_blocks := []\<rparr>)) (on_items (free_blocks (i_blocks inode)) s)
          else if i_type inode = BLUESKY_DIRECTORY then Some (put_inode i (inode\<lparr>i_dir := None\<rparr>) s)
          else if i_type inode = BLUESKY_SYMLINK then Some (put_inode i (inode\<lparr>symlink_contents := None\<rparr>) s)
          else Some s)"

definition unlink_accessed :: "u64 \<Rightarrow> log_store \<Rightarrow> log_store" where
  "unlink_accessed i b = b\<lparr>accessed_list := bluesky_list_unlink (accessed_list b) (accessed_link b i),
     accessed_link := (accessed_link b)(i := None)\<rparr>"

definition unlink_unlogged :: "u64 \<Rightarrow> log_store \<Rightarrow> log_store" where
  "unlink_unlogged i b = b\<lparr>unlogged_list := bluesky_list_unlink (unlogged_list b) (unlogged_link b i),
     unlogged_link := (unlogged_link b)(i := None)\<rparr>"

definition front_accessed :: "u64 \<Rightarrow> log_store \<Rightarrow> log_store" where
  "front_accessed i b =
     (let (l, n) = bluesky_list_prepend (bluesky_list_unlink (accessed_list b) (accessed_link b i)) i
      in b\<lparr>accessed_list := l, accessed_link := (accessed_link b)(i \<mapsto> n)\<rparr>)"

definition unlink_dirty :: "u64 \<Rightarrow> fsys \<Rightarrow> fsys" where
  "unlink_dirty i s = s\<lparr>sys_dirty := bluesky_list_unlink (sys_dirty s) (sys_dirty_link s i),
     sys_dirty_link := (sys_dirty_link s)(i := None)\<rparr>"

text \<open>The last reference frees the inode; its links in the lists are gone with it.\<close>

definition bluesky_inode_unref :: "u64 \<Rightarrow> fsys \<Rightarrow> fsys option" where
  "bluesky_inode_unref i s =
     (case sys_inodes s i of None \<Rightarrow> None
      | Some inode \<Rightarrow>
          let s = put_inode i (inode\<lparr>i_refcount := i_refcount inode - 1\<rparr>) s in
          if i_refcount inode - 1 \<noteq> 0 then Some s
          else
            map_option (\<lambda>s. s\<lparr>sys_inodes := (sys_inodes s)(i := None)\<rparr>)
              (Option.bind (on_store (\<lambda>b. Some (unlink_unlogged i (unlink_accessed i b))) (unlink_dirty i s))
                 (bluesky_inode_free_resources i)))"

definition bluesky_fs_alloc_inode :: "fsys \<Rightarrow> (u64 \<times> fsys) option" where
  "bluesky_fs_alloc_inode s =
     (case backing (sys_cache s) of None \<Rightarrow> None
      | Some b \<Rightarrow>
          let inum = next_inum (ls_log b); b = b\<lparr>ls_log := (ls_log b)\<lparr>next_inum := inum + 1\<rparr>\<rparr>
          in Some (inum, s\<lparr>sys_cache := (sys_cache s)\<lparr>backing := Some b\<rparr>\<rparr>))"

definition bluesky_insert_inode :: "inode \<Rightarrow> fsys \<Rightarrow> fsys" where
  "bluesky_insert_inode inode s = put_inode (i_inum inode) inode s"


section \<open>Getting inodes\<close>

text \<open>A lookup in the inode map that creates nothing.\<close>

definition find_entry :: "fsenv \<Rightarrow> u64 \<Rightarrow> log_store \<Rightarrow> imap_entry option" where
  "find_entry e inum b =
     (case bluesky_inode_map_lookup (seq_search (fe_log e)) (inode_map (ls_log b)) inum 0 (fs_items (ls_log b)) of
        Some (Some entry, imap, fs) \<Rightarrow> Some entry | _ \<Rightarrow> None)"

definition bluesky_inode_prefetch :: "fsenv \<Rightarrow> u64 \<Rightarrow> fsys \<Rightarrow> fsys option" where
  "bluesky_inode_prefetch e inum s =
     (if sys_inodes s inum \<noteq> None then Some s
      else on_store (\<lambda>b.
        case find_entry e inum b of None \<Rightarrow> Some b
        | Some entry \<Rightarrow> Option.bind (e_item entry) (\<lambda>r. bluesky_cloudlog_prefetch (fe_log e) (fe_now e) r b)) s)"

text \<open>
  The new inode stays locked until the fetch is complete.  It has two references: of the
  table and of the fetch.
\<close>

definition bluesky_inode_fetch :: "fsenv \<Rightarrow> u64 \<Rightarrow> fsys \<Rightarrow> fsys option" where
  "bluesky_inode_fetch e inum s =
     (case backing (sys_cache s) of None \<Rightarrow> None
      | Some b \<Rightarrow>
          (case find_entry e inum b of None \<Rightarrow> Some s
           | Some entry \<Rightarrow>
               let inode = (bluesky_new_inode inum BLUESKY_PENDING)\<lparr>change_count := 0, i_refcount := 2, committed_item := e_item entry\<rparr>
               in map_option (\<lambda>s. (bluesky_insert_inode inode s)\<lparr>sys_fetching := sys_fetching s @ [inum]\<rparr>)
                    (on_items (bluesky_cloudlog_ref (e_item entry)) s)))"

text \<open>The result is whether there is such an inode; its reference count is one higher then.\<close>

definition bluesky_get_inode :: "fsenv \<Rightarrow> u64 \<Rightarrow> fsys \<Rightarrow> (bool \<times> fsys) option" where
  "bluesky_get_inode e inum s =
     (if inum = 0 then Some (False, s)
      else
        Option.bind (if sys_inodes s inum = None then bluesky_inode_fetch e inum s else Some s) (\<lambda>s.
        if sys_inodes s inum = None then Some (False, s)
        else Option.bind (bluesky_inode_ref inum s) (\<lambda>s.
             map_option (Pair True) (set_inode inum (\<lambda>inode. inode\<lparr>access_time := fe_now e\<rparr>) s))))"

text \<open>
  The work of a thread of the fetch pool.  An item that is not a serialized inode leaves
  the inode as it is, with the type \<^verbatim>\<open>BLUESKY_PENDING\<close>.
\<close>

definition load_inode :: "fsenv \<Rightarrow> u64 \<Rightarrow> ref \<Rightarrow> fsys \<Rightarrow> fsys option" where
  "load_inode e i r s =
     (case (sys_inodes s i, backing (sys_cache s)) of
        (Some inode, Some b) \<Rightarrow>
          (case get_item (fs_items (ls_log b)) r of None \<Rightarrow> None
           | Some item \<Rightarrow>
               (case bluesky_deserialize_inode (fe_search e) (fe_lower e) inode item (fs_items (ls_log b)) of None \<Rightarrow> None
                | Some (inode, fs, ok) \<Rightarrow> map_option (put_inode i inode) (on_items (\<lambda>_. Some fs) s)))
      | _ \<Rightarrow> None)"

definition inode_fetch_task :: "fsenv \<Rightarrow> u64 \<Rightarrow> fsys \<Rightarrow> fsys option" where
  "inode_fetch_task e i s =
     (case Option.bind (sys_inodes s i) committed_item of None \<Rightarrow> None
      | Some r \<Rightarrow>
          Option.bind (set_inode i (\<lambda>inode. inode\<lparr>committed_item := None\<rparr>) s) (\<lambda>s.
          Option.bind (on_store (\<lambda>b. map_option snd (log_fetch (fe_log e) (fe_now e) (fe_results e) r b)) s) (\<lambda>s.
          Option.bind (load_inode e i r s) (\<lambda>s.
          Option.bind (set_inode i (\<lambda>inode. inode\<lparr>access_time := fe_now e\<rparr>) s) (\<lambda>s.
          Option.bind (on_store (\<lambda>b. Some (front_accessed i b)) s) (\<lambda>s.
          Option.bind (on_items (bluesky_cloudlog_unref (Some r)) s)
            (bluesky_inode_unref i)))))))"

text \<open>Locking an inode waits for the end of its fetch, which is run here.\<close>

definition lock_inode :: "fsenv \<Rightarrow> u64 \<Rightarrow> fsys \<Rightarrow> fsys option" where
  "lock_inode e i s =
     (if i \<in> set (sys_fetching s)
      then inode_fetch_task e i (s\<lparr>sys_fetching := remove1 i (sys_fetching s)\<rparr>) else Some s)"


section \<open>Writeback\<close>

text \<open>
  \<^verbatim>\<open>bluesky_log_finish_all\<close> with the rounds of the log thread that run while it waits;
  \<open>fuel\<close> bounds their number.  The queue gets shorter with every round, so that its
  length is enough.
\<close>

fun wait_finished :: "nat \<Rightarrow> env \<Rightarrow> i64 \<Rightarrow> ref list \<Rightarrow> lfs \<Rightarrow> lfs option" where
  "wait_finished fuel env now rs s =
     (case bluesky_log_finish_all rs (fs_items s) of
        None \<Rightarrow> None
      | Some ([], fs) \<Rightarrow> Some (s\<lparr>fs_items := fs\<rparr>)
      | Some (r # rs, fs) \<Rightarrow>
          (case fuel of 0 \<Rightarrow> None
           | Suc n \<Rightarrow> Option.bind (log_thread_step env now (s\<lparr>fs_items := fs\<rparr>)) (wait_finished n env now (r # rs))))"

declare wait_finished.simps [simp del]

definition finish_items :: "fsenv \<Rightarrow> ref list \<Rightarrow> log_store \<Rightarrow> log_store option" where
  "finish_items e rs b =
     map_option (\<lambda>s. b\<lparr>ls_log := s\<rparr>) (wait_finished (queue_length b) (fe_log e) (fe_now e) rs (ls_log b))"

text \<open>The item of the inode, with the identifier drawn for it.\<close>

definition serialize_to_store :: "inode \<Rightarrow> log_store \<Rightarrow> (ref \<times> log_store) option" where
  "serialize_to_store inode b =
     map_option (\<lambda>(r, fs). (r, b\<lparr>ls_log := (ls_log b)\<lparr>fs_items := fs\<rparr>, ls_drawn := Suc (ls_drawn b)\<rparr>))
       (bluesky_serialize_inode (ls_ids b (ls_drawn b)) inode (fs_items (ls_log b)))"

text \<open>The new item of an inode takes the place of the last one and is submitted to the journal.\<close>

definition submit_inode :: "inode \<Rightarrow> log_store \<Rightarrow> (ref \<times> log_store) option" where
  "submit_inode inode b =
     Option.bind (serialize_to_store inode b) (\<lambda>(r, b).
     Option.bind (store_items (bluesky_cloudlog_unref (committed_item inode)) b) (\<lambda>b.
     Option.bind (store_items (bluesky_log_item_submit r) b) (\<lambda>b.
     map_option (Pair r) (store_items (bluesky_cloudlog_ref (Some r)) b))))"

definition mark_clean :: "u64 \<Rightarrow> fsys \<Rightarrow> fsys option" where
  "mark_clean i s =
     Option.bind (set_inode i (\<lambda>inode. inode\<lparr>change_commit := change_count inode, change_time := 0\<rparr>) s) (\<lambda>s.
     Option.bind (on_store (\<lambda>b. Some (unlink_unlogged i b)) s) (\<lambda>s.
     let (l, n) = bluesky_list_prepend (bluesky_list_unlink (sys_dirty s) (sys_dirty_link s i)) i;
         s = s\<lparr>sys_dirty := l, sys_dirty_link := (sys_dirty_link s)(i \<mapsto> n)\<rparr>
     in set_inode i (\<lambda>inode. inode\<lparr>change_cloud := change_count inode\<rparr>) s))"

definition bluesky_inode_start_sync :: "fsenv \<Rightarrow> u64 \<Rightarrow> fsys \<Rightarrow> fsys option" where
  "bluesky_inode_start_sync e i s =
     (case sys_inodes s i of None \<Rightarrow> None
      | Some inode \<Rightarrow>
          (case (if i_type inode = BLUESKY_REGULAR
                 then bluesky_file_flush (fs_backend e) (inode, sys_cache s) [] else Some ((inode, sys_cache s), [])) of
             None \<Rightarrow> None
           | Some ((inode, fc), log_items) \<Rightarrow>
               Option.bind (backing fc) (\<lambda>b.
               Option.bind (submit_inode inode b) (\<lambda>(r, b).
               Option.bind (finish_items e (r # log_items) b) (\<lambda>b.
               mark_clean i (put_inode i (inode\<lparr>committed_item := Some r\<rparr>) (s\<lparr>sys_cache := fc\<lparr>backing := Some b\<rparr>\<rparr>)))))))"

definition bluesky_inode_do_sync :: "fsenv \<Rightarrow> u64 \<Rightarrow> fsys \<Rightarrow> fsys option" where
  "bluesky_inode_do_sync e i s = bluesky_inode_start_sync e i s"


section \<open>A new file system\<close>

definition empty_list :: lru_list where
  "empty_list = \<lparr>lru_links = [], lru_tail = None, lru_fresh = 0\<rparr>"

text \<open>\<open>ids\<close> are the identifiers that are drawn for items, \<open>files\<close> those in the journal directory.\<close>

definition bluesky_new_fs :: "(nat \<Rightarrow> bytes) \<Rightarrow> (logkey \<times> bytes) list \<Rightarrow> fsys" where
  "bluesky_new_fs ids files =
     \<lparr>sys_inodes = Map.empty,
      sys_cache = \<lparr>cache_dirty = 0, backing = Some
        \<lparr>ls_log = (bluesky_log_new files)\<lparr>next_inum := BLUESKY_ROOT_INUM + 1, latest_cleaner_seq_seen := -1\<rparr>,
         ls_ids = ids, ls_drawn = 0, fetch_pool = [], unlogged_list = empty_list, accessed_list = empty_list,
         unlogged_link = Map.empty, accessed_link = Map.empty\<rparr>\<rparr>,
      sys_dirty = empty_list, sys_dirty_link = Map.empty, sys_fetching = [], sys_flushd = 0, journal_watermark = 0\<rparr>"

text \<open>The part of \<^verbatim>\<open>bluesky_init_fs\<close> for a store without a checkpoint: a new root directory.\<close>

definition root_inode :: inode where
  "root_inode = (bluesky_new_inode BLUESKY_ROOT_INUM BLUESKY_DIRECTORY)\<lparr>i_nlink := 1, i_mode := 493\<rparr>"

definition init_fresh_fs :: "fsenv \<Rightarrow> (nat \<Rightarrow> bytes) \<Rightarrow> (logkey \<times> bytes) list \<Rightarrow> fsys option" where
  "init_fresh_fs e ids files =
     Option.bind (touch_inode_ctime e True BLUESKY_ROOT_INUM (bluesky_insert_inode root_inode (bluesky_new_fs ids files)))
       (bluesky_inode_do_sync e BLUESKY_ROOT_INUM)"

end
