(* ===== verification/BlueSky_Cloud.thy ===== *)
theory BlueSky_Cloud
  imports BlueSky_Inode
begin

text \<open>
  Writing log items to the cloud (\<^verbatim>\<open>bluesky/cloudlog.c\<close>): items are appended to the current
  segment after the items they link to, and full segments are encrypted and uploaded in
  the background.
\<close>


section \<open>Segments\<close>

definition cloudlog_concurrent_uploads :: int where "cloudlog_concurrent_uploads = 32"

text \<open>
  From outside: the initialisation vectors drawn for the items of a segment, and the bytes
  that the stack holds where \<^verbatim>\<open>bluesky_cloudlog_serialize\<close> leaves header fields as they are
  (at an offset of the segment).
\<close>

record cloudenv =
  cw_ivs :: "logkey \<Rightarrow> nat \<Rightarrow> bytes"
  cw_stack :: "nat \<Rightarrow> bytes"

definition upd_segment :: "logkey \<Rightarrow> (segment \<Rightarrow> segment) \<Rightarrow> lfs \<Rightarrow> lfs" where
  "upd_segment k f s = s\<lparr>pending_segments := map (\<lambda>g. if sg_key g = k then f g else g) (pending_segments s)\<rparr>"

definition find_segment :: "logkey \<Rightarrow> lfs \<Rightarrow> segment option" where
  "find_segment k s = List.find (\<lambda>g. sg_key g = k) (pending_segments s)"

text \<open>The loop of \<^verbatim>\<open>cloudlog_flush_complete\<close> over the items of the segment.\<close>

fun complete_items :: "ref list \<Rightarrow> clfs \<Rightarrow> clfs option" where
  "complete_items [] fs = Some fs"
| "complete_items (r # rs) fs =
     (case get_item fs r of None \<Rightarrow> None
      | Some c \<Rightarrow>
          let fs = bluesky_cloudlog_stats_update c (-1) fs;
              c = c\<lparr>pending_write := pending_write c - {CLOUDLOG_CLOUD}, location_flags := insert CLOUDLOG_CLOUD (location_flags c)\<rparr>;
              fs = bluesky_cloudlog_stats_update c 1 (set_item r c fs)
          in Option.bind (bluesky_cloudlog_unref (Some r) fs) (complete_items rs))"

text \<open>A write that failed is submitted again and leaves the state as it is.\<close>

definition cloudlog_flush_complete :: "int \<Rightarrow> logkey \<Rightarrow> lfs \<Rightarrow> lfs option" where
  "cloudlog_flush_complete result k s =
     (case find_segment k s of None \<Rightarrow> None
      | Some g \<Rightarrow>
          if result < 0 then Some s
          else map_option (\<lambda>s. (upd_segment k (\<lambda>g. g\<lparr>sg_items := [], sg_data := None, sg_complete := True\<rparr>) s)
                                 \<lparr>uploads_pending := uploads_pending s - 1\<rparr>)
                 (map_items (complete_items (sg_items g)) s))"

text \<open>The data that goes to the store is that of the segment, encrypted.\<close>

definition cloud_flush_background :: "cloudenv \<Rightarrow> env \<Rightarrow> logkey \<Rightarrow> lfs \<Rightarrow> lfs option" where
  "cloud_flush_background cw env k s =
     (case Option.bind (find_segment k s) sg_raw of None \<Rightarrow> None
      | Some raw \<Rightarrow>
          map_option (\<lambda>data. upd_segment k (\<lambda>g. g\<lparr>sg_data := Some data, sg_raw := None\<rparr>) s)
            (bluesky_cloudlog_encrypt (env_crypt env) (disable_crypto env) (cw_ivs cw k) (fs_keys env) raw))"

definition upload_segment :: "cloudenv \<Rightarrow> env \<Rightarrow> logkey \<Rightarrow> lfs \<Rightarrow> lfs option" where
  "upload_segment cw env k s = Option.bind (cloud_flush_background cw env k s) (cloudlog_flush_complete 0 k)"

text \<open>
  Waiting for uploads to complete, the oldest first; \<open>None\<close> when the condition does not
  come true.
\<close>

fun await_uploads :: "cloudenv \<Rightarrow> env \<Rightarrow> logkey list \<Rightarrow> lfs \<Rightarrow> lfs option" where
  "await_uploads cw env ks s =
     (if uploads_pending s \<le> cloudlog_concurrent_uploads then Some s
      else case ks of [] \<Rightarrow> None | k # ks \<Rightarrow> Option.bind (upload_segment cw env k s) (await_uploads cw env ks))"

declare await_uploads.simps [simp del]

definition running_uploads :: "lfs \<Rightarrow> logkey list" where
  "running_uploads s = rev (map sg_key (filter (\<lambda>g. \<not> sg_complete g) (pending_segments s)))"

definition segment_key :: "cloudptr \<Rightarrow> logkey" where
  "segment_key p = (sint (cp_directory p), sint (cp_sequence p))"

definition bluesky_cloudlog_flush :: "cloudenv \<Rightarrow> env \<Rightarrow> lfs \<Rightarrow> lfs option" where
  "bluesky_cloudlog_flush cw env s =
     (if seg_data s = [] then Some s
      else
        map_option (\<lambda>s.
          s\<lparr>uploads_pending := uploads_pending s + 1,
            pending_segments := \<lparr>sg_key = segment_key (seg_location s), sg_raw = Some (seg_data s), sg_data = None,
                                 sg_items = writeback_list s, sg_complete = False\<rparr> # pending_segments s,
            writeback_list := [],
            seg_location := (seg_location s)\<lparr>cp_sequence := cp_sequence (seg_location s) + 1, cp_offset := 0\<rparr>,
            seg_data := []\<rparr>)
          (await_uploads cw env (running_uploads s) s))"


section \<open>Items\<close>

definition cloud_header :: "bytes \<Rightarrow> cloudlog \<Rightarrow> bytes \<Rightarrow> bytes \<Rightarrow> bytes \<Rightarrow> cloudlog_header" where
  "cloud_header stack c d1 d2 d3 =
     \<lparr>ch_magic = CLOUDLOG_MAGIC, crypt_auth = take 32 stack, crypt_iv = take 16 (drop 32 stack),
      ch_type = word_of_int (cl_type c + 48), ch_id = cl_id c, ch_inum = cl_inum c,
      ch_size1 = of_nat (length d1), ch_size2 = of_nat (length d2), ch_size3 = of_nat (length d3)\<rparr>"

definition cloud_record :: "bytes \<Rightarrow> cloudlog \<Rightarrow> bytes \<times> bytes \<times> bytes \<Rightarrow> bytes" where
  "cloud_record stack c d = (case d of (d1, d2, d3) \<Rightarrow> cloudlog_header_bytes (cloud_header stack c d1 d2 d3) @ d1 @ d2 @ d3)"

text \<open>An inode that was written becomes the one of the inode map.\<close>

definition map_inode :: "env \<Rightarrow> ref \<Rightarrow> u64 \<Rightarrow> lfs \<Rightarrow> lfs option" where
  "map_inode env r inum s =
     (case bluesky_inode_map_lookup (seq_search env) (inode_map s) inum 1 (fs_items s) of
        Some (Some entry, imap, fs) \<Rightarrow>
          map_option (\<lambda>fs. s\<lparr>inode_map := set_entry_item inum (Some r) imap, fs_items := fs\<rparr>)
            (bluesky_cloudlog_ref (Some r) (bluesky_cloudlog_unref_delayed (e_item entry) fs))
      | _ \<Rightarrow> None)"

text \<open>The part of \<^verbatim>\<open>bluesky_cloudlog_serialize\<close> after the items linked to.\<close>

definition append_item :: "cloudenv \<Rightarrow> ref \<Rightarrow> cloudlog \<Rightarrow> bytes \<times> bytes \<times> bytes \<Rightarrow> lfs \<Rightarrow> cloudlog \<times> lfs" where
  "append_item cw r c d s =
     (let rec = cloud_record (cw_stack cw (length (seg_data s))) c d;
          c = c\<lparr>cl_location := (seg_location s)\<lparr>cp_offset := of_nat (length (seg_data s)), cp_size := of_nat (length rec)\<rparr>,
                data_size := int (length (fst d))\<rparr>
      in (c, s\<lparr>fs_items := set_item r c (fs_items s), seg_data := seg_data s @ rec\<rparr>))"

definition finish_item :: "ref \<Rightarrow> lfs \<Rightarrow> lfs option" where
  "finish_item r s =
     (case get_item (fs_items s) r of None \<Rightarrow> None
      | Some c \<Rightarrow>
          let c = c\<lparr>pending_write := insert CLOUDLOG_CLOUD (pending_write c)\<rparr>;
              s = s\<lparr>fs_items := bluesky_cloudlog_stats_update c 1 (set_item r c (fs_items s)), writeback_list := r # writeback_list s\<rparr>
          in map_items (bluesky_cloudlog_ref (Some r)) s)"

definition write_cloud_item :: "cloudenv \<Rightarrow> fsenv \<Rightarrow> ref \<Rightarrow> lfs \<Rightarrow> lfs option" where
  "write_cloud_item cw e r s =
     Option.bind (bluesky_cloudlog_fetch (fe_log e) (fe_now e) (fe_results e) r s) (\<lambda>s.
     Option.bind (get_item (fs_items s) r) (\<lambda>c.
     let s = s\<lparr>fs_items := bluesky_cloudlog_stats_update c (-1) (fs_items s)\<rparr> in
     Option.bind (bluesky_serialize_cloudlog c (fs_items s)) (\<lambda>d.
     let (c, s) = append_item cw r c d s in
     Option.bind (if cl_type c = LOGTYPE_INODE then map_inode (fe_log e) r (cl_inum c) s else Some s) (\<lambda>s.
     Option.bind (finish_item r s) (\<lambda>s.
     if length (seg_data s) > CLOUDLOG_SEGMENT_SIZE \<or> disable_aggregation (fe_log e)
     then bluesky_cloudlog_flush cw (fe_log e) s else Some s)))))"

text \<open>
  The recursion of \<^verbatim>\<open>bluesky_cloudlog_serialize\<close> over the links; \<open>fuel\<close> bounds the depth.
\<close>

fun serialize_linked :: "(ref \<Rightarrow> lfs \<Rightarrow> lfs option) \<Rightarrow> ref option list \<Rightarrow> lfs \<Rightarrow> lfs option" where
  "serialize_linked f [] s = Some s"
| "serialize_linked f (None # ps) s = serialize_linked f ps s"
| "serialize_linked f (Some r # ps) s = Option.bind (f r s) (serialize_linked f ps)"

fun cloudlog_serialize :: "nat \<Rightarrow> cloudenv \<Rightarrow> fsenv \<Rightarrow> ref \<Rightarrow> lfs \<Rightarrow> lfs option" where
  "cloudlog_serialize 0 cw e r s = None"
| "cloudlog_serialize (Suc n) cw e r s =
     (case get_item (fs_items s) r of None \<Rightarrow> None
      | Some c \<Rightarrow>
          if CLOUDLOG_CLOUD \<in> location_flags c \<union> pending_write c then Some s
          else Option.bind (serialize_linked (cloudlog_serialize n cw e) (cl_links c) s) (write_cloud_item cw e r))"

text \<open>A chain of links is not longer than the number of items.\<close>

definition bluesky_cloudlog_serialize :: "cloudenv \<Rightarrow> fsenv \<Rightarrow> ref \<Rightarrow> lfs \<Rightarrow> lfs option" where
  "bluesky_cloudlog_serialize cw e r s = cloudlog_serialize (Suc (length (cl_items (fs_items s)))) cw e r s"

end
