(* ===== verification/BlueSky_Cache.thy ===== *)
theory BlueSky_Cache
  imports BlueSky_Cloud
begin

text \<open>
  The flush daemon (\<^verbatim>\<open>bluesky/cache.c\<close>): writeback of inodes to the journal and to the
  cloud, dropping of cached data, removal of cache files, and the delay of writers when
  there is too much dirty data.
\<close>


section \<open>Dirty inodes\<close>

definition WRITEBACK_DELAY :: u64 where "WRITEBACK_DELAY = 20 * 1000000"
definition CACHE_DROP_DELAY :: u64 where "CACHE_DROP_DELAY = 20 * 1000000"

definition bluesky_watermark_low_dirty :: int where "bluesky_watermark_low_dirty = 64 * 2 ^ 20 div 32768"
definition bluesky_watermark_medium_dirty :: int where "bluesky_watermark_medium_dirty = 96 * 2 ^ 20 div 32768"
definition bluesky_watermark_med2_dirty :: int where "bluesky_watermark_med2_dirty = 160 * 2 ^ 20 div 32768"
definition bluesky_watermark_high_dirty :: int where "bluesky_watermark_high_dirty = 192 * 2 ^ 20 div 32768"

definition flushd_dirty_inode :: "fsenv \<Rightarrow> u64 \<Rightarrow> fsys \<Rightarrow> fsys option" where
  "flushd_dirty_inode e i s =
     Option.bind (on_store (\<lambda>b. Some (unlink_unlogged i b)) s) (\<lambda>s.
     case sys_inodes s i of None \<Rightarrow> None
     | Some inode \<Rightarrow> if change_count inode = change_commit inode then Some s else bluesky_inode_start_sync e i s)"

text \<open>The loop of \<^verbatim>\<open>flushd_dirty\<close>; the inode is the one that was changed the longest time ago.\<close>

definition flush_oldest :: "fsenv \<Rightarrow> u64 \<Rightarrow> fsys \<Rightarrow> fsys option" where
  "flush_oldest e i s =
     Option.bind (bluesky_inode_ref i s) (\<lambda>s.
     Option.bind (lock_inode e i s) (\<lambda>s.
     Option.bind (flushd_dirty_inode e i s) (bluesky_inode_unref i)))"

definition flush_due :: "i64 \<Rightarrow> fsenv \<Rightarrow> inode \<Rightarrow> fsys \<Rightarrow> bool" where
  "flush_due start_time e inode s \<longleftrightarrow>
     \<not> (cache_dirty (sys_cache s) < bluesky_watermark_low_dirty \<and> fe_now e - change_time inode < WRITEBACK_DELAY) \<and>
     \<not> sint (change_time inode) > sint start_time"

partial_function (option) flushd_dirty_loop :: "i64 \<Rightarrow> fsenv \<Rightarrow> fsys \<Rightarrow> fsys option" where
  "flushd_dirty_loop start_time e s =
     Option.bind (backing (sys_cache s)) (\<lambda>b.
     case bluesky_list_tail (unlogged_list b) of None \<Rightarrow> Some s
     | Some i \<Rightarrow>
         Option.bind (sys_inodes s i) (\<lambda>inode.
         if flush_due start_time e inode s then Option.bind (flush_oldest e i s) (flushd_dirty_loop start_time e) else Some s))"

definition flushd_dirty :: "fsenv \<Rightarrow> fsys \<Rightarrow> fsys option" where
  "flushd_dirty e s = flushd_dirty_loop (fe_now e) e s"


section \<open>Writing to the cloud\<close>

text \<open>
  The loop of \<^verbatim>\<open>flushd_cloud\<close> over the list of inodes; every round takes one off the list,
  so as many rounds as it is long are enough.
\<close>

definition on_log :: "(lfs \<Rightarrow> lfs option) \<Rightarrow> fsys \<Rightarrow> fsys option" where
  "on_log f = on_store (\<lambda>b. map_option (\<lambda>s. b\<lparr>ls_log := s\<rparr>) (f (ls_log b)))"

definition cloud_inode :: "cloudenv \<Rightarrow> fsenv \<Rightarrow> u64 \<Rightarrow> fsys \<Rightarrow> fsys option" where
  "cloud_inode cw e i s =
     Option.bind (bluesky_inode_ref i s) (\<lambda>s.
     Option.bind (lock_inode e i s) (\<lambda>s.
     Option.bind (sys_inodes s i) (\<lambda>inode.
     if change_cloud inode \<noteq> change_commit inode then None
     else
       Option.bind (set_inode i (\<lambda>inode. inode\<lparr>committed_item := None\<rparr>) (unlink_dirty i s)) (\<lambda>s.
       Option.bind (case committed_item inode of None \<Rightarrow> Some s
                    | Some r \<Rightarrow> on_log (bluesky_cloudlog_serialize cw e r) s) (\<lambda>s.
       Option.bind (bluesky_inode_unref i s)
         (on_items (bluesky_cloudlog_unref (committed_item inode))))))))"

fun cloud_inodes :: "nat \<Rightarrow> cloudenv \<Rightarrow> fsenv \<Rightarrow> fsys \<Rightarrow> fsys option" where
  "cloud_inodes fuel cw e s =
     (case bluesky_list_tail (sys_dirty s) of None \<Rightarrow> Some s
      | Some i \<Rightarrow> (case fuel of 0 \<Rightarrow> None | Suc n \<Rightarrow> Option.bind (cloud_inode cw e i s) (cloud_inodes n cw e)))"

declare cloud_inodes.simps [simp del]

text \<open>The record of the inode map that is written, if it changed.\<close>

definition cloud_inode_map :: "cloudenv \<Rightarrow> fsenv \<Rightarrow> log_store \<Rightarrow> (ref option \<times> log_store) option" where
  "cloud_inode_map cw e b =
     (let s = ls_log b; n = length (inode_map s) in
      case bluesky_inode_map_serialize (\<lambda>i. ls_ids b (ls_drawn b + i)) (latest_cleaner_seq_seen s) (inode_map s) (fs_items s) of
        None \<Rightarrow> None
      | Some (commit, imap, fs) \<Rightarrow>
          let b = b\<lparr>ls_log := s\<lparr>inode_map := imap, fs_items := fs\<rparr>, ls_drawn := ls_drawn b + Suc n\<rparr>
          in (case commit of None \<Rightarrow> Some (None, b)
              | Some r \<Rightarrow> map_option (\<lambda>s. (Some r, b\<lparr>ls_log := s\<rparr>)) (bluesky_cloudlog_serialize cw e r (ls_log b))))"

text \<open>The wait for the segments, the newest first; each is removed from the list when it is complete.\<close>

fun finish_segments :: "nat \<Rightarrow> cloudenv \<Rightarrow> env \<Rightarrow> lfs \<Rightarrow> lfs option" where
  "finish_segments fuel cw env s =
     (case pending_segments s of [] \<Rightarrow> Some s
      | g # gs \<Rightarrow>
          (case fuel of 0 \<Rightarrow> None
           | Suc n \<Rightarrow>
               Option.bind (if sg_complete g then Some s else upload_segment cw env (sg_key g) s) (\<lambda>s.
               finish_segments n cw env (s\<lparr>pending_segments := tl (pending_segments s)\<rparr>))))"

declare finish_segments.simps [simp del]

text \<open>A marker item, with its identifier drawn.\<close>

definition make_marker :: "(bytes \<Rightarrow> clfs \<Rightarrow> (ref \<times> clfs) option) \<Rightarrow> log_store \<Rightarrow> (ref \<times> log_store) option" where
  "make_marker f b =
     map_option (\<lambda>(r, fs). (r, b\<lparr>ls_log := (ls_log b)\<lparr>fs_items := fs\<rparr>, ls_drawn := Suc (ls_drawn b)\<rparr>))
       (f (ls_ids b (ls_drawn b)) (fs_items (ls_log b)))"

text \<open>The wait of \<^verbatim>\<open>bluesky_log_write_commit_point\<close>, with the rounds of the log thread that run meanwhile.\<close>

fun wait_committed :: "nat \<Rightarrow> env \<Rightarrow> i64 \<Rightarrow> ref \<Rightarrow> lfs \<Rightarrow> lfs option" where
  "wait_committed fuel env now r s =
     (case get_item (fs_items s) r of None \<Rightarrow> None
      | Some c \<Rightarrow>
          if CLOUDLOG_UNCOMMITTED \<notin> location_flags c then Some s
          else case fuel of 0 \<Rightarrow> None | Suc n \<Rightarrow> Option.bind (log_thread_step env now s) (wait_committed n env now r))"

declare wait_committed.simps [simp del]

text \<open>
  The wait of \<^verbatim>\<open>bluesky_log_get_commit_point\<close> is over when the marker is not being written,
  which it is not as long as it is in the queue.
\<close>

definition flushd_cloud :: "cloudenv \<Rightarrow> fsenv \<Rightarrow> fsys \<Rightarrow> fsys option" where
  "flushd_cloud cw e s =
     Option.bind (backing (sys_cache s)) (\<lambda>b.
     Option.bind (make_marker bluesky_log_get_commit_point b) (\<lambda>(marker, b).
     let start = seq_num (ls_log b); s = s\<lparr>sys_cache := (sys_cache s)\<lparr>backing := Some b\<rparr>\<rparr> in
     Option.bind (cloud_inodes (length (lru_links (sys_dirty s))) cw e s) (\<lambda>s.
     Option.bind (backing (sys_cache s)) (\<lambda>b.
     Option.bind (cloud_inode_map cw e b) (\<lambda>(commit, b).
     Option.bind (bluesky_cloudlog_flush cw (fe_log e) (ls_log b)) (\<lambda>l.
     Option.bind (finish_segments (length (pending_segments l)) cw (fe_log e) l) (\<lambda>l.
     Option.bind (make_marker (bluesky_log_write_commit_point marker) (b\<lparr>ls_log := l\<rparr>)) (\<lambda>(point, b).
     Option.bind (wait_committed (queue_length b) (fe_log e) (fe_now e) point (ls_log b)) (\<lambda>l.
     Option.bind (store_items (finish_commit_point marker point) (b\<lparr>ls_log := l\<rparr>)) (\<lambda>b.
     Option.bind (store_items (bluesky_cloudlog_unref commit) b) (\<lambda>b.
     map_option (\<lambda>b. s\<lparr>sys_cache := (sys_cache s)\<lparr>backing := Some b\<rparr>, journal_watermark := start\<rparr>)
       (store_items (bluesky_inode_map_minimize (inode_map (ls_log b))) b))))))))))))"


section \<open>Dropping cached data\<close>

definition drop_caches :: "fsenv \<Rightarrow> u64 \<Rightarrow> fsys \<Rightarrow> fsys option" where
  "drop_caches e i s =
     Option.bind (sys_inodes s i) (\<lambda>inode.
     Option.bind (if i_type inode = BLUESKY_REGULAR then on_inode i (bluesky_file_drop_cached (fs_backend e)) s else Some s) (\<lambda>s.
     case committed_item inode of None \<Rightarrow> Some s | Some r \<Rightarrow> on_items (log_drop_data r) s))"

fun flushd_clean_loop :: "nat \<Rightarrow> fsenv \<Rightarrow> bool \<Rightarrow> fsys \<Rightarrow> fsys option" where
  "flushd_clean_loop 0 e aggressive s = Some s"
| "flushd_clean_loop (Suc inode_count) e aggressive s =
     Option.bind (backing (sys_cache s)) (\<lambda>b.
     case bluesky_list_tail (accessed_list b) of None \<Rightarrow> Some s
     | Some i \<Rightarrow>
         Option.bind (sys_inodes s i) (\<lambda>inode.
         if fe_now e - access_time inode < CACHE_DROP_DELAY \<and> \<not> aggressive then Some s
         else
           Option.bind (bluesky_inode_ref i s) (\<lambda>s.
           Option.bind (lock_inode e i s) (\<lambda>s.
           Option.bind (on_store (\<lambda>b. Some (front_accessed i b)) s) (\<lambda>s.
           Option.bind (drop_caches e i s) (\<lambda>s.
           Option.bind (bluesky_inode_unref i s) (flushd_clean_loop inode_count e aggressive)))))))"

definition flushd_clean :: "fsenv \<Rightarrow> bool \<Rightarrow> fsys \<Rightarrow> fsys option" where
  "flushd_clean e aggressive s = flushd_clean_loop (max 1 (card (dom (sys_inodes s)))) e aggressive s"


section \<open>Cache files\<close>

text \<open>\<open>cache_size\<close> is the option; \<open>files\<close> are the entries of the table in the order GLib lists them.\<close>

definition gc_file :: "int \<Rightarrow> int \<Rightarrow> logkey \<Rightarrow> lfs \<Rightarrow> lfs" where
  "gc_file cache_size watermark k s =
     (case mmap_cache s k of None \<Rightarrow> s
      | Some cf \<Rightarrow>
          if log_disk_used s > cache_size \<and> cf_refcount cf = 0 \<and> cf_mapcount cf = 0 \<and> \<not> (fst k < 0 \<and> snd k \<ge> watermark)
          then s\<lparr>disk := AList.delete k (disk s), log_disk_used := log_disk_used s - cf_disk_used cf,
                 mmap_cache := (mmap_cache s)(k := None)\<rparr>
          else s)"

definition cachefile_age :: "lfs \<Rightarrow> logkey \<Rightarrow> int" where
  "cachefile_age s k = (case mmap_cache s k of None \<Rightarrow> 0 | Some cf \<Rightarrow> sint (cf_atime cf))"

definition bluesky_cachefile_gc :: "int \<Rightarrow> logkey list \<Rightarrow> fsys \<Rightarrow> fsys option" where
  "bluesky_cachefile_gc cache_size files s =
     on_log (\<lambda>l. Some (fold (gc_file cache_size (journal_watermark s)) (sort_key (cachefile_age l) files) l)) s"


section \<open>The daemon\<close>

text \<open>\<open>list_files\<close> is the order in which GLib lists the entries of the table of cache files.\<close>

definition disk_short :: "int \<Rightarrow> fsys \<Rightarrow> bool" where
  "disk_short cache_size s \<longleftrightarrow> (case backing (sys_cache s) of None \<Rightarrow> False | Some b \<Rightarrow> log_disk_used (ls_log b) > cache_size)"

definition clean_files :: "(fsys \<Rightarrow> logkey list) \<Rightarrow> int \<Rightarrow> fsenv \<Rightarrow> bool \<Rightarrow> fsys \<Rightarrow> fsys option" where
  "clean_files list_files cache_size e aggressive s =
     Option.bind (flushd_clean e aggressive s) (\<lambda>s. bluesky_cachefile_gc cache_size (list_files s) s)"

definition flushd_task :: "(fsys \<Rightarrow> logkey list) \<Rightarrow> int \<Rightarrow> cloudenv \<Rightarrow> fsenv \<Rightarrow> fsys \<Rightarrow> fsys option" where
  "flushd_task list_files cache_size cw e s =
     Option.bind (flushd_dirty e s) (\<lambda>s.
     Option.bind (flushd_cloud cw e s) (\<lambda>s.
     Option.bind (clean_files list_files cache_size e False s) (\<lambda>s.
     if disk_short cache_size s then clean_files list_files cache_size e True s else Some s)))"

definition compute_pressure :: "int \<Rightarrow> fsys \<Rightarrow> int" where
  "compute_pressure cache_size s =
     (case backing (sys_cache s) of None \<Rightarrow> 0
      | Some b \<Rightarrow>
          let dirty = cache_dirty (sys_cache s);
              dirty_limit = cache_size div int (LOG_SEGMENT_SIZE div 1024) div 2;
              dirty_journals = seq_num (ls_log b) - journal_watermark s + 1
          in
          if dirty + cache_log_dirty (fs_items (ls_log b)) > bluesky_watermark_high_dirty then 3
          else if dirty_journals > 1 \<and> dirty_journals \<ge> dirty_limit then 3
          else if dirty > bluesky_watermark_med2_dirty then 2
          else if dirty_journals > 1 \<and> dirty_journals > dirty_limit * 3 div 4 then 2
          else if dirty > bluesky_watermark_medium_dirty then 1
          else if dirty_journals > 1 \<and> dirty_journals > dirty_limit div 2 then 1
          else 0)"

text \<open>
  The daemons run in threads of their own.  \<open>turns\<close> are the runs of the daemon that take
  place while the caller waits: it goes on as soon as the pressure is at most 1, and has
  not returned when there are no more turns.
\<close>

definition bluesky_flushd_invoke :: "fsys \<Rightarrow> fsys" where
  "bluesky_flushd_invoke s = s\<lparr>sys_flushd := Suc (sys_flushd s)\<rparr>"

fun pressure_wait :: "(fsys \<Rightarrow> fsys option) list \<Rightarrow> int \<Rightarrow> fsys \<Rightarrow> fsys option" where
  "pressure_wait turns cache_size s =
     (if compute_pressure cache_size s \<le> 1 then Some s
      else case turns of [] \<Rightarrow> None | t # turns \<Rightarrow> Option.bind (t s) (pressure_wait turns cache_size))"

declare pressure_wait.simps [simp del]

definition bluesky_flushd_invoke_conditional ::
    "(fsys \<Rightarrow> logkey list) \<Rightarrow> int \<Rightarrow> (cloudenv \<times> fsenv) list \<Rightarrow> fsys \<Rightarrow> fsys option" where
  "bluesky_flushd_invoke_conditional list_files cache_size turns s =
     (if compute_pressure cache_size s = 0 then Some s
      else pressure_wait (map (\<lambda>(cw, e). flushd_task list_files cache_size cw e) turns) cache_size (bluesky_flushd_invoke s))"

end
