(* ===== verification/BlueSky_Nfs3.thy ===== *)
theory BlueSky_Nfs3
  imports BlueSky_Cache BlueSky_Rpc "HOL-Library.Signed_Division"
begin

text \<open>
  The procedures of the NFS version 3 server (\<^verbatim>\<open>nfs3/nfs3.c\<close>) on the file system: every
  handler, with the replies it sends on its error paths.
\<close>


section \<open>Names, handles and attributes\<close>

definition NFS_BLOCKSIZE :: nat where "NFS_BLOCKSIZE = 32768"
definition NFS_MAXSIZE :: nat where "NFS_MAXSIZE = 2 ^ 20"

text \<open>
  From outside: the environment of the file system, \<^verbatim>\<open>g_utf8_validate\<close>, the cookie of this
  instance of the server, the option \<^verbatim>\<open>cache_size\<close>, the order of the table of cache
  files, and the runs of the flush daemon while a request waits for it.
\<close>

record nfsenv =
  ne_fs :: fsenv
  ne_utf8 :: "bytes \<Rightarrow> bool"
  nfsd_instance_verf_cookie :: bytes
  ne_cache_size :: int
  ne_list_files :: "fsys \<Rightarrow> logkey list"
  ne_turns :: "(cloudenv \<times> fsenv) list"

definition validate_filename :: "nfsenv \<Rightarrow> bytes \<Rightarrow> bool" where
  "validate_filename e filename \<longleftrightarrow>
     filename \<noteq> [] \<and> length filename \<le> 255 \<and> ne_utf8 e filename \<and> 47 \<notin> set filename"

definition dot :: bytes where "dot = [46]"
definition dotdot :: bytes where "dotdot = [46, 46]"

text \<open>A name a new entry may have, or an entry to be removed.\<close>

definition entry_name :: "nfsenv \<Rightarrow> bytes \<Rightarrow> bool" where
  "entry_name e name \<longleftrightarrow> validate_filename e name \<and> name \<noteq> dot \<and> name \<noteq> dotdot"

text \<open>The state of a request: the inodes whose references are dropped at its end, and the file system.\<close>

type_synonym reqstate = "u64 list \<times> fsys"

definition schedule_inode_unref :: "u64 \<Rightarrow> reqstate \<Rightarrow> reqstate" where
  "schedule_inode_unref i st = (i # fst st, snd st)"

definition lookup_fh :: "nfsenv \<Rightarrow> nfs_fh3 \<Rightarrow> reqstate \<Rightarrow> (u64 option \<times> reqstate) option" where
  "lookup_fh e fh st =
     (if length (fh_data fh) \<noteq> 8 then Some (None, st)
      else let inum = be_word (fh_data fh) in
        map_option (\<lambda>(found, s). if found then (Some inum, schedule_inode_unref inum (fst st, s)) else (None, (fst st, s)))
          (bluesky_get_inode (ne_fs e) inum (snd st)))"

definition inum_fh :: "u64 \<Rightarrow> nfs_fh3" where
  "inum_fh inum = \<lparr>fh_data = be64 inum\<rparr>"

definition decode_nfstime3 :: "nfstime3 \<Rightarrow> i64" where
  "decode_nfstime3 t = ucast (nt_seconds t) * 1000000 + ucast (nt_nseconds t div 1000)"

text \<open>The division of C rounds towards zero; the results are cut to 32 bits.\<close>

definition encode_nfstime3 :: "i64 \<Rightarrow> nfstime3" where
  "encode_nfstime3 t = \<lparr>nt_seconds = word_of_int (sint t sdiv 1000000), nt_nseconds = word_of_int (sint t smod 1000000 * 1000)\<rparr>"

definition set_times :: "fsenv \<Rightarrow> set_time \<Rightarrow> i64 \<Rightarrow> i64" where
  "set_times e t old =
     (if st_set t = SET_TO_SERVER_TIME then fe_now e
      else if st_set t = SET_TO_CLIENT_TIME then (case st_time t of None \<Rightarrow> old | Some x \<Rightarrow> decode_nfstime3 x)
      else old)"

definition set_owner :: "sattr3 \<Rightarrow> inode \<Rightarrow> inode" where
  "set_owner a inode =
     inode\<lparr>i_mode := (case sa_mode a of None \<Rightarrow> i_mode inode | Some x \<Rightarrow> x),
           i_uid := (case sa_uid a of None \<Rightarrow> i_uid inode | Some x \<Rightarrow> x),
           i_gid := (case sa_gid a of None \<Rightarrow> i_gid inode | Some x \<Rightarrow> x)\<rparr>"

definition set_attributes :: "fsenv \<Rightarrow> u64 \<Rightarrow> sattr3 \<Rightarrow> fsys \<Rightarrow> fsys option" where
  "set_attributes e i a s =
     Option.bind (set_inode i (set_owner a) s) (\<lambda>s.
     Option.bind (case (sa_size a, sys_inodes s i) of
         (Some sz, Some inode) \<Rightarrow>
           if i_type inode = BLUESKY_REGULAR
           then Option.bind (on_inode i (\<lambda>x. bluesky_file_truncate (fs_backend e) (fe_now e) x sz) s)
                  (set_inode i (\<lambda>inode. inode\<lparr>i_mtime := fe_now e\<rparr>))
           else Some s
       | _ \<Rightarrow> Some s) (\<lambda>s.
     Option.bind (set_inode i (\<lambda>inode. inode\<lparr>i_atime := set_times e (sa_atime a) (i_atime inode),
                                             i_mtime := set_times e (sa_mtime a) (i_mtime inode)\<rparr>) s)
       (touch_inode_ctime e False i)))"

text \<open>A symbolic link without contents is a null pointer access.\<close>

definition encode_fattr3 :: "inode \<Rightarrow> fattr3 option" where
  "encode_fattr3 inode =
     map_option (\<lambda>sz. \<lparr>fa_type = word_of_int (i_type inode), fa_mode = i_mode inode, fa_nlink = i_nlink inode,
         fa_uid = i_uid inode, fa_gid = i_gid inode, fa_size = sz, fa_used = 0, fa_rdev = \<lparr>sd_major = 0, sd_minor = 0\<rparr>,
         fa_fsid = 0, fa_fileid = i_inum inode, fa_atime = encode_nfstime3 (i_atime inode),
         fa_mtime = encode_nfstime3 (i_mtime inode), fa_ctime = encode_nfstime3 (i_ctime inode)\<rparr>)
       (if i_type inode = BLUESKY_SYMLINK then map_option (\<lambda>c. of_nat (length c)) (symlink_contents inode) else Some (i_size inode))"

definition encode_pre_wcc :: "inode \<Rightarrow> wcc_attr" where
  "encode_pre_wcc inode = \<lparr>wa_size = i_size inode, wa_mtime = encode_nfstime3 (i_mtime inode), wa_ctime = encode_nfstime3 (i_ctime inode)\<rparr>"

definition no_wcc :: wcc_data where
  "no_wcc = \<lparr>wcc_before = None, wcc_after = None\<rparr>"

definition pre_wcc :: "inode \<Rightarrow> wcc_data" where
  "pre_wcc inode = \<lparr>wcc_before = Some (encode_pre_wcc inode), wcc_after = None\<rparr>"

text \<open>The attributes of an inode in the table.\<close>

definition attrs :: "u64 \<Rightarrow> reqstate \<Rightarrow> fattr3 option" where
  "attrs i st = Option.bind (sys_inodes (snd st) i) encode_fattr3"

text \<open>An operation on the file system, within a request.\<close>

definition run :: "(fsys \<Rightarrow> fsys option) \<Rightarrow> reqstate \<Rightarrow> reqstate option" where
  "run f st = map_option (Pair (fst st)) (f (snd st))"

text \<open>
  The inode of a handle, locked, for the rest of a handler; \<open>stale\<close> is the reply for a
  handle that is not valid.
\<close>

definition with_fh :: "nfsenv \<Rightarrow> nfs_fh3 \<Rightarrow> 'r \<Rightarrow> (u64 \<Rightarrow> inode \<Rightarrow> reqstate \<Rightarrow> ('r \<times> reqstate) option) \<Rightarrow> reqstate \<Rightarrow> ('r \<times> reqstate) option" where
  "with_fh e fh stale f st =
     Option.bind (lookup_fh e fh st) (\<lambda>(io, st).
     case io of None \<Rightarrow> Some (stale, st)
     | Some i \<Rightarrow>
         Option.bind (run (lock_inode (ne_fs e) i) st) (\<lambda>st.
         Option.bind (sys_inodes (snd st) i) (\<lambda>inode. f i inode st)))"


section \<open>Attributes, lookups and links\<close>

definition nfsproc3_null_3_svc :: "reqstate \<Rightarrow> reqstate option" where
  "nfsproc3_null_3_svc st = Some st"

definition nfsproc3_getattr_3_svc :: "nfsenv \<Rightarrow> nfs_fh3 \<Rightarrow> reqstate \<Rightarrow> (getattr3res \<times> reqstate) option" where
  "nfsproc3_getattr_3_svc e argp =
     with_fh e argp (Resfail (nfsstat3_code NFS3ERR_STALE) ()) (\<lambda>i inode st.
       map_option (\<lambda>a. (Resok a, st)) (encode_fattr3 inode))"

definition nfsproc3_setattr_3_svc :: "nfsenv \<Rightarrow> setattr3args \<Rightarrow> reqstate \<Rightarrow> (wccstat3 \<times> reqstate) option" where
  "nfsproc3_setattr_3_svc e argp =
     with_fh e (sra_object argp) (Stat (nfsstat3_code NFS3ERR_STALE) no_wcc) (\<lambda>i inode st.
       let wcc = pre_wcc inode in
       if (case sra_guard argp of None \<Rightarrow> False | Some t \<Rightarrow> i_ctime inode \<noteq> decode_nfstime3 t)
       then map_option (\<lambda>a. (Stat (nfsstat3_code NFS3ERR_NOT_SYNC) (wcc\<lparr>wcc_after := Some a\<rparr>), st)) (attrs i st)
       else
         Option.bind (run (set_attributes (ne_fs e) i (sra_new_attributes argp)) st) (\<lambda>st.
         Option.bind (attrs i st) (\<lambda>a.
         map_option (\<lambda>st. (Stat (nfsstat3_code NFS3_OK) (wcc\<lparr>wcc_after := Some a\<rparr>), st))
           (run (bluesky_inode_do_sync (ne_fs e) i) st))))"

definition nfsproc3_lookup_3_svc :: "nfsenv \<Rightarrow> diropargs3 \<Rightarrow> reqstate \<Rightarrow> (lookup3res \<times> reqstate) option" where
  "nfsproc3_lookup_3_svc e argp =
     with_fh e (da_dir argp) (Resfail (nfsstat3_code NFS3ERR_STALE) None) (\<lambda>d dir st.
       Option.bind (encode_fattr3 dir) (\<lambda>da.
       if \<not> validate_filename e (da_name argp)
       then Some (Resfail (nfsstat3_code (if length (da_name argp) > 255 then NFS3ERR_NAMETOOLONG else NFS3ERR_NOENT)) (Some da), st)
       else
         let inum = bluesky_directory_lookup dir (da_name argp) in
         if inum = 0 then Some (Resfail (nfsstat3_code NFS3ERR_NOENT) (Some da), st)
         else
           Option.bind (bluesky_get_inode (ne_fs e) inum (snd st)) (\<lambda>(found, s).
           if \<not> found then Some (Resfail (nfsstat3_code NFS3ERR_NOENT) (Some da), (fst st, s))
           else
             Option.bind (run (lock_inode (ne_fs e) inum) (schedule_inode_unref inum (fst st, s))) (\<lambda>st.
             map_option (\<lambda>a. (Resok \<lparr>lr_object = inum_fh inum, lr_obj_attributes = Some a, lr_dir_attributes = Some da\<rparr>, st))
               (attrs inum st)))))"

definition nfsproc3_access_3_svc :: "nfsenv \<Rightarrow> access3args \<Rightarrow> reqstate \<Rightarrow> (access3res \<times> reqstate) option" where
  "nfsproc3_access_3_svc e argp =
     with_fh e (aa_object argp) (Resfail (nfsstat3_code NFS3ERR_STALE) None) (\<lambda>i inode st.
       map_option (\<lambda>a. (Resok \<lparr>ar_obj_attributes = Some a, ar_access = aa_access argp\<rparr>, st)) (encode_fattr3 inode))"

definition nfsproc3_readlink_3_svc :: "nfsenv \<Rightarrow> nfs_fh3 \<Rightarrow> reqstate \<Rightarrow> (readlink3res \<times> reqstate) option" where
  "nfsproc3_readlink_3_svc e argp =
     with_fh e argp (Resfail (nfsstat3_code NFS3ERR_STALE) None) (\<lambda>i inode st.
       Option.bind (encode_fattr3 inode) (\<lambda>a.
       if i_type inode = BLUESKY_SYMLINK
       then map_option (\<lambda>c. (Resok \<lparr>rl_symlink_attributes = Some a, rl_data = c\<rparr>, st)) (symlink_contents inode)
       else Some (Resfail (nfsstat3_code NFS3ERR_INVAL) (Some a), st)))"


section \<open>Reading and writing files\<close>

definition flushd_conditional :: "nfsenv \<Rightarrow> reqstate \<Rightarrow> reqstate option" where
  "flushd_conditional e = run (bluesky_flushd_invoke_conditional (ne_list_files e) (ne_cache_size e) (ne_turns e))"

text \<open>
  The number of bytes to read, an \<^verbatim>\<open>int\<close>: the second minimum compares with an unsigned
  64-bit number and is then cut to 32 bits.
\<close>

definition read_count :: "u32 \<Rightarrow> u64 \<Rightarrow> int" where
  "read_count count left =
     (let c = min (sint count) (int NFS_MAXSIZE) in
      if (word_of_int c :: u64) < left then c else sint (ucast left :: u32))"

text \<open>
  The buffer has \<^verbatim>\<open>NFS_MAXSIZE\<close> bytes: a count that is negative or larger makes the read
  or the encoding of the reply leave it.  A read that does not fill the buffer would send
  what the stack holds.
\<close>

definition nfsproc3_read_3_svc :: "nfsenv \<Rightarrow> read3args \<Rightarrow> reqstate \<Rightarrow> (read3res \<times> reqstate) option" where
  "nfsproc3_read_3_svc e argp st =
     Option.bind (flushd_conditional e st) (with_fh e (ra_file argp) (Resfail (nfsstat3_code NFS3ERR_STALE) None) (\<lambda>i inode st.
       Option.bind (encode_fattr3 inode) (\<lambda>a.
       if ra_offset argp \<ge> i_size inode
       then Some (Resok \<lparr>rr_file_attributes = Some a, rr_count = 0, rr_eof = True, rr_data = []\<rparr>, st)
       else
         let count = read_count (ra_count argp) (i_size inode - ra_offset argp);
             eof = (ra_offset argp + word_of_int count = i_size inode)
         in
         if count < 0 \<or> count > int NFS_MAXSIZE then None
         else
           (case bluesky_file_read (fs_backend (ne_fs e)) (inode, sys_cache (snd st)) (ra_offset argp) (nat count) of
              Some (Some d, fc) \<Rightarrow>
                if backing fc = None then None
                else Some (Resok \<lparr>rr_file_attributes = Some a, rr_count = word_of_int count, rr_eof = eof, rr_data = d\<rparr>,
                           (fst st, (snd st)\<lparr>sys_cache := fc\<rparr>))
            | _ \<Rightarrow> None))))"

text \<open>
  A count of 2 GiB or more is a negative \<^verbatim>\<open>gint\<close> for \<^verbatim>\<open>bluesky_file_write\<close>, which
  then does nothing.
\<close>

definition write_file :: "nfsenv \<Rightarrow> write3args \<Rightarrow> u64 \<Rightarrow> fsys \<Rightarrow> fsys option" where
  "write_file e argp i s =
     (let lastbyte = wa3_offset argp + ucast (wa3_count argp); n = unat (wa3_count argp) in
      Option.bind (sys_inodes s i) (\<lambda>inode.
      Option.bind (if lastbyte > i_size inode
                   then on_inode i (\<lambda>x. bluesky_file_truncate (fs_backend (ne_fs e)) (fe_now (ne_fs e)) x lastbyte) s
                   else Some s) (\<lambda>s.
      if length (wa3_data argp) < n \<or> n \<ge> 2 ^ 31 then Some s
      else on_inode i (\<lambda>x. bluesky_file_write (fs_backend (ne_fs e)) (fe_now (ne_fs e)) x (wa3_offset argp) (take n (wa3_data argp))) s)))"

definition nfsproc3_write_3_svc :: "nfsenv \<Rightarrow> write3args \<Rightarrow> reqstate \<Rightarrow> (write3res \<times> reqstate) option" where
  "nfsproc3_write_3_svc e argp st =
     Option.bind (flushd_conditional e st) (with_fh e (wa3_file argp) (Resfail (nfsstat3_code NFS3ERR_STALE) no_wcc) (\<lambda>i inode st.
       let wcc = pre_wcc inode in
       if i_type inode \<noteq> BLUESKY_REGULAR then Some (Resfail (nfsstat3_code NFS3ERR_INVAL) wcc, st)
       else
         Option.bind (run (write_file e argp i) st) (\<lambda>st.
         Option.bind (attrs i st) (\<lambda>a.
         map_option (\<lambda>st. (Resok \<lparr>wr_file_wcc = wcc\<lparr>wcc_after := Some a\<rparr>, wr_count = wa3_count argp,
               wr_committed = (if wa3_stable argp \<noteq> UNSTABLE then FILE_SYNC else UNSTABLE), wr_verf = nfsd_instance_verf_cookie e\<rparr>, st))
           (if wa3_stable argp \<noteq> UNSTABLE then run (bluesky_inode_do_sync (ne_fs e) i) st else Some st)))))"

definition nfsproc3_commit_3_svc :: "nfsenv \<Rightarrow> commit3args \<Rightarrow> reqstate \<Rightarrow> (commit3res \<times> reqstate) option" where
  "nfsproc3_commit_3_svc e argp =
     with_fh e (cma_file argp) (Resfail (nfsstat3_code NFS3ERR_STALE) no_wcc) (\<lambda>i inode st.
       Option.bind (run (bluesky_inode_do_sync (ne_fs e) i) st) (\<lambda>st.
       map_option (\<lambda>a. (Resok \<lparr>cmr_file_wcc = (pre_wcc inode)\<lparr>wcc_after := Some a\<rparr>, cmr_verf = nfsd_instance_verf_cookie e\<rparr>, st))
         (attrs i st)))"


section \<open>Making and removing names\<close>

text \<open>\<^verbatim>\<open>bluesky_directory_insert\<close> and \<^verbatim>\<open>bluesky_directory_remove\<close> for an inode in the table.\<close>

definition insert_name :: "fsenv \<Rightarrow> u64 \<Rightarrow> bytes \<Rightarrow> u64 \<Rightarrow> fsys \<Rightarrow> (bool \<times> fsys) option" where
  "insert_name e d name inum s =
     Option.bind (sys_inodes s d) (\<lambda>dir.
     case bluesky_directory_insert (fs_backend e) (fe_now e) (fe_search e) (fe_lower e) (fe_draws e) (dir, sys_cache s) name inum of
       None \<Rightarrow> None
     | Some ((dir, fc), ok, draws) \<Rightarrow> if backing fc = None then None else Some (ok, put_inode d dir (s\<lparr>sys_cache := fc\<rparr>)))"

definition remove_name :: "fsenv \<Rightarrow> u64 \<Rightarrow> bytes \<Rightarrow> fsys \<Rightarrow> (bool \<times> fsys) option" where
  "remove_name e d name s =
     Option.bind (sys_inodes s d) (\<lambda>dir.
     case bluesky_directory_remove (fs_backend e) (fe_now e) (fe_search e) (dir, sys_cache s) name of
       None \<Rightarrow> None
     | Some ((dir, fc), ok) \<Rightarrow> if backing fc = None then None else Some (ok, put_inode d dir (s\<lparr>sys_cache := fc\<rparr>)))"

text \<open>
  A new inode of a request: number, type, one link, mode 0755 and the present time.  It is
  entered into the table and under its name; the result of the latter is not looked at.
\<close>

definition make_inode :: "fsenv \<Rightarrow> int \<Rightarrow> (inode \<Rightarrow> inode) \<Rightarrow> fsys \<Rightarrow> (u64 \<times> fsys) option" where
  "make_inode e type f s =
     map_option (\<lambda>(inum, s).
       (inum, bluesky_insert_inode (f ((bluesky_new_inode inum type)\<lparr>i_nlink := 1, i_mode := 493, i_mtime := fe_now e,
                 i_ctime := fe_now e, i_atime := fe_now e, i_ntime := fe_now e\<rparr>)) s))
       (bluesky_fs_alloc_inode s)"

definition make_entry :: "fsenv \<Rightarrow> int \<Rightarrow> (inode \<Rightarrow> inode) \<Rightarrow> sattr3 option \<Rightarrow> u64 \<Rightarrow> bytes \<Rightarrow> fsys \<Rightarrow> (u64 \<times> fsys) option" where
  "make_entry e type f attributes d name s =
     Option.bind (make_inode e type f s) (\<lambda>(inum, s).
     Option.bind (insert_name e d name inum s) (\<lambda>(ok, s).
     Option.bind (case attributes of None \<Rightarrow> Some s | Some a \<Rightarrow> set_attributes e inum a s) (\<lambda>s.
     Option.bind (touch_inode_ctime e True d s) (\<lambda>s.
     map_option (Pair inum) (touch_inode_ctime e False inum s)))))"

text \<open>The common course of \<^verbatim>\<open>create\<close>, \<^verbatim>\<open>mkdir\<close> and \<^verbatim>\<open>symlink\<close>.\<close>

definition make_object ::
    "nfsenv \<Rightarrow> int \<Rightarrow> (inode \<Rightarrow> inode) \<Rightarrow> sattr3 option \<Rightarrow> diropargs3 \<Rightarrow> reqstate \<Rightarrow> (diropres3 \<times> reqstate) option" where
  "make_object e type f attributes whr =
     with_fh e (da_dir whr) (Resfail (nfsstat3_code NFS3ERR_STALE) no_wcc) (\<lambda>d dir st.
       let wcc = pre_wcc dir in
       if i_type dir \<noteq> BLUESKY_DIRECTORY then Some (Resfail (nfsstat3_code NFS3ERR_NOTDIR) wcc, st)
       else if \<not> entry_name e (da_name whr) then Some (Resfail (nfsstat3_code NFS3ERR_EXIST) wcc, st)
       else
         Option.bind (make_entry (ne_fs e) type f attributes d (da_name whr) (snd st)) (\<lambda>(inum, s).
         let st = (fst st, s) in
         Option.bind (attrs d st) (\<lambda>da.
         Option.bind (attrs inum st) (\<lambda>a.
         Option.bind (run (bluesky_inode_do_sync (ne_fs e) inum) st) (\<lambda>st.
         map_option (\<lambda>st. (Resok \<lparr>dr_obj = Some (inum_fh inum), dr_obj_attributes = Some a, dr_dir_wcc = wcc\<lparr>wcc_after := Some da\<rparr>\<rparr>, st))
           (run (bluesky_inode_do_sync (ne_fs e) d) st))))))"

definition nfsproc3_create_3_svc :: "nfsenv \<Rightarrow> create3args \<Rightarrow> reqstate \<Rightarrow> (diropres3 \<times> reqstate) option" where
  "nfsproc3_create_3_svc e argp = make_object e BLUESKY_REGULAR id None (ca_where argp)"

definition nfsproc3_mkdir_3_svc :: "nfsenv \<Rightarrow> mkdir3args \<Rightarrow> reqstate \<Rightarrow> (diropres3 \<times> reqstate) option" where
  "nfsproc3_mkdir_3_svc e argp = make_object e BLUESKY_DIRECTORY id (Some (mka_attributes argp)) (mka_where argp)"

definition nfsproc3_symlink_3_svc :: "nfsenv \<Rightarrow> symlink3args \<Rightarrow> reqstate \<Rightarrow> (diropres3 \<times> reqstate) option" where
  "nfsproc3_symlink_3_svc e argp =
     make_object e BLUESKY_SYMLINK (\<lambda>inode. inode\<lparr>symlink_contents := Some (sl_symlink_data (sla_symlink argp))\<rparr>) None (sla_where argp)"

definition nfsproc3_mknod_3_svc :: "reqstate \<Rightarrow> (diropres3 \<times> reqstate) option" where
  "nfsproc3_mknod_3_svc st = Some (Resfail (nfsstat3_code NFS3ERR_NOTSUPP) no_wcc, st)"

text \<open>The end of \<^verbatim>\<open>remove\<close> and \<^verbatim>\<open>rmdir\<close>.\<close>

definition remove_entry :: "nfsenv \<Rightarrow> u64 \<Rightarrow> bytes \<Rightarrow> wcc_data \<Rightarrow> reqstate \<Rightarrow> (wccstat3 \<times> reqstate) option" where
  "remove_entry e d name wcc st =
     Option.bind (remove_name (ne_fs e) d name (snd st)) (\<lambda>(ok, s).
     Option.bind (attrs d (fst st, s)) (\<lambda>da.
     map_option (\<lambda>st. (Stat (nfsstat3_code NFS3_OK) (wcc\<lparr>wcc_after := Some da\<rparr>), st))
       (run (bluesky_inode_do_sync (ne_fs e) d) (fst st, s))))"

definition nfsproc3_remove_3_svc :: "nfsenv \<Rightarrow> diropargs3 \<Rightarrow> reqstate \<Rightarrow> (wccstat3 \<times> reqstate) option" where
  "nfsproc3_remove_3_svc e argp =
     with_fh e (da_dir argp) (Stat (nfsstat3_code NFS3ERR_STALE) no_wcc) (\<lambda>d dir st.
       if \<not> entry_name e (da_name argp) then Some (Stat (nfsstat3_code NFS3ERR_NOENT) (pre_wcc dir), st)
       else remove_entry e d (da_name argp) (pre_wcc dir) st)"

text \<open>
  The directory stays locked while the one to be removed is: when they are the same the
  handler waits for itself.  A directory inode without an index is a null pointer access.
\<close>

definition nfsproc3_rmdir_3_svc :: "nfsenv \<Rightarrow> diropargs3 \<Rightarrow> reqstate \<Rightarrow> (wccstat3 \<times> reqstate) option" where
  "nfsproc3_rmdir_3_svc e argp =
     with_fh e (da_dir argp) (Stat (nfsstat3_code NFS3ERR_STALE) no_wcc) (\<lambda>d dir st.
       let wcc = pre_wcc dir in
       if \<not> entry_name e (da_name argp) then Some (Stat (nfsstat3_code NFS3ERR_NOENT) wcc, st)
       else
         let inum = bluesky_directory_lookup dir (da_name argp) in
         Option.bind (bluesky_get_inode (ne_fs e) inum (snd st)) (\<lambda>(found, s).
         if \<not> found then Some (Stat (nfsstat3_code NFS3ERR_NOENT) wcc, (fst st, s))
         else if inum = d then None
         else
           Option.bind (run (lock_inode (ne_fs e) inum) (schedule_inode_unref inum (fst st, s))) (\<lambda>st.
           Option.bind (sys_inodes (snd st) inum) (\<lambda>inode.
           if i_type inode \<noteq> BLUESKY_DIRECTORY then Some (Stat (nfsstat3_code NFS3ERR_NOTDIR) wcc, st)
           else
             Option.bind (i_dir inode) (\<lambda>di.
             if dirents di \<noteq> [] then Some (Stat (nfsstat3_code NFS3ERR_NOTEMPTY) wcc, st)
             else
               Option.bind (remove_entry e d (da_name argp) wcc st) (\<lambda>(res, st).
               map_option (Pair res) (run (bluesky_inode_do_sync (ne_fs e) inum) st)))))))"

text \<open>
  \<^verbatim>\<open>bluesky_rename\<close> works on the inodes by address; there is one inode for a number, which
  serves as its address.
\<close>

definition rename_names :: "fsenv \<Rightarrow> u64 \<Rightarrow> bytes \<Rightarrow> u64 \<Rightarrow> bytes \<Rightarrow> fsys \<Rightarrow> (bool \<times> fsys) option" where
  "rename_names e d1 name1 d2 name2 s =
     Option.bind (sys_inodes s d1) (\<lambda>dir1.
     Option.bind (sys_inodes s d2) (\<lambda>dir2.
     let addr = (unat :: u64 \<Rightarrow> ref) in
     case bluesky_rename (fs_backend e) (fe_now e) (fe_search e) (fe_lower e) (fe_draws e)
            ((\<lambda>a. if a = addr d1 then dir1 else dir2), sys_cache s) (addr d1) name1 (addr d2) name2 True True of
       None \<Rightarrow> None
     | Some ((dirs, fc), ok, draws) \<Rightarrow>
         if backing fc = None then None
         else Some (ok, put_inode d2 (dirs (addr d2)) (put_inode d1 (dirs (addr d1)) (s\<lparr>sys_cache := fc\<rparr>)))))"

text \<open>Two different directories are locked; nothing is locked for one directory.\<close>

definition lock_both :: "fsenv \<Rightarrow> u64 \<Rightarrow> u64 \<Rightarrow> fsys \<Rightarrow> fsys option" where
  "lock_both e d1 d2 s =
     (if d1 < d2 then Option.bind (lock_inode e d1 s) (lock_inode e d2)
      else if d1 > d2 then Option.bind (lock_inode e d2 s) (lock_inode e d1)
      else Some s)"

definition no_rename_wcc :: rename3wcc where
  "no_rename_wcc = \<lparr>rnw_fromdir_wcc = no_wcc, rnw_todir_wcc = no_wcc\<rparr>"

definition nfsproc3_rename_3_svc :: "nfsenv \<Rightarrow> rename3args \<Rightarrow> reqstate \<Rightarrow> (rename3res \<times> reqstate) option" where
  "nfsproc3_rename_3_svc e argp st =
     Option.bind (lookup_fh e (da_dir (rna_from argp)) st) (\<lambda>(io1, st).
     case io1 of None \<Rightarrow> Some (Stat (nfsstat3_code NFS3ERR_STALE) no_rename_wcc, st)
     | Some d1 \<Rightarrow>
         Option.bind (lookup_fh e (da_dir (rna_to argp)) st) (\<lambda>(io2, st).
         case io2 of None \<Rightarrow> Some (Stat (nfsstat3_code NFS3ERR_STALE) no_rename_wcc, st)
         | Some d2 \<Rightarrow>
             Option.bind (run (lock_both (ne_fs e) d1 d2) st) (\<lambda>st.
             Option.bind (sys_inodes (snd st) d1) (\<lambda>dir1.
             let wcc = pre_wcc dir1 in
             Option.bind (rename_names (ne_fs e) d1 (da_name (rna_from argp)) d2 (da_name (rna_to argp)) (snd st)) (\<lambda>(ok, s).
             let st = (fst st, s) in
             Option.bind (attrs d1 st) (\<lambda>a1.
             Option.bind (attrs d2 st) (\<lambda>a2.
             Option.bind (run (bluesky_inode_do_sync (ne_fs e) d2) st) (\<lambda>st.
             map_option (\<lambda>st. (Stat (nfsstat3_code (if ok then NFS3_OK else NFS3ERR_PERM))
                 \<lparr>rnw_fromdir_wcc = wcc\<lparr>wcc_after := Some a1\<rparr>, rnw_todir_wcc = wcc\<lparr>wcc_after := Some a2\<rparr>\<rparr>, st))
               (run (bluesky_inode_do_sync (ne_fs e) d1) st)))))))))"

text \<open>The inode and the directory are both locked, so that they have to be different.\<close>

definition link_entry :: "fsenv \<Rightarrow> u64 \<Rightarrow> u64 \<Rightarrow> bytes \<Rightarrow> fsys \<Rightarrow> (bool \<times> fsys) option" where
  "link_entry e i d name s =
     Option.bind (insert_name e d name i s) (\<lambda>(ok, s).
     if \<not> ok then Some (False, s)
     else
       Option.bind (set_inode i (\<lambda>inode. inode\<lparr>i_nlink := i_nlink inode + 1\<rparr>) s) (\<lambda>s.
       Option.bind (touch_inode_ctime e False i s) (\<lambda>s.
       map_option (Pair True) (touch_inode_ctime e True d s))))"

definition nfsproc3_link_3_svc :: "nfsenv \<Rightarrow> link3args \<Rightarrow> reqstate \<Rightarrow> (link3res \<times> reqstate) option" where
  "nfsproc3_link_3_svc e argp =
     (let failure = (\<lambda>status wcc. Stat (nfsstat3_code status) \<lparr>lkw_file_attributes = None, lkw_linkdir_wcc = wcc\<rparr>) in
      with_fh e (lka_file argp) (failure NFS3ERR_STALE no_wcc) (\<lambda>i inode st.
        Option.bind (lookup_fh e (da_dir (lka_link argp)) st) (\<lambda>(io, st).
        case io of None \<Rightarrow> Some (failure NFS3ERR_STALE no_wcc, st)
        | Some d \<Rightarrow>
            if d = i then None
            else
              Option.bind (run (lock_inode (ne_fs e) d) st) (\<lambda>st.
              Option.bind (sys_inodes (snd st) d) (\<lambda>dir.
              let wcc = pre_wcc dir; name = da_name (lka_link argp) in
              if i_type dir \<noteq> BLUESKY_DIRECTORY then Some (failure NFS3ERR_NOTDIR wcc, st)
              else if \<not> entry_name e name \<or> bluesky_directory_lookup dir name \<noteq> 0 then Some (failure NFS3ERR_EXIST wcc, st)
              else
                Option.bind (link_entry (ne_fs e) i d name (snd st)) (\<lambda>(ok, s).
                let st = (fst st, s) in
                if \<not> ok then Some (failure NFS3ERR_EXIST wcc, st)
                else
                  Option.bind (attrs d st) (\<lambda>da.
                  Option.bind (attrs i st) (\<lambda>a.
                  Option.bind (run (bluesky_inode_do_sync (ne_fs e) i) st) (\<lambda>st.
                  map_option (\<lambda>st. (Stat (nfsstat3_code NFS3_OK)
                      \<lparr>lkw_file_attributes = Some a, lkw_linkdir_wcc = wcc\<lparr>wcc_after := Some da\<rparr>\<rparr>, st))
                    (run (bluesky_inode_do_sync (ne_fs e) d) st))))))))))"


section \<open>Listing directories\<close>

definition MAX_READDIR_DIRENTS :: nat where "MAX_READDIR_DIRENTS = 64"

text \<open>The entries behind a cookie, which is cut to 32 bits.  An inode that is not a directory has no entries to search: a crash.\<close>

definition entries_from :: "fsenv \<Rightarrow> inode \<Rightarrow> u64 \<Rightarrow> dirent list option" where
  "entries_from e dir cookie =
     map_option (\<lambda>di. drop (fe_search e (map d_cookie (dirents di)) (ucast cookie)) (dirents di)) (i_dir dir)"

definition entry3_of :: "dirent \<Rightarrow> entry3" where
  "entry3_of d = \<lparr>en_fileid = d_inum d, en_name = d_name d, en_cookie = ucast (d_cookie d)\<rparr>"

definition nfsproc3_readdir_3_svc :: "nfsenv \<Rightarrow> readdir3args \<Rightarrow> reqstate \<Rightarrow> (readdir3res \<times> reqstate) option" where
  "nfsproc3_readdir_3_svc e argp =
     with_fh e (rda_dir argp) (Resfail (nfsstat3_code NFS3ERR_STALE) None) (\<lambda>d dir st.
       Option.bind (encode_fattr3 dir) (\<lambda>da.
       map_option (\<lambda>ents.
         (Resok \<lparr>rdr_dir_attributes = Some da, rdr_cookieverf = replicate 8 0,
                 rdr_reply = \<lparr>dl_entries = map entry3_of (take MAX_READDIR_DIRENTS ents), dl_eof = (length ents \<le> MAX_READDIR_DIRENTS)\<rparr>\<rparr>, st))
         (entries_from (ne_fs e) dir (rda_cookie argp))))"

definition entry_size3 :: "dirent \<Rightarrow> nat" where
  "entry_size3 d = 24 + (length (d_name d) + 3) div 4 * 4"

definition attr_size3 :: nat where "attr_size3 = 88 + 8 + 8"

text \<open>The prefetch pass; it does not count the entries, so that only the sizes end it.\<close>

fun prefetch_entries :: "fsenv \<Rightarrow> nat \<Rightarrow> nat \<Rightarrow> dirent list \<Rightarrow> nat \<Rightarrow> nat \<Rightarrow> fsys \<Rightarrow> fsys option" where
  "prefetch_entries e maxdir maxall [] dircount attrcount s = Some s"
| "prefetch_entries e maxdir maxall (d # ds) dircount attrcount s =
     (if dircount \<le> maxdir \<and> dircount + attrcount \<le> maxall
      then Option.bind (bluesky_inode_prefetch e (d_inum d) s)
             (prefetch_entries e maxdir maxall ds (dircount + entry_size3 d) (attrcount + attr_size3))
      else Some s)"

definition entryplus3_of :: "dirent \<Rightarrow> fattr3 \<Rightarrow> entryplus3" where
  "entryplus3_of d a = \<lparr>ep_fileid = d_inum d, ep_name = d_name d, ep_cookie = ucast (d_cookie d), ep_name_attributes = Some a,
     ep_name_handle = Some (inum_fh (d_inum d))\<rparr>"

text \<open>
  The loop of \<^verbatim>\<open>readdirplus\<close>: entries without an inode are left out.  The directory is
  locked: an entry for the directory itself makes the handler wait for itself.  The result
  is the entries and whether the end of the directory was reached.
\<close>

fun plus_entries ::
    "fsenv \<Rightarrow> u64 \<Rightarrow> nat \<Rightarrow> nat \<Rightarrow> dirent list \<Rightarrow> nat \<Rightarrow> nat \<Rightarrow> nat \<Rightarrow> fsys \<Rightarrow> (entryplus3 list \<times> bool \<times> fsys) option" where
  "plus_entries e dir maxdir maxall [] count dircount attrcount s = Some ([], True, s)"
| "plus_entries e dir maxdir maxall (d # ds) count dircount attrcount s =
     (if count \<ge> MAX_READDIR_DIRENTS then Some ([], False, s)
      else
        Option.bind (bluesky_get_inode e (d_inum d) s) (\<lambda>(found, s).
        if \<not> found then plus_entries e dir maxdir maxall ds count dircount attrcount s
        else if d_inum d = dir then None
        else
          Option.bind (lock_inode e (d_inum d) s) (\<lambda>s.
          let dircount = dircount + entry_size3 d; attrcount = attrcount + attr_size3 in
          if dircount > maxdir \<or> dircount + attrcount > maxall
          then map_option (\<lambda>s. ([], False, s)) (bluesky_inode_unref (d_inum d) s)
          else
            Option.bind (Option.bind (sys_inodes s (d_inum d)) encode_fattr3) (\<lambda>a.
            Option.bind (bluesky_inode_unref (d_inum d) s) (\<lambda>s.
            map_option (\<lambda>(es, r). (entryplus3_of d a # es, r))
              (plus_entries e dir maxdir maxall ds (Suc count) dircount attrcount s))))))"

definition nfsproc3_readdirplus_3_svc :: "nfsenv \<Rightarrow> readdirplus3args \<Rightarrow> reqstate \<Rightarrow> (readdirplus3res \<times> reqstate) option" where
  "nfsproc3_readdirplus_3_svc e argp =
     (let maxdir = unat (rpa_dircount argp); maxall = unat (rpa_maxcount argp); base = 88 + 16 in
      with_fh e (rpa_dir argp) (Resfail (nfsstat3_code NFS3ERR_STALE) None) (\<lambda>d dir st.
        Option.bind (encode_fattr3 dir) (\<lambda>da.
        Option.bind (entries_from (ne_fs e) dir (rpa_cookie argp)) (\<lambda>ents.
        Option.bind (prefetch_entries (ne_fs e) maxdir maxall ents base 0 (snd st)) (\<lambda>s.
        map_option (\<lambda>(es, eof, s).
          (Resok \<lparr>rpr_dir_attributes = Some da, rpr_cookieverf = replicate 8 0, rpr_reply = \<lparr>dlp_entries = es, dlp_eof = eof\<rparr>\<rparr>, (fst st, s)))
          (plus_entries (ne_fs e) d maxdir maxall ents 0 base 0 s))))))"


section \<open>Information on the file system\<close>

definition nfsproc3_fsstat_3_svc :: "nfsenv \<Rightarrow> nfs_fh3 \<Rightarrow> reqstate \<Rightarrow> (fsstat3res \<times> reqstate) option" where
  "nfsproc3_fsstat_3_svc e argp =
     with_fh e argp (Resfail (nfsstat3_code NFS3ERR_STALE) None) (\<lambda>i inode st.
       map_option (\<lambda>a. (Resok \<lparr>fs_obj_attributes = Some a, fs_tbytes = 2 ^ 30, fs_fbytes = 2 ^ 30, fs_abytes = 2 ^ 30,
           fs_tfiles = 0, fs_ffiles = 0, fs_afiles = 0, fs_invarsec = 0\<rparr>, st)) (encode_fattr3 inode))"

text \<open>The attributes of the root directory; a file system without one is a null pointer access.\<close>

definition root_attrs :: "nfsenv \<Rightarrow> reqstate \<Rightarrow> (fattr3 \<times> reqstate) option" where
  "root_attrs e st =
     Option.bind (bluesky_get_inode (ne_fs e) 1 (snd st)) (\<lambda>(found, s).
     if \<not> found then None
     else
       Option.bind (lock_inode (ne_fs e) 1 s) (\<lambda>s.
       Option.bind (Option.bind (sys_inodes s 1) encode_fattr3) (\<lambda>a.
       map_option (\<lambda>s. (a, (fst st, s))) (bluesky_inode_unref 1 s))))"

definition FSF3_properties :: u32 where "FSF3_properties = 1 + 2 + 8 + 16"

definition nfsproc3_fsinfo_3_svc :: "nfsenv \<Rightarrow> reqstate \<Rightarrow> (fsinfo3res \<times> reqstate) option" where
  "nfsproc3_fsinfo_3_svc e st =
     map_option (\<lambda>(a, st). (Resok \<lparr>fi_obj_attributes = Some a, fi_rtmax = of_nat NFS_MAXSIZE, fi_rtpref = of_nat NFS_MAXSIZE,
         fi_rtmult = of_nat NFS_BLOCKSIZE, fi_wtmax = of_nat NFS_MAXSIZE, fi_wtpref = of_nat NFS_MAXSIZE,
         fi_wtmult = of_nat NFS_BLOCKSIZE, fi_dtpref = of_nat NFS_BLOCKSIZE, fi_maxfilesize = 0x7fffffffffffffff,
         fi_time_delta = \<lparr>nt_seconds = 0, nt_nseconds = 1000\<rparr>, fi_properties = FSF3_properties\<rparr>, st)) (root_attrs e st)"

definition nfsproc3_pathconf_3_svc :: "nfsenv \<Rightarrow> reqstate \<Rightarrow> (pathconf3res \<times> reqstate) option" where
  "nfsproc3_pathconf_3_svc e st =
     map_option (\<lambda>(a, st). (Resok \<lparr>pc_obj_attributes = Some a, pc_linkmax = 0xffffffff, pc_name_max = 255, pc_no_trunc = True,
         pc_chown_restricted = True, pc_case_insensitive = False, pc_case_preserving = True\<rparr>, st)) (root_attrs e st)"


section \<open>Requests\<close>

fun nfs_handler :: "nfsenv \<Rightarrow> nfs_args \<Rightarrow> reqstate \<Rightarrow> (nfs_res \<times> reqstate) option" where
  "nfs_handler e A_null st = map_option (Pair R_null) (nfsproc3_null_3_svc st)"
| "nfs_handler e (A_getattr a) st = map_option (apfst R_getattr) (nfsproc3_getattr_3_svc e a st)"
| "nfs_handler e (A_setattr a) st = map_option (apfst R_setattr) (nfsproc3_setattr_3_svc e a st)"
| "nfs_handler e (A_lookup a) st = map_option (apfst R_lookup) (nfsproc3_lookup_3_svc e a st)"
| "nfs_handler e (A_access a) st = map_option (apfst R_access) (nfsproc3_access_3_svc e a st)"
| "nfs_handler e (A_readlink a) st = map_option (apfst R_readlink) (nfsproc3_readlink_3_svc e a st)"
| "nfs_handler e (A_read a) st = map_option (apfst R_read) (nfsproc3_read_3_svc e a st)"
| "nfs_handler e (A_write a) st = map_option (apfst R_write) (nfsproc3_write_3_svc e a st)"
| "nfs_handler e (A_create a) st = map_option (apfst R_create) (nfsproc3_create_3_svc e a st)"
| "nfs_handler e (A_mkdir a) st = map_option (apfst R_mkdir) (nfsproc3_mkdir_3_svc e a st)"
| "nfs_handler e (A_symlink a) st = map_option (apfst R_symlink) (nfsproc3_symlink_3_svc e a st)"
| "nfs_handler e (A_mknod a) st = map_option (apfst R_mknod) (nfsproc3_mknod_3_svc st)"
| "nfs_handler e (A_remove a) st = map_option (apfst R_remove) (nfsproc3_remove_3_svc e a st)"
| "nfs_handler e (A_rmdir a) st = map_option (apfst R_rmdir) (nfsproc3_rmdir_3_svc e a st)"
| "nfs_handler e (A_rename a) st = map_option (apfst R_rename) (nfsproc3_rename_3_svc e a st)"
| "nfs_handler e (A_link a) st = map_option (apfst R_link) (nfsproc3_link_3_svc e a st)"
| "nfs_handler e (A_readdir a) st = map_option (apfst R_readdir) (nfsproc3_readdir_3_svc e a st)"
| "nfs_handler e (A_readdirplus a) st = map_option (apfst R_readdirplus) (nfsproc3_readdirplus_3_svc e a st)"
| "nfs_handler e (A_fsstat a) st = map_option (apfst R_fsstat) (nfsproc3_fsstat_3_svc e a st)"
| "nfs_handler e (A_fsinfo a) st = map_option (apfst R_fsinfo) (nfsproc3_fsinfo_3_svc e st)"
| "nfs_handler e (A_pathconf a) st = map_option (apfst R_pathconf) (nfsproc3_pathconf_3_svc e st)"
| "nfs_handler e (A_commit a) st = map_option (apfst R_commit) (nfsproc3_commit_3_svc e a st)"

text \<open>The references a request took are dropped when its reply has been sent.\<close>

fun drop_refs :: "u64 list \<Rightarrow> fsys \<Rightarrow> fsys option" where
  "drop_refs [] s = Some s"
| "drop_refs (i # is) s = Option.bind (bluesky_inode_unref i s) (drop_refs is)"

definition nfs_service :: "nfsenv \<Rightarrow> nfs_args \<Rightarrow> fsys \<Rightarrow> (nfs_res \<times> fsys) option" where
  "nfs_service e args s =
     Option.bind (nfs_handler e args ([], s)) (\<lambda>(res, cleanup, s). map_option (Pair res) (drop_refs cleanup s))"

end
