(* ===== verification/BlueSky_Writeback.thy ===== *)
theory BlueSky_Writeback
  imports BlueSky_Inode
begin

text \<open>
  Correctness of writeback (\<^verbatim>\<open>bluesky_inode_start_sync\<close> of \<^verbatim>\<open>bluesky/inode.c\<close>): the item of
  an inode links to the items of its blocks, the wait for the log thread ends, and
  afterwards the inode and its blocks are on stable storage.
\<close>


section \<open>The item of an inode\<close>

lemma item_inv_survives:
  assumes inv: "item_inv {} s" and q: "journal_queue fs' = journal_queue (fs_items s)"
    and old: "\<And>x y. get_item fs' x = Some y \<Longrightarrow> x \<noteq> r \<Longrightarrow> \<exists>c. get_item (fs_items s) x = Some c \<and> y = c\<lparr>cl_refcount := cl_refcount y\<rparr>"
    and live: "\<And>x. x \<in> set (committed s) \<Longrightarrow> get_item fs' x \<noteq> None"
    and r: "get_item (fs_items s) r = None" "r \<notin> set (journal_queue (fs_items s)) \<union> set (committed s)"
    and new: "\<And>y. get_item fs' r = Some y \<Longrightarrow> item_small y \<and> CLOUDLOG_JOURNAL \<notin> location_flags y \<union> pending_write y \<and> CLOUDLOG_UNCOMMITTED \<notin> location_flags y"
  shows "item_inv {} (s\<lparr>fs_items := fs'\<rparr>)"
proof -
  let ?s' = "s\<lparr>fs_items := fs'\<rparr>"
  note i = item_invD [OF inv]
  have l: "logged ?s' (c\<lparr>cl_refcount := n\<rparr>) = logged s c" for c n by (simp add: logged_def in_file_def record_of_def)
  show ?thesis
    unfolding item_inv_def
  proof (intro conjI allI ballI impI)
    fix x y assume g: "get_item (fs_items ?s') x = Some y"
    have all: "item_small y \<and> waiting ?s' x y \<and> (CLOUDLOG_JOURNAL \<in> location_flags y \<union> pending_write y \<longrightarrow> logged ?s' y) \<and>
        (x \<in> set (journal_queue (fs_items ?s')) \<longrightarrow> queued_ok y)"
    proof (cases "x = r")
      case True
      then show ?thesis using new [of y] g r q by (auto simp: waiting_def)
    next
      case False
      with old [of x y] g obtain c n where c: "get_item (fs_items s) x = Some c" "y = c\<lparr>cl_refcount := n\<rparr>" by auto
      show ?thesis using i(1,6,2,4) [OF c(1)] c(2) q l by (simp add: item_small_def waiting_def queued_ok_def)
    qed
    show "item_small y" "waiting ?s' x y" "CLOUDLOG_JOURNAL \<in> location_flags y \<union> pending_write y \<Longrightarrow> logged ?s' y"
      "x \<in> set (journal_queue (fs_items ?s')) \<Longrightarrow> queued_ok y" using all by blast+
  next
    fix x assume x: "x \<in> set (committed ?s')"
    then obtain y where y: "get_item fs' x = Some y" using live [of x] by auto
    have "x \<noteq> r" using x r by auto
    with old [OF y] obtain c n where c: "get_item (fs_items s) x = Some c" "y = c\<lparr>cl_refcount := n\<rparr>" by auto
    with i(3) [of x] x y
    show "\<exists>y. get_item (fs_items ?s') x = Some y \<and> CLOUDLOG_JOURNAL \<in> pending_write y \<and> log_fd ?s' = Some (journal_key (log_seq y))" by auto
  qed (use i(5) q in simp_all)
qed

lemma serialize_log_ok:
  assumes inv: "log_inv {} own s" and p: "inode_payload i = Some payload" and oid: "length oid = 16"
    and live: "\<And>r. Some r \<in> set (inode_links i) \<Longrightarrow> get_item (fs_items s) r \<noteq> None"
    and small: "length (serialized_inode i @ payload) + 32 * length (inode_links i) < 2 ^ 32"
  defines "r \<equiv> length (cl_items (fs_items s))"
  obtains fs' item where "bluesky_serialize_inode oid i (fs_items s) = Some (r, fs')" "get_item fs' r = Some item"
    "item = (inode_item oid i payload)\<lparr>cl_refcount := cl_refcount item\<rparr>" "log_inv {} (own(r := 1)) (s\<lparr>fs_items := fs'\<rparr>)" "own r = 0"
    "journal_queue fs' = journal_queue (fs_items s)"
    "\<forall>q y. get_item fs' q = Some y \<longrightarrow> q \<noteq> r \<longrightarrow> (\<exists>x. get_item (fs_items s) q = Some x \<and> y = x\<lparr>cl_refcount := cl_refcount y\<rparr>)"
proof -
  let ?own = "\<lambda>q. own q + journal_refs s q"
  note rc = log_invD(1) [OF inv]
  obtain fs' item where f: "bluesky_serialize_inode oid i (fs_items s) = Some (r, fs')" "get_item fs' r = Some item"
    "item = (inode_item oid i payload)\<lparr>cl_refcount := cl_refcount item\<rparr>" "rc_ok (?own(r := 1)) fs'"
    "loc_ok (fs_items s) \<Longrightarrow> loc_ok fs'" "stats_ok (fs_items s) \<Longrightarrow> stats_ok fs'" "journal_queue fs' = journal_queue (fs_items s)"
    "\<forall>q y. get_item fs' q = Some y \<longrightarrow> q \<noteq> r \<longrightarrow> (\<exists>x. get_item (fs_items s) q = Some x \<and> y = x\<lparr>cl_refcount := cl_refcount y\<rparr>)"
    unfolding r_def by (rule serialize_inode_run [OF rc p live, where oid = oid]) simp_all
  let ?s' = "s\<lparr>fs_items := fs'\<rparr>"
  have none: "get_item (fs_items s) r = None" by (simp add: get_item_def r_def)
  have z: "own r = 0" "journal_refs s r = 0" using rc_okD(3) [OF rc none] by auto
  then have nr: "r \<notin> set (journal_queue (fs_items s)) \<union> set (committed s)"
    by (auto simp: journal_refs_def count_list_0_iff)
  have o: "?own(r := 1) = (\<lambda>q. (own(r := 1)) q + journal_refs ?s' q)"
    using z f(7) by (auto simp: fun_eq_iff journal_refs_def)
  have lv: "get_item fs' x \<noteq> None" if "x \<in> set (committed s)" for x
  proof -
    have "0 < (?own(r := 1)) x" using that nr by (auto simp: journal_refs_def dest: count_list_pos)
    from rc_ok_live [OF f(4) this] show ?thesis by auto
  qed
  have new: "item_small y \<and> CLOUDLOG_JOURNAL \<notin> location_flags y \<union> pending_write y \<and> CLOUDLOG_UNCOMMITTED \<notin> location_flags y"
    if "get_item fs' r = Some y" for y
  proof -
    from that f(2,3) obtain n where "y = (inode_item oid i payload)\<lparr>cl_refcount := n\<rparr>" by auto
    then show ?thesis using small oid by (simp add: item_small_def inode_item_def new_cloudlog_def)
  qed
  have "item_inv {} ?s'"
    by (rule item_inv_survives [OF log_invD(5) [OF inv] f(7) _ lv none nr new]) (use f(8) in blast)
  moreover have "file_inv ?s'" by (rule file_inv_cong [OF log_invD(4) [OF inv]]) simp_all
  ultimately have "log_inv {} (own(r := 1)) ?s'"
    using f(4) f(5) [OF log_invD(2) [OF inv]] f(6) [OF log_invD(3) [OF inv]] unfolding o by (simp add: log_inv_def)
  with f z show thesis by (intro that [of fs' item]) auto
qed


section \<open>Waiting for the log thread\<close>

definition in_journal :: "ref list \<Rightarrow> clfs \<Rightarrow> bool" where
  "in_journal rs fs \<longleftrightarrow> (\<forall>r \<in> set rs. \<forall>c. get_item fs r = Some c \<longrightarrow> CLOUDLOG_JOURNAL \<in> location_flags c)"

lemma in_journal_keeps:
  assumes "in_journal rs (fs_items s)" "keeps s s'"
  shows "in_journal rs (fs_items s')"
  unfolding in_journal_def
proof (intro ballI allI impI)
  fix r c' assume "r \<in> set rs" and c': "get_item (fs_items s') r = Some c'"
  from keepsD [OF assms(2) c'] obtain c where c: "get_item (fs_items s) r = Some c" "same_item s c s' c'" by blast
  then have "CLOUDLOG_JOURNAL \<in> location_flags c" using assms(1) \<open>r \<in> set rs\<close> by (auto simp: in_journal_def)
  with c(2) show "CLOUDLOG_JOURNAL \<in> location_flags c'" by (simp add: same_item_def)
qed

lemma finish_all_ok:
  assumes "log_inv {} (\<lambda>q. own q + count_list rs q) s" "all_submitted s"
  shows "\<exists>done_rs rest fs'. rs = done_rs @ rest \<and> bluesky_log_finish_all rs (fs_items s) = Some (rest, fs') \<and>
           log_inv {} (\<lambda>q. own q + count_list rest q) (s\<lparr>fs_items := fs'\<rparr>) \<and> keeps s (s\<lparr>fs_items := fs'\<rparr>) \<and>
           journal_queue fs' = journal_queue (fs_items s) \<and> in_journal done_rs fs' \<and>
           (rest = [] \<or> (\<exists>c. get_item fs' (hd rest) = Some c \<and> CLOUDLOG_UNCOMMITTED \<in> location_flags c))"
  using assms
proof (induction rs arbitrary: s)
  case Nil
  then show ?case by (auto simp: in_journal_def)
next
  case (Cons r rs)
  have "0 < own r + count_list (r # rs) r + journal_refs s r" by simp
  from rc_ok_live [OF log_invD(1) [OF Cons.prems(1)] this] obtain c where c: "get_item (fs_items s) r = Some c" by auto
  show ?case
  proof (cases "CLOUDLOG_UNCOMMITTED \<in> location_flags c")
    case True
    with c Cons.prems show ?thesis
      by (intro exI [of _ "[]"] exI [of _ "r # rs"] exI [of _ "fs_items s"]) (simp add: in_journal_def)
  next
    case False
    with all_submittedD [OF Cons.prems(2) c] have "CLOUDLOG_JOURNAL \<in> location_flags c" by auto
    then have j: "in_journal [r] (fs_items s)" using c by (simp add: in_journal_def)
    from log_unref_ok [OF Cons.prems(1), of r] obtain fs1
      where u: "bluesky_cloudlog_unref (Some r) (fs_items s) = Some fs1"
        "log_inv {} ((\<lambda>q. own q + count_list (r # rs) q)(r := own r + count_list (r # rs) r - 1)) (s\<lparr>fs_items := fs1\<rparr>)"
        "keeps s (s\<lparr>fs_items := fs1\<rparr>)" "journal_queue fs1 = journal_queue (fs_items s)" by auto
    have "(\<lambda>q. own q + count_list (r # rs) q)(r := own r + count_list (r # rs) r - 1) = (\<lambda>q. own q + count_list rs q)"
      by (auto simp: fun_eq_iff)
    with u(2) have inv1: "log_inv {} (\<lambda>q. own q + count_list rs q) (s\<lparr>fs_items := fs1\<rparr>)" by simp
    from Cons.IH [OF inv1 all_submitted_keeps [OF Cons.prems(2) u(3)]] obtain d rest fs'
      where f: "rs = d @ rest" "bluesky_log_finish_all rs fs1 = Some (rest, fs')"
        "log_inv {} (\<lambda>q. own q + count_list rest q) (s\<lparr>fs_items := fs'\<rparr>)" "keeps (s\<lparr>fs_items := fs1\<rparr>) (s\<lparr>fs_items := fs'\<rparr>)"
        "journal_queue fs' = journal_queue fs1" "in_journal d fs'"
        "rest = [] \<or> (\<exists>c. get_item fs' (hd rest) = Some c \<and> CLOUDLOG_UNCOMMITTED \<in> location_flags c)" by auto
    have k: "keeps s (s\<lparr>fs_items := fs'\<rparr>)" by (rule keeps_trans [OF u(3) f(4)])
    have "in_journal (r # d) fs'" using in_journal_keeps [OF j k] f(6) by (simp add: in_journal_def)
    with f k c False u(1,4) show ?thesis
      by (intro exI [of _ "r # d"] exI [of _ rest] exI [of _ fs']) simp
  qed
qed

text \<open>
  The wait ends: as long as an item is left that is not committed the queue of the log
  thread is not empty, and every round takes an item from it.
\<close>

lemma wait_finished_ok:
  assumes "log_inv {} (\<lambda>q. own q + count_list rs q) s" "all_submitted s" "settled s" "length (journal_queue (fs_items s)) \<le> fuel"
  shows "\<exists>s'. wait_finished fuel env now rs s = Some s' \<and> log_inv {} own s' \<and> keeps s s' \<and> settled s' \<and> in_journal rs (fs_items s') \<and>
           suffix (journal_queue (fs_items s')) (journal_queue (fs_items s))"
  using assms
proof (induction fuel arbitrary: rs s)
  case (0 rs s)
  from finish_all_ok [OF "0.prems"(1,2)] obtain d rest fs'
    where f: "rs = d @ rest" "bluesky_log_finish_all rs (fs_items s) = Some (rest, fs')"
      "log_inv {} (\<lambda>q. own q + count_list rest q) (s\<lparr>fs_items := fs'\<rparr>)" "keeps s (s\<lparr>fs_items := fs'\<rparr>)"
      "journal_queue fs' = journal_queue (fs_items s)" "in_journal d fs'"
      "rest = [] \<or> (\<exists>c. get_item fs' (hd rest) = Some c \<and> CLOUDLOG_UNCOMMITTED \<in> location_flags c)" by blast
  have "rest = []"
  proof (rule ccontr)
    assume "rest \<noteq> []"
    with f(7) obtain c where c: "get_item (fs_items (s\<lparr>fs_items := fs'\<rparr>)) (hd rest) = Some c" "CLOUDLOG_UNCOMMITTED \<in> location_flags c" by auto
    from item_invD(6) [OF log_invD(5) [OF f(3)] c(1)] c(2) "0.prems"(3,4) f(5) show False by (simp add: waiting_def settled_def)
  qed
  with f "0.prems"(3) show ?case by (subst wait_finished.simps) (simp add: settled_def)
next
  case (Suc n rs s)
  from finish_all_ok [OF Suc.prems(1,2)] obtain d rest fs'
    where f: "rs = d @ rest" "bluesky_log_finish_all rs (fs_items s) = Some (rest, fs')"
      "log_inv {} (\<lambda>q. own q + count_list rest q) (s\<lparr>fs_items := fs'\<rparr>)" "keeps s (s\<lparr>fs_items := fs'\<rparr>)"
      "journal_queue fs' = journal_queue (fs_items s)" "in_journal d fs'"
      "rest = [] \<or> (\<exists>c. get_item fs' (hd rest) = Some c \<and> CLOUDLOG_UNCOMMITTED \<in> location_flags c)" by blast
  show ?case
  proof (cases rest)
    case Nil
    with f Suc.prems(3) show ?thesis by (subst wait_finished.simps) (simp add: settled_def)
  next
    case (Cons r rs')
    with f(7) obtain c where c: "get_item (fs_items (s\<lparr>fs_items := fs'\<rparr>)) r = Some c" "CLOUDLOG_UNCOMMITTED \<in> location_flags c" by auto
    have q: "journal_queue (fs_items s) \<noteq> []"
      using item_invD(6) [OF log_invD(5) [OF f(3)] c(1)] c(2) Suc.prems(3) f(5) by (auto simp: waiting_def settled_def)
    from log_thread_step_ok [OF f(3), of env now] obtain s1
      where s1: "log_thread_step env now (s\<lparr>fs_items := fs'\<rparr>) = Some s1" "log_inv {} (\<lambda>q. own q + count_list rest q) s1"
        "keeps (s\<lparr>fs_items := fs'\<rparr>) s1" "journal_queue (fs_items s1) = tl (journal_queue (fs_items s))" "settled s1"
      using q f(5) by (auto simp: settled_def)
    have k1: "keeps s s1" by (rule keeps_trans [OF f(4) s1(3)])
    have "length (journal_queue (fs_items s1)) \<le> n" using s1(4) Suc.prems(4) by simp
    from Suc.IH [OF s1(2) all_submitted_keeps [OF Suc.prems(2) k1] s1(5) this] obtain s'
      where s': "wait_finished n env now rest s1 = Some s'" "log_inv {} own s'" "keeps s1 s'" "settled s'" "in_journal rest (fs_items s')"
        "suffix (journal_queue (fs_items s')) (journal_queue (fs_items s1))" by blast
    have "in_journal d (fs_items s')" using in_journal_keeps [OF _ keeps_trans [OF s1(3) s'(3)]] f(6) by simp
    then have "in_journal rs (fs_items s')" using s'(5) f(1) by (auto simp: in_journal_def)
    moreover have "wait_finished (Suc n) env now rs s = Some s'"
      using f(2) s1(1) s'(1) Cons by (subst wait_finished.simps) simp
    moreover have "suffix (journal_queue (fs_items s')) (journal_queue (fs_items s))"
      using s'(6) s1(4) suffix_order.trans [OF _ suffix_tl] by metis
    ultimately show ?thesis using s' keeps_trans [OF k1 s'(3)] by blast
  qed
qed


section \<open>Submitting an inode\<close>

definition give_back :: "ref option \<Rightarrow> (ref \<Rightarrow> nat) \<Rightarrow> ref \<Rightarrow> nat" where
  "give_back p own = (case p of None \<Rightarrow> own | Some q \<Rightarrow> own(q := own q - 1))"

lemma log_unref_opt_ok:
  assumes inv: "log_inv {} own s" and p: "\<And>q. p = Some q \<Longrightarrow> 0 < own q"
  shows "\<exists>fs'. bluesky_cloudlog_unref p (fs_items s) = Some fs' \<and> log_inv {} (give_back p own) (s\<lparr>fs_items := fs'\<rparr>) \<and>
           keeps s (s\<lparr>fs_items := fs'\<rparr>) \<and> journal_queue fs' = journal_queue (fs_items s)"
proof (cases p)
  case None
  with inv show ?thesis by (simp add: give_back_def bluesky_cloudlog_unref_def)
next
  case (Some q)
  with log_unref_ok [OF inv p] show ?thesis by (simp add: give_back_def)
qed

text \<open>An inode that can be written back: its item has a size that fits the fields of a record.\<close>

definition writable :: "inode \<Rightarrow> bool" where
  "writable i \<longleftrightarrow> (\<exists>payload. inode_payload i = Some payload \<and>
     length (serialized_inode i @ payload) + 32 * length (inode_links i) < 2 ^ 32)"

lemma same_item_refcount: "same_item s x (s\<lparr>fs_items := fs'\<rparr>) (x\<lparr>cl_refcount := n\<rparr>)"
  by (simp add: same_item_def known_def item_bytes_def split: option.split)

text \<open>All items but \<open>r\<close> are those of before.\<close>

definition keeps_but :: "ref \<Rightarrow> lfs \<Rightarrow> lfs \<Rightarrow> bool" where
  "keeps_but r s s' \<longleftrightarrow>
     (\<forall>q y. get_item (fs_items s') q = Some y \<longrightarrow> q \<noteq> r \<longrightarrow> (\<exists>x. get_item (fs_items s) q = Some x \<and> same_item s x s' y))"

lemma keeps_but_trans:
  assumes "keeps_but r s s'" "keeps s' s''"
  shows "keeps_but r s s''"
  unfolding keeps_but_def
proof (intro allI impI)
  fix q z assume z: "get_item (fs_items s'') q = Some z" "q \<noteq> r"
  from keepsD [OF assms(2) z(1)] obtain y where y: "get_item (fs_items s') q = Some y" "same_item s' y s'' z" by blast
  with assms(1) z(2) obtain x where "get_item (fs_items s) q = Some x" "same_item s x s' y" by (auto simp: keeps_but_def)
  with y(2) show "\<exists>x. get_item (fs_items s) q = Some x \<and> same_item s x s'' z" using same_item_trans by blast
qed

lemma log_submit_inode:
  assumes inv: "log_inv {} own s" and p: "inode_payload i = Some payload" and oid: "length oid = 16"
    and live: "\<And>r. Some r \<in> set (inode_links i) \<Longrightarrow> get_item (fs_items s) r \<noteq> None"
    and small: "length (serialized_inode i @ payload) + 32 * length (inode_links i) < 2 ^ 32"
    and cm: "\<And>q. committed_item i = Some q \<Longrightarrow> 0 < own q"
  obtains r fs1 fs2 fs3 fs4 item where "own r = 0" "bluesky_serialize_inode oid i (fs_items s) = Some (r, fs1)"
    "bluesky_cloudlog_unref (committed_item i) fs1 = Some fs2" "bluesky_log_item_submit r fs2 = Some fs3"
    "bluesky_cloudlog_ref (Some r) fs3 = Some fs4" "log_inv {} ((give_back (committed_item i) own)(r := 2)) (s\<lparr>fs_items := fs4\<rparr>)"
    "journal_queue fs4 = journal_queue (fs_items s) @ [r]" "keeps_but r s (s\<lparr>fs_items := fs4\<rparr>)"
    "get_item fs4 r = Some item" "same_item s (inode_item oid i payload) (s\<lparr>fs_items := fs4\<rparr>) item"
proof -
  define r where "r = length (cl_items (fs_items s))"
  obtain fs1 item1 where f1: "bluesky_serialize_inode oid i (fs_items s) = Some (r, fs1)" "get_item fs1 r = Some item1"
    "item1 = (inode_item oid i payload)\<lparr>cl_refcount := cl_refcount item1\<rparr>" "log_inv {} (own(r := 1)) (s\<lparr>fs_items := fs1\<rparr>)" "own r = 0"
    "journal_queue fs1 = journal_queue (fs_items s)"
    "\<forall>q y. get_item fs1 q = Some y \<longrightarrow> q \<noteq> r \<longrightarrow> (\<exists>x. get_item (fs_items s) q = Some x \<and> y = x\<lparr>cl_refcount := cl_refcount y\<rparr>)"
    unfolding r_def by (rule serialize_log_ok [OF inv p oid live small]) simp_all
  let ?s1 = "s\<lparr>fs_items := fs1\<rparr>"
  have kb: "keeps_but r s ?s1"
    unfolding keeps_but_def
  proof (intro allI impI)
    fix q y assume "get_item (fs_items ?s1) q = Some y" "q \<noteq> r"
    then have "get_item fs1 q = Some y" by simp
    from f1(7) [rule_format, OF this \<open>q \<noteq> r\<close>] obtain x n where "get_item (fs_items s) q = Some x" "y = x\<lparr>cl_refcount := n\<rparr>" by blast
    then show "\<exists>x. get_item (fs_items s) q = Some x \<and> same_item s x ?s1 y" using same_item_refcount by auto
  qed
  have cr: "committed_item i \<noteq> Some r" using cm f1(5) by fastforce
  define own1 own2 where "own1 = own(r := 1)" and "own2 = give_back (committed_item i) own1"
  have o2: "own2 r = 1" "own2(r := 2) = (give_back (committed_item i) own)(r := 2)"
    using cr by (auto simp: own2_def own1_def give_back_def fun_eq_iff split: option.split)
  have "\<And>q. committed_item i = Some q \<Longrightarrow> 0 < own1 q" using cm by (simp add: own1_def)
  from log_unref_opt_ok [OF f1(4) [folded own1_def] this] obtain fs2 where f2: "bluesky_cloudlog_unref (committed_item i) fs1 = Some fs2"
    "log_inv {} own2 (s\<lparr>fs_items := fs2\<rparr>)" "keeps ?s1 (s\<lparr>fs_items := fs2\<rparr>)" "journal_queue fs2 = journal_queue fs1"
    unfolding own2_def by auto
  let ?s2 = "s\<lparr>fs_items := fs2\<rparr>"
  obtain x2 where g2: "get_item (fs_items ?s2) r = Some x2" using rc_ok_live [OF log_invD(1) [OF f2(2)], of r] o2 by auto
  have i1: "same_item s (inode_item oid i payload) ?s1 item1" by (subst f1(3)) (rule same_item_refcount)
  obtain n where n: "item1 = (inode_item oid i payload)\<lparr>cl_refcount := n\<rparr>" using f1(3) by blast
  have "survives fs1 fs2" using unref_all_keeps f2(1) by (auto simp: bluesky_cloudlog_unref_def)
  from survivesD2 [OF this _ f1(2), of x2] g2 n obtain m where m: "x2 = (inode_item oid i payload)\<lparr>cl_refcount := m\<rparr>"
    by auto
  then have x2: "cl_data x2 \<noteq> None" "cl_type x2 \<noteq> LOGTYPE_UNKNOWN" "0 \<le> data_lock_count x2"
    "CLOUDLOG_JOURNAL \<notin> location_flags x2 \<union> pending_write x2" "CLOUDLOG_UNCOMMITTED \<notin> location_flags x2"
    by (simp_all add: inode_item_def new_cloudlog_def logtype_defs)
  from submit_ok [OF f2(2) g2 x2] obtain fs3 where f3: "bluesky_log_item_submit r fs2 = Some fs3"
    "log_inv {} own2 (s\<lparr>fs_items := fs3\<rparr>)" "keeps ?s2 (s\<lparr>fs_items := fs3\<rparr>)" "journal_queue fs3 = journal_queue fs2 @ [r]" by auto
  let ?s3 = "s\<lparr>fs_items := fs3\<rparr>"
  obtain x3 where g3: "get_item (fs_items ?s3) r = Some x3" using rc_ok_live [OF log_invD(1) [OF f3(2)], of r] o2 by auto
  from log_ref_ok [OF f3(2) g3] o2 obtain fs4 where f4: "bluesky_cloudlog_ref (Some r) fs3 = Some fs4"
    "log_inv {} (own2(r := 2)) (s\<lparr>fs_items := fs4\<rparr>)" "keeps ?s3 (s\<lparr>fs_items := fs4\<rparr>)" "journal_queue fs4 = journal_queue fs3"
    by (auto simp: numeral_2_eq_2)
  let ?s4 = "s\<lparr>fs_items := fs4\<rparr>"
  have "0 < (own2(r := 2)) r + journal_refs ?s4 r" by simp
  from rc_ok_live [OF log_invD(1) [OF f4(2)] this] obtain x4 where g4: "get_item fs4 r = Some x4" by auto
  have k: "keeps ?s1 ?s4" by (rule keeps_trans [OF f2(3) keeps_trans [OF f3(3) f4(3)]])
  have "same_item ?s1 item1 ?s4 x4" using keepsD [OF k, of r x4] g4 f1(2) by auto
  then have i4: "same_item s (inode_item oid i payload) ?s4 x4" by (rule same_item_trans [OF i1])
  show thesis
    by (rule that [OF f1(5,1) f2(1) f3(1) f4(1) f4(2) [unfolded o2(2)] _ keeps_but_trans [OF kb k] g4 i4])
      (simp add: f4(4) f3(4) f2(4) f1(6))
qed


lemma journal_only_but:
  assumes "journal_only s" "keeps_but r s s'" "get_item (fs_items s') r = Some item" "same_item s0 c s' item"
    "cl_data c \<noteq> None" "cl_type c \<noteq> LOGTYPE_UNKNOWN" "location_flags c = {}"
  shows "journal_only s'"
  unfolding journal_only_def
proof (intro allI impI)
  fix q y assume y: "get_item (fs_items s') q = Some y"
  show "known y \<and> cl_type y \<noteq> LOGTYPE_UNKNOWN \<and> location_flags y \<subseteq> {CLOUDLOG_JOURNAL, CLOUDLOG_UNCOMMITTED}"
  proof (cases "q = r")
    case True
    then show ?thesis using y assms(3-7) by (auto simp: same_item_def known_def)
  next
    case False
    with assms(2) y obtain x where x: "get_item (fs_items s) q = Some x" "same_item s x s' y" by (auto simp: keeps_but_def)
    from journal_onlyD [OF assms(1) x(1)] x(2) show ?thesis by (auto simp: same_item_def)
  qed
qed

lemma store_data_but:
  assumes "journal_only s" "keeps_but r s (ls_log b')" "store_inv own' b'" "0 < own' q" "q \<noteq> r" "ls_log b = s"
  shows "store_data b' q = store_data b q"
proof -
  from store_live [OF assms(3,4)] obtain y where y: "get_item (fs_items (ls_log b')) q = Some y" by blast
  with assms(2,5) obtain x where x: "get_item (fs_items s) q = Some x" "same_item s x (ls_log b') y" by (auto simp: keeps_but_def)
  with journal_onlyD [OF assms(1) x(1)] y assms(6) show ?thesis by (simp add: store_data_def same_item_def)
qed

lemma store_submit_inode:
  assumes inv: "store_inv own b" and w: "writable i"
    and links: "\<And>q. Some q \<in> set (inode_links i) \<Longrightarrow> 0 < own q"
    and old: "\<And>q. committed_item i = Some q \<Longrightarrow> 0 < own q"
  obtains r b' item payload where "submit_inode i b = Some (r, b')" "own r = 0" "store_inv ((give_back (committed_item i) own)(r := 2)) b'"
    "\<forall>q. 0 < give_back (committed_item i) own q \<longrightarrow> q \<noteq> r \<longrightarrow> store_data b' q = store_data b q"
    "inode_payload i = Some payload" "store_data b' r = serialized_inode i @ payload"
    "get_item (fs_items (ls_log b')) r = Some item" "cl_type item = LOGTYPE_INODE" "cl_links item = inode_links i" "cl_inum item = i_inum i"
    "next_inum (ls_log b') = next_inum (ls_log b)" "inode_map (ls_log b') = inode_map (ls_log b)"
    "journal_queue (fs_items (ls_log b')) = journal_queue (fs_items (ls_log b)) @ [r]"
proof -
  define own0 oid where "own0 = (\<lambda>q. own q + count_list (fetch_pool b) q)" and "oid = ls_ids b (ls_drawn b)"
  let ?s = "ls_log b" and ?own1 = "give_back (committed_item i) own"
  have oid: "length oid = 16" using inv by (simp add: store_inv_def oid_def)
  obtain payload where p: "inode_payload i = Some payload" "length (serialized_inode i @ payload) + 32 * length (inode_links i) < 2 ^ 32"
    using w by (auto simp: writable_def)
  have live: "get_item (fs_items ?s) q \<noteq> None" if "Some q \<in> set (inode_links i)" for q
    using store_live [OF inv links [OF that]] by (metis option.distinct(1))
  have cm: "0 < own0 q" if "committed_item i = Some q" for q using old [OF that] by (simp add: own0_def)
  obtain r fs1 fs2 fs3 fs4 item where f: "own0 r = 0" "bluesky_serialize_inode oid i (fs_items ?s) = Some (r, fs1)"
    "bluesky_cloudlog_unref (committed_item i) fs1 = Some fs2" "bluesky_log_item_submit r fs2 = Some fs3"
    "bluesky_cloudlog_ref (Some r) fs3 = Some fs4" "log_inv {} ((give_back (committed_item i) own0)(r := 2)) (?s\<lparr>fs_items := fs4\<rparr>)"
    "journal_queue fs4 = journal_queue (fs_items ?s) @ [r]" "keeps_but r ?s (?s\<lparr>fs_items := fs4\<rparr>)"
    "get_item fs4 r = Some item" "same_item ?s (inode_item oid i payload) (?s\<lparr>fs_items := fs4\<rparr>) item"
    by (rule log_submit_inode [OF store_inv_log [OF inv, folded own0_def] p(1) oid live p(2) cm])
  let ?s4 = "?s\<lparr>fs_items := fs4\<rparr>" and ?b4 = "b\<lparr>ls_log := ?s\<lparr>fs_items := fs4\<rparr>, ls_drawn := Suc (ls_drawn b)\<rparr>"
  have z: "own r = 0" "count_list (fetch_pool b) r = 0" using f(1) by (simp_all add: own0_def)
  define own4 where "own4 = ?own1(r := 2)"
  have o: "(give_back (committed_item i) own0)(r := 2) = (\<lambda>q. own4 q + count_list (fetch_pool b) q)"
    using z old by (fastforce simp: fun_eq_iff own4_def own0_def give_back_def split: option.split)
  have jo: "journal_only ?s4"
    by (rule journal_only_but [OF store_inv_only [OF inv] f(8) _ f(10)])
      (use f(9) in \<open>simp_all add: inode_item_def new_cloudlog_def logtype_defs\<close>)
  have sub: "all_submitted ?s4"
    unfolding all_submitted_def
  proof (intro allI impI)
    fix q y assume y: "get_item (fs_items ?s4) q = Some y"
    show "{CLOUDLOG_JOURNAL, CLOUDLOG_UNCOMMITTED} \<inter> location_flags y \<noteq> {}"
    proof (cases "q = r")
      case True
      with item_invD(4) [OF log_invD(5) [OF f(6)] y] f(7) show ?thesis by (auto simp: queued_ok_def)
    next
      case False
      with f(8) y obtain x where x: "get_item (fs_items ?s) q = Some x" "same_item ?s x ?s4 y" by (auto simp: keeps_but_def)
      have "all_submitted ?s" using inv by (simp add: store_inv_def)
      then show ?thesis using same_item_submitted [OF x(2)] all_submittedD x(1) by blast
    qed
  qed
  have b4: "store_inv own4 ?b4"
    using f(6) [unfolded o] f(7) jo sub inv by (simp add: store_inv_def settled_def)
  have sub4: "submit_inode i b = Some (r, ?b4)"
    using f(2-5) by (simp add: submit_inode_def serialize_to_store_def store_items_def map_items_def oid_def)
  have d: "store_data ?b4 q = store_data b q" if "0 < ?own1 q" "q \<noteq> r" for q
    by (rule store_data_but [OF store_inv_only [OF inv] _ b4]) (use that f(8) in \<open>simp_all add: own4_def\<close>)
  have it: "store_data ?b4 r = serialized_inode i @ payload" "cl_type item = LOGTYPE_INODE" "cl_links item = inode_links i" "cl_inum item = i_inum i"
    using f(9,10) by (simp_all add: store_data_def same_item_def inode_item_def known_def item_bytes_def)
  show thesis
    by (rule that [OF sub4 z(1) b4 [unfolded own4_def] _ p(1) it(1) _ it(2-4)]) (use d f(7,9) in simp_all)
qed

lemma store_finish:
  assumes inv: "store_inv (\<lambda>q. own q + count_list rs q) b"
  obtains b' where "finish_items e rs b = Some b'" "store_inv own b'" "keeps (ls_log b) (ls_log b')" "in_journal rs (fs_items (ls_log b'))"
    "suffix (journal_queue (fs_items (ls_log b'))) (journal_queue (fs_items (ls_log b)))"
proof -
  have i: "log_inv {} (\<lambda>q. (own q + count_list (fetch_pool b) q) + count_list rs q) (ls_log b)"
    using store_inv_log [OF inv] by (simp add: add.assoc add.commute add.left_commute)
  from wait_finished_ok [OF i, of "queue_length b" "fe_log e" "fe_now e"] inv obtain s'
    where s: "wait_finished (queue_length b) (fe_log e) (fe_now e) rs (ls_log b) = Some s'"
      "log_inv {} (\<lambda>q. own q + count_list (fetch_pool b) q) s'" "keeps (ls_log b) s'" "settled s'" "in_journal rs (fs_items s')"
      "suffix (journal_queue (fs_items s')) (journal_queue (fs_items (ls_log b)))"
    by (auto simp: store_inv_def queue_length_def)
  have "store_inv own (b\<lparr>ls_log := s'\<rparr>)"
    using inv s(2,4) journal_only_keeps [OF store_inv_only [OF inv] s(3)] all_submitted_keeps [OF _ s(3)] by (simp add: store_inv_def)
  with s show thesis by (intro that [of "b\<lparr>ls_log := s'\<rparr>"]) (simp_all add: finish_items_def)
qed


text \<open>With an empty queue everything in the log is on stable storage.\<close>

definition log_durable :: "lfs \<Rightarrow> bool" where
  "log_durable s \<longleftrightarrow> (\<forall>r c. get_item (fs_items s) r = Some c \<longrightarrow> CLOUDLOG_JOURNAL \<in> location_flags c \<and> durable s c)"

lemma store_drained:
  assumes inv: "store_inv own b" and q: "journal_queue (fs_items (ls_log b)) = []"
  shows "log_durable (ls_log b)"
  unfolding log_durable_def
proof (intro allI impI)
  fix r c assume c: "get_item (fs_items (ls_log b)) r = Some c"
  have "committed (ls_log b) = []" "all_submitted (ls_log b)" using inv q by (auto simp: store_inv_def settled_def)
  moreover note i = item_invD [OF log_invD(5) [OF store_inv_log [OF inv]]]
  ultimately have j: "CLOUDLOG_JOURNAL \<in> location_flags c"
    using i(6) [OF c] q all_submittedD [OF _ c] by (auto simp: waiting_def)
  then show "CLOUDLOG_JOURNAL \<in> location_flags c \<and> durable (ls_log b) c" using logged_durable i(2) [OF c] by auto
qed

text \<open>Of the items in \<open>rs\<close> the last one was submitted last: when it is done, so is everything.\<close>

lemma finish_last:
  assumes inv: "store_inv (\<lambda>q. own q + count_list rs q) b" and q: "journal_queue (fs_items (ls_log b)) = q0 @ [r]"
    and r: "r \<in> set rs" "0 < own r"
  obtains b' where "finish_items e rs b = Some b'" "store_inv own b'" "keeps (ls_log b) (ls_log b')" "log_durable (ls_log b')"
proof -
  obtain b' where f: "finish_items e rs b = Some b'" "store_inv own b'" "keeps (ls_log b) (ls_log b')" "in_journal rs (fs_items (ls_log b'))"
    "suffix (journal_queue (fs_items (ls_log b'))) (journal_queue (fs_items (ls_log b)))"
    by (rule store_finish [OF inv])
  obtain c where c: "get_item (fs_items (ls_log b')) r = Some c" by (rule store_live [OF f(2) r(2)])
  have "CLOUDLOG_JOURNAL \<in> location_flags c" using f(4) r(1) c by (auto simp: in_journal_def)
  then have "r \<notin> set (journal_queue (fs_items (ls_log b')))"
    using item_invD(4) [OF log_invD(5) [OF store_inv_log [OF f(2)]] c] by (auto simp: queued_ok_def)
  with f(5) q have "journal_queue (fs_items (ls_log b')) = []" by (auto simp: suffix_snoc)
  from that [OF f(1-3) store_drained [OF f(2) this]] show thesis .
qed

end
