(* ===== verification/BlueSky_System.thy ===== *)
theory BlueSky_System
  imports BlueSky_Writeback
begin

text \<open>
  The invariant of the whole file system: every inode in memory is well-formed, the log
  holds the references the inodes own, and the counters are exact.  An operation on one
  inode leaves all others alone, which is shown once for the interface between files and
  the log: what the other inodes hold is a frame around it.
\<close>


section \<open>The log leaves the inode map alone\<close>

definition meta :: "lfs \<Rightarrow> imap_range list \<times> u64" where
  "meta s = (inode_map s, next_inum s)"

named_theorems meta_simps \<open>operations that keep the inode map and the next inode number\<close>

lemma meta_upd [meta_simps]:
  "meta (upd_cachefile k f s) = meta s" "meta (s\<lparr>fs_items := fs\<rparr>) = meta s" "meta (s\<lparr>disk := d\<rparr>) = meta s"
  "meta (s\<lparr>stable := d\<rparr>) = meta s" "meta (s\<lparr>committed := c\<rparr>) = meta s" "meta (s\<lparr>log_disk_used := n\<rparr>) = meta s"
  "meta (s\<lparr>mmap_cache := m\<rparr>) = meta s" "meta (s\<lparr>fetch_requests := q\<rparr>) = meta s" "meta (s\<lparr>log_pos := p\<rparr>) = meta s"
  "meta (s\<lparr>seq_num := p'\<rparr>) = meta s" "meta (s\<lparr>log_fd := fd\<rparr>) = meta s" "meta (s\<lparr>current_log := cur\<rparr>) = meta s"
  by (simp_all add: meta_def upd_cachefile_def)

lemma meta_cachefile [meta_simps]:
  "meta (bluesky_cachefile_unref k s) = meta s" "meta (update_disk_used env k s) = meta s" "meta (cloudlog_fetch_start k s) = meta s"
  "meta (cloudlog_partial_fetch_start k off len s) = meta s" "meta (recount r s) = meta s" "meta (set_data r d s) = meta s"
  "meta (merge_item env k start data item s) = meta s" "meta (request_item k off len s) = meta s"
  by (auto simp: bluesky_cachefile_unref_def update_disk_used_def cloudlog_fetch_start_def cloudlog_partial_fetch_start_def
      recount_def set_data_def merge_item_def request_item_def meta_simps Let_def split: option.split prod.split)

lemma meta_lookup: "bluesky_cachefile_lookup dir seq start s = (k, s') \<Longrightarrow> meta s' = meta s"
  by (auto simp: bluesky_cachefile_lookup_def Let_def meta_simps split: if_splits option.splits)

lemma meta_map_items: "map_items f s = Some s' \<Longrightarrow> meta s' = meta s"
  by (auto simp: map_items_def meta_simps)

lemma meta_merge: "merge_items n env k start data items off s = Some s' \<Longrightarrow> meta s' = meta s"
  by (induction n arbitrary: off s) (auto simp: meta_simps split: option.splits)

lemma meta_complete: "cloudlog_partial_fetch_complete env res s = Some s' \<Longrightarrow> meta s' = meta s"
  by (cases res) (auto simp: cloudlog_partial_fetch_complete_def Let_def meta_simps dest!: meta_merge split: option.splits if_splits)

lemma meta_wait: "cloud_wait results env k off len s = Some (found, s') \<Longrightarrow> meta s' = meta s"
proof (induction results arbitrary: s)
  case Nil
  then show ?case by (subst (asm) cloud_wait.simps) (auto split: option.splits)
next
  case (Cons res results)
  from Cons.prems show ?case
    by (subst (asm) cloud_wait.simps)
      (auto simp: Let_def meta_simps dest!: meta_complete Cons.IH split: option.splits if_splits)
qed

lemma meta_map_raw: "bluesky_cachefile_map_raw now k off len s = Some (d, s') \<Longrightarrow> meta s' = meta s"
  by (auto simp: bluesky_cachefile_map_raw_def Let_def meta_simps split: option.splits if_splits)

lemma meta_found: "map_found now r md k header dsize off len s = Some (d, s') \<Longrightarrow> meta s' = meta s"
  by (auto simp: map_found_def meta_simps dest!: meta_map_raw split: if_splits)

lemma meta_map_object: "bluesky_log_map_object env now results r md s = Some (d, s') \<Longrightarrow> meta s' = meta s"
  unfolding bluesky_log_map_object_def Let_def
  by (auto simp: meta_simps dest!: meta_found meta_wait meta_lookup split: option.splits if_splits prod.splits bool.splits)

lemma meta_fetch: "bluesky_cloudlog_fetch env now results r s = Some s' \<Longrightarrow> meta s' = meta s"
  unfolding bluesky_cloudlog_fetch_def
  by (auto simp: meta_simps dest!: meta_map_object meta_map_items split: option.splits if_splits)

lemma meta_commit: "log_commit env s = Some s' \<Longrightarrow> meta s' = meta s"
  by (auto simp: log_commit_def Let_def meta_simps split: option.splits)

lemma meta_open: "log_open env s = Some s' \<Longrightarrow> meta s' = meta s"
  unfolding log_open_def Let_def
  by (auto simp: meta_simps dest!: meta_commit meta_lookup split: option.splits if_splits prod.splits)

lemma meta_record:
  "log_space env n s = Some s' \<Longrightarrow> meta s' = meta s" "log_write rec s = Some s' \<Longrightarrow> meta s' = meta s"
  "set_logged r off n s = Some s' \<Longrightarrow> meta s' = meta s"
  by (auto simp: log_space_def log_write_def set_logged_def meta_simps dest: meta_open split: if_split_asm option.split_asm)

lemma meta_item: "log_item env now r s = Some s' \<Longrightarrow> meta s' = meta s"
  unfolding log_item_def Let_def
  by (auto simp: meta_simps bind_eq_Some_conv dest!: meta_record meta_fetch meta_commit
      split: option.split_asm if_split_asm prod.split_asm)

lemma meta_step:
  assumes "log_thread_step env now s = Some s'"
  shows "meta s' = meta s"
proof -
  from assms obtain s1 where s1: "(if log_fd s = None then log_open env s else Some s) = Some s1" "log_thread_step env now s = Some s'"
    by (auto simp: log_thread_step_def bind_eq_Some_conv)
  then have "meta s1 = meta s" by (auto dest!: meta_open split: if_splits)
  moreover have "meta s' = meta s1"
    using s1 unfolding log_thread_step_def Let_def
    by (cases "journal_queue (fs_items s1)")
      (auto simp: meta_simps bind_eq_Some_conv dest!: meta_item meta_map_items split: option.split_asm if_split_asm)
  ultimately show ?thesis by simp
qed

lemma meta_finished: "wait_finished fuel env now rs s = Some s' \<Longrightarrow> meta s' = meta s"
proof (induction fuel arbitrary: rs s)
  case 0
  then show ?case by (subst (asm) wait_finished.simps) (auto simp: meta_simps split: option.splits list.splits prod.splits)
next
  case (Suc n)
  from Suc.prems show ?case
    by (subst (asm) wait_finished.simps)
      (auto simp: meta_simps bind_eq_Some_conv dest!: Suc.IH meta_step split: option.splits list.splits prod.splits)
qed



section \<open>A frame around the log\<close>

text \<open>
  The references \<open>own\<close> belong to other clients, whose data is \<open>dat\<close>; \<open>P\<close> is a property that no
  operation of the interface changes.
\<close>

definition framed_ok ::
    "('c \<Rightarrow> bool) \<Rightarrow> ('c \<Rightarrow> ref \<Rightarrow> nat) \<Rightarrow> ('c \<Rightarrow> ref \<Rightarrow> bytes) \<Rightarrow> ('c \<Rightarrow> bool) \<Rightarrow> (ref \<Rightarrow> nat) \<Rightarrow> (ref \<Rightarrow> bytes) \<Rightarrow> 'c \<Rightarrow> bool" where
  "framed_ok ok held item_data P own dat c \<longleftrightarrow>
     ok c \<and> P c \<and> (\<forall>r. own r \<le> held c r) \<and> (\<forall>r. 0 < own r \<longrightarrow> item_data c r = dat r)"

definition framed_held :: "('c \<Rightarrow> ref \<Rightarrow> nat) \<Rightarrow> (ref \<Rightarrow> nat) \<Rightarrow> 'c \<Rightarrow> ref \<Rightarrow> nat" where
  "framed_held held own c r = held c r - own r"

lemma framed_okD:
  assumes "framed_ok ok held item_data P own dat c"
  shows "ok c" "P c" "own r \<le> held c r" "0 < own r \<Longrightarrow> item_data c r = dat r"
  using assms by (auto simp: framed_ok_def)

lemma framed_same:
  assumes f: "framed_ok ok held item_data P own dat c" and c': "ok c'" "P c'" "same_items held item_data c c'"
  shows "framed_ok ok held item_data P own dat c' \<and> same_items (framed_held held own) item_data c c'"
proof -
  have h: "held c' = held c" using c'(3) by (simp add: same_items_def)
  have d: "item_data c' r = item_data c r" if "0 < held c r" for r using c'(3) that by (simp add: same_items_def)
  have "0 < own r \<Longrightarrow> item_data c' r = dat r" for r using framed_okD(3,4) [OF f, of r] d [of r] by simp
  then show ?thesis using c' h d framed_okD(3) [OF f]
    by (auto simp: framed_ok_def same_items_def framed_held_def)
qed

context block_backend
begin

lemma frame:
  assumes fetch: "\<And>c r d c'. ok c \<Longrightarrow> 0 < held c r \<Longrightarrow> P c \<Longrightarrow> be_fetch be r c = Some (d, c') \<Longrightarrow> P c'"
    and prefetch: "\<And>c r. ok c \<Longrightarrow> 0 < held c r \<Longrightarrow> P c \<Longrightarrow> P (be_prefetch be r c)"
    and drop: "\<And>c r. ok c \<Longrightarrow> 0 < held c r \<Longrightarrow> P c \<Longrightarrow> P (be_drop_cached be r c)"
    and mark: "\<And>c i. ok c \<Longrightarrow> P c \<Longrightarrow> P (be_mark_modified be i c)"
    and unref: "\<And>c r. ok c \<Longrightarrow> 0 < held c r \<Longrightarrow> P c \<Longrightarrow> P (be_unref be r c)"
    and new: "\<And>c d i r c'. ok c \<Longrightarrow> length d \<le> BLUESKY_BLOCK_SIZE \<Longrightarrow> P c \<Longrightarrow> be_new_data be i d c = (r, c') \<Longrightarrow> P c'"
  shows "block_backend be (framed_ok ok held item_data P own dat) (framed_held held own) item_data"
proof
  fix c r
  assume f: "framed_ok ok held item_data P own dat c" and "0 < framed_held held own c r"
  then have c: "ok c" "P c" "0 < held c r" "own r < held c r" by (auto simp: framed_ok_def framed_held_def)
  from fetch_data [OF c(1,3)] obtain c' where c': "be_fetch be r c = Some (item_data c r, c')" "ok c'" "same_items held item_data c c'" by blast
  from framed_same [OF f c'(2) fetch [OF c(1,3,2) c'(1)] c'(3)] c'(1)
  show "\<exists>c'. be_fetch be r c = Some (item_data c r, c') \<and> framed_ok ok held item_data P own dat c' \<and>
      same_items (framed_held held own) item_data c c'" by blast
  show "framed_ok ok held item_data P own dat (be_prefetch be r c) \<and> same_items (framed_held held own) item_data c (be_prefetch be r c)"
    using framed_same [OF f _ prefetch [OF c(1,3,2)]] prefetch_keeps [OF c(1,3)] by blast
  show "framed_ok ok held item_data P own dat (be_drop_cached be r c) \<and> same_items (framed_held held own) item_data c (be_drop_cached be r c)"
    using framed_same [OF f _ drop [OF c(1,3,2)]] drop_keeps [OF c(1,3)] by blast
  let ?u = "be_unref be r c"
  have u: "ok ?u" "held ?u = (held c)(r := held c r - 1)" "0 < held ?u q \<Longrightarrow> item_data ?u q = item_data c q" "P ?u" for q
    using unref_releases [OF c(1,3)] unref [OF c(1,3,2)] by blast+
  have le: "own q \<le> held ?u q" for q using framed_okD(3) [OF f, of q] c(4) by (auto simp: u(2))
  have d: "item_data ?u q = dat q" if "0 < own q" for q
    using u(3) [of q] le [of q] that framed_okD(4) [OF f that] by simp
  show "framed_ok ok held item_data P own dat ?u \<and> framed_held held own ?u = (framed_held held own c)(r := framed_held held own c r - 1) \<and>
      (\<forall>r'. 0 < framed_held held own ?u r' \<longrightarrow> item_data ?u r' = item_data c r')"
  proof (intro conjI allI impI)
    show "framed_ok ok held item_data P own dat ?u" using u(1,4) le d by (simp add: framed_ok_def)
    show "framed_held held own ?u = (framed_held held own c)(r := framed_held held own c r - 1)"
      using u(2) by (auto simp: framed_held_def fun_eq_iff)
    show "0 < framed_held held own ?u q \<Longrightarrow> item_data ?u q = item_data c q" for q using u(3) [of q] by (simp add: framed_held_def)
  qed
next
  fix c i assume f: "framed_ok ok held item_data P own dat c"
  then show "framed_ok ok held item_data P own dat (be_mark_modified be i c) \<and>
      same_items (framed_held held own) item_data c (be_mark_modified be i c)"
    using framed_same [OF f _ mark] mark_keeps by (simp add: framed_ok_def)
next
  fix c d i r c'
  assume f: "framed_ok ok held item_data P own dat c" and d: "length d \<le> BLUESKY_BLOCK_SIZE" and n: "be_new_data be i d c = (r, c')"
  note c = framed_okD(1,2) [OF f]
  note n' = new_data_holds [OF c(1) d n]
  have z: "own r = 0" using framed_okD(3) [OF f, of r] n' by simp
  have "own q \<le> held c' q" for q using framed_okD(3) [OF f, of q] n' z by auto
  moreover have "item_data c' q = dat q" if "0 < own q" for q
    using framed_okD(3) [OF f, of q] framed_okD(4) [OF f that] that n' by simp
  ultimately show "framed_ok ok held item_data P own dat c' \<and> framed_held held own c r = 0 \<and>
      framed_held held own c' = (framed_held held own c)(r := 2) \<and> item_data c' r = d \<and>
      (\<forall>r'. 0 < framed_held held own c r' \<longrightarrow> item_data c' r' = item_data c r')"
    using n' new [OF c(1) d c(2) n] z by (auto simp: framed_ok_def framed_held_def fun_eq_iff)
qed

end

text \<open>A log without an inode map, and the number the next inode gets.\<close>

definition log_meta :: "u64 \<Rightarrow> log_store option \<Rightarrow> bool" where
  "log_meta n c \<longleftrightarrow> (\<exists>b. c = Some b \<and> meta (ls_log b) = ([], n))"

lemma store_items_meta: "store_items f b = Some b' \<Longrightarrow> meta (ls_log b') = meta (ls_log b)"
  by (auto simp: store_items_def dest: meta_map_items)

lemma prefetch_meta:
  assumes "bluesky_cloudlog_prefetch env now r b = Some b'"
  shows "meta (ls_log b') = meta (ls_log b)"
  using assms unfolding bluesky_cloudlog_prefetch_def Let_def
  by (auto simp: meta_simps touch_cachefile_def queue_prefetch_def bluesky_cloudlog_background_fetch_def
      dest!: meta_lookup store_items_meta split: option.split_asm if_split_asm prod.split_asm)

lemma mark_modified_log: "ls_log (log_mark_modified i b) = ls_log b"
  by (simp add: log_mark_modified_def Let_def split: prod.split)

lemma log_backend_framed:
  "block_backend (log_backend env now results) (framed_ok log_ok log_held log_data (log_meta n) own dat) (framed_held log_held own) log_data"
proof (rule log_files.frame)
  fix c :: "log_store option" and r
  assume c: "log_ok c" "0 < log_held c r" "log_meta n c"
  obtain b where b: "c = Some b" "store_inv (log_held c) b" by (rule log_okE [OF c(1)])
  have m: "meta (ls_log b) = ([], n)" using c(3) b(1) by (simp add: log_meta_def)
  show "log_meta n c'" if "be_fetch (log_backend env now results) r c = Some (d, c')" for d c'
    using that b(1) m by (auto simp: log_backend_def log_fetch_def log_meta_def bind_eq_Some_conv dest!: meta_fetch)
  show "log_meta n (be_prefetch (log_backend env now results) r c)"
    using store_prefetch [OF b(2) c(2), of env now] b(1) m prefetch_meta by (fastforce simp: log_backend_def log_meta_def)
  show "log_meta n (be_drop_cached (log_backend env now results) r c)"
    using store_drop [OF b(2) c(2)] b(1) m store_items_meta by (fastforce simp: log_backend_def log_meta_def)
  show "log_meta n (be_unref (log_backend env now results) r c)"
    using store_unref [OF b(2) c(2)] b(1) m store_items_meta by (fastforce simp: log_backend_def log_meta_def)
next
  fix c :: "log_store option" and i
  assume "log_ok c" "log_meta n c"
  then show "log_meta n (be_mark_modified (log_backend env now results) i c)"
    by (auto simp: log_backend_def log_meta_def mark_modified_log)
next
  fix c :: "log_store option" and d i r c'
  assume c: "log_ok c" "length d \<le> BLUESKY_BLOCK_SIZE" "log_meta n c" "be_new_data (log_backend env now results) i d c = (r, c')"
  obtain b where b: "c = Some b" "store_inv (log_held c) b" by (rule log_okE [OF c(1)])
  have "length d < 2 ^ 32" using c(2) by (simp add: BLUESKY_BLOCK_SIZE_def)
  from store_new_data [OF b(2) this, of i] obtain r' b' where n: "log_new_data i d b = Some (r', b')" by blast
  then have "meta (ls_log b') = meta (ls_log b)" by (auto simp: log_new_data_def Let_def meta_simps split: prod.split_asm)
  with n b(1) c(3,4) show "log_meta n c'" by (auto simp: log_backend_def log_meta_def)
qed

interpretation framed_log: block_backend "log_backend env now results" "framed_ok log_ok log_held log_data (log_meta n) own dat"
    "framed_held log_held own" log_data for env now results n own dat
  by (rule log_backend_framed)



section \<open>The invariant\<close>

text \<open>The space the entries of a directory take in its item.\<close>

definition dir_bytes :: "dirindex \<Rightarrow> nat" where
  "dir_bytes di = sum_list (map (\<lambda>d. length (d_name d) + 13) (dirents di))"

definition inode_typed :: "(bytes \<Rightarrow> bytes) \<Rightarrow> inode \<Rightarrow> bool" where
  "inode_typed lower inode \<longleftrightarrow>
     i_type inode = BLUESKY_REGULAR \<or>
     i_type inode = BLUESKY_DIRECTORY \<and> i_size inode = 0 \<and>
       (\<exists>di. i_dir inode = Some di \<and> dir_wf lower di \<and> dir_bytes di < 2 ^ 31 \<and> (\<forall>d \<in> set (dirents di). 0 \<notin> set (d_name d))) \<or>
     i_type inode = BLUESKY_SYMLINK \<and> i_size inode = 0 \<and> (\<exists>c. symlink_contents inode = Some c \<and> 0 \<notin> set c \<and> length c < 2 ^ 31)"

definition inode_wf :: "(bytes \<Rightarrow> bytes) \<Rightarrow> (ref \<Rightarrow> bytes) \<Rightarrow> u64 \<Rightarrow> inode \<Rightarrow> bool" where
  "inode_wf lower dat i inode \<longleftrightarrow>
     i_inum inode = i \<and> unat (i_size inode) \<le> BLUESKY_MAX_FILE_SIZE \<and>
     blocks_ok dat (i_blocks inode) (unat (i_size inode)) \<and> inode_typed lower inode"

definition committed_refs :: "inode \<Rightarrow> ref list" where
  "committed_refs inode = (case committed_item inode of None \<Rightarrow> [] | Some r \<Rightarrow> [r])"

text \<open>What inodes hold: references to log items, and dirty blocks.\<close>

definition refs_of :: "inode option \<Rightarrow> ref \<Rightarrow> nat" where
  "refs_of io r = (case io of None \<Rightarrow> 0
     | Some inode \<Rightarrow> count_list (block_refs (i_blocks inode)) r + count_list (committed_refs inode) r)"

definition dirty_of :: "inode option \<Rightarrow> int" where
  "dirty_of io = (case io of None \<Rightarrow> 0 | Some inode \<Rightarrow> int (dirty_count (i_blocks inode)))"

definition next_of :: "fsys \<Rightarrow> u64" where
  "next_of s = (case backing (sys_cache s) of None \<Rightarrow> 0 | Some b \<Rightarrow> next_inum (ls_log b))"

abbreviation sys_data :: "fsys \<Rightarrow> ref \<Rightarrow> bytes" where
  "sys_data s \<equiv> log_data (backing (sys_cache s))"

text \<open>\<open>cl\<close> are the inodes that requests in progress have a reference to.\<close>

definition sys_inv :: "(bytes \<Rightarrow> bytes) \<Rightarrow> u64 list \<Rightarrow> fsys \<Rightarrow> bool" where
  "sys_inv lower cl s \<longleftrightarrow>
     log_ok (backing (sys_cache s)) \<and> log_meta (next_of s) (backing (sys_cache s)) \<and>
     (\<forall>r. (\<Sum>j\<in>UNIV. refs_of (sys_inodes s j) r) \<le> log_held (backing (sys_cache s)) r) \<and>
     cache_dirty (sys_cache s) = (\<Sum>j\<in>UNIV. dirty_of (sys_inodes s j)) \<and>
     (\<forall>i inode. sys_inodes s i = Some inode \<longrightarrow>
        0 < i \<and> i < next_of s \<and> inode_wf lower (sys_data s) i inode \<and> i_refcount inode = 1 + int (count_list cl i)) \<and>
     (\<forall>i \<in> set cl. sys_inodes s i \<noteq> None) \<and> sys_inodes s 1 \<noteq> None \<and> sys_fetching s = []"

lemma sys_invD:
  assumes "sys_inv lower cl s"
  shows "log_ok (backing (sys_cache s))" "log_meta (next_of s) (backing (sys_cache s))"
    "(\<Sum>j\<in>UNIV. refs_of (sys_inodes s j) r) \<le> log_held (backing (sys_cache s)) r"
    "cache_dirty (sys_cache s) = (\<Sum>j\<in>UNIV. dirty_of (sys_inodes s j))"
    "sys_inodes s i = Some inode \<Longrightarrow> 0 < i \<and> i < next_of s"
    "sys_inodes s i = Some inode \<Longrightarrow> inode_wf lower (sys_data s) i inode"
    "sys_inodes s i = Some inode \<Longrightarrow> i_refcount inode = 1 + int (count_list cl i)"
    "i \<in> set cl \<Longrightarrow> sys_inodes s i \<noteq> None" "sys_inodes s 1 \<noteq> None" "sys_fetching s = []"
  using assms unfolding sys_inv_def by blast+

text \<open>What the others and the committed item of an inode hold: the frame of an operation on its blocks.\<close>

definition others_dirty :: "fsys \<Rightarrow> u64 \<Rightarrow> int" where
  "others_dirty s i = (\<Sum>j\<in>UNIV - {i}. dirty_of (sys_inodes s j))"

definition others_refs :: "fsys \<Rightarrow> u64 \<Rightarrow> ref \<Rightarrow> nat" where
  "others_refs s i r = (\<Sum>j\<in>UNIV - {i}. refs_of (sys_inodes s j) r)"

definition frame_refs :: "fsys \<Rightarrow> u64 \<Rightarrow> ref \<Rightarrow> nat" where
  "frame_refs s i r = others_refs s i r + (case sys_inodes s i of None \<Rightarrow> 0 | Some inode \<Rightarrow> count_list (committed_refs inode) r)"

definition in_frame :: "fsys \<Rightarrow> u64 \<Rightarrow> log_store option filestate \<Rightarrow> bool" where
  "in_frame s i = file_wf (framed_ok log_ok log_held log_data (log_meta (next_of s)) (frame_refs s i) (sys_data s))
     (framed_held log_held (frame_refs s i)) log_data (others_dirty s i)"

lemma sum_split: "(\<Sum>j\<in>UNIV. f j) = f i + (\<Sum>j\<in>UNIV - {i}. f j)" for f :: "u64 \<Rightarrow> 'a::comm_monoid_add"
  by (rule sum.remove) auto

lemma others_upd:
  "(\<And>j. j \<noteq> i \<Longrightarrow> sys_inodes s' j = sys_inodes s j) \<Longrightarrow> others_refs s' i = others_refs s i"
  "(\<And>j. j \<noteq> i \<Longrightarrow> sys_inodes s' j = sys_inodes s j) \<Longrightarrow> others_dirty s' i = others_dirty s i"
  by (auto simp: others_refs_def others_dirty_def fun_eq_iff)

lemma focus:
  assumes inv: "sys_inv lower cl s" and g: "sys_inodes s i = Some inode"
  shows "in_frame s i (inode, sys_cache s)"
proof -
  note d = sys_invD [OF inv] and w = sys_invD(6) [OF inv g, unfolded inode_wf_def]
  have le: "count_list (block_refs (i_blocks inode)) r + frame_refs s i r \<le> log_held (backing (sys_cache s)) r" for r
    using d(3) [of r] sum_split [of "\<lambda>j. refs_of (sys_inodes s j) r" i] g by (simp add: frame_refs_def others_refs_def refs_of_def)
  have "cache_dirty (sys_cache s) = others_dirty s i + int (dirty_count (i_blocks inode))"
    using d(4) sum_split [of "\<lambda>j. dirty_of (sys_inodes s j)" i] g by (simp add: others_dirty_def dirty_of_def)
  with le d(1,2) w show ?thesis
    by (simp add: in_frame_def file_wf_def framed_ok_def framed_held_def) (metis add.commute add_leD2 le_diff_conv2)
qed

lemma blocks_agree:
  assumes "blocks_ok dat bs sz" "\<And>r. r \<in> set (block_refs bs) \<Longrightarrow> dat' r = dat r"
  shows "blocks_ok dat' bs sz" "content dat' bs sz = content dat bs sz"
proof -
  have b: "b_ref (bs ! j) = Some r \<Longrightarrow> j < length bs \<Longrightarrow> dat' r = dat r" for j r
    using assms(2) [of r] nth_mem by (fastforce simp: set_block_refs)
  have "block_bytes dat' (bs ! j) n = block_bytes dat (bs ! j) n" if "j < length bs" for j n
    using b [OF _ that] assms(1) that by (auto simp: blocks_ok_def block_ok_def block_bytes_def split: block_type.splits)
  then show "content dat' bs sz = content dat bs sz"
    using assms(1) by (auto simp: content_def blocks_ok_def block_index intro!: map_cong)
  show "blocks_ok dat' bs sz"
    unfolding blocks_ok_def
  proof (intro conjI allI impI)
    fix j assume "j < length bs"
    with block_ok_cong [OF blocks_okD [OF assms(1)], of j dat'] b show "block_ok dat' (bs ! j) (blen sz j)" by blast
  qed (use assms(1) in \<open>simp add: blocks_ok_def\<close>)
qed


definition sys_content :: "fsys \<Rightarrow> u64 \<Rightarrow> bytes" where
  "sys_content s i = (case sys_inodes s i of None \<Rightarrow> [] | Some inode \<Rightarrow> content (sys_data s) (i_blocks inode) (unat (i_size inode)))"

text \<open>The other inodes stay as they are and have the same contents.\<close>

definition same_others :: "u64 set \<Rightarrow> fsys \<Rightarrow> fsys \<Rightarrow> bool" where
  "same_others X s s' \<longleftrightarrow> (\<forall>j. j \<notin> X \<longrightarrow> sys_inodes s' j = sys_inodes s j \<and> sys_content s' j = sys_content s j)"

lemma others_agree:
  assumes g: "sys_inodes s j = Some x" "j \<noteq> i" and r: "r \<in> set (block_refs (i_blocks x))"
  shows "0 < others_refs s i r"
proof -
  have "0 < refs_of (sys_inodes s j) r" using g r by (simp add: refs_of_def count_list_pos)
  then show ?thesis using g(2) by (auto simp: others_refs_def intro!: sum_pos2 [of _ j])
qed

text \<open>Back from the frame: a changed inode and cache make a state of the system again.\<close>

lemma unfocus_gen:
  assumes inv: "sys_inv lower cl s" and g: "sys_inodes s i = Some inode"
    and own: "own = (\<lambda>r. others_refs s i r + count_list (committed_refs inode') r)"
    and wf: "file_wf (framed_ok log_ok log_held log_data (log_meta (next_of s)) own dat) (framed_held log_held own) log_data
               (others_dirty s i) (inode', fc)"
    and dat: "\<And>r. 0 < others_refs s i r \<Longrightarrow> dat r = sys_data s r"
    and i': "i_inum inode' = i" "i_refcount inode' = i_refcount inode" "inode_typed lower inode'"
    and s': "sys_inodes s' = (sys_inodes s)(i \<mapsto> inode')" "sys_cache s' = fc" "sys_fetching s' = sys_fetching s"
  shows "sys_inv lower cl s'" "same_others {i} s s'" "next_of s' = next_of s" "backing fc \<noteq> None"
proof -
  note d = sys_invD [OF inv] and f = file_wfD [OF wf]
  note fr = framed_okD [OF f(1)]
  show nx: "next_of s' = next_of s" using fr(2) s'(2) by (auto simp: next_of_def log_meta_def meta_def)
  show "backing fc \<noteq> None" using fr(2) by (auto simp: log_meta_def)
  have le: "(\<Sum>j\<in>UNIV. refs_of (sys_inodes s' j) r) \<le> log_held (backing fc) r" for r
  proof -
    have "others_refs s' i r = others_refs s i r" using others_upd(1) [of i s' s] s'(1) by simp
    then have "(\<Sum>j\<in>UNIV. refs_of (sys_inodes s' j) r) = count_list (block_refs (i_blocks inode')) r + own r"
      using sum_split [of "\<lambda>j. refs_of (sys_inodes s' j) r" i] s'(1) by (simp add: others_refs_def refs_of_def own)
    also have "\<dots> \<le> log_held (backing fc) r" using f(4) [of r] fr(3) [of r] by (simp add: framed_held_def)
    finally show ?thesis .
  qed
  have dirty: "cache_dirty fc = (\<Sum>j\<in>UNIV. dirty_of (sys_inodes s' j))"
    using f(5) sum_split [of "\<lambda>j. dirty_of (sys_inodes s' j)" i] others_upd(2) [of i s' s] s'(1)
    by (simp add: others_dirty_def dirty_of_def)
  have agree: "log_data (backing fc) r = sys_data s r" if "sys_inodes s j = Some x" "j \<noteq> i" "r \<in> set (block_refs (i_blocks x))" for j x r
    using fr(4) [of r] dat [OF others_agree [OF that]] others_agree [OF that] by (simp add: own)
  show "same_others {i} s s'"
    unfolding same_others_def
  proof (intro allI impI conjI)
    fix j assume j: "j \<notin> {i}"
    then show eq: "sys_inodes s' j = sys_inodes s j" using s'(1) by simp
    show "sys_content s' j = sys_content s j"
    proof (cases "sys_inodes s j")
      case (Some x)
      have "blocks_ok (sys_data s) (i_blocks x) (unat (i_size x))" using d(6) [OF Some] by (simp add: inode_wf_def)
      from blocks_agree(2) [OF this, of "log_data (backing fc)"] agree [OF Some] j show ?thesis using eq Some s'(2) by (simp add: sys_content_def)
    qed (simp add: sys_content_def eq)
  qed
  have each: "0 < j \<and> j < next_of s' \<and> inode_wf lower (sys_data s') j x \<and> i_refcount x = 1 + int (count_list cl j)"
    if x: "sys_inodes s' j = Some x" for j x
  proof (cases "j = i")
    case True
    then have "x = inode'" using x s'(1) by simp
    then show ?thesis using d(5,7) [OF g] f(2,3) i' nx True s'(2) by (simp add: inode_wf_def)
  next
    case False
    then have g': "sys_inodes s j = Some x" using x s'(1) by simp
    have w: "inode_wf lower (sys_data s) j x" by (rule d(6) [OF g'])
    then have bo: "blocks_ok (sys_data s) (i_blocks x) (unat (i_size x))" by (simp add: inode_wf_def)
    have "blocks_ok (log_data (backing fc)) (i_blocks x) (unat (i_size x))" by (rule blocks_agree(1) [OF bo agree [OF g' False]])
    with w show ?thesis using d(5,7) [OF g'] nx s'(2) by (simp add: inode_wf_def)
  qed
  have "\<forall>j \<in> set cl. sys_inodes s' j \<noteq> None" "sys_inodes s' 1 \<noteq> None" "sys_fetching s' = []"
    using d(8,9,10) s'(1,3) by auto
  then show "sys_inv lower cl s'"
    unfolding sys_inv_def s'(2) nx
    by (intro conjI allI impI fr(1,2) le dirty) (use each nx s'(2) in \<open>simp_all\<close>)
qed

lemma unfocus:
  assumes inv: "sys_inv lower cl s" and g: "sys_inodes s i = Some inode" and f: "in_frame s i (inode', fc)"
    and i': "i_inum inode' = i_inum inode" "i_refcount inode' = i_refcount inode" "committed_item inode' = committed_item inode" "inode_typed lower inode'"
  shows "sys_inv lower cl (put_inode i inode' (s\<lparr>sys_cache := fc\<rparr>))" "same_others {i} s (put_inode i inode' (s\<lparr>sys_cache := fc\<rparr>))"
    "next_of (put_inode i inode' (s\<lparr>sys_cache := fc\<rparr>)) = next_of s" "backing fc \<noteq> None"
proof -
  have "frame_refs s i = (\<lambda>r. others_refs s i r + count_list (committed_refs inode') r)"
    using g i'(3) by (simp add: frame_refs_def fun_eq_iff committed_refs_def)
  from unfocus_gen [OF inv g this f [unfolded in_frame_def], of "put_inode i inode' (s\<lparr>sys_cache := fc\<rparr>)"]
  show "sys_inv lower cl (put_inode i inode' (s\<lparr>sys_cache := fc\<rparr>))" "same_others {i} s (put_inode i inode' (s\<lparr>sys_cache := fc\<rparr>))"
    "next_of (put_inode i inode' (s\<lparr>sys_cache := fc\<rparr>)) = next_of s" "backing fc \<noteq> None"
    using i' sys_invD(6) [OF inv g] by (auto simp: put_inode_def inode_wf_def)
qed



section \<open>Writeback of an inode\<close>

lemma flush_refs:
  "flush_blocks be inum bs items fs = Some (bs', items', fs') \<Longrightarrow>
   count_list (block_refs bs') r + count_list items r = count_list (block_refs bs) r + count_list items' r"
proof (induction bs arbitrary: items fs bs')
  case (Cons b bs)
  from Cons.prems obtain b1 items1 fs1 bs1 where f: "bluesky_block_flush be inum b items fs = Some (b1, items1, fs1)"
    "flush_blocks be inum bs items1 fs1 = Some (bs1, items', fs')" "bs' = b1 # bs1" by (auto split: option.split_asm)
  have "count_list (block_refs [b1]) r + count_list items r = count_list (block_refs [b]) r + count_list items1 r"
    using f(1) by (auto simp: bluesky_block_flush_def split: if_split_asm option.split_asm prod.split_asm)
  with Cons.IH [OF f(2)] show ?case
    using count_list_append [of "block_refs [b1]" "block_refs bs1" r] count_list_append [of "block_refs [b]" "block_refs bs" r]
      block_refs_append [of "[b1]" bs1] block_refs_append [of "[b]" bs] f(3) by simp
qed simp

lemma dirents_length: "length (concat (map serialized_dirent ds)) = sum_list (map (\<lambda>d. length (d_name d) + 13) ds)"
  by (induction ds) (simp_all add: serialized_dirent_def)

lemma inode_writable:
  assumes "inode_wf lower dat i inode"
  shows "writable inode"
proof -
  have n: "length (i_blocks inode) \<le> 2 ^ 24"
  proof -
    have "block_count (unat (i_size inode)) \<le> (BLUESKY_BLOCK_SIZE * 2 ^ 24 + BLUESKY_BLOCK_SIZE - 1) div BLUESKY_BLOCK_SIZE"
      using assms unfolding block_count_def inode_wf_def BLUESKY_MAX_FILE_SIZE_def by (intro div_le_mono diff_le_mono add_le_mono) auto
    also have "\<dots> = 2 ^ 24" by (simp add: BLUESKY_BLOCK_SIZE_def)
    finally show ?thesis using assms by (simp add: inode_wf_def blocks_ok_def)
  qed
  from assms have "inode_typed lower inode" by (simp add: inode_wf_def)
  then consider "i_type inode = BLUESKY_REGULAR"
    | di where "i_type inode = BLUESKY_DIRECTORY" "i_dir inode = Some di" "dir_bytes di < 2 ^ 31"
    | c where "i_type inode = BLUESKY_SYMLINK" "symlink_contents inode = Some c" "length c < 2 ^ 31"
    by (auto simp: inode_typed_def)
  then show ?thesis
  proof cases
    case 1
    then show ?thesis using n by (simp add: writable_def inode_payload_def inode_links_def)
  next
    case 2
    then show ?thesis
      by (simp add: writable_def inode_payload_def inode_links_def dirents_length dir_bytes_def file_type_defs)
  next
    case 3
    then show ?thesis by (simp add: writable_def inode_payload_def inode_links_def file_type_defs)
  qed
qed


text \<open>The item of an inode that is in memory, on stable storage and linked to the blocks.\<close>

definition inode_stored :: "log_store \<Rightarrow> inode \<Rightarrow> ref \<Rightarrow> bool" where
  "inode_stored b inode r \<longleftrightarrow>
     (\<exists>item payload. get_item (fs_items (ls_log b)) r = Some item \<and> cl_type item = LOGTYPE_INODE \<and> cl_links item = inode_links inode \<and>
        cl_inum item = i_inum inode \<and> inode_payload inode = Some payload \<and> store_data b r = serialized_inode inode @ payload)"

lemma count_give_back: "count_list (committed_refs inode) q \<le> H q \<Longrightarrow> give_back (committed_item inode) H q = H q - count_list (committed_refs inode) q"
  by (auto simp: give_back_def committed_refs_def split: option.split)

lemma sync_store:
  assumes inv: "store_inv H b" and w: "writable inode"
    and own: "\<And>q. count_list (block_refs (i_blocks inode)) q + count_list rs q + others q + count_list (committed_refs inode) q \<le> H q"
  obtains r b1 b2 H2 where "submit_inode inode b = Some (r, b1)" "finish_items e (r # rs) b1 = Some b2" "store_inv H2 b2"
    "log_durable (ls_log b2)" "meta (ls_log b2) = meta (ls_log b)" "inode_stored b2 inode r"
    "\<forall>q. count_list (block_refs (i_blocks inode)) q + others q + count_list [r] q \<le> H2 q"
    "\<forall>q. 0 < count_list (block_refs (i_blocks inode)) q + others q \<longrightarrow> store_data b2 q = store_data b q"
proof -
  let ?bl = "\<lambda>q. count_list (block_refs (i_blocks inode)) q" and ?cm = "\<lambda>q. count_list (committed_refs inode) q"
  define H0 where "H0 = give_back (committed_item inode) H"
  have H0: "H0 q = H q - ?cm q" for q unfolding H0_def using own [of q] by (intro count_give_back) linarith
  have links: "0 < H q" if "Some q \<in> set (inode_links inode)" for q
  proof -
    have "q \<in> set (block_refs (i_blocks inode))" using that by (force simp: inode_links_def set_block_refs split: if_split_asm)
    then show ?thesis using own [of q] count_list_pos [of q] by fastforce
  qed
  have old: "0 < H q" if "committed_item inode = Some q" for q
    using own [of q] that by (simp add: committed_refs_def)
  obtain r b1 item payload where f: "submit_inode inode b = Some (r, b1)" "H r = 0" "store_inv (H0(r := 2)) b1"
    "\<forall>q. 0 < H0 q \<longrightarrow> q \<noteq> r \<longrightarrow> store_data b1 q = store_data b q"
    "inode_payload inode = Some payload" "store_data b1 r = serialized_inode inode @ payload"
    "get_item (fs_items (ls_log b1)) r = Some item" "cl_type item = LOGTYPE_INODE" "cl_links item = inode_links inode" "cl_inum item = i_inum inode"
    "next_inum (ls_log b1) = next_inum (ls_log b)" "inode_map (ls_log b1) = inode_map (ls_log b)"
    "journal_queue (fs_items (ls_log b1)) = journal_queue (fs_items (ls_log b)) @ [r]"
    unfolding H0_def by (rule store_submit_inode [OF inv w links old])
  define H2 where "H2 = (\<lambda>q. (H0(r := 2)) q - count_list (r # rs) q)"
  have le: "count_list (r # rs) q \<le> (H0(r := 2)) q" for q using own [of q] own [of r] f(2) H0 [of q] by auto
  then have "(\<lambda>q. H2 q + count_list (r # rs) q) = H0(r := 2)" by (auto simp: H2_def fun_eq_iff)
  with f(3) have inv1: "store_inv (\<lambda>q. H2 q + count_list (r # rs) q) b1" by simp
  have r2: "H2 r = 1" using own [of r] f(2) by (simp add: H2_def)
  obtain b2 where g: "finish_items e (r # rs) b1 = Some b2" "store_inv H2 b2" "keeps (ls_log b1) (ls_log b2)" "log_durable (ls_log b2)"
    by (rule finish_last [OF inv1 f(13), of e]) (use r2 in simp_all)
  have data: "store_data b2 q = store_data b1 q" if "0 < H2 q" for q
    by (rule store_data_keeps [OF store_inv_only [OF f(3)] g(2,3) that])
  have H2': "?bl q + others q + count_list [r] q \<le> H2 q" for q
    using own [of q] own [of r] f(2) H0 [of q] r2 by (auto simp: H2_def)
  have d2: "store_data b2 q = store_data b q" if "0 < ?bl q + others q" for q
  proof -
    have "q \<noteq> r" "0 < H0 q" "0 < H2 q" using that own [of q] f(2) H0 [of q] H2' [of q] by auto
    with data f(4) show ?thesis by simp
  qed
  obtain item2 where i2: "get_item (fs_items (ls_log b2)) r = Some item2" by (rule store_live [OF g(2), of r]) (use r2 in simp)
  from keepsD [OF g(3) i2] f(7) have "same_item (ls_log b1) item (ls_log b2) item2" by auto
  then have st: "inode_stored b2 inode r" using i2 f(5,6,8-10) data [of r] r2 by (auto simp: inode_stored_def same_item_def)
  have "meta (ls_log b2) = meta (ls_log b1)" using g(1) by (auto simp: finish_items_def dest: meta_finished)
  then have "meta (ls_log b2) = meta (ls_log b)" using f(11,12) by (simp add: meta_def)
  from that [OF f(1) g(1,2,4) this st] H2' d2 show thesis by blast
qed


lemma store_inv_lists:
  "store_inv H b \<Longrightarrow> ls_log b' = ls_log b \<Longrightarrow> fetch_pool b' = fetch_pool b \<Longrightarrow> ls_ids b' = ls_ids b \<Longrightarrow> store_inv H b'"
  by (simp add: store_inv_def)

lemma store_data_log: "ls_log b' = ls_log b \<Longrightarrow> store_data b' = store_data b"
  by (simp add: store_data_def fun_eq_iff split: option.split)

lemma log_data_Some: "log_data (Some b) = store_data b"
  by (simp add: log_data_def)

lemma flush_stage:
  assumes inv: "sys_inv lower cl s" and g: "sys_inodes s i = Some inode"
  obtains bs fc rs b H where
    "(if i_type inode = BLUESKY_REGULAR then bluesky_file_flush (fs_backend e) (inode, sys_cache s) [] else Some ((inode, sys_cache s), []))
       = Some ((inode\<lparr>i_blocks := bs\<rparr>, fc), rs)"
    "backing fc = Some b" "store_inv H b" "meta (ls_log b) = ([], next_of s)" "inode_wf lower (store_data b) i (inode\<lparr>i_blocks := bs\<rparr>)"
    "\<And>q. count_list (block_refs bs) q + count_list rs q + frame_refs s i q \<le> H q"
    "\<And>q. 0 < frame_refs s i q \<Longrightarrow> store_data b q = sys_data s q"
    "content (store_data b) bs (unat (i_size inode)) = sys_content s i" "dirty_count bs = 0" "cache_dirty fc = others_dirty s i"
proof -
  let ?F = "framed_ok log_ok log_held log_data (log_meta (next_of s)) (frame_refs s i) (sys_data s)"
    and ?h = "framed_held log_held (frame_refs s i)"
  note w = focus [OF inv g, unfolded in_frame_def]
  note iw = sys_invD(6) [OF inv g] and result = that
  have finish: thesis
    if f: "(if i_type inode = BLUESKY_REGULAR then bluesky_file_flush (fs_backend e) (inode, sys_cache s) [] else Some ((inode, sys_cache s), []))
         = Some ((inode\<lparr>i_blocks := bs\<rparr>, fc), rs)"
      and wf: "file_wf ?F ?h log_data (others_dirty s i) (inode\<lparr>i_blocks := bs\<rparr>, fc)"
      and held: "?h (backing fc) = (\<lambda>r. ?h (backing (sys_cache s)) r + 2 * count_list rs r)"
      and refs: "\<And>q. count_list (block_refs bs) q = count_list (block_refs (i_blocks inode)) q + count_list rs q"
      and dirty: "dirty_count bs = 0"
      and con: "file_content log_data (inode\<lparr>i_blocks := bs\<rparr>, fc) = file_content log_data (inode, sys_cache s)" for bs fc rs
  proof -
    note d = file_wfD [OF wf]
    note fr = framed_okD [OF d(1)]
    obtain b where b: "backing fc = Some b" "store_inv (log_held (backing fc)) b" by (rule log_okE [OF fr(1)])
    let ?H = "log_held (backing fc)"
    have "count_list (block_refs bs) q + count_list rs q + frame_refs s i q \<le> ?H q" for q
      using fun_cong [OF held, of q] refs [of q] file_wfD(4) [OF w, of q] fr(3) [of q] framed_okD(3) [OF file_wfD(1) [OF w], of q]
      by (simp add: framed_held_def)
    moreover have "inode_wf lower (store_data b) i (inode\<lparr>i_blocks := bs\<rparr>)"
      using iw d(2,3) b(1) by (simp add: inode_wf_def log_data_Some inode_typed_def)
    moreover have "meta (ls_log b) = ([], next_of s)" using fr(2) b(1) by (simp add: log_meta_def)
    moreover have "content (store_data b) bs (unat (i_size inode)) = sys_content s i"
      using con b(1) g by (simp add: file_content_def sys_content_def log_data_Some)
    moreover have "cache_dirty fc = others_dirty s i" using d(5) dirty by simp
    ultimately show thesis using b fr(4) dirty by (intro result [OF f b(1) b(2)]) (simp_all add: log_data_Some)
  qed
  show thesis
  proof (cases "i_type inode = BLUESKY_REGULAR")
    case True
    from framed_log.flush_ok [OF w True, of "fe_log e" "fe_now e" "fe_results e" "[]"] obtain bs rs fc
      where f: "bluesky_file_flush (fs_backend e) (inode, sys_cache s) [] = Some ((inode\<lparr>i_blocks := bs\<rparr>, fc), rs)"
        "dirty_count bs = 0" "file_wf ?F ?h log_data (others_dirty s i) (inode\<lparr>i_blocks := bs\<rparr>, fc)"
        "file_content log_data (inode\<lparr>i_blocks := bs\<rparr>, fc) = file_content log_data (inode, sys_cache s)"
        "?h (backing fc) = (\<lambda>r. ?h (backing (sys_cache s)) r + 2 * count_list rs r)" by auto
    from f(1) True obtain a where a: "flush_blocks (fs_backend e) (i_inum inode) (i_blocks inode) [] (sys_cache s) = Some (a, rs, fc)"
      "inode\<lparr>i_blocks := a\<rparr> = inode\<lparr>i_blocks := bs\<rparr>" by (auto simp: bluesky_file_flush_def)
    have "a = bs" using arg_cong [OF a(2), of i_blocks] by simp
    with flush_refs [OF a(1)] have "count_list (block_refs bs) q = count_list (block_refs (i_blocks inode)) q + count_list rs q" for q
      by simp
    with f True show ?thesis by (intro finish [of bs fc rs]) simp_all
  next
    case False
    have "i_size inode = 0" using iw False by (auto simp: inode_wf_def inode_typed_def)
    then have "i_blocks inode = []" using iw by (simp add: inode_wf_def blocks_ok_def block_count_def)
    then have "dirty_count (i_blocks inode) = 0" by (simp add: dirty_count_def)
    then show ?thesis using False w by (intro finish [of "i_blocks inode" "sys_cache s" "[]"]) simp_all
  qed
qed


definition synced_fields :: "inode \<Rightarrow> inode" where
  "synced_fields inode = inode\<lparr>change_commit := change_count inode, change_time := 0, change_cloud := change_count inode\<rparr>"

lemma mark_clean_eq:
  assumes "sys_inodes s i = Some inode" "backing (sys_cache s) = Some b"
  shows "\<exists>s'. mark_clean i s = Some s' \<and> sys_inodes s' = (sys_inodes s)(i \<mapsto> synced_fields inode) \<and>
           sys_cache s' = (sys_cache s)\<lparr>backing := Some (unlink_unlogged i b)\<rparr> \<and> sys_fetching s' = sys_fetching s"
proof -
  obtain l n where "bluesky_list_prepend (bluesky_list_unlink (sys_dirty s) (sys_dirty_link s i)) i = (l, n)" by fastforce
  with assms show ?thesis
    by (simp add: mark_clean_def set_inode_def on_inode_def on_store_def put_inode_def) (simp add: synced_fields_def)
qed

text \<open>
  A writeback returns.  It leaves the contents of all inodes alone, and then the inode, the
  blocks it links to and all other items of the log are on stable storage.
\<close>

lemma start_sync_ok:
  assumes inv: "sys_inv lower cl s" and g: "sys_inodes s i = Some inode"
  obtains s' bs r b where "bluesky_inode_start_sync e i s = Some s'" "sys_inv lower cl s'" "same_others {i} s s'" "next_of s' = next_of s"
    "sys_inodes s' i = Some (synced_fields (inode\<lparr>i_blocks := bs, committed_item := Some r\<rparr>))" "dirty_count bs = 0"
    "sys_content s' i = sys_content s i" "backing (sys_cache s') = Some b" "inode_stored b (inode\<lparr>i_blocks := bs\<rparr>) r" "log_durable (ls_log b)"
proof -
  obtain bs fc rs b H where f:
    "(if i_type inode = BLUESKY_REGULAR then bluesky_file_flush (fs_backend e) (inode, sys_cache s) [] else Some ((inode, sys_cache s), []))
       = Some ((inode\<lparr>i_blocks := bs\<rparr>, fc), rs)"
    "backing fc = Some b" "store_inv H b" "meta (ls_log b) = ([], next_of s)" "inode_wf lower (store_data b) i (inode\<lparr>i_blocks := bs\<rparr>)"
    "\<And>q. count_list (block_refs bs) q + count_list rs q + frame_refs s i q \<le> H q"
    "\<And>q. 0 < frame_refs s i q \<Longrightarrow> store_data b q = sys_data s q"
    "content (store_data b) bs (unat (i_size inode)) = sys_content s i" "dirty_count bs = 0" "cache_dirty fc = others_dirty s i"
    by (rule flush_stage [OF inv g, of e]) blast
  let ?in = "inode\<lparr>i_blocks := bs\<rparr>" and ?oth = "others_refs s i"
  have own: "count_list (block_refs (i_blocks ?in)) q + count_list rs q + ?oth q + count_list (committed_refs ?in) q \<le> H q" for q
    using f(6) [of q] g by (simp add: frame_refs_def committed_refs_def)
  obtain r b1 b2 H2 where h: "submit_inode ?in b = Some (r, b1)" "finish_items e (r # rs) b1 = Some b2" "store_inv H2 b2"
    "log_durable (ls_log b2)" "meta (ls_log b2) = meta (ls_log b)" "inode_stored b2 ?in r"
    "\<forall>q. count_list (block_refs (i_blocks ?in)) q + ?oth q + count_list [r] q \<le> H2 q"
    "\<forall>q. 0 < count_list (block_refs (i_blocks ?in)) q + ?oth q \<longrightarrow> store_data b2 q = store_data b q"
    by (rule sync_store [OF f(3) inode_writable [OF f(5)] own, of e])
  define b3 where "b3 = unlink_unlogged i b2"
  have b3: "ls_log b3 = ls_log b2" "store_inv H2 b3" by (auto simp: b3_def unlink_unlogged_def intro!: store_inv_lists [OF h(3)])
  note b3 = this store_data_log [OF this(1)]
  let ?fin = "synced_fields (?in\<lparr>committed_item := Some r\<rparr>)" and ?fc = "fc\<lparr>backing := Some b3\<rparr>"
  from mark_clean_eq [of "put_inode i (?in\<lparr>committed_item := Some r\<rparr>) (s\<lparr>sys_cache := fc\<lparr>backing := Some b2\<rparr>\<rparr>)" i "?in\<lparr>committed_item := Some r\<rparr>" b2]
  obtain s' where s': "mark_clean i (put_inode i (?in\<lparr>committed_item := Some r\<rparr>) (s\<lparr>sys_cache := fc\<lparr>backing := Some b2\<rparr>\<rparr>)) = Some s'"
    "sys_inodes s' = (sys_inodes s)(i \<mapsto> ?fin)" "sys_cache s' = ?fc" "sys_fetching s' = sys_fetching s"
    by (auto simp: put_inode_def b3_def)
  have run: "bluesky_inode_start_sync e i s = Some s'"
    using g f(1,2) h(1,2) s'(1) by (simp add: bluesky_inode_start_sync_def)
  have fin: "i_blocks ?fin = bs" "i_size ?fin = i_size inode" "committed_refs ?fin = [r]" "i_inum ?fin = i_inum inode" "i_refcount ?fin = i_refcount inode"
    "inode_typed lower ?fin = inode_typed lower ?in"
    by (simp_all add: synced_fields_def committed_refs_def inode_typed_def)
  define own' where "own' = (\<lambda>q. ?oth q + count_list (committed_refs ?fin) q)"
  note H = log_okI [OF b3(2)]
  have agree: "store_data b3 q = store_data b q" if "q \<in> set (block_refs bs)" for q
    using h(8) [rule_format, of q] that count_list_pos [OF that] b3(3) by simp
  have w: "inode_wf lower (store_data b3) i ?fin"
    using f(5) fin blocks_agree(1) [of "store_data b" bs "unat (i_size inode)" "store_data b3"] agree by (simp add: inode_wf_def)
  have "framed_ok log_ok log_held log_data (log_meta (next_of s)) own' (store_data b3) (Some b3)"
    unfolding framed_ok_def own'_def fin(3)
  proof (intro conjI allI impI)
    show "log_meta (next_of s) (Some b3)" using h(5) f(4) b3(1) by (simp add: log_meta_def)
    show "?oth q + count_list [r] q \<le> log_held (Some b3) q" for q using h(7) [rule_format, of q] H(2) by simp
  qed (use H(1) in \<open>simp_all add: log_data_Some\<close>)
  moreover have "count_list (block_refs bs) q \<le> framed_held log_held own' (Some b3) q" for q
    using h(7) [rule_format, of q] H(2) fin(3) by (simp add: framed_held_def own'_def)
  ultimately have wf: "file_wf (framed_ok log_ok log_held log_data (log_meta (next_of s)) own' (store_data b3)) (framed_held log_held own') log_data
      (others_dirty s i) (?fin, ?fc)"
    using w fin f(9,10) unfolding file_wf_def by (simp add: inode_wf_def log_data_Some)
  have dat: "store_data b3 q = sys_data s q" if "0 < ?oth q" for q
    using h(8) [rule_format, of q] f(7) [of q] that b3(3) by (simp add: frame_refs_def)
  have id: "i_inum ?fin = i" "i_refcount ?fin = i_refcount inode" "inode_typed lower ?fin"
    using sys_invD(6) [OF inv g] fin(4,5,6) f(5) by (simp_all add: inode_wf_def)
  note u = unfocus_gen [OF inv g own'_def wf dat id s'(2,3,4)]
  have con: "sys_content s' i = sys_content s i"
    using f(8) s'(2,3) fin(1,2) blocks_agree(2) [of "store_data b" bs "unat (i_size inode)" "store_data b3"] f(5) agree
    by (simp add: sys_content_def log_data_Some inode_wf_def)
  have st: "inode_stored b3 ?in r" "log_durable (ls_log b3)" using h(4,6) b3(1,3) by (simp_all add: inode_stored_def)
  have sl: "sys_inodes s' i = Some ?fin" "backing (sys_cache s') = Some b3" using s'(2,3) by simp_all
  show thesis
    by (rule that [OF run u(1-3) sl(1) f(9) con sl(2) st])
qed



section \<open>Changes of one inode\<close>

lemma on_inode_ok:
  assumes inv: "sys_inv lower cl s" and g: "sys_inodes s i = Some inode" and f: "f (inode, sys_cache s) = Some (inode', fc)"
    and fr: "in_frame s i (inode', fc)"
    and i': "i_inum inode' = i_inum inode" "i_refcount inode' = i_refcount inode" "committed_item inode' = committed_item inode" "inode_typed lower inode'"
  obtains s' where "on_inode i f s = Some s'" "sys_inv lower cl s'" "same_others {i} s s'" "next_of s' = next_of s"
    "sys_inodes s' i = Some inode'" "sys_content s' i = file_content log_data (inode', fc)" "sys_cache s' = fc"
proof -
  note u = unfocus [OF inv g fr i']
  let ?s' = "put_inode i inode' (s\<lparr>sys_cache := fc\<rparr>)"
  have "on_inode i f s = Some ?s'" using g f u(4) by (simp add: on_inode_def)
  moreover have "sys_content ?s' i = file_content log_data (inode', fc)" by (simp add: sys_content_def put_inode_def file_content_def)
  ultimately show thesis using u by (intro that [of ?s']) (simp_all add: put_inode_def)
qed

text \<open>A change of attributes only.\<close>

lemma in_frame_attrs:
  assumes "in_frame s i (inode, fc)" "i_blocks inode' = i_blocks inode" "i_size inode' = i_size inode"
  shows "in_frame s i (inode', fc)"
  using assms by (simp add: in_frame_def file_wf_def)

lemma sys_content_focus:
  "sys_inodes s i = Some inode \<Longrightarrow> sys_content s i = file_content log_data (inode, sys_cache s)"
  by (simp add: sys_content_def file_content_def)

lemma set_inode_ok:
  assumes inv: "sys_inv lower cl s" and g: "sys_inodes s i = Some inode"
    and i': "i_blocks (f inode) = i_blocks inode" "i_size (f inode) = i_size inode" "i_inum (f inode) = i_inum inode"
      "i_refcount (f inode) = i_refcount inode" "committed_item (f inode) = committed_item inode" "inode_typed lower (f inode)"
  obtains s' where "set_inode i f s = Some s'" "sys_inv lower cl s'" "same_others {i} s s'" "next_of s' = next_of s"
    "sys_inodes s' i = Some (f inode)" "sys_content s' i = sys_content s i" "sys_cache s' = sys_cache s"
proof -
  have fr: "in_frame s i (f inode, sys_cache s)" by (rule in_frame_attrs [OF focus [OF inv g]]) (use i' in simp_all)
  obtain s' where s': "on_inode i (\<lambda>(inode, fc). Some (f inode, fc)) s = Some s'" "sys_inv lower cl s'" "same_others {i} s s'"
    "next_of s' = next_of s" "sys_inodes s' i = Some (f inode)" "sys_content s' i = file_content log_data (f inode, sys_cache s)" "sys_cache s' = sys_cache s"
    by (rule on_inode_ok [OF inv g _ fr i'(3-6), of "\<lambda>(inode, fc). Some (f inode, fc)"]) simp_all
  have "sys_content s' i = sys_content s i"
    using s'(6) sys_content_focus [OF g] i'(1,2) by (simp add: file_content_def)
  with s' show thesis by (intro that [of s']) (simp_all add: set_inode_def)
qed

lemma typed_attrs:
  assumes "inode_typed lower inode" "i_type inode' = i_type inode" "i_size inode' = i_size inode" "i_dir inode' = i_dir inode"
    "symlink_contents inode' = symlink_contents inode"
  shows "inode_typed lower inode'"
  using assms by (simp add: inode_typed_def)

lemma touch_ok:
  assumes inv: "sys_inv lower cl s" and g: "sys_inodes s i = Some inode"
  obtains s' where "touch_inode_ctime e upd i s = Some s'" "sys_inv lower cl s'" "same_others {i} s s'" "next_of s' = next_of s"
    "sys_inodes s' i = Some (update_ctime_fields (fe_now e) upd inode)" "sys_content s' i = sys_content s i"
proof -
  note w = sys_invD(6) [OF inv g]
  let ?f = "\<lambda>x. Some (bluesky_inode_update_ctime (fs_backend e) (fe_now e) upd x)"
  obtain inode' fc where u: "bluesky_inode_update_ctime (fs_backend e) (fe_now e) upd (inode, sys_cache s) = (inode', fc)" by fastforce
  then have i': "inode' = update_ctime_fields (fe_now e) upd inode" by (simp add: bluesky_inode_update_ctime_def)
  note fr = focus [OF inv g, unfolded in_frame_def]
  have fr': "in_frame s i (inode', fc)" "file_content log_data (inode', fc) = file_content log_data (inode, sys_cache s)"
    using framed_log.update_ctime_ok(1,2) [OF fr, of "fe_log e" "fe_now e" "fe_results e" "fe_now e" upd] u by (simp_all add: in_frame_def)
  have same: "i_type inode' = i_type inode" "i_size inode' = i_size inode" "i_dir inode' = i_dir inode" "symlink_contents inode' = symlink_contents inode"
    "i_inum inode' = i_inum inode" "i_refcount inode' = i_refcount inode" "committed_item inode' = committed_item inode"
    by (simp_all add: i' update_ctime_fields_def)
  have ty: "inode_typed lower inode'" by (rule typed_attrs [OF _ same(1-4)]) (use w in \<open>simp add: inode_wf_def\<close>)
  have f: "?f (inode, sys_cache s) = Some (inode', fc)" using u by simp
  obtain s' where s': "on_inode i ?f s = Some s'" "sys_inv lower cl s'" "same_others {i} s s'" "next_of s' = next_of s"
    "sys_inodes s' i = Some inode'" "sys_content s' i = file_content log_data (inode', fc)"
    by (rule on_inode_ok [where f = ?f, OF inv g f fr'(1) same(5-7) ty])
  with i' fr'(2) sys_content_focus [OF g] show thesis by (intro that [of s']) (simp_all add: touch_inode_ctime_def)
qed



section \<open>A new file system\<close>

lemma log_inv_next:
  assumes "log_inv {} own s" "s' = s\<lparr>next_inum := n, latest_cleaner_seq_seen := k\<rparr>"
  shows "log_inv {} own s'"
proof -
  have eq: "fs_items s' = fs_items s" "disk s' = disk s" "stable s' = stable s" "log_fd s' = log_fd s" "log_pos s' = log_pos s"
    "seq_num s' = seq_num s" "current_log s' = current_log s" "committed s' = committed s" "mapped s' = mapped s"
    using assms(2) by (simp_all add: mapped_def fun_eq_iff)
  have l: "logged s' c = logged s c" for c using eq by (simp add: logged_def)
  show ?thesis
    using assms(1) file_inv_cong [of s s'] l unfolding log_inv_def item_inv_def journal_refs_def waiting_def eq by blast
qed

lemma refs_upd: "(\<Sum>j\<in>UNIV. refs_of ((Map.empty(i \<mapsto> inode)) j) r) = refs_of (Some inode) r" for i :: u64
  using sum_split [of "\<lambda>j. refs_of ((Map.empty(i \<mapsto> inode)) j) r" i] by (simp add: refs_of_def)

lemma dirty_upd: "(\<Sum>j\<in>UNIV. dirty_of ((Map.empty(i \<mapsto> inode)) j)) = dirty_of (Some inode)" for i :: u64
  using sum_split [of "\<lambda>j. dirty_of ((Map.empty(i \<mapsto> inode)) j)" i] by (simp add: dirty_of_def)

lemma new_fs_inv:
  assumes "\<And>n. length (ids n) = 16"
  shows "sys_inv lower [] (bluesky_insert_inode root_inode (bluesky_new_fs ids files))"
proof -
  let ?s = "bluesky_insert_inode root_inode (bluesky_new_fs ids files)"
  obtain b where b: "backing (sys_cache ?s) = Some b" by (simp add: bluesky_insert_inode_def put_inode_def bluesky_new_fs_def)
  have lb: "ls_log b = (bluesky_log_new files)\<lparr>next_inum := 2, latest_cleaner_seq_seen := -1\<rparr>" "ls_ids b = ids" "fetch_pool b = []"
    using b by (auto simp: bluesky_insert_inode_def put_inode_def bluesky_new_fs_def BLUESKY_ROOT_INUM_def)
  have "log_inv {} (\<lambda>r. 0) (ls_log b)" by (rule log_inv_next [OF log_new_ok lb(1)])
  moreover have "get_item (fs_items (ls_log b)) = (\<lambda>r. None)" by (simp add: lb bluesky_log_new_def get_item_def fun_eq_iff)
  ultimately have "store_inv (\<lambda>r. 0) b"
    using lb assms by (simp add: store_inv_def journal_only_def settled_def all_submitted_def) (simp add: bluesky_log_new_def)
  note ok = log_okI [OF this]
  have ins: "sys_inodes ?s = Map.empty(1 \<mapsto> root_inode)"
    by (simp add: bluesky_insert_inode_def put_inode_def bluesky_new_fs_def root_inode_def bluesky_new_inode_def bluesky_init_inode_def
        BLUESKY_ROOT_INUM_def file_type_defs)
  have nx: "next_of ?s = 2" using b lb by (simp add: next_of_def)
  have "meta (ls_log b) = ([], 2)" using lb by (simp add: meta_def bluesky_log_new_def)
  then have meta: "log_meta (next_of ?s) (Some b)" by (simp add: log_meta_def nx)
  have root: "i_blocks root_inode = []" "committed_refs root_inode = []" "i_refcount root_inode = 1" "inode_wf lower dat 1 root_inode" for dat
    by (simp_all add: root_inode_def bluesky_new_inode_def bluesky_init_inode_def committed_refs_def inode_wf_def inode_typed_def
        BLUESKY_ROOT_INUM_def file_type_defs zeroed_inode_def blocks_ok_def block_count_def dir_bytes_def empty_dirindex_def dir_wf_def
        BLUESKY_BLOCK_SIZE_def)
  have "cache_dirty (sys_cache ?s) = 0" "sys_fetching ?s = []" by (simp_all add: bluesky_insert_inode_def put_inode_def bluesky_new_fs_def)
  with ok meta root ins nx b show ?thesis
    unfolding sys_inv_def ins refs_upd dirty_upd
    by (auto simp: refs_of_def dirty_of_def dirty_count_def split: if_split_asm)
qed


lemma new_fs_root: "sys_inodes (bluesky_insert_inode root_inode (bluesky_new_fs ids files)) 1 = Some root_inode"
  by (simp add: bluesky_insert_inode_def put_inode_def root_inode_def bluesky_new_inode_def bluesky_init_inode_def BLUESKY_ROOT_INUM_def
      file_type_defs)

lemma same_others_trans: "same_others X s s' \<Longrightarrow> same_others Y s' s'' \<Longrightarrow> same_others (X \<union> Y) s s''"
  by (simp add: same_others_def)

lemma inode_stored_fields: "inode_stored b (synced_fields (inode\<lparr>committed_item := p\<rparr>)) r = inode_stored b inode r"
  by (simp add: inode_stored_def synced_fields_def inode_links_def inode_payload_def serialized_inode_def)

definition sample_fsenv :: fsenv where
  "sample_fsenv = \<lparr>fe_log = sample_env, fe_now = 9, fe_results = [], fe_search = linear_search, fe_lower = sample_lower, fe_draws = [99]\<rparr>"

definition sample_system :: fsys where
  "sample_system = bluesky_insert_inode root_inode (bluesky_new_fs (\<lambda>n. replicate 16 1) [])"

lemma sample_system_inv: "sys_inv lower [] sample_system"
  unfolding sample_system_def by (rule new_fs_inv) simp

lemma sample_system_root: "sys_inodes sample_system 1 = Some root_inode"
  unfolding sample_system_def by (rule new_fs_root)



text \<open>C9: A file system without a checkpoint comes up: the root directory is made and written back, and the state it
  starts in satisfies the invariant, with an empty root directory as its only inode.\<close>

theorem fresh_fs_starts:
  assumes "\<forall>n. length (ids n) = 16"
  shows "\<exists>s root b. init_fresh_fs e ids files = Some s \<and> sys_inv lower [] s \<and> dom (sys_inodes s) = {1} \<and> sys_inodes s 1 = Some root \<and>
           is_dir lower root Map.empty \<and> backing (sys_cache s) = Some b \<and> log_durable (ls_log b)"
proof -
  let ?s = "bluesky_insert_inode root_inode (bluesky_new_fs ids files)"
  have inv: "sys_inv lower [] ?s" by (rule new_fs_inv) (use assms in simp)
  obtain s1 where s1: "touch_inode_ctime e True 1 ?s = Some s1" "sys_inv lower [] s1" "same_others {1} ?s s1"
    "sys_inodes s1 1 = Some (update_ctime_fields (fe_now e) True root_inode)"
    by (rule touch_ok [OF inv new_fs_root, of e True])
  let ?r = "update_ctime_fields (fe_now e) True root_inode"
  obtain s2 bs r b where s2: "bluesky_inode_start_sync e 1 s1 = Some s2" "sys_inv lower [] s2" "same_others {1} s1 s2"
    "sys_inodes s2 1 = Some (synced_fields (?r\<lparr>i_blocks := bs, committed_item := Some r\<rparr>))"
    "backing (sys_cache s2) = Some b" "log_durable (ls_log b)"
    by (rule start_sync_ok [OF s1(2,4), of e])
  have "sys_inodes s2 j = None" if "j \<noteq> 1" for j
    using s1(3) s2(3) that
    by (simp add: same_others_def) (simp add: bluesky_insert_inode_def put_inode_def bluesky_new_fs_def root_inode_def bluesky_new_inode_def
        bluesky_init_inode_def BLUESKY_ROOT_INUM_def file_type_defs)
  then have d: "dom (sys_inodes s2) = {1}" using s2(4) by (force simp: dom_def)
  have "is_dir lower (synced_fields (?r\<lparr>i_blocks := bs, committed_item := Some r\<rparr>)) Map.empty"
    by (simp add: is_dir_def synced_fields_def update_ctime_fields_def root_inode_def bluesky_new_inode_def bluesky_init_inode_def
        file_type_defs empty_dirindex_def dir_wf_def dir_map_def fun_eq_iff)
  moreover have "init_fresh_fs e ids files = Some s2"
    using s1(1) s2(1) by (simp add: init_fresh_fs_def bluesky_inode_do_sync_def BLUESKY_ROOT_INUM_def)
  ultimately show ?thesis using s2 d by blast
qed

theorem fresh_fs_starts_witness:
  "\<exists>s root b. init_fresh_fs sample_fsenv (\<lambda>n. replicate 16 1) [] = Some s \<and> sys_inodes s 1 = Some root \<and>
     is_dir sample_lower root Map.empty \<and> backing (sys_cache s) = Some b \<and> log_durable (ls_log b)"
  using fresh_fs_starts [of "\<lambda>n. replicate 16 1" sample_fsenv "[]" sample_lower] by auto

end
