(* ===== verification/BlueSky_Requests.thy ===== *)
theory BlueSky_Requests
  imports BlueSky_Nfs3 BlueSky_System
begin

text \<open>
  What the steps of a request do to the file system (\<^verbatim>\<open>nfs3/nfs3.c\<close>): each keeps the
  invariant of the system and leaves the other inodes alone.
\<close>


section \<open>Reading and writing files\<close>

text \<open>An operation on the contents of a file changes its size, blocks, counters and times only.\<close>

definition same_file :: "inode \<Rightarrow> inode \<Rightarrow> bool" where
  "same_file i j \<longleftrightarrow> j = i\<lparr>i_size := i_size j, i_blocks := i_blocks j, change_count := change_count j, change_time := change_time j,
     i_ctime := i_ctime j, i_mtime := i_mtime j\<rparr>"

lemma same_fileD:
  assumes "same_file i j"
  shows "i_type j = i_type i" "i_inum j = i_inum i" "i_refcount j = i_refcount i" "committed_item j = committed_item i" "i_dir j = i_dir i"
    "symlink_contents j = symlink_contents i"
  by (subst assms [unfolded same_file_def], simp)+

lemma same_file_refl [simp]: "same_file i i"
  by (simp add: same_file_def)

lemma same_file_upd [simp]:
  "same_file i (j\<lparr>i_blocks := bs\<rparr>) = same_file i j" "same_file i (j\<lparr>i_size := sz\<rparr>) = same_file i j"
  "same_file i (update_ctime_fields now upd j) = same_file i j"
  by (cases i, cases j, simp add: same_file_def update_ctime_fields_def)+

lemma touch_same: "bluesky_block_touch be (inode, fs) n preserve = Some (inode', fs') \<Longrightarrow> same_file inode inode'"
  by (auto simp: bluesky_block_touch_def Let_def split: if_split_asm option.split_asm block_type.split_asm prod.split_asm)

lemma touch_resize_same: "touch_resize be (inode, fs) n k = Some (inode', fs') \<Longrightarrow> same_file inode inode'"
  by (auto simp: touch_resize_def set_dirty_def dest!: touch_same split: option.split_asm prod.split_asm)

lemma truncate_blocks_same: "truncate_blocks be (inode, fs) n = Some (inode', fs') \<Longrightarrow> same_file inode inode'"
  by (auto simp: truncate_blocks_def Let_def dest!: touch_resize_same split: option.split_asm prod.split_asm if_split_asm)

lemma same_file_trans: "same_file a b \<Longrightarrow> same_file b c \<Longrightarrow> same_file a c"
  by (cases a, cases b, cases c) (simp add: same_file_def)

lemma truncate_same:
  assumes "bluesky_file_truncate be now (inode, fs) sz = Some (inode', fs')"
  shows "same_file inode inode'"
  using assms
  by (auto simp: bluesky_file_truncate_def Let_def bluesky_inode_update_ctime_def
      dest!: truncate_blocks_same touch_resize_same intro: same_file_trans split: option.split_asm prod.split_asm if_split_asm)

lemma write_loop_same: "write_loop be (inode, fs) off d = Some (inode', fs') \<Longrightarrow> same_file inode inode'"
proof (induction "length d" arbitrary: inode fs off d rule: less_induct)
  case less
  show ?case
  proof (cases "d = []")
    case True
    then show ?thesis using less.prems by (simp add: write_loop.simps)
  next
    case False
    let ?n = "min (BLUESKY_BLOCK_SIZE - off mod BLUESKY_BLOCK_SIZE) (length d)" and ?k = "off div BLUESKY_BLOCK_SIZE"
    from False less.prems obtain preserve inode1 fs1 x where t: "bluesky_block_touch be (inode, fs) ?k preserve = Some (inode1, fs1)"
      "write_loop be (set_dirty inode1 ?k x, fs1) (off + ?n) (drop ?n d) = Some (inode', fs')"
      by (subst (asm) (2) write_loop.simps) (auto simp: Let_def split: option.split_asm prod.split_asm if_split_asm)
    have "length (drop ?n d) < length d" using False by simp
    from less.hyps [OF this t(2)] have "same_file inode1 inode'" by (simp add: set_dirty_def same_file_def)
    with touch_same [OF t(1)] show ?thesis by (rule same_file_trans)
  qed
qed

lemma write_same:
  assumes "bluesky_file_write be now (inode, fs) off d = Some (inode', fs')"
  shows "same_file inode inode'"
  using assms
  by (auto simp: bluesky_file_write_def Let_def bluesky_inode_update_ctime_def dest!: write_loop_same split: if_split_asm)


lemma same_file_typed: "same_file i j \<Longrightarrow> inode_typed lower i \<Longrightarrow> i_type i = BLUESKY_REGULAR \<Longrightarrow> inode_typed lower j"
  using same_fileD [of i j] by (simp add: inode_typed_def)

text \<open>The common part of truncation and writing: an operation of the file layer, run on an inode in the table.\<close>

lemma file_op_ok:
  assumes inv: "sys_inv lower cl s" and g: "sys_inodes s i = Some inode" and reg: "i_type inode = BLUESKY_REGULAR"
    and f: "f (inode, sys_cache s) = Some (inode', fc)" and fr: "in_frame s i (inode', fc)" and same: "same_file inode inode'"
  obtains s' where "on_inode i f s = Some s'" "sys_inv lower cl s'" "same_others {i} s s'" "next_of s' = next_of s"
    "sys_inodes s' i = Some inode'" "sys_content s' i = file_content log_data (inode', fc)"
proof -
  have ty: "inode_typed lower inode'" using sys_invD(6) [OF inv g] by (intro same_file_typed [OF same _ reg]) (simp add: inode_wf_def)
  show thesis
    by (rule on_inode_ok [where f = f, OF inv g f fr same_fileD(2,3,4) [OF same] ty]) (rule that)
qed

definition resized :: "u64 \<Rightarrow> bytes \<Rightarrow> bytes" where
  "resized sz d = (if unat sz \<le> BLUESKY_MAX_FILE_SIZE then resize_zero (unat sz) d else d)"

lemma truncate_sys:
  assumes inv: "sys_inv lower cl s" and g: "sys_inodes s i = Some inode" and reg: "i_type inode = BLUESKY_REGULAR"
  obtains s' inode' where "on_inode i (\<lambda>x. bluesky_file_truncate (fs_backend e) (fe_now e) x sz) s = Some s'" "sys_inv lower cl s'"
    "same_others {i} s s'" "next_of s' = next_of s" "sys_inodes s' i = Some inode'" "same_file inode inode'"
    "i_size inode' = (if unat sz \<le> BLUESKY_MAX_FILE_SIZE then sz else i_size inode)" "sys_content s' i = resized sz (sys_content s i)"
proof -
  let ?f = "\<lambda>x. bluesky_file_truncate (fs_backend e) (fe_now e) x sz"
  note fr = focus [OF inv g]
  have "\<exists>inode' fc. ?f (inode, sys_cache s) = Some (inode', fc) \<and> in_frame s i (inode', fc) \<and>
      i_size inode' = (if unat sz \<le> BLUESKY_MAX_FILE_SIZE then sz else i_size inode) \<and>
      file_content log_data (inode', fc) = resized sz (file_content log_data (inode, sys_cache s))"
  proof (cases "unat sz \<le> BLUESKY_MAX_FILE_SIZE")
    case True
    from framed_log.truncate_ok [OF fr [unfolded in_frame_def] this, of "fe_log e" "fe_now e" "fe_results e" "fe_now e"] True show ?thesis
      by (simp add: in_frame_def resized_def)
  next
    case False
    then show ?thesis using fr by (simp add: bluesky_file_truncate_def resized_def)
  qed
  then obtain inode' fc where t: "?f (inode, sys_cache s) = Some (inode', fc)" "in_frame s i (inode', fc)"
    "i_size inode' = (if unat sz \<le> BLUESKY_MAX_FILE_SIZE then sz else i_size inode)"
    "file_content log_data (inode', fc) = resized sz (file_content log_data (inode, sys_cache s))" by blast
  obtain s' where s': "on_inode i ?f s = Some s'" "sys_inv lower cl s'" "same_others {i} s s'" "next_of s' = next_of s"
    "sys_inodes s' i = Some inode'" "sys_content s' i = file_content log_data (inode', fc)"
    by (rule file_op_ok [where f = ?f, OF inv g reg t(1,2) truncate_same [OF t(1)]])
  show thesis by (rule that [OF s'(1-5) truncate_same [OF t(1)] t(3)]) (use s'(6) t(4) sys_content_focus [OF g] in simp)
qed

definition overwritten :: "u64 \<Rightarrow> bytes \<Rightarrow> bytes \<Rightarrow> bytes" where
  "overwritten off d c = (if unat off < length c \<and> unat off + length d \<le> length c then overwrite (unat off) d c else c)"

lemma sys_content_length: "sys_inodes s i = Some inode \<Longrightarrow> length (sys_content s i) = unat (i_size inode)"
  by (simp add: sys_content_def content_def)

lemma write_fits:
  "off < (n :: u64) \<Longrightarrow> (k \<le> unat (n - off)) = (unat off + k \<le> unat n)"
  by (simp add: word_less_nat_alt unat_sub_if') linarith

lemma write_sys:
  assumes inv: "sys_inv lower cl s" and g: "sys_inodes s i = Some inode" and reg: "i_type inode = BLUESKY_REGULAR"
  obtains s' inode' where "on_inode i (\<lambda>x. bluesky_file_write (fs_backend e) (fe_now e) x off d) s = Some s'" "sys_inv lower cl s'"
    "same_others {i} s s'" "next_of s' = next_of s" "sys_inodes s' i = Some inode'" "same_file inode inode'"
    "i_size inode' = i_size inode" "sys_content s' i = overwritten off d (sys_content s i)"
proof -
  let ?f = "\<lambda>x. bluesky_file_write (fs_backend e) (fe_now e) x off d"
  note fr = focus [OF inv g]
  have len: "length (file_content log_data (inode, sys_cache s)) = unat (i_size inode)" using sys_content_length [OF g] sys_content_focus [OF g] by simp
  have "\<exists>inode' fc. ?f (inode, sys_cache s) = Some (inode', fc) \<and> in_frame s i (inode', fc) \<and> i_size inode' = i_size inode \<and>
      file_content log_data (inode', fc) = overwritten off d (file_content log_data (inode, sys_cache s))"
  proof (cases "unat off < unat (i_size inode) \<and> unat off + length d \<le> unat (i_size inode)")
    case True
    from framed_log.write_ok [OF fr [unfolded in_frame_def] reg, of off d "fe_log e" "fe_now e" "fe_results e" "fe_now e"] True show ?thesis
      by (simp add: in_frame_def overwritten_def len)
  next
    case False
    then show ?thesis using fr write_fits [of off "i_size inode" "length d"]
      by (auto simp: bluesky_file_write_def overwritten_def len Let_def word_less_nat_alt)
  qed
  then obtain inode' fc where t: "?f (inode, sys_cache s) = Some (inode', fc)" "in_frame s i (inode', fc)" "i_size inode' = i_size inode"
    "file_content log_data (inode', fc) = overwritten off d (file_content log_data (inode, sys_cache s))" by blast
  obtain s' where s': "on_inode i ?f s = Some s'" "sys_inv lower cl s'" "same_others {i} s s'" "next_of s' = next_of s"
    "sys_inodes s' i = Some inode'" "sys_content s' i = file_content log_data (inode', fc)"
    by (rule file_op_ok [where f = ?f, OF inv g reg t(1,2) write_same [OF t(1)]])
  show thesis by (rule that [OF s'(1-5) write_same [OF t(1)] t(3)]) (use s'(6) t(4) sys_content_focus [OF g] in simp)
qed

lemma read_sys:
  assumes inv: "sys_inv lower cl s" and g: "sys_inodes s i = Some inode" and reg: "i_type inode = BLUESKY_REGULAR"
    and off: "unat off + len \<le> unat (i_size inode)" "unat off < unat (i_size inode) \<or> len = 0"
  obtains fc where "bluesky_file_read (fs_backend e) (inode, sys_cache s) off len = Some (Some (slice (unat off) len (sys_content s i)), fc)"
    "backing fc \<noteq> None" "sys_inv lower cl (s\<lparr>sys_cache := fc\<rparr>)" "same_others {} s (s\<lparr>sys_cache := fc\<rparr>)" "next_of (s\<lparr>sys_cache := fc\<rparr>) = next_of s"
proof -
  note fr = focus [OF inv g]
  from framed_log.read_ok [OF fr [unfolded in_frame_def] reg off, of "fe_log e" "fe_now e" "fe_results e"] obtain fc
    where r: "bluesky_file_read (fs_backend e) (inode, sys_cache s) off len = Some (Some (slice (unat off) len (sys_content s i)), fc)"
      "in_frame s i (inode, fc)" "file_content log_data (inode, fc) = file_content log_data (inode, sys_cache s)"
    using sys_content_focus [OF g] by (auto simp: in_frame_def)
  have ty: "inode_typed lower inode" using sys_invD(6) [OF inv g] by (simp add: inode_wf_def)
  note u = unfocus [OF inv g r(2) refl refl refl ty]
  have eq: "put_inode i inode (s\<lparr>sys_cache := fc\<rparr>) = s\<lparr>sys_cache := fc\<rparr>" using g by (simp add: put_inode_def fun_upd_idem)
  have "sys_content (s\<lparr>sys_cache := fc\<rparr>) i = sys_content s i" using r(3) g by (simp add: sys_content_def file_content_def)
  then have "same_others {} s (s\<lparr>sys_cache := fc\<rparr>)" using u(2) unfolding eq by (auto simp: same_others_def)
  with u r(1) show thesis unfolding eq by (intro that [of fc])
qed



section \<open>References to inodes\<close>

lemma sys_inv_attrs:
  assumes inv: "sys_inv lower cl s" and s': "sys_cache s' = sys_cache s" "sys_fetching s' = sys_fetching s"
    and dom: "\<And>j. (sys_inodes s' j = None) = (sys_inodes s j = None)"
    and same: "\<And>j x y. sys_inodes s j = Some x \<Longrightarrow> sys_inodes s' j = Some y \<Longrightarrow>
        i_blocks y = i_blocks x \<and> i_size y = i_size x \<and> i_inum y = i_inum x \<and> committed_item y = committed_item x \<and>
        inode_typed lower y \<and> i_refcount y = 1 + int (count_list cl' j)"
    and cl': "\<And>j. j \<in> set cl' \<Longrightarrow> sys_inodes s j \<noteq> None"
  shows "sys_inv lower cl' s'" "sys_content s' j = sys_content s j" "next_of s' = next_of s"
proof -
  note d = sys_invD [OF inv]
  have refs: "refs_of (sys_inodes s' j) = refs_of (sys_inodes s j) \<and> dirty_of (sys_inodes s' j) = dirty_of (sys_inodes s j) \<and>
      sys_content s' j = sys_content s j" for j
  proof (cases "sys_inodes s j")
    case None
    then show ?thesis using dom [of j] by (simp add: sys_content_def)
  next
    case (Some x)
    then obtain y where y: "sys_inodes s' j = Some y" using dom [of j] by auto
    from same [OF Some y] Some y show ?thesis
      by (simp add: refs_of_def dirty_of_def committed_refs_def sys_content_def fun_eq_iff s')
  qed
  then show "sys_content s' j = sys_content s j" by simp
  show nx: "next_of s' = next_of s" by (simp add: next_of_def s')
  have each: "0 < j \<and> j < next_of s' \<and> inode_wf lower (sys_data s') j y \<and> i_refcount y = 1 + int (count_list cl' j)"
    if y: "sys_inodes s' j = Some y" for j y
  proof -
    obtain x where x: "sys_inodes s j = Some x" using dom [of j] y by (cases "sys_inodes s j") auto
    from d(5,6) [OF x] same [OF x y] show ?thesis by (simp add: inode_wf_def nx s')
  qed
  show "sys_inv lower cl' s'"
    unfolding sys_inv_def refs [THEN conjunct1] refs [THEN conjunct2, THEN conjunct1] s' nx
  proof (intro conjI allI impI)
    show "\<forall>i\<in>set cl'. sys_inodes s' i \<noteq> None" "sys_inodes s' 1 \<noteq> None" using cl' d(9) dom by auto
  qed (use d(1-4,10) each [unfolded s' nx] in simp_all)
qed

text \<open>The searches of GLib keep their contract.\<close>

definition fsenv_ok :: "fsenv \<Rightarrow> bool" where
  "fsenv_ok e \<longleftrightarrow> gsequence (seq_search (fe_log e)) \<and> gsequence (fe_search e)"

lemma find_entry_none:
  assumes "fsenv_ok e" "log_meta n (Some b)"
  shows "find_entry e i b = None"
proof -
  have "seq_search (fe_log e) [] i = 0" using assms(1) gsequence.search_le_length [of "seq_search (fe_log e)" "[]" i] by (simp add: fsenv_ok_def)
  with assms(2) show ?thesis by (simp add: find_entry_def log_meta_def meta_def bluesky_inode_map_lookup_def Let_def iter_prev_def)
qed

lemma fetch_none:
  assumes "fsenv_ok e" "sys_inv lower cl s"
  shows "bluesky_inode_fetch e i s = Some s"
proof -
  obtain b where "backing (sys_cache s) = Some b" using sys_invD(2) [OF assms(2)] by (auto simp: log_meta_def)
  with find_entry_none [OF assms(1), of "next_of s" b] sys_invD(2) [OF assms(2)] show ?thesis by (simp add: bluesky_inode_fetch_def)
qed

lemma get_missing:
  assumes "fsenv_ok e" "sys_inv lower cl s" "sys_inodes s i = None"
  shows "bluesky_get_inode e i s = Some (False, s)"
  using assms fetch_none by (simp add: bluesky_get_inode_def)

definition referred :: "i64 \<Rightarrow> inode \<Rightarrow> inode" where
  "referred now inode = inode\<lparr>i_refcount := i_refcount inode + 1, access_time := now\<rparr>"

lemma get_present:
  assumes inv: "sys_inv lower cl s" and g: "sys_inodes s i = Some inode"
  obtains s' where "bluesky_get_inode e i s = Some (True, s')" "sys_inv lower (i # cl) s'" "next_of s' = next_of s"
    "sys_inodes s' = (sys_inodes s)(i \<mapsto> referred (fe_now e) inode)" "\<forall>j. sys_content s' j = sys_content s j" "sys_cache s' = sys_cache s"
proof -
  let ?s' = "s\<lparr>sys_inodes := (sys_inodes s)(i \<mapsto> referred (fe_now e) inode)\<rparr>"
  have "i \<noteq> 0" using sys_invD(5) [OF inv g] by auto
  moreover have "backing (sys_cache s) \<noteq> None" using sys_invD(2) [OF inv] by (auto simp: log_meta_def)
  ultimately have run: "bluesky_get_inode e i s = Some (True, ?s')"
    using g by (simp add: bluesky_get_inode_def bluesky_inode_ref_def set_inode_def on_inode_def put_inode_def referred_def)
  have ty: "inode_typed lower x" if "sys_inodes s j = Some x" for j x using sys_invD(6) [OF inv that] by (simp add: inode_wf_def)
  note a = sys_inv_attrs [OF inv, of ?s' "i # cl"]
  have pre: "\<And>j x y. sys_inodes s j = Some x \<Longrightarrow> sys_inodes ?s' j = Some y \<Longrightarrow>
        i_blocks y = i_blocks x \<and> i_size y = i_size x \<and> i_inum y = i_inum x \<and> committed_item y = committed_item x \<and>
        inode_typed lower y \<and> i_refcount y = 1 + int (count_list (i # cl) j)"
    using g ty typed_attrs [OF ty [OF g], of "referred (fe_now e) inode"] sys_invD(7) [OF inv]
    by (auto simp: referred_def split: if_split_asm)
  have dom: "\<And>j. (sys_inodes ?s' j = None) = (sys_inodes s j = None)" using g by auto
  have cl: "\<And>j. j \<in> set (i # cl) \<Longrightarrow> sys_inodes s j \<noteq> None" using g sys_invD(8) [OF inv] by auto
  note r = a [OF _ _ dom pre cl]
  show thesis by (rule that [OF run]) (use r in simp_all)
qed

lemma inode_unref_ok:
  assumes inv: "sys_inv lower cl s" and i: "i \<in> set cl"
  obtains s' inode where "sys_inodes s i = Some inode" "bluesky_inode_unref i s = Some s'" "sys_inv lower (remove1 i cl) s'" "next_of s' = next_of s"
    "sys_inodes s' = (sys_inodes s)(i \<mapsto> inode\<lparr>i_refcount := i_refcount inode - 1\<rparr>)" "\<forall>j. sys_content s' j = sys_content s j" "sys_cache s' = sys_cache s"
proof -
  obtain inode where g: "sys_inodes s i = Some inode" using sys_invD(8) [OF inv i] by auto
  let ?s' = "put_inode i (inode\<lparr>i_refcount := i_refcount inode - 1\<rparr>) s"
  have pos: "0 < count_list cl i" using i by (rule count_list_pos)
  then have "i_refcount inode - 1 \<noteq> 0" using sys_invD(7) [OF inv g] by simp
  then have run: "bluesky_inode_unref i s = Some ?s'" using g by (simp add: bluesky_inode_unref_def Let_def)
  have ty: "inode_typed lower x" if "sys_inodes s j = Some x" for j x using sys_invD(6) [OF inv that] by (simp add: inode_wf_def)
  have cnt: "count_list (remove1 i cl) j = count_list cl j - (if j = i then 1 else 0)" for j
    by (induction cl) auto
  have pre: "\<And>j x y. sys_inodes s j = Some x \<Longrightarrow> sys_inodes ?s' j = Some y \<Longrightarrow>
        i_blocks y = i_blocks x \<and> i_size y = i_size x \<and> i_inum y = i_inum x \<and> committed_item y = committed_item x \<and>
        inode_typed lower y \<and> i_refcount y = 1 + int (count_list (remove1 i cl) j)"
    using g ty typed_attrs [OF ty [OF g], of "inode\<lparr>i_refcount := i_refcount inode - 1\<rparr>"] sys_invD(7) [OF inv] pos
    by (auto simp: put_inode_def cnt split: if_split_asm)
  have dom: "\<And>j. (sys_inodes ?s' j = None) = (sys_inodes s j = None)" using g by (auto simp: put_inode_def)
  have cl: "\<And>j. j \<in> set (remove1 i cl) \<Longrightarrow> sys_inodes s j \<noteq> None" using sys_invD(8) [OF inv] notin_set_remove1 by metis
  note r = sys_inv_attrs [OF inv _ _ dom pre cl]
  show thesis by (rule that [OF g run]) (use r in \<open>simp_all add: put_inode_def\<close>)
qed

lemma drop_refs_ok:
  assumes "sys_inv lower cl s"
  obtains s' where "drop_refs cl s = Some s'" "sys_inv lower [] s'" "next_of s' = next_of s" "\<forall>j. sys_content s' j = sys_content s j"
    "sys_cache s' = sys_cache s" "\<forall>j. \<exists>n. sys_inodes s' j = map_option (\<lambda>x. x\<lparr>i_refcount := n\<rparr>) (sys_inodes s j)"
  using assms
proof (induction cl arbitrary: s thesis)
  case Nil
  have "\<exists>n. sys_inodes s j = map_option (\<lambda>x. x\<lparr>i_refcount := n\<rparr>) (sys_inodes s j)" for j
    by (cases "sys_inodes s j") (auto intro!: exI [of _ "i_refcount (the (sys_inodes s j))"])
  with Nil show ?case by simp
next
  case (Cons i cl)
  obtain s1 inode where s1: "sys_inodes s i = Some inode" "bluesky_inode_unref i s = Some s1" "sys_inv lower (remove1 i (i # cl)) s1" "next_of s1 = next_of s"
    "sys_inodes s1 = (sys_inodes s)(i \<mapsto> inode\<lparr>i_refcount := i_refcount inode - 1\<rparr>)" "\<forall>j. sys_content s1 j = sys_content s j" "sys_cache s1 = sys_cache s"
    by (rule inode_unref_ok [OF Cons.prems(2), of i]) simp_all
  have i1: "sys_inv lower cl s1" using s1(3) by simp
  obtain s' where s': "drop_refs cl s1 = Some s'" "sys_inv lower [] s'" "next_of s' = next_of s1" "\<forall>j. sys_content s' j = sys_content s1 j"
    "sys_cache s' = sys_cache s1" "\<forall>j. \<exists>n. sys_inodes s' j = map_option (\<lambda>x. x\<lparr>i_refcount := n\<rparr>) (sys_inodes s1 j)"
    by (rule Cons.IH [OF _ i1])
  have "\<exists>n. sys_inodes s' j = map_option (\<lambda>x. x\<lparr>i_refcount := n\<rparr>) (sys_inodes s j)" for j
    using s'(6) [rule_format, of j] s1(1,5) by (cases "j = i") auto
  with s' s1 show ?case by (intro Cons.prems(1) [of s']) simp_all
qed



section \<open>Directories\<close>

lemma dir_of:
  assumes "sys_inv lower cl s" "sys_inodes s d = Some dir" "i_type dir = BLUESKY_DIRECTORY"
  obtains di where "i_dir dir = Some di" "is_dir lower dir (dir_map di)" "dir_wf lower di" "dir_bytes di < 2 ^ 31" "\<forall>x \<in> set (dirents di). 0 \<notin> set (d_name x)"
  using sys_invD(6) [OF assms(1,2)] assms(3) by (auto simp: inode_wf_def inode_typed_def is_dir_def file_type_defs)

lemma sum_take_drop: "sum_list (map f (take p xs)) + sum_list (map f (drop p xs)) = sum_list (map f xs)" for f :: "'a \<Rightarrow> nat"
  by (metis append_take_drop_id map_append sum_list.append)

text \<open>The operations on directories, with all they change.\<close>

lemma insert_shape:
  assumes srch: "gsequence srch" and dir: "i_type dir = BLUESKY_DIRECTORY" "i_dir dir = Some di" "dir_wf lower di" "dir_map di name = None"
    and u: "\<exists>r \<in> set draws. usable_cookie (dirents di) r"
  obtains di' draws' where "bluesky_directory_insert be now srch lower draws (dir, fs) name inum
      = Some (bluesky_inode_update_ctime be now True (dir\<lparr>i_dir := Some di'\<rparr>, fs), True, draws')"
    "dir_wf lower di'" "dir_map di' = (dir_map di)(name \<mapsto> inum)" "dir_bytes di' = dir_bytes di + length name + 13"
    "\<forall>x \<in> set (dirents di'). x \<in> set (dirents di) \<or> d_name x = name"
proof -
  have ds: "directory srch" using srch by (rule directory.intro)
  have h: "dirhash di name = None" using dir(4) by (auto simp: dir_map_def)
  obtain c rest where c: "pick_cookie srch (dirents di) draws = Some (c, rest)" "4 \<le> c" "c \<le> 0x7fffffff" "c \<notin> d_cookie ` set (dirents di)"
    using directory.pick_cookie_some [OF ds dir_wfD(1) [OF dir(3)] u] by auto
  define x where "x = \<lparr>d_name = name, d_name_folded = lower name, d_cookie = c, d_inum = inum\<rparr>"
  define di' where "di' = \<lparr>dirents = gseq_insert_sorted srch d_cookie x (dirents di), dirhash = (dirhash di)(d_name x \<mapsto> x),
     dirhash_folded = (dirhash_folded di)(d_name_folded x \<mapsto> x)\<rparr>"
  note wf' = directory.insert_wf [OF ds dir(3) h c(2-4) x_def di'_def]
  obtain p where p: "dirents di' = take p (dirents di) @ x # drop p (dirents di)" by (simp add: di'_def gseq_insert_sorted_def Let_def)
  have "dir_bytes di' = dir_bytes di + length name + 13"
    using sum_take_drop [of "\<lambda>d. length (d_name d) + 13" p "dirents di"] unfolding dir_bytes_def p by (simp add: x_def)
  moreover have "\<forall>y \<in> set (dirents di'). y \<in> set (dirents di) \<or> d_name y = name"
    unfolding p by (auto simp: x_def dest: in_set_takeD in_set_dropD)
  moreover have "bluesky_directory_insert be now srch lower draws (dir, fs) name inum
      = Some (bluesky_inode_update_ctime be now True (dir\<lparr>i_dir := Some di'\<rparr>, fs), True, rest)"
    using dir(1,2) h c(1) by (simp add: bluesky_directory_insert_def Let_def di'_def x_def)
  ultimately show thesis using wf' by (intro that [of di' rest])
qed

lemma remove_shape:
  assumes srch: "gsequence srch" and dir: "i_type dir = BLUESKY_DIRECTORY" "i_dir dir = Some di" "dir_wf lower di" "dir_map di name \<noteq> None"
  obtains di' where "bluesky_directory_remove be now srch (dir, fs) name
      = Some (bluesky_inode_update_ctime be now True (dir\<lparr>i_dir := Some di'\<rparr>, fs), True)"
    "dir_wf lower di'" "dir_map di' = (dir_map di)(name := None)" "dir_bytes di' \<le> dir_bytes di" "set (dirents di') \<subseteq> set (dirents di)"
proof -
  have ds: "directory srch" using srch by (rule directory.intro)
  obtain x where h: "dirhash di name = Some x" using dir(4) by (auto simp: dir_map_def)
  define i where "i = iter_prev (srch (map d_cookie (dirents di)) (d_cookie x))"
  define di' where "di' = di\<lparr>dirhash := (dirhash di)(d_name x := None), dirhash_folded := (dirhash_folded di)(d_name_folded x := None),
     dirents := gseq_remove i (dirents di)\<rparr>"
  note wf' = directory.remove_wf [OF ds dir(3) h, folded i_def, folded di'_def]
  have "sum_list (map f (drop (Suc i) xs)) \<le> sum_list (map f (drop i xs))" for f :: "dirent \<Rightarrow> nat" and xs
    by (cases "i < length xs") (simp_all add: Cons_nth_drop_Suc [symmetric])
  from this [of "\<lambda>d. length (d_name d) + 13" "dirents di"] sum_take_drop [of "\<lambda>d. length (d_name d) + 13" i "dirents di"]
  have "dir_bytes di' \<le> dir_bytes di" by (simp add: dir_bytes_def di'_def gseq_remove_def)
  moreover have "set (dirents di') \<subseteq> set (dirents di)"
    by (auto simp: di'_def gseq_remove_def dest: in_set_takeD in_set_dropD)
  moreover have "bluesky_directory_remove be now srch (dir, fs) name
      = Some (bluesky_inode_update_ctime be now True (dir\<lparr>i_dir := Some di'\<rparr>, fs), True)"
    using dir(1,2) h wf'(1) by (simp add: bluesky_directory_remove_def Let_def di'_def i_def)
  ultimately show thesis using wf'(2,3) by (intro that [of di'])
qed

lemma dir_update_ok:
  assumes inv: "sys_inv lower cl s" and g: "sys_inodes s d = Some dir" and ty: "i_type dir = BLUESKY_DIRECTORY"
    and di': "dir_wf lower di'" "dir_bytes di' < 2 ^ 31" "\<forall>x \<in> set (dirents di'). 0 \<notin> set (d_name x)"
    and u: "bluesky_inode_update_ctime (fs_backend e) (fe_now e) upd (dir\<lparr>i_dir := Some di'\<rparr>, sys_cache s) = (dir', fc)"
  shows "dir' = update_ctime_fields (fe_now e) upd (dir\<lparr>i_dir := Some di'\<rparr>)" "sys_inv lower cl (put_inode d dir' (s\<lparr>sys_cache := fc\<rparr>))"
    "same_others {d} s (put_inode d dir' (s\<lparr>sys_cache := fc\<rparr>))" "next_of (put_inode d dir' (s\<lparr>sys_cache := fc\<rparr>)) = next_of s" "backing fc \<noteq> None"
proof -
  show d': "dir' = update_ctime_fields (fe_now e) upd (dir\<lparr>i_dir := Some di'\<rparr>)" using u by (simp add: bluesky_inode_update_ctime_def)
  have "in_frame s d (dir\<lparr>i_dir := Some di'\<rparr>, sys_cache s)" by (rule in_frame_attrs [OF focus [OF inv g]]) simp_all
  from framed_log.update_ctime_ok(1) [OF this [unfolded in_frame_def], of "fe_log e" "fe_now e" "fe_results e" "fe_now e" upd] u
  have fr: "in_frame s d (dir', fc)" by (simp add: in_frame_def)
  have "i_size dir = 0" using sys_invD(6) [OF inv g] ty by (auto simp: inode_wf_def inode_typed_def file_type_defs)
  then have ty': "inode_typed lower dir'" using di' ty by (simp add: d' inode_typed_def update_ctime_fields_def)
  have eq: "i_inum dir' = i_inum dir" "i_refcount dir' = i_refcount dir" "committed_item dir' = committed_item dir"
    by (simp_all add: d' update_ctime_fields_def)
  note un = unfocus [OF inv g fr eq ty']
  show "sys_inv lower cl (put_inode d dir' (s\<lparr>sys_cache := fc\<rparr>))" "same_others {d} s (put_inode d dir' (s\<lparr>sys_cache := fc\<rparr>))"
    "next_of (put_inode d dir' (s\<lparr>sys_cache := fc\<rparr>)) = next_of s" "backing fc \<noteq> None" by (fact un)+
qed


text \<open>An operation on a directory changes its entries, counters and times only.\<close>

definition same_dir :: "inode \<Rightarrow> inode \<Rightarrow> bool" where
  "same_dir i j \<longleftrightarrow> j = i\<lparr>i_dir := i_dir j, change_count := change_count j, change_time := change_time j, i_ctime := i_ctime j, i_mtime := i_mtime j\<rparr>"

lemma same_dirD:
  assumes "same_dir i j"
  shows "i_type j = i_type i" "i_inum j = i_inum i" "i_refcount j = i_refcount i" "committed_item j = committed_item i" "i_size j = i_size i"
    "i_blocks j = i_blocks i"
  by (subst assms [unfolded same_dir_def], simp)+

lemma same_dir_refl [simp]: "same_dir i i"
  by (simp add: same_dir_def)

lemma same_dir_upd [simp]: "same_dir i (j\<lparr>i_dir := x\<rparr>) = same_dir i j" "same_dir i (update_ctime_fields now upd j) = same_dir i j"
  by (cases i, cases j, simp add: same_dir_def update_ctime_fields_def)+

lemma same_dir_trans: "same_dir a b \<Longrightarrow> same_dir b c \<Longrightarrow> same_dir a c"
  by (cases a, cases b, cases c) (simp add: same_dir_def)

text \<open>The new state after an operation on directory \<open>d\<close> that left it as \<open>dir'\<close> with the entries \<open>di'\<close>.\<close>

definition dir_step :: "(bytes \<Rightarrow> bytes) \<Rightarrow> u64 list \<Rightarrow> u64 \<Rightarrow> inode \<Rightarrow> fsys \<Rightarrow> dirindex \<Rightarrow> inode \<Rightarrow> fsys \<Rightarrow> bool" where
  "dir_step lower cl d dir s di' dir' s' \<longleftrightarrow>
     sys_inv lower cl s' \<and> same_others {d} s s' \<and> next_of s' = next_of s \<and> sys_inodes s' d = Some dir' \<and> same_dir dir dir' \<and> i_dir dir' = Some di'"

lemma dir_stepD:
  assumes "dir_step lower cl d dir s di' dir' s'"
  shows "sys_inv lower cl s'" "same_others {d} s s'" "next_of s' = next_of s" "sys_inodes s' d = Some dir'" "same_dir dir dir'" "i_dir dir' = Some di'"
  using assms by (simp_all add: dir_step_def)

definition name_fits :: "dirindex \<Rightarrow> bytes \<Rightarrow> bool" where
  "name_fits di name \<longleftrightarrow> dir_bytes di + length name + 13 < 2 ^ 31 \<and> 0 \<notin> set name"

definition cookie_left :: "fsenv \<Rightarrow> dirindex \<Rightarrow> bool" where
  "cookie_left e di \<longleftrightarrow> (\<exists>r \<in> set (fe_draws e). usable_cookie (dirents di) r)"

lemma put_same:
  assumes "sys_inv lower cl s" "sys_inodes s d = Some dir" "i_dir dir = Some di"
  shows "put_inode d dir (s\<lparr>sys_cache := sys_cache s\<rparr>) = s" "dir_step lower cl d dir s di dir s" "backing (sys_cache s) \<noteq> None"
  using assms sys_invD(2) [OF assms(1)] by (auto simp: put_inode_def fun_upd_idem dir_step_def same_others_def log_meta_def)

lemma insert_raw:
  assumes e: "fsenv_ok e" and inv: "sys_inv (fe_lower e) cl s" and g: "sys_inodes s d = Some dir" and dir: "i_type dir = BLUESKY_DIRECTORY" "i_dir dir = Some di"
    and fit: "dir_map di name = None \<Longrightarrow> name_fits di name \<and> cookie_left e di"
  obtains dir' fc draws' di' where
    "bluesky_directory_insert (fs_backend e) (fe_now e) (fe_search e) (fe_lower e) (fe_draws e) (dir, sys_cache s) name inum
       = Some ((dir', fc), dir_map di name = None, draws')"
    "backing fc \<noteq> None" "dir_step (fe_lower e) cl d dir s di' dir' (put_inode d dir' (s\<lparr>sys_cache := fc\<rparr>))"
    "dir_map di' = (if dir_map di name = None then (dir_map di)(name \<mapsto> inum) else dir_map di)" "dir_bytes di' \<le> dir_bytes di + length name + 13"
proof (cases "dir_map di name = None")
  case False
  then have "bluesky_directory_insert (fs_backend e) (fe_now e) (fe_search e) (fe_lower e) (fe_draws e) (dir, sys_cache s) name inum
      = Some ((dir, sys_cache s), False, fe_draws e)" using dir by (auto simp: bluesky_directory_insert_def dir_map_def)
  then show thesis using put_same [OF inv g dir(2)] False by (intro that [of dir "sys_cache s" "fe_draws e" di]) auto
next
  case True
  obtain di0 where w: "i_dir dir = Some di0" "dir_wf (fe_lower e) di0" "\<forall>x \<in> set (dirents di0). 0 \<notin> set (d_name x)"
    by (rule dir_of [OF inv g dir(1)])
  then have wf: "dir_wf (fe_lower e) di" "\<forall>x \<in> set (dirents di). 0 \<notin> set (d_name x)" using dir(2) by simp_all
  have srch: "gsequence (fe_search e)" and left: "\<exists>r \<in> set (fe_draws e). usable_cookie (dirents di) r" and fit': "name_fits di name"
    using e fit [OF True] by (auto simp: fsenv_ok_def cookie_left_def)
  obtain di' draws' where i: "bluesky_directory_insert (fs_backend e) (fe_now e) (fe_search e) (fe_lower e) (fe_draws e) (dir, sys_cache s) name inum
      = Some (bluesky_inode_update_ctime (fs_backend e) (fe_now e) True (dir\<lparr>i_dir := Some di'\<rparr>, sys_cache s), True, draws')"
    "dir_wf (fe_lower e) di'" "dir_map di' = (dir_map di)(name \<mapsto> inum)" "dir_bytes di' = dir_bytes di + length name + 13"
    "\<forall>x \<in> set (dirents di'). x \<in> set (dirents di) \<or> d_name x = name"
    by (rule insert_shape [OF srch dir wf(1) True left])
  obtain dir' fc where u: "bluesky_inode_update_ctime (fs_backend e) (fe_now e) True (dir\<lparr>i_dir := Some di'\<rparr>, sys_cache s) = (dir', fc)" by fastforce
  have "dir_bytes di' < 2 ^ 31" "\<forall>x \<in> set (dirents di'). 0 \<notin> set (d_name x)" using i(4,5) fit' wf(2) by (auto simp: name_fits_def)
  note st = dir_update_ok [OF inv g dir(1) i(2) this u]
  have "dir_step (fe_lower e) cl d dir s di' dir' (put_inode d dir' (s\<lparr>sys_cache := fc\<rparr>))"
    using st by (simp add: dir_step_def put_inode_def) (simp add: update_ctime_fields_def)
  with i st(5) True show thesis unfolding u by (intro that [of dir' fc draws' di']) simp_all
qed

lemma remove_raw:
  assumes e: "fsenv_ok e" and inv: "sys_inv (fe_lower e) cl s" and g: "sys_inodes s d = Some dir" and dir: "i_type dir = BLUESKY_DIRECTORY" "i_dir dir = Some di"
  obtains dir' fc di' where
    "bluesky_directory_remove (fs_backend e) (fe_now e) (fe_search e) (dir, sys_cache s) name = Some ((dir', fc), dir_map di name \<noteq> None)"
    "backing fc \<noteq> None" "dir_step (fe_lower e) cl d dir s di' dir' (put_inode d dir' (s\<lparr>sys_cache := fc\<rparr>))"
    "dir_map di' = (dir_map di)(name := None)" "dir_bytes di' \<le> dir_bytes di" "set (dirents di') \<subseteq> set (dirents di)"
proof (cases "dir_map di name = None")
  case True
  then have "bluesky_directory_remove (fs_backend e) (fe_now e) (fe_search e) (dir, sys_cache s) name = Some ((dir, sys_cache s), False)"
    using dir by (auto simp: bluesky_directory_remove_def dir_map_def)
  then show thesis using put_same [OF inv g dir(2)] True by (intro that [of dir "sys_cache s" di]) (simp_all add: fun_upd_idem)
next
  case False
  obtain di0 where w: "i_dir dir = Some di0" "dir_wf (fe_lower e) di0" "dir_bytes di0 < 2 ^ 31" "\<forall>x \<in> set (dirents di0). 0 \<notin> set (d_name x)"
    by (rule dir_of [OF inv g dir(1)])
  then have wf: "dir_wf (fe_lower e) di" "dir_bytes di < 2 ^ 31" "\<forall>x \<in> set (dirents di). 0 \<notin> set (d_name x)" using dir(2) by simp_all
  have srch: "gsequence (fe_search e)" using e by (simp add: fsenv_ok_def)
  obtain di' where i: "bluesky_directory_remove (fs_backend e) (fe_now e) (fe_search e) (dir, sys_cache s) name
      = Some (bluesky_inode_update_ctime (fs_backend e) (fe_now e) True (dir\<lparr>i_dir := Some di'\<rparr>, sys_cache s), True)"
    "dir_wf (fe_lower e) di'" "dir_map di' = (dir_map di)(name := None)" "dir_bytes di' \<le> dir_bytes di" "set (dirents di') \<subseteq> set (dirents di)"
    by (rule remove_shape [OF srch dir wf(1) False])
  obtain dir' fc where u: "bluesky_inode_update_ctime (fs_backend e) (fe_now e) True (dir\<lparr>i_dir := Some di'\<rparr>, sys_cache s) = (dir', fc)" by fastforce
  have "dir_bytes di' < 2 ^ 31" "\<forall>x \<in> set (dirents di'). 0 \<notin> set (d_name x)" using i(4,5) wf(2,3) by auto
  note st = dir_update_ok [OF inv g dir(1) i(2) this u]
  have "dir_step (fe_lower e) cl d dir s di' dir' (put_inode d dir' (s\<lparr>sys_cache := fc\<rparr>))"
    using st by (simp add: dir_step_def put_inode_def) (simp add: update_ctime_fields_def)
  with i st(5) False show thesis unfolding u by (intro that [of dir' fc di']) simp_all
qed


text \<open>The same for an inode in the table; one that is not a directory stays as it is.\<close>

lemma insert_name_ok:
  assumes e: "fsenv_ok e" and inv: "sys_inv (fe_lower e) cl s" and g: "sys_inodes s d = Some dir" and dir: "i_type dir = BLUESKY_DIRECTORY" "i_dir dir = Some di"
    and fit: "dir_map di name = None \<Longrightarrow> name_fits di name \<and> cookie_left e di"
  obtains s' di' dir' where "insert_name e d name inum s = Some (dir_map di name = None, s')" "dir_step (fe_lower e) cl d dir s di' dir' s'"
    "dir_map di' = (if dir_map di name = None then (dir_map di)(name \<mapsto> inum) else dir_map di)"
proof -
  obtain dir' fc draws' di' where i: "bluesky_directory_insert (fs_backend e) (fe_now e) (fe_search e) (fe_lower e) (fe_draws e) (dir, sys_cache s) name inum
       = Some ((dir', fc), dir_map di name = None, draws')"
    "backing fc \<noteq> None" "dir_step (fe_lower e) cl d dir s di' dir' (put_inode d dir' (s\<lparr>sys_cache := fc\<rparr>))"
    "dir_map di' = (if dir_map di name = None then (dir_map di)(name \<mapsto> inum) else dir_map di)"
    by (rule insert_raw [OF e inv g dir fit])
  show thesis by (rule that [OF _ i(3,4)]) (use g i(1,2) in \<open>simp add: insert_name_def\<close>)
qed

lemma remove_name_ok:
  assumes e: "fsenv_ok e" and inv: "sys_inv (fe_lower e) cl s" and g: "sys_inodes s d = Some dir"
  obtains s' ok dir' where "remove_name e d name s = Some (ok, s')" "sys_inv (fe_lower e) cl s'" "same_others {d} s s'" "next_of s' = next_of s"
    "sys_inodes s' d = Some dir'" "same_dir dir dir'"
proof (cases "i_type dir = BLUESKY_DIRECTORY")
  case True
  obtain di where di: "i_dir dir = Some di" by (rule dir_of [OF inv g True])
  obtain dir' fc di' where i: "bluesky_directory_remove (fs_backend e) (fe_now e) (fe_search e) (dir, sys_cache s) name = Some ((dir', fc), dir_map di name \<noteq> None)"
    "backing fc \<noteq> None" "dir_step (fe_lower e) cl d dir s di' dir' (put_inode d dir' (s\<lparr>sys_cache := fc\<rparr>))"
    by (rule remove_raw [OF e inv g True di])
  show thesis by (rule that [OF _ dir_stepD(1-5) [OF i(3)]]) (use g i(1,2) in \<open>simp add: remove_name_def\<close>)
next
  case False
  have "put_inode d dir (s\<lparr>sys_cache := sys_cache s\<rparr>) = s" using g by (simp add: put_inode_def fun_upd_idem)
  moreover have "backing (sys_cache s) \<noteq> None" using sys_invD(2) [OF inv] by (auto simp: log_meta_def)
  ultimately have "remove_name e d name s = Some (False, s)" using g False by (simp add: remove_name_def bluesky_directory_remove_def)
  then show thesis using inv g by (intro that [of False s dir]) (simp_all add: same_others_def)
qed

text \<open>The inodes of two directories by address, put back into the table.\<close>

definition both_put :: "u64 \<Rightarrow> u64 \<Rightarrow> fsys \<Rightarrow> (ref \<Rightarrow> inode) \<Rightarrow> log_store option fscache \<Rightarrow> fsys" where
  "both_put d1 d2 s dirs fc = put_inode d2 (dirs (unat d2)) (put_inode d1 (dirs (unat d1)) (s\<lparr>sys_cache := fc\<rparr>))"

lemma both_put_step:
  assumes "d = d1 \<or> d = d2"
  shows "put_inode d x ((both_put d1 d2 s dirs fc)\<lparr>sys_cache := fc'\<rparr>) = both_put d1 d2 s (dirs(unat d := x)) fc'"
  using assms unfolding both_put_def put_inode_def
  by (cases "d1 = d2") (auto simp: fun_upd_twist word_unat_eq_iff [symmetric])

lemma both_put_simps:
  "sys_cache (both_put d1 d2 s dirs fc) = fc" "sys_inodes (both_put d1 d2 s dirs fc) d1 = Some (dirs (unat d1))"
  "sys_inodes (both_put d1 d2 s dirs fc) d2 = Some (dirs (unat d2))"
  by (auto simp: both_put_def put_inode_def)

lemma rename_removes:
  assumes e: "fsenv_ok e" and d: "d = d1 \<or> d = d2" and inv: "sys_inv (fe_lower e) cl (both_put d1 d2 s dirs fc)"
    and dir: "i_type (dirs (unat d)) = BLUESKY_DIRECTORY"
  obtains dirs' fc' where "rename_remove (fs_backend e) (fe_now e) (fe_search e) (unat d) name (dirs, fc) = Some (dirs', fc')"
    "backing fc' \<noteq> None" "sys_inv (fe_lower e) cl (both_put d1 d2 s dirs' fc')" "same_others {d} (both_put d1 d2 s dirs fc) (both_put d1 d2 s dirs' fc')"
    "next_of (both_put d1 d2 s dirs' fc') = next_of (both_put d1 d2 s dirs fc)" "\<forall>a. i_type (dirs' a) = i_type (dirs a)"
    "\<forall>a di. i_dir (dirs a) = Some di \<longrightarrow> (\<exists>di'. i_dir (dirs' a) = Some di' \<and> dir_map di' = (if a = unat d then (dir_map di)(name := None) else dir_map di) \<and>
        dir_bytes di' \<le> dir_bytes di \<and> set (dirents di') \<subseteq> set (dirents di))"
proof -
  let ?v = "both_put d1 d2 s dirs fc"
  have g: "sys_inodes ?v d = Some (dirs (unat d))" using d by (auto simp: both_put_simps)
  obtain di where di: "i_dir (dirs (unat d)) = Some di" by (rule dir_of [OF inv g dir])
  obtain x fc' di' where r: "bluesky_directory_remove (fs_backend e) (fe_now e) (fe_search e) (dirs (unat d), sys_cache ?v) name
      = Some ((x, fc'), dir_map di name \<noteq> None)"
    "backing fc' \<noteq> None" "dir_step (fe_lower e) cl d (dirs (unat d)) ?v di' x (put_inode d x (?v\<lparr>sys_cache := fc'\<rparr>))"
    "dir_map di' = (dir_map di)(name := None)" "dir_bytes di' \<le> dir_bytes di" "set (dirents di') \<subseteq> set (dirents di)"
    by (rule remove_raw [OF e inv g dir di])
  note st = dir_stepD [OF r(3) [unfolded both_put_step [OF d]]]
  show thesis
  proof (rule that [OF _ r(2) st(1,2,3)])
    show "rename_remove (fs_backend e) (fe_now e) (fe_search e) (unat d) name (dirs, fc) = Some (dirs(unat d := x), fc')"
      using r(1) by (simp add: rename_remove_def both_put_simps)
    show "\<forall>a. i_type ((dirs(unat d := x)) a) = i_type (dirs a)" using same_dirD(1) [OF st(5)] by simp
  qed (use di st(6) r(4-6) in auto)
qed


lemma rename_inserts:
  assumes e: "fsenv_ok e" and d: "d = d1 \<or> d = d2" and inv: "sys_inv (fe_lower e) cl (both_put d1 d2 s dirs fc)"
    and dir: "i_type (dirs (unat d)) = BLUESKY_DIRECTORY" "i_dir (dirs (unat d)) = Some di" and fit: "name_fits di name" "cookie_left e di"
  obtains dirs' fc' draws' where
    "rename_insert (fs_backend e) (fe_now e) (fe_search e) (fe_lower e) (fe_draws e) (unat d) name inum (dirs, fc) = Some ((dirs', fc'), draws')"
    "backing fc' \<noteq> None" "sys_inv (fe_lower e) cl (both_put d1 d2 s dirs' fc')" "same_others {d} (both_put d1 d2 s dirs fc) (both_put d1 d2 s dirs' fc')"
    "next_of (both_put d1 d2 s dirs' fc') = next_of (both_put d1 d2 s dirs fc)"
proof -
  let ?v = "both_put d1 d2 s dirs fc"
  have g: "sys_inodes ?v d = Some (dirs (unat d))" using d by (auto simp: both_put_simps)
  obtain x fc' draws' di' where r: "bluesky_directory_insert (fs_backend e) (fe_now e) (fe_search e) (fe_lower e) (fe_draws e)
      (dirs (unat d), sys_cache ?v) name inum = Some ((x, fc'), dir_map di name = None, draws')"
    "backing fc' \<noteq> None" "dir_step (fe_lower e) cl d (dirs (unat d)) ?v di' x (put_inode d x (?v\<lparr>sys_cache := fc'\<rparr>))"
    by (rule insert_raw [OF e inv g dir]) (use fit in simp_all)
  note st = dir_stepD [OF r(3) [unfolded both_put_step [OF d]]]
  have "rename_insert (fs_backend e) (fe_now e) (fe_search e) (fe_lower e) (fe_draws e) (unat d) name inum (dirs, fc)
      = Some ((dirs(unat d := x), fc'), draws')" using r(1) by (simp add: rename_insert_def both_put_simps)
  then show thesis by (rule that [OF _ r(2) st(1,2,3)])
qed

lemma both_put_same:
  assumes "sys_inodes s d1 = Some dir1" "sys_inodes s d2 = Some dir2"
  shows "both_put d1 d2 s (\<lambda>a. if a = unat d1 then dir1 else dir2) (sys_cache s) = s"
  using assms by (cases "d1 = d2") (auto simp: both_put_def put_inode_def fun_upd_idem fun_upd_twist word_unat_eq_iff [symmetric])

lemma rename_clear_ok:
  assumes e: "fsenv_ok e" and inv: "sys_inv (fe_lower e) cl (both_put d1 d2 s ds fc)"
    and dir: "i_type (ds (unat d2)) = BLUESKY_DIRECTORY" "i_dir (ds (unat d2)) = Some di"
  obtains ds1 fc1 di1 where
    "(if dirhash di name \<noteq> None then rename_remove (fs_backend e) (fe_now e) (fe_search e) (unat d2) name (ds, fc) else Some (ds, fc)) = Some (ds1, fc1)"
    "sys_inv (fe_lower e) cl (both_put d1 d2 s ds1 fc1)" "same_others {d2} (both_put d1 d2 s ds fc) (both_put d1 d2 s ds1 fc1)"
    "next_of (both_put d1 d2 s ds1 fc1) = next_of (both_put d1 d2 s ds fc)"
    "\<forall>a. i_type (ds1 a) = i_type (ds a)" "i_dir (ds1 (unat d2)) = Some di1" "dir_bytes di1 \<le> dir_bytes di" "set (dirents di1) \<subseteq> set (dirents di)"
proof (cases "dirhash di name = None")
  case True
  then show thesis using inv dir by (intro that [of ds fc di]) (simp_all add: same_others_def)
next
  case False
  obtain ds1 fc1 where r: "rename_remove (fs_backend e) (fe_now e) (fe_search e) (unat d2) name (ds, fc) = Some (ds1, fc1)"
    "sys_inv (fe_lower e) cl (both_put d1 d2 s ds1 fc1)" "same_others {d2} (both_put d1 d2 s ds fc) (both_put d1 d2 s ds1 fc1)"
    "next_of (both_put d1 d2 s ds1 fc1) = next_of (both_put d1 d2 s ds fc)" "\<forall>a. i_type (ds1 a) = i_type (ds a)"
    "\<forall>a di. i_dir (ds a) = Some di \<longrightarrow> (\<exists>di'. i_dir (ds1 a) = Some di' \<and> dir_map di' = (if a = unat d2 then (dir_map di)(name := None) else dir_map di) \<and>
       dir_bytes di' \<le> dir_bytes di \<and> set (dirents di') \<subseteq> set (dirents di))"
    by (rule rename_removes [OF e _ inv dir(1), of name]) auto
  from r(6) dir(2) obtain di1 where "i_dir (ds1 (unat d2)) = Some di1" "dir_bytes di1 \<le> dir_bytes di" "set (dirents di1) \<subseteq> set (dirents di)" by blast
  then show thesis using r(1-5) False by (intro that [of ds1 fc1 di1]) simp_all
qed

lemma rename_found_ok:
  assumes e: "fsenv_ok e" and inv: "sys_inv (fe_lower e) cl (both_put d1 d2 s ds fc)"
    and dir1: "i_type (ds (unat d1)) = BLUESKY_DIRECTORY" "i_dir (ds (unat d1)) = Some di1" "dirhash di1 name1 = Some x"
    and dir2: "i_type (ds (unat d2)) = BLUESKY_DIRECTORY" "i_dir (ds (unat d2)) = Some di2" and fit: "name_fits di2 name2" "cookie_left e di2"
  obtains ds' fc' draws' where "bluesky_rename (fs_backend e) (fe_now e) (fe_search e) (fe_lower e) (fe_draws e) (ds, fc) (unat d1) name1 (unat d2) name2 True True
      = Some ((ds', fc'), True, draws')"
    "backing fc' \<noteq> None" "sys_inv (fe_lower e) cl (both_put d1 d2 s ds' fc')" "same_others {d1, d2} (both_put d1 d2 s ds fc) (both_put d1 d2 s ds' fc')"
    "next_of (both_put d1 d2 s ds' fc') = next_of (both_put d1 d2 s ds fc)"
proof -
  obtain ds1 fc1 di' where s1:
    "(if dirhash di2 name2 \<noteq> None then rename_remove (fs_backend e) (fe_now e) (fe_search e) (unat d2) name2 (ds, fc) else Some (ds, fc)) = Some (ds1, fc1)"
    "sys_inv (fe_lower e) cl (both_put d1 d2 s ds1 fc1)" "same_others {d2} (both_put d1 d2 s ds fc) (both_put d1 d2 s ds1 fc1)"
    "next_of (both_put d1 d2 s ds1 fc1) = next_of (both_put d1 d2 s ds fc)"
    "\<forall>a. i_type (ds1 a) = i_type (ds a)" "i_dir (ds1 (unat d2)) = Some di'" "dir_bytes di' \<le> dir_bytes di2" "set (dirents di') \<subseteq> set (dirents di2)"
    by (rule rename_clear_ok [OF e inv dir2, of name2])
  have ty1: "i_type (ds1 (unat d1)) = BLUESKY_DIRECTORY" using s1(5) dir1(1) by simp
  obtain ds2 fc2 where s2: "rename_remove (fs_backend e) (fe_now e) (fe_search e) (unat d1) name1 (ds1, fc1) = Some (ds2, fc2)"
    "sys_inv (fe_lower e) cl (both_put d1 d2 s ds2 fc2)" "same_others {d1} (both_put d1 d2 s ds1 fc1) (both_put d1 d2 s ds2 fc2)"
    "next_of (both_put d1 d2 s ds2 fc2) = next_of (both_put d1 d2 s ds1 fc1)" "\<forall>a. i_type (ds2 a) = i_type (ds1 a)"
    "\<forall>a di. i_dir (ds1 a) = Some di \<longrightarrow> (\<exists>di'. i_dir (ds2 a) = Some di' \<and> dir_map di' = (if a = unat d1 then (dir_map di)(name1 := None) else dir_map di) \<and>
       dir_bytes di' \<le> dir_bytes di \<and> set (dirents di') \<subseteq> set (dirents di))"
    by (rule rename_removes [OF e _ s1(2) ty1, of name1]) auto
  from s2(6) s1(6) obtain di'' where di: "i_dir (ds2 (unat d2)) = Some di''" "dir_bytes di'' \<le> dir_bytes di'" "set (dirents di'') \<subseteq> set (dirents di')" by blast
  have fit': "name_fits di'' name2" "cookie_left e di''"
    using fit s1(7,8) di(2,3) by (auto simp: name_fits_def cookie_left_def usable_cookie_def)
  have ty2: "i_type (ds2 (unat d2)) = BLUESKY_DIRECTORY" using s2(5) s1(5) dir2(1) by simp
  obtain ds3 fc3 draws' where s3:
    "rename_insert (fs_backend e) (fe_now e) (fe_search e) (fe_lower e) (fe_draws e) (unat d2) name2 (d_inum x) (ds2, fc2) = Some ((ds3, fc3), draws')"
    "backing fc3 \<noteq> None" "sys_inv (fe_lower e) cl (both_put d1 d2 s ds3 fc3)" "same_others {d2} (both_put d1 d2 s ds2 fc2) (both_put d1 d2 s ds3 fc3)"
    "next_of (both_put d1 d2 s ds3 fc3) = next_of (both_put d1 d2 s ds2 fc2)"
    by (rule rename_inserts [OF e _ s2(2) ty2 di(1) fit', of "d_inum x"]) auto
  have "bluesky_rename (fs_backend e) (fe_now e) (fe_search e) (fe_lower e) (fe_draws e) (ds, fc) (unat d1) name1 (unat d2) name2 True True
      = Some ((ds3, fc3), True, draws')"
    using dir1 dir2 s1(1) s2(1) s3(1) by (simp add: bluesky_rename_def split: if_split_asm)
  then show thesis using s1(3,4) s2(3,4) s3(2-5) by (intro that [of ds3 fc3 draws']) (auto simp: same_others_def)
qed

lemma rename_names_ok:
  assumes e: "fsenv_ok e" and inv: "sys_inv (fe_lower e) cl s" and g: "sys_inodes s d1 = Some dir1" "sys_inodes s d2 = Some dir2"
    and fit: "\<And>di. i_dir dir2 = Some di \<Longrightarrow> i_type dir2 = BLUESKY_DIRECTORY \<Longrightarrow> name_fits di name2 \<and> cookie_left e di"
  obtains s' ok where "rename_names e d1 name1 d2 name2 s = Some (ok, s')" "sys_inv (fe_lower e) cl s'" "same_others {d1, d2} s s'"
    "next_of s' = next_of s" "sys_inodes s' d1 \<noteq> None" "sys_inodes s' d2 \<noteq> None"
proof -
  let ?ds = "\<lambda>a. if a = unat d1 then dir1 else dir2" and ?rename = "bluesky_rename (fs_backend e) (fe_now e) (fe_search e) (fe_lower e) (fe_draws e)"
  note same = both_put_same [OF g]
  have at: "?ds (unat d1) = dir1" "?ds (unat d2) = dir2" using g by (auto simp: word_unat_eq_iff [symmetric])
  have run: "rename_names e d1 name1 d2 name2 s = Some (ok, both_put d1 d2 s dirs fc)"
    if "?rename (?ds, sys_cache s) (unat d1) name1 (unat d2) name2 True True = Some ((dirs, fc), ok, draws)" "backing fc \<noteq> None" for dirs fc ok draws
    using that g by (simp add: rename_names_def both_put_def)
  have bk: "backing (sys_cache s) \<noteq> None" using sys_invD(2) [OF inv] by (auto simp: log_meta_def)
  show thesis
  proof (cases "i_type dir1 = BLUESKY_DIRECTORY \<and> i_type dir2 = BLUESKY_DIRECTORY \<and> (\<exists>di x. i_dir dir1 = Some di \<and> dirhash di name1 = Some x)")
    case False
    have "?rename (?ds, sys_cache s) (unat d1) name1 (unat d2) name2 True True = Some ((?ds, sys_cache s), False, fe_draws e)"
    proof (cases "i_type dir1 = BLUESKY_DIRECTORY \<and> i_type dir2 = BLUESKY_DIRECTORY")
      case True
      obtain di1 where "i_dir dir1 = Some di1" by (rule dir_of [OF inv g(1) True [THEN conjunct1]])
      moreover obtain di2 where "i_dir dir2 = Some di2" by (rule dir_of [OF inv g(2) True [THEN conjunct2]])
      ultimately show ?thesis using True False at unfolding bluesky_rename_def Let_def fst_conv at by auto
    qed (auto simp: bluesky_rename_def Let_def at simp del: split_paired_Ex)
    from run [OF this bk] show thesis using inv g unfolding same by (intro that [of False s]) (simp_all add: same_others_def)
  next
    case True
    then obtain di1 x where d1: "i_type dir1 = BLUESKY_DIRECTORY" "i_dir dir1 = Some di1" "dirhash di1 name1 = Some x" and t2: "i_type dir2 = BLUESKY_DIRECTORY" by blast
    obtain di2 where d2: "i_dir dir2 = Some di2" by (rule dir_of [OF inv g(2) t2])
    obtain ds' fc' draws' where r: "?rename (?ds, sys_cache s) (unat d1) name1 (unat d2) name2 True True = Some ((ds', fc'), True, draws')"
      "backing fc' \<noteq> None" "sys_inv (fe_lower e) cl (both_put d1 d2 s ds' fc')" "same_others {d1, d2} (both_put d1 d2 s ?ds (sys_cache s)) (both_put d1 d2 s ds' fc')"
      "next_of (both_put d1 d2 s ds' fc') = next_of (both_put d1 d2 s ?ds (sys_cache s))"
      by (rule rename_found_ok [of e cl d1 d2 s ?ds "sys_cache s", unfolded same at, OF e inv d1 t2 d2])
        (use fit [OF d2 t2] same in auto)
    from run [OF r(1,2)] show thesis using r(3-5) unfolding same by (intro that [of True "both_put d1 d2 s ds' fc'"]) (auto simp: both_put_simps)
  qed
qed



section \<open>New inodes\<close>

lemma next_inum_store:
  assumes "store_inv own b" "b' = b\<lparr>ls_log := (ls_log b)\<lparr>next_inum := n\<rparr>\<rparr>"
  shows "store_inv own b'" "store_data b' = store_data b"
proof -
  let ?l = "(ls_log b)\<lparr>next_inum := n\<rparr>"
  have l: "?l = (ls_log b)\<lparr>next_inum := n, latest_cleaner_seq_seen := latest_cleaner_seq_seen (ls_log b)\<rparr>" by simp
  have "log_inv {} (\<lambda>r. own r + count_list (fetch_pool b) r) ?l" by (rule log_inv_next [OF _ l]) (use assms(1) in \<open>simp add: store_inv_def\<close>)
  then show "store_inv own b'" using assms by (simp add: store_inv_def journal_only_def settled_def all_submitted_def waiting_def)
  have "item_bytes ?l = item_bytes (ls_log b)" by (simp add: fun_eq_iff item_bytes_def journal_data_def journal_file_def split: option.split)
  then show "store_data b' = store_data b" by (simp add: assms(2) store_data_def fun_eq_iff split: option.split)
qed

lemma less_succ:
  assumes "n + 1 \<noteq> (0 :: u64)"
  shows "n < n + 1"
proof -
  have "unat (n + 1) = (unat n + 1) mod 2 ^ 64" by (simp add: unat_word_ariths)
  moreover have "unat (n + 1) \<noteq> 0" using assms by (simp add: unat_eq_0)
  moreover have "unat n < 2 ^ 64" using unsigned_less [of n] by simp
  ultimately have "unat (n + 1) = unat n + 1" by (cases "unat n + 1 = 2 ^ 64") (simp_all add: mod_less)
  then show ?thesis by (simp add: word_less_nat_alt)
qed

definition fresh_inode :: "(bytes \<Rightarrow> bytes) \<Rightarrow> u64 \<Rightarrow> inode \<Rightarrow> bool" where
  "fresh_inode lower i x \<longleftrightarrow> i_inum x = i \<and> i_blocks x = [] \<and> i_size x = 0 \<and> committed_item x = None \<and> i_refcount x = 1 \<and> inode_typed lower x"

lemma insert_fresh_ok:
  assumes inv: "sys_inv lower cl s" and room: "next_of s + 1 \<noteq> 0" and x: "fresh_inode lower (next_of s) x"
  obtains s1 where "bluesky_fs_alloc_inode s = Some (next_of s, s1)" "sys_inv lower cl (bluesky_insert_inode x s1)"
    "next_of (bluesky_insert_inode x s1) = next_of s + 1" "sys_inodes (bluesky_insert_inode x s1) = (sys_inodes s)(next_of s \<mapsto> x)"
    "sys_inodes s (next_of s) = None" "\<forall>j. sys_content (bluesky_insert_inode x s1) j = sys_content s j"
proof -
  note d = sys_invD [OF inv]
  obtain b where b: "backing (sys_cache s) = Some b" "store_inv (log_held (Some b)) b" by (rule log_okE [OF d(1)]) auto
  let ?n = "next_of s"
  let ?b = "b\<lparr>ls_log := (ls_log b)\<lparr>next_inum := ?n + 1\<rparr>\<rparr>"
  let ?s1 = "s\<lparr>sys_cache := (sys_cache s)\<lparr>backing := Some ?b\<rparr>\<rparr>"
  let ?s = "bluesky_insert_inode x ?s1"
  have n: "next_inum (ls_log b) = ?n" using b(1) by (simp add: next_of_def)
  then have run: "bluesky_fs_alloc_inode s = Some (?n, ?s1)" using b(1) by (simp add: bluesky_fs_alloc_inode_def Let_def)
  note st = next_inum_store [OF b(2) refl, of "?n + 1"]
  have fresh: "sys_inodes s ?n = None" using d(5) [of ?n] by (cases "sys_inodes s ?n") auto
  have ins: "sys_inodes ?s = (sys_inodes s)(?n \<mapsto> x)" using x by (simp add: bluesky_insert_inode_def put_inode_def fresh_inode_def)
  have cache: "sys_cache ?s = (sys_cache s)\<lparr>backing := Some ?b\<rparr>" "sys_fetching ?s = sys_fetching s" by (simp_all add: bluesky_insert_inode_def put_inode_def)
  have nx: "next_of ?s = ?n + 1" by (subst next_of_def) (simp add: cache)
  have dat: "log_data (Some ?b) = sys_data s" using st(2) b(1) by (simp add: log_data_def)
  have zero: "refs_of (Some x) r = 0" "dirty_of (Some x) = 0" for r using x by (simp_all add: fresh_inode_def refs_of_def dirty_of_def dirty_count_def committed_refs_def)
  have sums: "refs_of (sys_inodes ?s j) r = refs_of (sys_inodes s j) r" "dirty_of (sys_inodes ?s j) = dirty_of (sys_inodes s j)" for j r
    using zero fresh ins by (auto simp: refs_of_def dirty_of_def)
  have meta: "log_meta (?n + 1) (Some ?b)" using d(2) b(1) by (simp add: log_meta_def meta_def)
  have less: "?n < ?n + 1" by (rule less_succ [OF room])
  then have less': "j < ?n + 1" if "j < ?n" for j using that by (rule less_trans [rotated])
  have wx: "inode_wf lower dat0 ?n x" for dat0
    using x by (simp add: fresh_inode_def inode_wf_def blocks_ok_def block_count_def BLUESKY_BLOCK_SIZE_def)
  have "?n \<notin> set cl" using d(8) [of ?n] fresh by auto
  then have cnt: "count_list cl ?n = 0" by (simp add: count_list_0_iff)
  have pos: "0 < ?n" using d(5) [of 1] d(9) by (auto simp: word_less_nat_alt)
  have each: "0 < j \<and> j < ?n + 1 \<and> inode_wf lower (sys_data s) j y \<and> i_refcount y = 1 + int (count_list cl j)" if "sys_inodes ?s j = Some y" for j y
    using that d(5,6,7) [of j y] wx cnt pos less less' x ins by (auto simp: fresh_inode_def split: if_split_asm)
  have "sys_inv lower cl ?s"
    unfolding sys_inv_def nx sums cache
    by (intro conjI allI impI) (use log_okI [OF st(1)] meta d(3,4,8,9,10) b(1) each dat ins in auto)
  moreover have "sys_content ?s j = sys_content s j" for j
    using ins fresh x dat by (auto simp: sys_content_def cache fresh_inode_def content_def split: option.split)
  ultimately show thesis using run nx ins fresh by (intro that [of ?s1]) simp_all
qed


text \<open>A new inode as \<open>make_inode\<close> fills it in.\<close>

definition made_inode :: "fsenv \<Rightarrow> int \<Rightarrow> (inode \<Rightarrow> inode) \<Rightarrow> u64 \<Rightarrow> inode" where
  "made_inode e type f inum = f ((bluesky_new_inode inum type)\<lparr>i_nlink := 1, i_mode := 493, i_mtime := fe_now e,
     i_ctime := fe_now e, i_atime := fe_now e, i_ntime := fe_now e\<rparr>)"

lemma make_inode_ok:
  assumes inv: "sys_inv lower cl s" and room: "next_of s + 1 \<noteq> 0" and x: "fresh_inode lower (next_of s) (made_inode e type f (next_of s))"
  obtains s' where "make_inode e type f s = Some (next_of s, s')" "sys_inv lower cl s'" "next_of s' = next_of s + 1" "sys_inodes s (next_of s) = None"
    "sys_inodes s' = (sys_inodes s)(next_of s \<mapsto> made_inode e type f (next_of s))" "\<forall>j. sys_content s' j = sys_content s j"
proof -
  obtain s1 where "bluesky_fs_alloc_inode s = Some (next_of s, s1)" "sys_inv lower cl (bluesky_insert_inode (made_inode e type f (next_of s)) s1)"
    "next_of (bluesky_insert_inode (made_inode e type f (next_of s)) s1) = next_of s + 1"
    "sys_inodes (bluesky_insert_inode (made_inode e type f (next_of s)) s1) = (sys_inodes s)(next_of s \<mapsto> made_inode e type f (next_of s))"
    "sys_inodes s (next_of s) = None" "\<forall>j. sys_content (bluesky_insert_inode (made_inode e type f (next_of s)) s1) j = sys_content s j"
    by (rule insert_fresh_ok [OF inv room x])
  then show thesis by (intro that [of "bluesky_insert_inode (made_inode e type f (next_of s)) s1"]) (simp_all add: make_inode_def made_inode_def)
qed

lemma made_inode_fresh:
  "fresh_inode lower i (made_inode e BLUESKY_REGULAR id i)" "fresh_inode lower i (made_inode e BLUESKY_DIRECTORY id i)"
  "0 \<notin> set c \<Longrightarrow> length c < 2 ^ 31 \<Longrightarrow> fresh_inode lower i (made_inode e BLUESKY_SYMLINK (\<lambda>x. x\<lparr>symlink_contents := Some c\<rparr>) i)"
  by (simp_all add: fresh_inode_def made_inode_def bluesky_new_inode_def bluesky_init_inode_def zeroed_inode_def inode_typed_def file_type_defs
      empty_dirindex_def dir_bytes_def dir_wf_def)


section \<open>Attributes\<close>

text \<open>An inode keeps its type, entries and link target when its attributes or contents change.\<close>

definition same_object :: "inode \<Rightarrow> inode \<Rightarrow> bool" where
  "same_object i j \<longleftrightarrow> i_type j = i_type i \<and> i_inum j = i_inum i \<and> i_dir j = i_dir i \<and> symlink_contents j = symlink_contents i"

definition sized :: "inode \<Rightarrow> u64 option \<Rightarrow> bytes \<Rightarrow> bytes" where
  "sized inode sz c = (case sz of None \<Rightarrow> c | Some n \<Rightarrow> if i_type inode = BLUESKY_REGULAR then resized n c else c)"

lemma set_fields_ok:
  assumes inv: "sys_inv lower cl s" and g: "sys_inodes s i = Some inode" 
    and f: "i_blocks (f inode) = i_blocks inode" "i_size (f inode) = i_size inode" "i_inum (f inode) = i_inum inode" "i_refcount (f inode) = i_refcount inode"
      "committed_item (f inode) = committed_item inode" "i_type (f inode) = i_type inode" "i_dir (f inode) = i_dir inode" "symlink_contents (f inode) = symlink_contents inode"
  obtains s' where "set_inode i f s = Some s'" "sys_inv lower cl s'" "same_others {i} s s'" "next_of s' = next_of s" "sys_inodes s' i = Some (f inode)"
    "sys_content s' i = sys_content s i" "same_object inode (f inode)"
proof -
  have ty: "inode_typed lower (f inode)"
    by (rule typed_attrs [of _ inode]) (use sys_invD(6) [OF inv g] f in \<open>simp_all add: inode_wf_def\<close>)
  have so: "same_object inode (f inode)" by (simp add: f same_object_def)
  show thesis by (rule set_inode_ok [where f = f, OF inv g _ _ _ _ _ ty]) (use f that so in simp_all)
qed

lemma same_object_trans: "same_object a b \<Longrightarrow> same_object b c \<Longrightarrow> same_object a c"
  by (simp add: same_object_def)

lemma same_object_file: "same_file a b \<Longrightarrow> same_object a b"
  using same_fileD [of a b] by (simp add: same_object_def)

lemma same_object_touch: "same_object a (update_ctime_fields now upd a)"
  by (simp add: same_object_def update_ctime_fields_def)

lemma resize_step:
  assumes inv: "sys_inv lower cl s" and g: "sys_inodes s i = Some inode"
  obtains s' inode' where "(case (sz, sys_inodes s i) of
         (Some sz, Some inode) \<Rightarrow>
           if i_type inode = BLUESKY_REGULAR
           then Option.bind (on_inode i (\<lambda>x. bluesky_file_truncate (fs_backend e) (fe_now e) x sz) s)
                  (set_inode i (\<lambda>inode. inode\<lparr>i_mtime := fe_now e\<rparr>))
           else Some s
       | _ \<Rightarrow> Some s) = Some s'" "sys_inv lower cl s'" "same_others {i} s s'" "next_of s' = next_of s" "sys_inodes s' i = Some inode'"
    "same_object inode inode'" "sys_content s' i = sized inode sz (sys_content s i)"
proof (cases "sz \<noteq> None \<and> i_type inode = BLUESKY_REGULAR")
  case False
  then show thesis using inv g by (intro that [of s inode]) (auto simp: same_others_def same_object_def sized_def split: option.split)
next
  case True
  then obtain n where n: "sz = Some n" and reg: "i_type inode = BLUESKY_REGULAR" by auto
  obtain s1 x where s1: "on_inode i (\<lambda>x. bluesky_file_truncate (fs_backend e) (fe_now e) x n) s = Some s1" "sys_inv lower cl s1"
    "same_others {i} s s1" "next_of s1 = next_of s" "sys_inodes s1 i = Some x" "same_file inode x" "sys_content s1 i = resized n (sys_content s i)"
    by (rule truncate_sys [OF inv g reg, of e n])
  obtain s2 where s2: "set_inode i (\<lambda>inode. inode\<lparr>i_mtime := fe_now e\<rparr>) s1 = Some s2" "sys_inv lower cl s2" "same_others {i} s1 s2" "next_of s2 = next_of s1"
    "sys_inodes s2 i = Some (x\<lparr>i_mtime := fe_now e\<rparr>)" "sys_content s2 i = sys_content s1 i" "same_object x (x\<lparr>i_mtime := fe_now e\<rparr>)"
    by (rule set_fields_ok [OF s1(2,5), of "\<lambda>inode. inode\<lparr>i_mtime := fe_now e\<rparr>"]) simp_all
  show thesis
    by (rule that [OF _ s2(2) _ _ s2(5) same_object_trans [OF same_object_file [OF s1(6)] s2(7)]])
      (use s1 s2 g n reg same_others_trans [OF s1(3) s2(3)] in \<open>simp_all add: sized_def\<close>)
qed

lemma set_attributes_ok:
  assumes inv: "sys_inv lower cl s" and g: "sys_inodes s i = Some inode"
  obtains s' inode' where "set_attributes e i a s = Some s'" "sys_inv lower cl s'" "same_others {i} s s'" "next_of s' = next_of s"
    "sys_inodes s' i = Some inode'" "same_object inode inode'" "sys_content s' i = sized inode (sa_size a) (sys_content s i)"
proof -
  obtain s1 where s1: "set_inode i (set_owner a) s = Some s1" "sys_inv lower cl s1" "same_others {i} s s1" "next_of s1 = next_of s"
    "sys_inodes s1 i = Some (set_owner a inode)" "sys_content s1 i = sys_content s i" "same_object inode (set_owner a inode)"
    by (rule set_fields_ok [OF inv g, of "set_owner a"]) (simp_all add: set_owner_def)
  obtain s2 x where s2: "(case (sa_size a, sys_inodes s1 i) of
         (Some sz, Some inode) \<Rightarrow>
           if i_type inode = BLUESKY_REGULAR
           then Option.bind (on_inode i (\<lambda>x. bluesky_file_truncate (fs_backend e) (fe_now e) x sz) s1)
                  (set_inode i (\<lambda>inode. inode\<lparr>i_mtime := fe_now e\<rparr>))
           else Some s1
       | _ \<Rightarrow> Some s1) = Some s2" "sys_inv lower cl s2" "same_others {i} s1 s2" "next_of s2 = next_of s1" "sys_inodes s2 i = Some x"
    "same_object (set_owner a inode) x" "sys_content s2 i = sized (set_owner a inode) (sa_size a) (sys_content s1 i)"
    by (rule resize_step [OF s1(2,5)])
  let ?t = "\<lambda>inode. inode\<lparr>i_atime := set_times e (sa_atime a) (i_atime inode), i_mtime := set_times e (sa_mtime a) (i_mtime inode)\<rparr>"
  obtain s3 where s3: "set_inode i ?t s2 = Some s3" "sys_inv lower cl s3" "same_others {i} s2 s3" "next_of s3 = next_of s2"
    "sys_inodes s3 i = Some (?t x)" "sys_content s3 i = sys_content s2 i" "same_object x (?t x)"
    by (rule set_fields_ok [OF s2(2,5), of ?t]) simp_all
  obtain s4 where s4: "touch_inode_ctime e False i s3 = Some s4" "sys_inv lower cl s4" "same_others {i} s3 s4" "next_of s4 = next_of s3"
    "sys_inodes s4 i = Some (update_ctime_fields (fe_now e) False (?t x))" "sys_content s4 i = sys_content s3 i"
    by (rule touch_ok [OF s3(2,5), of e False])
  have "same_object inode (update_ctime_fields (fe_now e) False (?t x))"
    by (rule same_object_trans [OF s1(7) same_object_trans [OF s2(6) same_object_trans [OF s3(7) same_object_touch]]])
  moreover have "set_attributes e i a s = Some s4" using s1(1) s2(1) s3(1) s4(1) by (simp add: set_attributes_def)
  moreover have "same_others {i} s s4" using s1(3) s2(3) s3(3) s4(3) by (simp add: same_others_def)
  moreover have "sized (set_owner a inode) = sized inode" by (simp add: set_owner_def sized_def fun_eq_iff split: option.split)
  ultimately show thesis using s1(4,6) s2(4,7) s3(4,6) s4(2,4,5,6) by (intro that [of s4]) simp_all
qed


lemma attrs_some:
  assumes "sys_inv lower cl s" "sys_inodes s i = Some inode"
  shows "\<exists>a. encode_fattr3 inode = Some a" "\<exists>a. attrs i (c, s) = Some a"
  using sys_invD(6) [OF assms] assms(2) by (auto simp: encode_fattr3_def attrs_def inode_wf_def inode_typed_def file_type_defs)


section \<open>Steps of requests\<close>

text \<open>What \<open>write_file\<close> leaves in a file: grown to the last byte when that is behind the end, then overwritten.\<close>

definition written :: "write3args \<Rightarrow> bytes \<Rightarrow> bytes" where
  "written a c =
     (let lastbyte = wa3_offset a + ucast (wa3_count a); n = unat (wa3_count a);
          c = (if unat lastbyte > length c then resized lastbyte c else c)
      in if length (wa3_data a) < n \<or> n \<ge> 2 ^ 31 then c else overwritten (wa3_offset a) (take n (wa3_data a)) c)"

lemma write_file_ok:
  assumes inv: "sys_inv lower cl s" and g: "sys_inodes s i = Some inode" and reg: "i_type inode = BLUESKY_REGULAR"
  obtains s' inode' where "write_file e a i s = Some s'" "sys_inv lower cl s'" "same_others {i} s s'" "next_of s' = next_of s"
    "sys_inodes s' i = Some inode'" "same_file inode inode'" "sys_content s' i = written a (sys_content s i)"
proof -
  let ?last = "wa3_offset a + ucast (wa3_count a)" and ?n = "unat (wa3_count a)"
  note len = sys_content_length [OF g]
  obtain s1 x where s1: "(if ?last > i_size inode then on_inode i (\<lambda>x. bluesky_file_truncate (fs_backend (ne_fs e)) (fe_now (ne_fs e)) x ?last) s else Some s) = Some s1"
    "sys_inv lower cl s1" "same_others {i} s s1" "next_of s1 = next_of s" "sys_inodes s1 i = Some x" "same_file inode x"
    "sys_content s1 i = (if unat ?last > length (sys_content s i) then resized ?last (sys_content s i) else sys_content s i)"
  proof (cases "?last > i_size inode")
    case True
    then have "unat ?last > length (sys_content s i)" by (simp add: len word_less_nat_alt)
    moreover obtain s1 x where "on_inode i (\<lambda>x. bluesky_file_truncate (fs_backend (ne_fs e)) (fe_now (ne_fs e)) x ?last) s = Some s1"
      "sys_inv lower cl s1" "same_others {i} s s1" "next_of s1 = next_of s" "sys_inodes s1 i = Some x" "same_file inode x"
      "sys_content s1 i = resized ?last (sys_content s i)" by (rule truncate_sys [OF inv g reg, of "ne_fs e" ?last])
    ultimately show thesis using True by (intro that [of s1 x]) simp_all
  next
    case False
    then have "\<not> unat ?last > length (sys_content s i)" by (simp add: len word_less_nat_alt)
    with False show thesis using inv g by (intro that [of s inode]) (simp_all add: same_others_def)
  qed
  have reg1: "i_type x = BLUESKY_REGULAR" using same_fileD(1) [OF s1(6)] reg by simp
  show thesis
  proof (cases "length (wa3_data a) < ?n \<or> ?n \<ge> 2 ^ 31")
    case True
    then have "write_file e a i s = Some s1" using g s1(1) by (simp add: write_file_def)
    then show thesis by (rule that [OF _ s1(2-6)]) (use True s1(7) in \<open>simp add: written_def Let_def\<close>)
  next
    case False
    obtain s2 y where s2: "on_inode i (\<lambda>x. bluesky_file_write (fs_backend (ne_fs e)) (fe_now (ne_fs e)) x (wa3_offset a) (take ?n (wa3_data a))) s1 = Some s2"
      "sys_inv lower cl s2" "same_others {i} s1 s2" "next_of s2 = next_of s1" "sys_inodes s2 i = Some y" "same_file x y"
      "sys_content s2 i = overwritten (wa3_offset a) (take ?n (wa3_data a)) (sys_content s1 i)"
      by (rule write_sys [OF s1(2,5) reg1, of "ne_fs e" "wa3_offset a" "take ?n (wa3_data a)"])
    have "write_file e a i s = Some s2" using g s1(1) s2(1) False by (simp add: write_file_def)
    then show thesis
      by (rule that [OF _ s2(2) _ _ s2(5) same_file_trans [OF s1(6) s2(6)]])
        (use False s1(3,4,7) s2(3,4,7) in \<open>simp_all add: written_def Let_def same_others_def\<close>)
  qed
qed

text \<open>A new inode under a new name, as \<^verbatim>\<open>create\<close>, \<^verbatim>\<open>mkdir\<close> and \<^verbatim>\<open>symlink\<close> make it.\<close>

lemma make_entry_ok:
  assumes e: "fsenv_ok e" and inv: "sys_inv (fe_lower e) cl s" and g: "sys_inodes s d = Some dir" and dir: "i_type dir = BLUESKY_DIRECTORY" "i_dir dir = Some di"
    and fit: "dir_map di name = None \<Longrightarrow> name_fits di name \<and> cookie_left e di"
    and room: "next_of s + 1 \<noteq> 0" and x: "fresh_inode (fe_lower e) (next_of s) (made_inode e type f (next_of s))"
  obtains s' dir' di' inode where "make_entry e type f a d name s = Some (next_of s, s')" "sys_inv (fe_lower e) cl s'" "next_of s' = next_of s + 1"
    "same_others {d, next_of s} s s'" "sys_inodes s' d = Some dir'" "i_type dir' = BLUESKY_DIRECTORY" "i_dir dir' = Some di'"
    "dir_map di' = (if dir_map di name = None then (dir_map di)(name \<mapsto> next_of s) else dir_map di)"
    "sys_inodes s (next_of s) = None" "sys_inodes s' (next_of s) = Some inode" "i_type inode = i_type (made_inode e type f (next_of s))"
proof -
  let ?n = "next_of s" and ?x = "made_inode e type f (next_of s)"
  obtain s1 where s1: "make_inode e type f s = Some (?n, s1)" "sys_inv (fe_lower e) cl s1" "next_of s1 = ?n + 1" "sys_inodes s ?n = None"
    "sys_inodes s1 = (sys_inodes s)(?n \<mapsto> ?x)" "\<forall>j. sys_content s1 j = sys_content s j"
    by (rule make_inode_ok [OF inv room x])
  have ne: "d \<noteq> ?n" using g s1(4) by auto
  have g1: "sys_inodes s1 d = Some dir" using g ne s1(5) by simp
  obtain s2 di' dir' where s2: "insert_name e d name ?n s1 = Some (dir_map di name = None, s2)" "dir_step (fe_lower e) cl d dir s1 di' dir' s2"
    "dir_map di' = (if dir_map di name = None then (dir_map di)(name \<mapsto> ?n) else dir_map di)"
    by (rule insert_name_ok [OF e s1(2) g1 dir fit, where inum = ?n])
  note st = dir_stepD [OF s2(2)]
  have n2: "sys_inodes s2 ?n = Some ?x" using st(2) ne s1(5) by (simp add: same_others_def)
  obtain s3 y where s3: "(case a of None \<Rightarrow> Some s2 | Some a \<Rightarrow> set_attributes e ?n a s2) = Some s3" "sys_inv (fe_lower e) cl s3"
    "same_others {?n} s2 s3" "next_of s3 = next_of s2" "sys_inodes s3 ?n = Some y" "i_type y = i_type ?x"
  proof (cases a)
    case None
    then show thesis using st n2 by (intro that [of s2 ?x]) (simp_all add: same_others_def)
  next
    case (Some v)
    obtain s3 y where "set_attributes e ?n v s2 = Some s3" "sys_inv (fe_lower e) cl s3" "same_others {?n} s2 s3" "next_of s3 = next_of s2"
      "sys_inodes s3 ?n = Some y" "same_object ?x y" by (rule set_attributes_ok [OF st(1) n2, of e v])
    with Some show thesis by (intro that [of s3 y]) (simp_all add: same_object_def)
  qed
  have d3: "sys_inodes s3 d = Some dir'" using s3(3) st(4) ne by (simp add: same_others_def)
  obtain s4 where s4: "touch_inode_ctime e True d s3 = Some s4" "sys_inv (fe_lower e) cl s4" "same_others {d} s3 s4" "next_of s4 = next_of s3"
    "sys_inodes s4 d = Some (update_ctime_fields (fe_now e) True dir')" by (rule touch_ok [OF s3(2) d3, of e True])
  have n4: "sys_inodes s4 ?n = Some y" using s4(3) s3(5) ne by (simp add: same_others_def)
  obtain s5 where s5: "touch_inode_ctime e False ?n s4 = Some s5" "sys_inv (fe_lower e) cl s5" "same_others {?n} s4 s5" "next_of s5 = next_of s4"
    "sys_inodes s5 ?n = Some (update_ctime_fields (fe_now e) False y)" by (rule touch_ok [OF s4(2) n4, of e False])
  have d5: "sys_inodes s5 d = Some (update_ctime_fields (fe_now e) True dir')" using s5(3) s4(5) ne by (simp add: same_others_def)
  have "make_entry e type f a d name s = Some (?n, s5)"
    using s1(1) s2(1) s3(1) s4(1) s5(1) by (simp add: make_entry_def)
  moreover have "same_others {d, ?n} s s5" using s1(5,6) st(2) s3(3) s4(3) s5(3) by (simp add: same_others_def)
  ultimately show thesis
    using s1(3,4) st(3) s3(4,6) s4(4) s5(2,4,5) d5 s2(3) same_dirD(1) [OF st(5)] st(6) dir(1)
    by (intro that [of s5 "update_ctime_fields (fe_now e) True dir'" di' "update_ctime_fields (fe_now e) False y"]) (simp_all add: update_ctime_fields_def)
qed

lemma link_entry_ok:
  assumes e: "fsenv_ok e" and inv: "sys_inv (fe_lower e) cl s" and g: "sys_inodes s d = Some dir" "sys_inodes s i = Some inode" "i \<noteq> d"
    and dir: "i_type dir = BLUESKY_DIRECTORY" "i_dir dir = Some di" and fit: "dir_map di name = None \<Longrightarrow> name_fits di name \<and> cookie_left e di"
  obtains s' ok where "link_entry e i d name s = Some (ok, s')" "sys_inv (fe_lower e) cl s'" "same_others {d, i} s s'" "next_of s' = next_of s"
    "sys_inodes s' d \<noteq> None" "sys_inodes s' i \<noteq> None"
proof -
  obtain s1 di' dir' where s1: "insert_name e d name i s = Some (dir_map di name = None, s1)" "dir_step (fe_lower e) cl d dir s di' dir' s1"
    by (rule insert_name_ok [OF e inv g(1) dir fit, where inum = i])
  note st = dir_stepD [OF s1(2)]
  have i1: "sys_inodes s1 i = Some inode" using st(2) g(2,3) by (simp add: same_others_def)
  show thesis
  proof (cases "dir_map di name = None")
    case False
    then show thesis using s1(1) st i1
      by (intro that [of False s1]) (auto simp: link_entry_def same_others_def)
  next
    case True
    let ?f = "\<lambda>inode. inode\<lparr>i_nlink := i_nlink inode + 1\<rparr>"
    obtain s2 where s2: "set_inode i ?f s1 = Some s2" "sys_inv (fe_lower e) cl s2" "same_others {i} s1 s2" "next_of s2 = next_of s1" "sys_inodes s2 i = Some (?f inode)"
      by (rule set_fields_ok [OF st(1) i1, of ?f]) simp_all
    obtain s3 where s3: "touch_inode_ctime e False i s2 = Some s3" "sys_inv (fe_lower e) cl s3" "same_others {i} s2 s3" "next_of s3 = next_of s2"
      "sys_inodes s3 i = Some (update_ctime_fields (fe_now e) False (?f inode))" by (rule touch_ok [OF s2(2,5), of e False])
    have d3: "sys_inodes s3 d = Some dir'" using s2(3) s3(3) st(4) g(3) by (simp add: same_others_def)
    obtain s4 where s4: "touch_inode_ctime e True d s3 = Some s4" "sys_inv (fe_lower e) cl s4" "same_others {d} s3 s4" "next_of s4 = next_of s3"
      "sys_inodes s4 d = Some (update_ctime_fields (fe_now e) True dir')" by (rule touch_ok [OF s3(2) d3, of e True])
    have "sys_inodes s4 i \<noteq> None" using s4(3) s3(5) g(3) by (simp add: same_others_def)
    then show thesis using True s1(1) st(2,3) s2 s3 s4
      by (intro that [of True s4]) (simp_all add: link_entry_def same_others_def)
  qed
qed

end
