(* ===== verification/Spec2Isabelle.thy ===== *)
theory Spec2Isabelle
  imports BlueSky_Rangeset BlueSky_File BlueSky_Dir BlueSky_Util BlueSky_Serialize BlueSky_Record BlueSky_Crypto
    BlueSky_Thread BlueSky_Mount BlueSky_Rpc BlueSky_Cloudlog BlueSky_Inode BlueSky_Cloud BlueSky_Cache BlueSky_Nfs3 BlueSky_System BlueSky_Requests
begin

text \<open>
  Verification of BlueSky, a log-structured network file system backed by cloud storage.

  \<^bold>\<open>The program.\<close>  An NFS version 3 server (\<^verbatim>\<open>src/nfs3\<close>) reads RPC calls from TCP
  connections and runs a handler for each call on the file system (\<^verbatim>\<open>src/bluesky\<close>).  The
  file system keeps inodes in memory.  A change to a file or directory is written back as
  log items: first to a journal on the local disk by the log thread, later, encrypted and
  in segments, to a storage service.  Items in memory are reference-counted; their data may
  be dropped and is mapped again from the journal or from cached segments.  A flush daemon
  decides when to write back and what to drop.

  \<^bold>\<open>The theories\<close>, from the bottom up, with the code they model.

  \<^item> \<open>BlueSky_Prelude\<close>: machine words, byte layouts, buffers, and the contract of GLib's
    sorted sequences as the locale \<open>gsequence\<close>.
  \<^item> \<open>BlueSky_Types\<close> (\<^verbatim>\<open>bluesky.h\<close>, parts of \<^verbatim>\<open>inode.c\<close> and \<^verbatim>\<open>util.c\<close>): blocks,
    directory entries, inodes as records.
  \<^item> \<open>BlueSky_Crc32c\<close> (\<^verbatim>\<open>crc32c.c\<close>): the table-driven checksum is the bit-serial CRC;
    residue; detection of bursts.
  \<^item> \<open>BlueSky_Rangeset\<close>, \<open>BlueSky_Util\<close> (\<^verbatim>\<open>util.c\<close>): range sets, strings with reference
    counts on a heap, LRU lists with their tail pointer.
  \<^item> \<open>BlueSky_Backend\<close>: the interface between files and the log as the record \<open>backend\<close>
    and the locale \<open>block_backend\<close>.
  \<^item> \<open>BlueSky_File\<close> (\<^verbatim>\<open>file.c\<close>): a file refines a byte string, in \<open>block_backend\<close>.
  \<^item> \<open>BlueSky_Dir\<close> (\<^verbatim>\<open>dir.c\<close>): a directory refines a finite map, in the locale \<open>directory\<close>.
  \<^item> \<open>BlueSky_Items\<close> (\<^verbatim>\<open>cloudlog.c\<close>): items with exact reference counts, table and counters.
  \<^item> \<open>BlueSky_Format\<close>, \<open>BlueSky_Serialize\<close> (\<^verbatim>\<open>bluesky-private.h\<close>, \<^verbatim>\<open>serialize.c\<close>): headers
    of records, inodes and items to bytes and back.
  \<^item> \<open>BlueSky_Record\<close> (\<^verbatim>\<open>log.c\<close>): journal records, their validation, the scan after a crash.
  \<^item> \<open>BlueSky_Crypto\<close> (\<^verbatim>\<open>crypto.c\<close>, \<^verbatim>\<open>cloudlog.c\<close>): encryption of items and segments.
  \<^item> \<open>BlueSky_Imap\<close> (\<^verbatim>\<open>imap.c\<close>): the inode map refines a finite map.
  \<^item> \<open>BlueSky_Log\<close>, \<open>BlueSky_Journal\<close>, \<open>BlueSky_Thread\<close> (\<^verbatim>\<open>log.c\<close>): the state \<open>lfs\<close> of the
    log with its files, the log thread and its invariant \<open>log_inv\<close>: a committed item is on
    stable storage, the queue is emptied, items stay as they are.
  \<^item> \<open>BlueSky_Cloudlog\<close> (\<^verbatim>\<open>cloudlog.c\<close>, \<^verbatim>\<open>file.c\<close>, \<^verbatim>\<open>inode.c\<close>): the operations on the log
    that files use; they keep the laws of \<open>block_backend\<close>, so that the correctness of files
    becomes that of files on the log.
  \<^item> \<open>BlueSky_Inode\<close> (\<^verbatim>\<open>inode.c\<close>): the state \<open>fsys\<close> of the whole file system, the table of
    inodes, fetching and writeback of inodes.
  \<^item> \<open>BlueSky_Cloud\<close> (\<^verbatim>\<open>cloudlog.c\<close>): items are put into segments and uploaded.
  \<^item> \<open>BlueSky_Cache\<close> (\<^verbatim>\<open>cache.c\<close>): the flush daemon.
  \<^item> \<open>BlueSky_Xdr\<close>, \<open>BlueSky_Nfs3_Prot\<close> (\<^verbatim>\<open>common.c\<close>, \<^verbatim>\<open>nfs3_prot.h\<close>, \<^verbatim>\<open>nfs3_prot_xdr.c\<close>):
    every message type with its filter; each filter is a codec in the sense of the locale
    \<open>xdr_codec\<close>.
  \<^item> \<open>BlueSky_Rpc\<close>, \<open>BlueSky_Mount\<close> (\<^verbatim>\<open>rpc.c\<close>, \<^verbatim>\<open>mount.c\<close>): record marking, calls, dispatch
    and replies; the MOUNT protocol.
  \<^item> \<open>BlueSky_Nfs3\<close> (\<^verbatim>\<open>nfs3.c\<close>): every procedure of the server on \<open>fsys\<close>.

  \<^bold>\<open>Conventions.\<close>  Structures of the source are records with its field names; a pointer to a
  log item is an address \<open>ref\<close>, a pointer to an inode its number.  \<open>None\<close> is an abort, an access
  outside a buffer or through a null pointer, or a wait that never ends.  A failed
  \<^verbatim>\<open>g_return_if_fail\<close> is an early return.  Locks are modelled by what a thread waits for: a
  handler that locks an inode under way runs its fetch, one that waits for the log thread
  runs it.  The clock is read once in a request.  Time, random numbers, identifiers, the
  results of the storage service, the algorithms of libgcrypt, \<^verbatim>\<open>g_sequence_search\<close>,
  \<^verbatim>\<open>g_ascii_strdown\<close> and \<^verbatim>\<open>g_utf8_validate\<close> are arguments of the definitions.

  \<^bold>\<open>Fuel.\<close>  \<open>wait_finished\<close> gets the length of the queue of the log thread, every round of which
  takes at least one item from it.  Unreferencing (\<open>unref_all\<close>) and \<open>cloudlog_serialize\<close> get the
  number of items: links have no cycles.  The passes over segments and journal files get the
  length of the file, which every step shortens.  The loops of the flush daemon are partial
  functions or go over a list given at the start.

  \<^bold>\<open>Restrictions of the theorems.\<close>  The invariant of the log describes items that are in
  memory or in the journal; the path of an item to the cloud is defined and not verified
  beyond segments and their encryption.  The release of a string does not count the mappings
  of its cache file, which is an operation of its own.  An RPC server has one connection.
  Threads interleave at the boundaries of the operations defined here.

  \<^bold>\<open>Not modelled.\<close>  Loading a checkpoint and the replay of whole records at the start; the
  cleaner proxy and the cleaner, a separate program in the cloud; the store back ends, which
  call storage services over the network; start-up, options, sockets, main loops, profiling
  and printing; the key-value store, the simple store, the benchmarks and the trace player,
  which are programs of their own.
\<close>

end
